(* ===== verification/Rimau_Prelude.thy ===== *)
theory Rimau_Prelude
  imports Main "HOL-Library.Word" "HOL-Library.AList" "HOL-Library.Sublist" "HOL-Library.Multiset"
begin

text \<open>
  Shared vocabulary of the development: the machine types of the server (bytes, the widths of
  its integers, \<open>std::size_t\<close>), the exception result type, the C character classes, and the
  parts of \<open>std::string\<close>, \<open>std::istringstream\<close> and \<open>std::unordered_map\<close> that the sources use.
  The string helpers \<open>trim\<close>, \<open>lowercase\<close>, \<open>split_csv\<close> and the checked decimal and
  hexadecimal readers, which the sources repeat file by file, are here too, with the lemmas
  about them that the components share.
\<close>

unbundle bit_operations_syntax

named_theorems wire_simps \<open>equations about byte sequences and their cursors\<close>

section \<open>Machine types, exceptions\<close>

type_synonym u8 = "8 word"
type_synonym u16 = "16 word"
type_synonym u32 = "32 word"
type_synonym u64 = "64 word"
type_synonym bytes = "u8 list"

text \<open>An exception is its \<open>what()\<close> text: \<open>Inl\<close> is a throw, \<open>Inr\<close> a normal return.\<close>

type_synonym 'a result = "string + 'a"

definition r_bind :: "'a result \<Rightarrow> ('a \<Rightarrow> 'b result) \<Rightarrow> 'b result" where
  "r_bind r f = (case r of Inl e \<Rightarrow> Inl e | Inr x \<Rightarrow> f x)"

lemma r_bind_simps [simp]:
  "r_bind (Inl e) f = Inl e" "r_bind (Inr x) f = f x"
  by (simp_all add: r_bind_def)

lemma r_bind_Inr_iff: "r_bind r f = Inr y \<longleftrightarrow> (\<exists>x. r = Inr x \<and> f x = Inr y)"
  by (cases r) simp_all

lemma r_bind_Inl_iff: "r_bind r f = Inl e \<longleftrightarrow> r = Inl e \<or> (\<exists>x. r = Inr x \<and> f x = Inl e)"
  by (cases r) auto

text \<open>\<open>std::size_t\<close> is 64 bits wide; \<open>sz\<close> is its wrap-around, written at the places where a
  value read from the network can reach it.\<close>

definition size_max :: nat where
  "size_max = 2 ^ 64 - 1"

definition sz :: "nat \<Rightarrow> nat" where
  "sz n = n mod 2 ^ 64"

lemma sz_id [simp]: "n < 2 ^ 64 \<Longrightarrow> sz n = n"
  by (simp add: sz_def)

text \<open>A \<open>std::size_t\<close> against a \<open>std::uint32_t\<close>; the code equation compares without building the natural
  number of the word.\<close>

definition size_exceeds :: "nat \<Rightarrow> u32 \<Rightarrow> bool" where
  [simp]: "size_exceeds n m \<longleftrightarrow> n > unat m"

lemma size_exceeds_code [code]: "size_exceeds n m \<longleftrightarrow> int n > uint m"
  by (simp add: nat_int_comparison(2))

section \<open>Bytes and characters\<close>

abbreviation code :: "char \<Rightarrow> nat" where
  "code c \<equiv> of_char c"

definition byte_of_char :: "char \<Rightarrow> u8" where
  "byte_of_char c = of_nat (code c)"

definition char_of_byte :: "u8 \<Rightarrow> char" where
  "char_of_byte b = char_of (unat b)"

lemma code_less_256 [simp]: "code c < 256"
proof -
  have "(of_char (char_of (code c)) :: nat) < 256" by (simp only: of_char_of)
  then show ?thesis by simp
qed

lemma unat_byte_of_char [simp]: "unat (byte_of_char c) = code c"
  by (simp add: byte_of_char_def unat_of_nat)

lemma char_of_byte_of_char [simp]: "char_of_byte (byte_of_char c) = c"
  by (simp add: char_of_byte_def)

lemma unat_u8_less [simp]: "unat (b :: u8) < 256"
  using unsigned_less [of b, where ?'a = nat] by simp

lemma byte_of_char_of_byte [simp]: "byte_of_char (char_of_byte b) = b"
  by (simp add: char_of_byte_def byte_of_char_def of_char_of)

lemma drop_bit_zeroI:
  fixes v :: "'a::len word"
  assumes "unat v < 2 ^ n"
  shows "drop_bit n v = 0"
proof -
  have "unat (drop_bit n v) = unat v div 2 ^ n"
    by (subst unat_drop_bit_eq) (simp only: drop_bit_eq_div)
  with assms have "unat (drop_bit n v) = 0" by (simp only: div_less)
  then show ?thesis by (simp only: unat_eq_0)
qed

text \<open>The simplifier reads the bits of a word numeral off the integer numeral; these are the
  masks the sources use.\<close>

lemma bit_masks [simp]:
  "bit (3 :: int) n \<longleftrightarrow> n < 2" "bit (63 :: int) n \<longleftrightarrow> n < 6"
  "bit (127 :: int) n \<longleftrightarrow> n < 7" "bit (255 :: int) n \<longleftrightarrow> n < 8"
  "bit (64 :: int) n \<longleftrightarrow> n = 6" "bit (128 :: int) n \<longleftrightarrow> n = 7" "bit (192 :: int) n \<longleftrightarrow> n = 6 \<or> n = 7"
proof -
  have "(3 :: int) = mask 2" "(63 :: int) = mask 6" "(127 :: int) = mask 7" "(255 :: int) = mask 8"
    by (simp_all add: mask_eq_exp_minus_1)
  then show "bit (3 :: int) n \<longleftrightarrow> n < 2" "bit (63 :: int) n \<longleftrightarrow> n < 6"
    "bit (127 :: int) n \<longleftrightarrow> n < 7" "bit (255 :: int) n \<longleftrightarrow> n < 8"
    by (simp_all only: bit_mask_iff possible_bit_int simp_thms)
  have "(64 :: int) = 2 ^ 6" "(128 :: int) = 2 ^ 7" "(192 :: int) = 2 ^ 6 OR 2 ^ 7" by simp_all
  then show "bit (64 :: int) n \<longleftrightarrow> n = 6" "bit (128 :: int) n \<longleftrightarrow> n = 7"
    "bit (192 :: int) n \<longleftrightarrow> n = 6 \<or> n = 7"
    by (auto simp only: bit_exp_iff bit_or_iff possible_bit_int)
qed

definition bytes_to_string :: "bytes \<Rightarrow> string" where
  "bytes_to_string bs = map char_of_byte bs"

definition string_to_bytes :: "string \<Rightarrow> bytes" where
  "string_to_bytes s = map byte_of_char s"

lemma string_bytes_inverse [simp]:
  "string_to_bytes (bytes_to_string bs) = bs"
  "bytes_to_string (string_to_bytes s) = s"
  by (simp_all add: bytes_to_string_def string_to_bytes_def o_def)

lemma length_string_bytes [simp]:
  "length (bytes_to_string bs) = length bs" "length (string_to_bytes s) = length s"
  by (simp_all add: bytes_to_string_def string_to_bytes_def)

lemma string_bytes_append [simp]:
  "bytes_to_string (xs @ ys) = bytes_to_string xs @ bytes_to_string ys"
  "string_to_bytes (s @ t) = string_to_bytes s @ string_to_bytes t"
  "bytes_to_string [] = []" "string_to_bytes [] = []"
  by (simp_all add: bytes_to_string_def string_to_bytes_def)

lemma string_bytes_take_drop:
  "string_to_bytes (take n s) = take n (string_to_bytes s)"
  "string_to_bytes (drop n s) = drop n (string_to_bytes s)"
  by (simp_all add: string_to_bytes_def take_map drop_map)

section \<open>Character classes of the C locale\<close>

abbreviation CR :: char where "CR \<equiv> CHR 0x0D"
abbreviation LF :: char where "LF \<equiv> CHR 0x0A"
abbreviation TAB :: char where "TAB \<equiv> CHR 0x09"
abbreviation CRLF :: string where "CRLF \<equiv> [CR, LF]"

definition isspace :: "char \<Rightarrow> bool" where
  "isspace c \<longleftrightarrow> code c = 32 \<or> 9 \<le> code c \<and> code c \<le> 13"

definition isdigit :: "char \<Rightarrow> bool" where
  "isdigit c \<longleftrightarrow> 48 \<le> code c \<and> code c \<le> 57"

definition isupper :: "char \<Rightarrow> bool" where
  "isupper c \<longleftrightarrow> 65 \<le> code c \<and> code c \<le> 90"

definition isalpha :: "char \<Rightarrow> bool" where
  "isalpha c \<longleftrightarrow> isupper c \<or> 97 \<le> code c \<and> code c \<le> 122"

definition isalnum :: "char \<Rightarrow> bool" where
  "isalnum c \<longleftrightarrow> isalpha c \<or> isdigit c"

definition tolower :: "char \<Rightarrow> char" where
  "tolower c = (if isupper c then char_of (code c + 32) else c)"

lemma code_tolower: "code (tolower c) = (if isupper c then code c + 32 else code c)"
  by (simp add: tolower_def isupper_def of_char_of)

lemma not_isupper_tolower [simp]: "\<not> isupper (tolower c)"
  by (auto simp: isupper_def code_tolower)

lemma tolower_idem [simp]: "tolower (tolower c) = tolower c"
  by (simp add: tolower_def [of "tolower c"])

lemma tolower_eq_iff_not_upper: "tolower c = c \<longleftrightarrow> \<not> isupper c"
  by (metis not_isupper_tolower tolower_def)

section \<open>Strings\<close>

definition lowercase :: "string \<Rightarrow> string" where
  "lowercase s = map tolower s"

definition trim :: "string \<Rightarrow> string" where
  "trim s = rev (dropWhile isspace (rev (dropWhile isspace s)))"

lemma lowercase_idem [simp]: "lowercase (lowercase s) = lowercase s"
  by (simp add: lowercase_def)

lemma length_lowercase [simp]: "length (lowercase s) = length s"
  by (simp add: lowercase_def)

lemma lowercase_Nil_iff [simp]: "lowercase s = [] \<longleftrightarrow> s = []" "lowercase [] = []"
  by (simp_all add: lowercase_def)

lemma lowercase_no_upper: "\<not> list_ex isupper s \<Longrightarrow> lowercase s = s"
  by (induction s) (simp_all add: lowercase_def tolower_eq_iff_not_upper)

lemma trim_id:
  assumes "s = [] \<or> (\<not> isspace (hd s) \<and> \<not> isspace (last s))"
  shows "trim s = s"
proof (cases s rule: rev_cases)
  case Nil
  then show ?thesis by (simp add: trim_def)
next
  case (snoc t c)
  with assms have "dropWhile isspace s = s"
    by (cases t) simp_all
  with snoc assms show ?thesis by (simp add: trim_def)
qed

lemma set_trim: "set (trim s) \<subseteq> set s"
  unfolding trim_def by (metis set_dropWhileD set_rev subsetI)

text \<open>\<open>find\<close>: the first position of a substring; \<open>find_from\<close> starts at a position, and is
  \<open>None\<close> (npos) past the end.\<close>

fun find_sub :: "string \<Rightarrow> string \<Rightarrow> nat option" where
  "find_sub n [] = (if n = [] then Some 0 else None)"
| "find_sub n (c # s) = (if prefix n (c # s) then Some 0 else map_option Suc (find_sub n s))"

definition find_from :: "string \<Rightarrow> string \<Rightarrow> nat \<Rightarrow> nat option" where
  "find_from s n pos =
     (if pos \<le> length s then map_option (\<lambda>i. pos + i) (find_sub n (drop pos s)) else None)"

definition find_char :: "char \<Rightarrow> string \<Rightarrow> nat option" where
  "find_char c s = find_sub [c] s"

definition rfind_char :: "char \<Rightarrow> string \<Rightarrow> nat option" where
  "rfind_char c s = map_option (\<lambda>i. length s - 1 - i) (find_char c (rev s))"

definition contains :: "string \<Rightarrow> string \<Rightarrow> bool" where
  "contains s n \<longleftrightarrow> find_sub n s \<noteq> None"

text \<open>\<open>substr (pos, n)\<close> clamps its length; where the source can pass a position past the end
  the model writes the \<open>std::out_of_range\<close> out.\<close>

definition substr :: "'a list \<Rightarrow> nat \<Rightarrow> nat \<Rightarrow> 'a list" where
  "substr s pos n = take n (drop pos s)"

lemma find_sub_Some:
  "find_sub n s = Some i \<Longrightarrow> prefix n (drop i s) \<and> i + length n \<le> length s"
  by (induction n s arbitrary: i rule: find_sub.induct)
     (auto split: if_splits dest: prefix_length_le)

lemma find_sub_None: "find_sub n s = None \<Longrightarrow> i \<le> length s \<Longrightarrow> \<not> prefix n (drop i s)"
proof (induction n s arbitrary: i rule: find_sub.induct)
  case (1 n)
  then show ?case by (auto split: if_splits)
next
  case (2 n c s)
  then show ?case by (cases i) (auto split: if_splits)
qed

lemma find_sub_least: "find_sub n s = Some i \<Longrightarrow> j < i \<Longrightarrow> \<not> prefix n (drop j s)"
proof (induction n s arbitrary: i j rule: find_sub.induct)
  case (1 n)
  then show ?case by (auto split: if_splits)
next
  case (2 n c s)
  then show ?case by (cases j) (auto split: if_splits)
qed

lemma find_subI:
  assumes "i \<le> length s" and "prefix n (drop i s)" and "\<And>j. j < i \<Longrightarrow> \<not> prefix n (drop j s)"
  shows "find_sub n s = Some i"
proof (cases "find_sub n s")
  case None
  with assms(1,2) find_sub_None show ?thesis by blast
next
  case (Some k)
  with assms find_sub_Some [OF Some] find_sub_least [OF Some] have "k = i"
    by (meson linorder_neqE_nat)
  with Some show ?thesis by simp
qed

lemma contains_iff_sublist: "contains s n \<longleftrightarrow> sublist n s"
proof
  assume "contains s n"
  then obtain i where "find_sub n s = Some i" by (auto simp: contains_def)
  then have "prefix n (drop i s)" by (simp add: find_sub_Some)
  then show "sublist n s"
    by (meson prefix_imp_sublist sublist_drop sublist_order.order.trans)
next
  assume "sublist n s"
  then obtain ps ss where s: "s = ps @ n @ ss" by (auto simp: sublist_def)
  have "find_sub n s \<noteq> None"
  proof
    assume none: "find_sub n s = None"
    have "length ps \<le> length s" "prefix n (drop (length ps) s)" by (simp_all add: s)
    with find_sub_None [OF none] show False by blast
  qed
  then show "contains s n" by (simp add: contains_def)
qed

lemma find_char_Cons [simp]:
  "find_char c [] = None"
  "find_char c (x # s) = (if x = c then Some 0 else map_option Suc (find_char c s))"
  by (auto simp: find_char_def)

lemma find_char_Some:
  "find_char c s = Some i \<Longrightarrow> i < length s \<and> s ! i = c \<and> c \<notin> set (take i s)"
  by (induction s arbitrary: i) (auto split: if_splits)

lemma find_char_None_iff: "find_char c s = None \<longleftrightarrow> c \<notin> set s"
  by (induction s) auto

lemma find_char_append: "c \<notin> set s \<Longrightarrow> find_char c (s @ c # t) = Some (length s)"
  by (induction s) auto

text \<open>Reading a stream line by line: \<open>std::getline (in, item, delim)\<close> yields the text up to the
  delimiter and drops it; a stream that ends right after a delimiter yields no further item.\<close>

function getlines :: "char \<Rightarrow> string \<Rightarrow> string list" where
  "getlines d s =
     (if s = [] then []
      else takeWhile (\<lambda>c. c \<noteq> d) s #
             (case dropWhile (\<lambda>c. c \<noteq> d) s of [] \<Rightarrow> [] | _ # r \<Rightarrow> getlines d r))"
  by pat_completeness auto
termination
proof (relation "measure (\<lambda>(d, s). length s)")
  fix d s x r
  assume "dropWhile (\<lambda>c. c \<noteq> d) s = x # r"
  then have "length (x # r) \<le> length s" by (metis length_dropWhile_le)
  then show "((d, r), d, s) \<in> measure (\<lambda>(d, s). length s)" by simp
qed simp

declare getlines.simps [simp del]

lemma getlines_Nil [simp]: "getlines d [] = []"
  by (simp add: getlines.simps)

definition split_delimited :: "string \<Rightarrow> char \<Rightarrow> string list" where
  "split_delimited s d = filter (\<lambda>i. i \<noteq> []) (map trim (getlines d s))"

definition split_csv :: "string \<Rightarrow> string list" where
  "split_csv s = split_delimited s (CHR '','')"

definition starts_with :: "string \<Rightarrow> string \<Rightarrow> bool" where
  "starts_with s p \<longleftrightarrow> prefix p s"

definition ends_with :: "string \<Rightarrow> string \<Rightarrow> bool" where
  "ends_with s p \<longleftrightarrow> suffix p s"


section \<open>Numbers as text\<close>

definition digit_char :: "nat \<Rightarrow> char" where
  "digit_char d = char_of (if d < 10 then 48 + d else 87 + d)"

fun to_base :: "nat \<Rightarrow> nat \<Rightarrow> string" where
  "to_base b n =
     (if n < b \<or> b < 2 then [digit_char n] else to_base b (n div b) @ [digit_char (n mod b)])"

declare to_base.simps [simp del]

definition to_string :: "nat \<Rightarrow> string" where
  "to_string n = to_base 10 n"

definition to_hex :: "nat \<Rightarrow> string" where
  "to_hex n = to_base 16 n"

definition int_to_string :: "int \<Rightarrow> string" where
  "int_to_string i = (if i < 0 then CHR ''-'' # to_string (nat (- i)) else to_string (nat i))"

definition dec_value :: "char \<Rightarrow> nat option" where
  "dec_value c = (if isdigit c then Some (code c - 48) else None)"

definition hex_value :: "char \<Rightarrow> nat option" where
  "hex_value c =
     (if isdigit c then Some (code c - 48)
      else if 97 \<le> code c \<and> code c \<le> 102 then Some (10 + (code c - 97))
      else if 65 \<le> code c \<and> code c \<le> 70 then Some (10 + (code c - 65))
      else None)"

text \<open>The overflow-checked reader behind \<open>parse_decimal_size\<close> and \<open>parse_hex_size\<close>.\<close>

fun read_digits :: "(char \<Rightarrow> nat option) \<Rightarrow> nat \<Rightarrow> nat \<Rightarrow> string \<Rightarrow> nat option" where
  "read_digits dv b parsed [] = Some parsed"
| "read_digits dv b parsed (c # cs) =
     (case dv c of
        None \<Rightarrow> None
      | Some d \<Rightarrow>
          if parsed > (size_max - d) div b then None
          else read_digits dv b (parsed * b + d) cs)"

definition parse_decimal_size :: "string \<Rightarrow> nat option" where
  "parse_decimal_size v = (if v = [] then None else read_digits dec_value 10 0 v)"

definition parse_hex_size :: "string \<Rightarrow> nat option" where
  "parse_hex_size v = (if v = [] then None else read_digits hex_value 16 0 v)"

text \<open>The number a digit string denotes, without any bound.\<close>

fun digits_value :: "(char \<Rightarrow> nat option) \<Rightarrow> nat \<Rightarrow> nat \<Rightarrow> string \<Rightarrow> nat" where
  "digits_value dv b acc [] = acc"
| "digits_value dv b acc (c # cs) = digits_value dv b (acc * b + the (dv c)) cs"

lemma digits_value_ge: "0 < b \<Longrightarrow> acc \<le> digits_value dv b acc cs"
proof (induction cs arbitrary: acc)
  case (Cons c cs)
  have "acc \<le> acc * b + the (dv c)"
    using Cons.prems by (cases b) (simp_all add: trans_le_add1)
  also have "\<dots> \<le> digits_value dv b (acc * b + the (dv c)) cs"
    using Cons by blast
  finally show ?case by simp
qed simp

lemma size_guard_iff:
  assumes "0 < b" "d \<le> size_max"
  shows "acc \<le> (size_max - d) div b \<longleftrightarrow> acc * b + d < 2 ^ 64"
proof -
  have "acc \<le> (size_max - d) div b \<longleftrightarrow> acc * b \<le> size_max - d"
    using assms(1) by (simp add: less_eq_div_iff_mult_less_eq)
  also have "\<dots> \<longleftrightarrow> acc * b + d < 2 ^ 64"
    using assms(2) by (auto simp: size_max_def)
  finally show ?thesis .
qed

lemma read_digits_eq:
  assumes b: "0 < b" and small: "\<And>c d. dv c = Some d \<Longrightarrow> d < b" and le: "b \<le> 2 ^ 64"
    and acc: "acc < 2 ^ 64"
  shows "read_digits dv b acc cs =
    (if list_all (\<lambda>c. dv c \<noteq> None) cs \<and> digits_value dv b acc cs < 2 ^ 64
     then Some (digits_value dv b acc cs) else None)"
  using acc
proof (induction cs arbitrary: acc)
  case (Cons c cs)
  show ?case
  proof (cases "dv c")
    case (Some d)
    then have "d \<le> size_max" using small [of c d] le by (auto simp: size_max_def)
    note guard = size_guard_iff [OF b this, of acc]
    show ?thesis
    proof (cases "acc * b + d < 2 ^ 64")
      case True
      with Some guard Cons.IH [OF True] show ?thesis by simp
    next
      case False
      moreover have "acc * b + d \<le> digits_value dv b (acc * b + d) cs"
        by (rule digits_value_ge [OF b])
      ultimately show ?thesis using Some guard by simp
    qed
  qed simp
qed simp

lemma dec_value_less: "dec_value c = Some d \<Longrightarrow> d < 10"
  by (auto simp: dec_value_def isdigit_def split: if_splits)

lemma hex_value_less: "hex_value c = Some d \<Longrightarrow> d < 16"
  by (auto simp: hex_value_def isdigit_def split: if_splits)

lemma digits_value_append:
  "digits_value dv b acc (xs @ ys) = digits_value dv b (digits_value dv b acc xs) ys"
  by (induction xs arbitrary: acc) simp_all

lemma to_base_digits:
  assumes dv: "\<And>d. d < b \<Longrightarrow> dv (digit_char d) = Some d" and b: "2 \<le> b"
  shows "list_all (\<lambda>c. dv c \<noteq> None) (to_base b n) \<and> digits_value dv b 0 (to_base b n) = n"
proof (induction n rule: less_induct)
  case (less n)
  show ?case
  proof (cases "n < b")
    case True
    with dv show ?thesis by (simp add: to_base.simps [of b n])
  next
    case False
    then have "n div b < n" using b by (simp add: div_less_dividend)
    with less have IH: "list_all (\<lambda>c. dv c \<noteq> None) (to_base b (n div b))"
      "digits_value dv b 0 (to_base b (n div b)) = n div b" by blast+
    have "dv (digit_char (n mod b)) = Some (n mod b)" using dv b by simp
    with False b IH show ?thesis
      by (simp add: to_base.simps [of b n] digits_value_append mult.commute)
  qed
qed

lemma hex_value_digit_char: "d < 16 \<Longrightarrow> hex_value (digit_char d) = Some d"
  by (auto simp: hex_value_def digit_char_def isdigit_def)

lemma dec_value_digit_char: "d < 10 \<Longrightarrow> dec_value (digit_char d) = Some d"
  by (auto simp: dec_value_def digit_char_def isdigit_def)

lemma to_base_not_Nil [simp]: "to_base b n \<noteq> []"
  by (simp add: to_base.simps [of b n])

text \<open>Printing and reading agree on every \<open>std::size_t\<close>.\<close>

lemma parse_hex_size_to_hex: "n < 2 ^ 64 \<Longrightarrow> parse_hex_size (to_hex n) = Some n"
  using to_base_digits [of 16 hex_value n, OF hex_value_digit_char]
    read_digits_eq [of 16 hex_value 0 "to_hex n", OF _ hex_value_less]
  by (simp add: parse_hex_size_def to_hex_def)

lemma parse_decimal_size_to_string: "n < 2 ^ 64 \<Longrightarrow> parse_decimal_size (to_string n) = Some n"
  using to_base_digits [of 10 dec_value n, OF dec_value_digit_char]
    read_digits_eq [of 10 dec_value 0 "to_string n", OF _ dec_value_less]
  by (simp add: parse_decimal_size_def to_string_def)

lemma parse_decimal_size_eq:
  "parse_decimal_size v =
    (if v \<noteq> [] \<and> list_all isdigit v \<and> digits_value dec_value 10 0 v < 2 ^ 64
     then Some (digits_value dec_value 10 0 v) else None)"
proof -
  have "(\<lambda>c. dec_value c \<noteq> None) = isdigit" by (auto simp: dec_value_def)
  with read_digits_eq [of 10 dec_value 0 v, OF _ dec_value_less] show ?thesis
    by (simp add: parse_decimal_size_def)
qed

lemma parse_hex_size_eq:
  "parse_hex_size v =
    (if v \<noteq> [] \<and> list_all (\<lambda>c. hex_value c \<noteq> None) v \<and> digits_value hex_value 16 0 v < 2 ^ 64
     then Some (digits_value hex_value 16 0 v) else None)"
  using read_digits_eq [of 16 hex_value 0 v, OF _ hex_value_less]
  by (simp add: parse_hex_size_def)

lemma parse_hex_size_bound: "parse_hex_size v = Some n \<Longrightarrow> n < 2 ^ 64"
  by (simp add: parse_hex_size_eq split: if_splits)

lemma parse_decimal_size_bound: "parse_decimal_size v = Some n \<Longrightarrow> n < 2 ^ 64"
  by (simp add: parse_decimal_size_eq split: if_splits)

section \<open>Header maps\<close>

text \<open>
  \<open>Headers\<close> is a \<open>std::unordered_map<string, string>\<close>, kept as an association list with
  distinct keys. What iterating over it yields is the container's choice, so every function that
  iterates takes the order as a parameter \<open>it\<close>; \<open>iterates it\<close> is what the container promises:
  each entry is visited exactly once.
\<close>

type_synonym headers = "(string \<times> string) list"

definition iterates :: "(headers \<Rightarrow> headers) \<Rightarrow> bool" where
  "iterates it \<longleftrightarrow> (\<forall>h. mset (it h) = mset h)"

lemma iterates_id [simp]: "iterates (\<lambda>h. h)" "iterates rev"
  by (simp_all add: iterates_def)

lemma iterates_set: "iterates it \<Longrightarrow> set (it h) = set h"
  unfolding iterates_def by (metis set_mset_mset)

lemma iterates_distinct: "iterates it \<Longrightarrow> distinct (map fst (it h)) = distinct (map fst h)"
  unfolding iterates_def by (metis mset_map mset_eq_imp_distinct_iff)

end
