(* ===== verification/Rimau_Codec.thy ===== *)
theory Rimau_Codec
  imports Rimau_Prelude
begin

text \<open>
  The contract between a frame codec and the loop that reads frames off a connection buffer.
  A codec is a serialiser and a parser of one frame; the locale \<open>frame_codec\<close> states what the
  readers rely on, and its lemmas give what they get: a sequence of serialised frames is read
  back as that sequence, the encoding is prefix free, and how the network cuts the byte stream
  into segments does not matter. \<open>fits\<close> says that a frame is one the program can hold in
  memory (a vector's size is a \<open>std::size_t\<close>). The HTTP/2 and the HTTP/3 codec are the
  interpretations.
\<close>

datatype 'f outcome = Parsed 'f nat | NeedMore string | Malformed string

text \<open>Parse frames from the front of a buffer until one is missing or malformed; the rest of
  the buffer is returned too.\<close>

function parse_all :: "(string \<Rightarrow> 'f outcome) \<Rightarrow> string \<Rightarrow> 'f list \<times> string" where
  "parse_all dec s =
     (case dec s of
        Parsed f n \<Rightarrow>
          (if 0 < n \<and> n \<le> length s
           then (let r = parse_all dec (drop n s) in (f # fst r, snd r))
           else ([], s))
      | _ \<Rightarrow> ([], s))"
  by pat_completeness auto
termination
  by (relation "measure (\<lambda>(dec, s). length s)") auto

declare parse_all.simps [simp del]

text \<open>Serialise a list of frames, stopping at the first exception.\<close>

fun enc_all :: "('f \<Rightarrow> bytes result) \<Rightarrow> 'f list \<Rightarrow> bytes result" where
  "enc_all enc [] = Inr []"
| "enc_all enc (f # fs) = r_bind (enc f) (\<lambda>bs. r_bind (enc_all enc fs) (\<lambda>cs. Inr (bs @ cs)))"

locale frame_codec =
  fixes enc :: "'f \<Rightarrow> bytes result"
    and dec :: "string \<Rightarrow> 'f outcome"
    and fits :: "'f \<Rightarrow> bool"
  assumes dec_enc: "fits f \<Longrightarrow> enc f = Inr bs \<Longrightarrow> dec (bytes_to_string bs @ rest) = Parsed f (length bs)"
    and enc_not_Nil: "enc f = Inr bs \<Longrightarrow> bs \<noteq> []"
    and dec_stable: "dec s = Parsed f n \<Longrightarrow> dec (s @ t) = Parsed f n"
    and dec_bound: "dec s = Parsed f n \<Longrightarrow> 0 < n \<and> n \<le> length s"
begin

lemma enc_inj: "fits f \<Longrightarrow> fits g \<Longrightarrow> enc f = Inr bs \<Longrightarrow> enc g = Inr bs \<Longrightarrow> f = g"
  using dec_enc [of f bs "[]"] dec_enc [of g bs "[]"] by simp

lemma enc_prefix_free:
  assumes "fits f" "fits g" and "enc f = Inr bs" and "enc g = Inr (bs @ cs)"
  shows "f = g \<and> cs = []"
  using dec_enc [OF assms(1,3), of "bytes_to_string cs"] dec_enc [OF assms(2,4), of "[]"] by simp

lemma parse_all_Parsed:
  "dec s = Parsed f n \<Longrightarrow>
    parse_all dec s = (f # fst (parse_all dec (drop n s)), snd (parse_all dec (drop n s)))"
  using dec_bound [of s f n] by (simp add: parse_all.simps [of dec s] Let_def)

lemma parse_all_enc_all:
  "list_all fits fs \<Longrightarrow> enc_all enc fs = Inr bs \<Longrightarrow>
    parse_all dec (bytes_to_string bs @ rest) =
      (fs @ fst (parse_all dec rest), snd (parse_all dec rest))"
proof (induction fs arbitrary: bs)
  case (Cons f fs)
  then obtain b c where b: "enc f = Inr b" and c: "enc_all enc fs = Inr c" and bs: "bs = b @ c"
    by (auto simp: r_bind_Inr_iff)
  have "dec (bytes_to_string bs @ rest) = Parsed f (length b)"
    using dec_enc [OF _ b, of "bytes_to_string c @ rest"] Cons.prems(1) by (simp add: bs)
  from parse_all_Parsed [OF this] Cons.IH [OF _ c] Cons.prems(1) show ?case by (simp add: bs)
qed simp

lemma parse_all_segments:
  "parse_all dec (s @ t) =
    (fst (parse_all dec s) @ fst (parse_all dec (snd (parse_all dec s) @ t)),
     snd (parse_all dec (snd (parse_all dec s) @ t)))"
proof (induction s rule: length_induct)
  case (1 s)
  show ?case
  proof (cases "dec s")
    case (Parsed f n)
    have n: "0 < n" "n \<le> length s" using dec_bound [OF Parsed] by auto
    with "1" have IH: "parse_all dec (drop n s @ t) =
        (fst (parse_all dec (drop n s)) @ fst (parse_all dec (snd (parse_all dec (drop n s)) @ t)),
         snd (parse_all dec (snd (parse_all dec (drop n s)) @ t)))"
      by simp
    from parse_all_Parsed [OF Parsed] parse_all_Parsed [OF dec_stable [OF Parsed, of t]] n IH
    show ?thesis by simp
  qed (simp_all add: parse_all.simps [of dec s])
qed

end

end
