(* ===== verification/Http2_Frame.thy ===== *)
theory Http2_Frame
  imports Rimau_Codec
begin

text \<open>
  \<open>src/src/protocol/http2_frame.cpp\<close>: the HTTP/2 frame layer. The 9-byte frame header, the
  per-type validation, \<open>serialize_frame\<close> and \<open>parse_frame\<close>, and the SETTINGS payload.
  Shown: the byte primitives are inverse to each other, a serialised frame parses back to itself
  whatever follows it in the buffer, a parsed frame serialises back to the bytes it was read from
  up to the reserved bit of the stream id, more input never changes a parsed frame, and the
  parser never looks past the frame's declared length.
\<close>

section \<open>Data\<close>

definition client_connection_preface :: string where
  "client_connection_preface =
     ''PRI * HTTP/2.0'' @ CRLF @ CRLF @ ''SM'' @ CRLF @ CRLF"

definition default_max_frame_size :: u32 where
  "default_max_frame_size = 16 * 1024"

definition max_allowed_frame_size :: u32 where
  "max_allowed_frame_size = 16 * 1024 * 1024 - 1"

datatype FrameType =
  FT_data | FT_headers | FT_priority | FT_rst_stream | FT_settings
| FT_push_promise | FT_ping | FT_goaway | FT_window_update | FT_continuation

text \<open>The underlying values of the enumeration, and the cast back: a byte with no enumerator
  selects no case of a \<open>switch\<close>.\<close>

fun frame_type_value :: "FrameType \<Rightarrow> u8" where
  "frame_type_value FT_data = 0"
| "frame_type_value FT_headers = 1"
| "frame_type_value FT_priority = 2"
| "frame_type_value FT_rst_stream = 3"
| "frame_type_value FT_settings = 4"
| "frame_type_value FT_push_promise = 5"
| "frame_type_value FT_ping = 6"
| "frame_type_value FT_goaway = 7"
| "frame_type_value FT_window_update = 8"
| "frame_type_value FT_continuation = 9"

definition as_frame_type :: "u8 \<Rightarrow> FrameType option" where
  "as_frame_type b =
     (if b = 0 then Some FT_data else if b = 1 then Some FT_headers
      else if b = 2 then Some FT_priority else if b = 3 then Some FT_rst_stream
      else if b = 4 then Some FT_settings else if b = 5 then Some FT_push_promise
      else if b = 6 then Some FT_ping else if b = 7 then Some FT_goaway
      else if b = 8 then Some FT_window_update else if b = 9 then Some FT_continuation
      else None)"

lemma as_frame_type_value [simp]: "as_frame_type (frame_type_value t) = Some t"
  by (cases t) (simp_all add: as_frame_type_def)

lemma as_frame_type_SomeD: "as_frame_type b = Some t \<Longrightarrow> b = frame_type_value t"
  by (auto simp: as_frame_type_def split: if_splits)

record frame =
  fr_type :: u8
  fr_flags :: u8
  fr_stream_id :: u32
  fr_payload :: bytes

definition empty_frame :: frame where
  "empty_frame = \<lparr>fr_type = 0, fr_flags = 0, fr_stream_id = 0, fr_payload = []\<rparr>"

record frame_parse_result =
  fp_ok :: bool
  fp_incomplete :: bool
  fp_consumed :: nat
  fp_frame :: frame
  fp_error :: string

definition empty_parse_result :: frame_parse_result where
  "empty_parse_result =
     \<lparr>fp_ok = False, fp_incomplete = False, fp_consumed = 0, fp_frame = empty_frame, fp_error = []\<rparr>"

text \<open>\<open>SettingIdentifier\<close> values arrive by a cast from the wire, so the field is the 16-bit value.\<close>

record setting =
  st_identifier :: u16
  st_value :: u32

definition header_table_size :: u16 where
  "header_table_size = 1"

section \<open>Byte primitives\<close>

definition read_u24 :: "string \<Rightarrow> u32" where
  "read_u24 s = push_bit 16 (ucast (byte_of_char (s ! 0))) OR
     push_bit 8 (ucast (byte_of_char (s ! 1))) OR ucast (byte_of_char (s ! 2))"

definition read_u31 :: "string \<Rightarrow> u32" where
  "read_u31 s = push_bit 24 (ucast (byte_of_char (s ! 0)) AND 0x7f) OR
     push_bit 16 (ucast (byte_of_char (s ! 1))) OR
     push_bit 8 (ucast (byte_of_char (s ! 2))) OR ucast (byte_of_char (s ! 3))"

definition read_u32 :: "bytes \<Rightarrow> nat \<Rightarrow> u32" where
  "read_u32 bs offset = push_bit 24 (ucast (bs ! offset)) OR
     push_bit 16 (ucast (bs ! (offset + 1))) OR
     push_bit 8 (ucast (bs ! (offset + 2))) OR ucast (bs ! (offset + 3))"

definition write_u24 :: "u32 \<Rightarrow> bytes" where
  "write_u24 v = [ucast (drop_bit 16 v AND 0xff), ucast (drop_bit 8 v AND 0xff), ucast (v AND 0xff)]"

definition write_u32 :: "u32 \<Rightarrow> bytes" where
  "write_u32 v = [ucast (drop_bit 24 v AND 0xff), ucast (drop_bit 16 v AND 0xff),
     ucast (drop_bit 8 v AND 0xff), ucast (v AND 0xff)]"

lemma length_write [simp]: "length (write_u24 v) = 3" "length (write_u32 v) = 4"
  by (simp_all add: write_u24_def write_u32_def)

lemma ucast_byte_and [simp]: "(ucast (x AND 0xff :: u32) :: u8) = ucast x"
  by (rule bit_word_eqI) (auto simp: bit_simps)

definition join_bytes :: "u8 \<Rightarrow> u8 \<Rightarrow> u8 \<Rightarrow> u8 \<Rightarrow> u32" where
  "join_bytes a b c d =
     push_bit 24 (ucast a) OR push_bit 16 (ucast b) OR push_bit 8 (ucast c) OR ucast d"

lemma bit_join_bytes:
  "bit (join_bytes a b c d) n \<longleftrightarrow>
    (if n < 8 then bit d n else if n < 16 then bit c (n - 8)
     else if n < 24 then bit b (n - 16) else n < 32 \<and> bit a (n - 24))"
  by (auto simp: join_bytes_def bit_simps dest: bit_imp_le_length)

lemma join_bytes_split:
  "join_bytes (ucast (drop_bit 24 v)) (ucast (drop_bit 16 v)) (ucast (drop_bit 8 v)) (ucast v) = v"
  by (rule bit_word_eqI) (auto simp: bit_join_bytes bit_simps)

lemma split_join_bytes:
  "ucast (drop_bit 24 (join_bytes a b c d)) = a" "ucast (drop_bit 16 (join_bytes a b c d)) = b"
  "ucast (drop_bit 8 (join_bytes a b c d)) = c" "ucast (join_bytes a b c d) = d"
  by (rule bit_word_eqI; simp add: bit_join_bytes bit_simps)+

lemma read_u32_join:
  "read_u32 bs i = join_bytes (bs ! i) (bs ! (i + 1)) (bs ! (i + 2)) (bs ! (i + 3))"
  by (simp add: read_u32_def join_bytes_def)

lemma read_u32_write_u32 [simp]: "read_u32 (write_u32 v @ rest) 0 = v"
  by (simp add: read_u32_join write_u32_def join_bytes_split)

lemma write_u32_read_u32: "write_u32 (join_bytes a b c d) = [a, b, c, d]"
  by (simp add: write_u32_def split_join_bytes)

lemma read_u24_join:
  "read_u24 s = join_bytes 0 (byte_of_char (s ! 0)) (byte_of_char (s ! 1)) (byte_of_char (s ! 2))"
  by (simp add: read_u24_def join_bytes_def)

lemma read_u31_join:
  "read_u31 s = join_bytes (byte_of_char (s ! 0) AND 0x7f) (byte_of_char (s ! 1))
     (byte_of_char (s ! 2)) (byte_of_char (s ! 3))"
proof -
  have "(ucast (b :: u8) :: u32) AND 0x7f = ucast (b AND 0x7f)" for b
    by (rule bit_word_eqI) (auto simp: bit_simps)
  then show ?thesis by (simp add: read_u31_def join_bytes_def)
qed

section \<open>Validation, serialisation, parsing\<close>

definition validate_frame :: "frame \<Rightarrow> u32 \<Rightarrow> string" where
  "validate_frame f max_frame_size =
     (if max_frame_size > max_allowed_frame_size then ''max_frame_size exceeds HTTP/2 maximum''
      else if size_exceeds (length (fr_payload f)) max_frame_size
      then ''HTTP/2 frame payload exceeds configured maximum frame size''
      else if as_frame_type (fr_type f) \<in> Some ` {FT_data, FT_headers, FT_priority, FT_rst_stream,
                FT_push_promise, FT_continuation} \<and> fr_stream_id f = 0
      then ''HTTP/2 stream frame must use a non-zero stream id''
      else if as_frame_type (fr_type f) \<in> Some ` {FT_settings, FT_ping, FT_goaway} \<and> fr_stream_id f \<noteq> 0
      then ''HTTP/2 connection frame must use stream id 0''
      else if as_frame_type (fr_type f) = Some FT_settings
      then (if fr_flags f AND 1 \<noteq> 0 \<and> fr_payload f \<noteq> []
            then ''HTTP/2 SETTINGS ack frame must not contain a payload''
            else if length (fr_payload f) mod 6 \<noteq> 0
            then ''HTTP/2 SETTINGS payload length must be a multiple of 6'' else [])
      else if as_frame_type (fr_type f) = Some FT_ping
      then (if length (fr_payload f) \<noteq> 8 then ''HTTP/2 PING payload length must be 8'' else [])
      else if as_frame_type (fr_type f) = Some FT_rst_stream
      then (if length (fr_payload f) \<noteq> 4 then ''HTTP/2 RST_STREAM payload length must be 4'' else [])
      else if as_frame_type (fr_type f) = Some FT_goaway
      then (if length (fr_payload f) < 8
            then ''HTTP/2 GOAWAY payload length must be at least 8'' else [])
      else if as_frame_type (fr_type f) = Some FT_window_update
      then (if length (fr_payload f) \<noteq> 4 then ''HTTP/2 WINDOW_UPDATE payload length must be 4''
            else if read_u32 (fr_payload f) 0 AND 0x7fffffff = 0
            then ''HTTP/2 WINDOW_UPDATE increment must be non-zero'' else [])
      else [])"

definition has_client_connection_preface :: "string \<Rightarrow> bool" where
  "has_client_connection_preface s \<longleftrightarrow>
     length s \<ge> length client_connection_preface \<and>
     substr s 0 (length client_connection_preface) = client_connection_preface"

definition serialize_frame :: "frame \<Rightarrow> u32 \<Rightarrow> bytes result" where
  "serialize_frame f max_frame_size =
     (if fr_stream_id f > 0x7fffffff then Inl ''HTTP/2 stream id exceeds 31 bits''
      else if validate_frame f max_frame_size \<noteq> [] then Inl (validate_frame f max_frame_size)
      else Inr (write_u24 (of_nat (length (fr_payload f))) @ [fr_type f, fr_flags f] @
             write_u32 (fr_stream_id f AND 0x7fffffff) @ fr_payload f))"

definition parse_frame :: "string \<Rightarrow> u32 \<Rightarrow> frame_parse_result" where
  "parse_frame s max_frame_size =
     (if length s < 9
      then empty_parse_result\<lparr>fp_incomplete := True, fp_error := ''incomplete HTTP/2 frame header''\<rparr>
      else if max_frame_size > max_allowed_frame_size
      then empty_parse_result\<lparr>fp_error := ''max_frame_size exceeds HTTP/2 maximum''\<rparr>
      else
        let len = read_u24 (substr s 0 3) in
        if len > max_frame_size
        then empty_parse_result\<lparr>fp_error :=
               ''HTTP/2 frame payload exceeds configured maximum frame size''\<rparr>
        else if length s < 9 + unat len
        then empty_parse_result\<lparr>fp_incomplete := True,
               fp_error := ''incomplete HTTP/2 frame payload''\<rparr>
        else
          let f = \<lparr>fr_type = byte_of_char (s ! 3), fr_flags = byte_of_char (s ! 4),
                   fr_stream_id = read_u31 (substr s 5 4),
                   fr_payload = map (\<lambda>i. byte_of_char (s ! (9 + i))) [0..<unat len]\<rparr>;
              r = empty_parse_result\<lparr>fp_frame := f, fp_consumed := 9 + unat len\<rparr>
          in if validate_frame f max_frame_size \<noteq> []
             then r\<lparr>fp_error := validate_frame f max_frame_size\<rparr>
             else r\<lparr>fp_ok := True\<rparr>)"

definition serialize_settings_payload :: "setting list \<Rightarrow> bytes" where
  "serialize_settings_payload settings =
     concat (map (\<lambda>st. [ucast (drop_bit 8 (st_identifier st) AND 0xff),
                         ucast (st_identifier st AND 0xff)] @ write_u32 (st_value st)) settings)"

text \<open>The loop over six-byte entries; \<open>parse_settings_payload\<close> enters it only when the length is
  a multiple of six.\<close>

fun settings_entries :: "bytes \<Rightarrow> setting list" where
  "settings_entries (a # b # c # d # e # f # rest) =
     \<lparr>st_identifier = push_bit 8 (ucast a) OR ucast b, st_value = read_u32 [c, d, e, f] 0\<rparr>
       # settings_entries rest"
| "settings_entries _ = []"

definition parse_settings_payload :: "bytes \<Rightarrow> (setting list) result" where
  "parse_settings_payload payload =
     (if length payload mod 6 \<noteq> 0
      then Inl ''HTTP/2 SETTINGS payload length must be a multiple of 6''
      else Inr (settings_entries payload))"

section \<open>The codec laws\<close>

lemma unat_max_allowed: "unat max_allowed_frame_size = 2 ^ 24 - 1"
  by (simp add: max_allowed_frame_size_def)

lemma validate_frame_size:
  "validate_frame f m = [] \<Longrightarrow> length (fr_payload f) \<le> unat m \<and> unat m < 2 ^ 24"
  using unat_max_allowed
  by (auto simp: validate_frame_def word_less_nat_alt split: if_splits)

lemma read_u24_write_u24:
  assumes "n < 2 ^ 24"
  shows "read_u24 (bytes_to_string (write_u24 (of_nat n)) @ rest) = of_nat n"
proof -
  define v :: u32 where "v = of_nat n"
  have "drop_bit 24 v = 0"
    using assms by (intro drop_bit_zeroI) (simp add: v_def unat_of_nat)
  with join_bytes_split [of v] show ?thesis
    by (simp add: read_u24_join write_u24_def bytes_to_string_def v_def [symmetric])
qed

lemma and_0x7f_id:
  assumes "v \<le> (0x7fffffff :: u32)"
  shows "(ucast (drop_bit 24 v) :: u8) AND 0x7f = ucast (drop_bit 24 v)"
proof -
  have "drop_bit 31 v = 0"
    using assms by (intro drop_bit_zeroI) (simp add: word_le_nat_alt)
  then have "\<not> bit v (31 + n)" for n by (metis bit_0_eq bit_drop_bit_eq comp_apply bot_apply bot_bool_def)
  from this [of 0] show ?thesis
    by (intro bit_word_eqI) (auto simp: bit_simps numeral_eq_Suc less_Suc_eq)
qed

lemma read_u31_write_u32:
  assumes "v \<le> 0x7fffffff"
  shows "read_u31 (bytes_to_string (write_u32 v) @ rest) = v"
  using join_bytes_split [of v] and_0x7f_id [OF assms]
  by (simp add: read_u31_join write_u32_def bytes_to_string_def)

lemma and_0x7fffffff_id: "v \<le> 0x7fffffff \<Longrightarrow> v AND 0x7fffffff = (v :: u32)"
proof -
  assume "v \<le> 0x7fffffff"
  then have "unat v < 2 ^ 31" by (simp add: word_le_nat_alt)
  then have "take_bit 31 v = v"
    by (simp only: take_bit_eq_self_iff_drop_bit_eq_0 drop_bit_zeroI)
  then show ?thesis by (simp add: take_bit_eq_mask mask_eq_exp_minus_1)
qed

text \<open>The fixed layout of a frame's bytes.\<close>

lemma frame_layout:
  fixes rest :: string
  assumes "length a = 3" and "length b = 4"
    and s: "s = bytes_to_string (a @ [t, fl] @ b @ p) @ rest"
  shows "substr s 0 3 = bytes_to_string a" "substr s 5 4 = bytes_to_string b"
    "byte_of_char (s ! 3) = t" "byte_of_char (s ! 4) = fl"
    "map (\<lambda>i. byte_of_char (s ! (9 + i))) [0..<length p] = p"
    "length s = 9 + length p + length rest"
proof -
  obtain a0 a1 a2 where a: "a = [a0, a1, a2]"
    using assms(1) by (auto simp: length_Suc_conv eval_nat_numeral)
  obtain b0 b1 b2 b3 where b: "b = [b0, b1, b2, b3]"
    using assms(2) by (auto simp: length_Suc_conv eval_nat_numeral)
  show "substr s 0 3 = bytes_to_string a" "substr s 5 4 = bytes_to_string b"
    "byte_of_char (s ! 3) = t" "byte_of_char (s ! 4) = fl"
    "length s = 9 + length p + length rest"
    by (simp_all add: s a b substr_def bytes_to_string_def)
  show "map (\<lambda>i. byte_of_char (s ! (9 + i))) [0..<length p] = p"
    by (rule nth_equalityI) (simp_all add: s a b bytes_to_string_def nth_append)
qed

lemma parse_frame_serialize:
  assumes ser: "serialize_frame f m = Inr bs"
  shows "parse_frame (bytes_to_string bs @ rest) m =
    \<lparr>fp_ok = True, fp_incomplete = False, fp_consumed = length bs, fp_frame = f, fp_error = []\<rparr>"
proof -
  let ?n = "length (fr_payload f)"
  have id: "fr_stream_id f \<le> 0x7fffffff" and v: "validate_frame f m = []"
    and bs: "bs = write_u24 (of_nat ?n) @ [fr_type f, fr_flags f] @ write_u32 (fr_stream_id f) @ fr_payload f"
    using ser by (auto simp: serialize_frame_def not_less and_0x7fffffff_id split: if_splits)
  have sizes: "?n \<le> unat m" "unat m < 2 ^ 24" using validate_frame_size [OF v] by auto
  define s where "s = bytes_to_string bs @ rest"
  have s: "s = bytes_to_string (write_u24 (of_nat ?n) @ [fr_type f, fr_flags f] @
             write_u32 (fr_stream_id f) @ fr_payload f) @ rest"
    by (simp add: s_def bs)
  note lay = frame_layout [OF length_write(1) length_write(2) s]
  have len: "read_u24 (substr s 0 3) = of_nat ?n"
    using read_u24_write_u24 [of ?n "[]"] sizes lay(1) by simp
  have un: "unat (of_nat ?n :: u32) = ?n" using sizes by (simp add: unat_of_nat)
  have sid: "read_u31 (substr s 5 4) = fr_stream_id f"
    using read_u31_write_u32 [OF id, of "[]"] lay(2) by simp
  have m: "\<not> max_allowed_frame_size < m"
    using sizes unat_max_allowed by (simp add: word_less_nat_alt)
  have le: "\<not> m < of_nat ?n" using sizes un by (simp add: word_less_nat_alt)
  have eta: "\<lparr>fr_type = fr_type f, fr_flags = fr_flags f, fr_stream_id = fr_stream_id f,
      fr_payload = fr_payload f\<rparr> = f" by simp
  show ?thesis
    unfolding s_def [symmetric]
    by (simp add: parse_frame_def Let_def bs empty_parse_result_def m len un sid lay(3-6) le eta v)
qed

text \<open>More input does not change an outcome other than "need more".\<close>

lemma parse_frame_append:
  assumes "\<not> fp_incomplete (parse_frame s m)"
  shows "parse_frame (s @ t) m = parse_frame s m"
proof (cases "length s < 9 \<or> max_allowed_frame_size < m")
  case True
  with assms show ?thesis by (auto simp: parse_frame_def)
next
  case False
  have pre: "substr (s @ t) 0 3 = substr s 0 3" "substr (s @ t) 5 4 = substr s 5 4"
    "(s @ t) ! 3 = s ! 3" "(s @ t) ! 4 = s ! 4"
    using False by (simp_all add: substr_def nth_append)
  show ?thesis
  proof (cases "m < read_u24 (substr s 0 3)")
    case True
    with False pre show ?thesis by (simp add: parse_frame_def)
  next
    case le: False
    with False assms have n: "9 + unat (read_u24 (substr s 0 3)) \<le> length s"
      by (auto simp: parse_frame_def Let_def split: if_splits)
    then have pay: "map (\<lambda>i. byte_of_char ((s @ t) ! (9 + i))) [0..<unat (read_u24 (substr s 0 3))] =
        map (\<lambda>i. byte_of_char (s ! (9 + i))) [0..<unat (read_u24 (substr s 0 3))]"
      by (simp add: nth_append)
    from n False le pre show ?thesis by (simp add: parse_frame_def Let_def pay)
  qed
qed

lemma parse_frame_okD:
  assumes "fp_ok (parse_frame s m)"
  shows "\<not> fp_incomplete (parse_frame s m) \<and> 9 \<le> fp_consumed (parse_frame s m) \<and>
    fp_consumed (parse_frame s m) \<le> length s \<and>
    fp_consumed (parse_frame s m) = 9 + length (fr_payload (fp_frame (parse_frame s m))) \<and>
    validate_frame (fp_frame (parse_frame s m)) m = []"
  using assms by (auto simp: parse_frame_def Let_def empty_parse_result_def split: if_splits)

definition frame_outcome :: "frame_parse_result \<Rightarrow> frame outcome" where
  "frame_outcome r =
     (if fp_ok r then Parsed (fp_frame r) (fp_consumed r)
      else if fp_incomplete r then NeedMore (fp_error r) else Malformed (fp_error r))"

interpretation h2: frame_codec "\<lambda>f. serialize_frame f m" "\<lambda>s. frame_outcome (parse_frame s m)" "\<lambda>_. True" for m
proof
  fix f bs rest
  assume "serialize_frame f m = Inr bs"
  then show "frame_outcome (parse_frame (bytes_to_string bs @ rest) m) = Parsed f (length bs)"
    by (simp add: parse_frame_serialize frame_outcome_def)
next
  fix f bs
  assume "serialize_frame f m = Inr bs"
  then show "bs \<noteq> []" by (auto simp: serialize_frame_def write_u24_def split: if_splits)
next
  fix s f n t
  assume "frame_outcome (parse_frame s m) = Parsed f n"
  then show "frame_outcome (parse_frame (s @ t) m) = Parsed f n"
    using parse_frame_okD [of s m] parse_frame_append [of s m t]
    by (auto simp: frame_outcome_def split: if_splits)
next
  fix s f n
  assume "frame_outcome (parse_frame s m) = Parsed f n"
  then show "0 < n \<and> n \<le> length s"
    using parse_frame_okD [of s m] by (auto simp: frame_outcome_def split: if_splits)
qed

section \<open>From the wire and back\<close>

lemma read_u31_and: "read_u31 s AND 0x7fffffff = read_u31 s"
proof -
  have "take_bit 31 (read_u31 s) = read_u31 s"
    by (rule bit_word_eqI) (auto simp: read_u31_join bit_join_bytes bit_simps)
  then show ?thesis by (simp add: take_bit_eq_mask mask_eq_exp_minus_1)
qed

lemma read_u31_le: "read_u31 s \<le> 0x7fffffff"
  by (metis read_u31_and word_and_le1)

lemma write_u24_read_u24:
  "write_u24 (read_u24 s) = [byte_of_char (s ! 0), byte_of_char (s ! 1), byte_of_char (s ! 2)]"
  by (simp add: read_u24_join write_u24_def split_join_bytes)

lemma write_u32_read_u31:
  "write_u32 (read_u31 s) = [byte_of_char (s ! 0) AND 0x7f, byte_of_char (s ! 1),
     byte_of_char (s ! 2), byte_of_char (s ! 3)]"
  by (simp add: read_u31_join write_u32_read_u32)

lemma nth_block: "9 + n \<le> length s \<Longrightarrow> map (\<lambda>i. s ! (9 + i)) [0..<n] = take n (drop 9 s)"
  by (rule nth_equalityI) auto

lemma length_9D:
  "length t = 9 \<Longrightarrow> \<exists>a0 a1 a2 a3 a4 a5 a6 a7 a8. t = [a0, a1, a2, a3, a4, a5, a6, a7, a8]"
  by (auto simp: numeral_eq_Suc length_Suc_conv)

lemma serialize_parse_frame:
  assumes ok: "fp_ok (parse_frame s m)"
  defines "n \<equiv> fp_consumed (parse_frame s m)"
  shows "serialize_frame (fp_frame (parse_frame s m)) m =
    Inr ((string_to_bytes (take n s)) [5 := byte_of_char (s ! 5) AND 0x7f])"
proof -
  define len where "len = read_u24 (substr s 0 3)"
  define f where "f = fp_frame (parse_frame s m)"
  have n: "n = 9 + unat len" and le: "9 + unat len \<le> length s"
    and f: "f = \<lparr>fr_type = byte_of_char (s ! 3), fr_flags = byte_of_char (s ! 4),
                 fr_stream_id = read_u31 (substr s 5 4),
                 fr_payload = map (\<lambda>i. byte_of_char (s ! (9 + i))) [0..<unat len]\<rparr>"
    and v: "validate_frame f m = []"
    using ok unfolding n_def f_def len_def
    by (auto simp: parse_frame_def Let_def empty_parse_result_def split: if_splits)
  have pay: "fr_payload f = string_to_bytes (take (unat len) (drop 9 s))"
    unfolding f nth_block [OF le, symmetric] by (simp add: string_to_bytes_def)
  have len': "of_nat (length (fr_payload f)) = len" by (simp add: f)
  have ser: "serialize_frame f m = Inr (write_u24 len @ [fr_type f, fr_flags f] @
      write_u32 (fr_stream_id f) @ fr_payload f)"
    using v by (simp add: serialize_frame_def len' read_u31_and f not_less read_u31_le)
  obtain a0 a1 a2 a3 a4 a5 a6 a7 a8 r where s: "s = [a0, a1, a2, a3, a4, a5, a6, a7, a8] @ r"
  proof -
    have "length (take 9 s) = 9" using le by simp
    from length_9D [OF this] show ?thesis using that by (metis append_take_drop_id)
  qed
  have w24: "write_u24 len = map byte_of_char [a0, a1, a2]"
    unfolding len_def write_u24_read_u24 by (simp add: s substr_def)
  have w32: "write_u32 (fr_stream_id f) = [byte_of_char a5 AND 0x7f, byte_of_char a6, byte_of_char a7, byte_of_char a8]"
    using write_u32_read_u31 [of "substr s 5 4"] by (simp add: f s substr_def)
  have tk: "take (9 + unat len) s = [a0, a1, a2, a3, a4, a5, a6, a7, a8] @ take (unat len) r"
    unfolding s by (simp add: numeral_eq_Suc)
  show ?thesis
    unfolding f_def [symmetric] ser n tk
    by (simp add: pay w24 w32, simp add: f s string_to_bytes_def)
qed

lemma settings_entries_serialize [simp]:
  "settings_entries (serialize_settings_payload ss) = ss"
proof (induction ss)
  case (Cons st ss)
  have id: "push_bit 8 (ucast (ucast (drop_bit 8 v AND 0xff) :: u8)) OR ucast (ucast (v AND 0xff) :: u8) = v"
    for v :: u16
    by (rule bit_word_eqI) (auto simp: bit_simps)
  have val: "read_u32 (write_u32 v) 0 = v" for v
    using read_u32_write_u32 [of v "[]"] by simp
  obtain a b c d where w: "write_u32 (st_value st) = [a, b, c, d]"
    by (simp add: write_u32_def)
  with val [of "st_value st"] have "read_u32 [a, b, c, d] 0 = st_value st" by simp
  with Cons id w show ?case by (simp add: serialize_settings_payload_def)
qed (simp add: serialize_settings_payload_def)

lemma length_serialize_settings: "length (serialize_settings_payload ss) = 6 * length ss"
  by (induction ss) (simp_all add: serialize_settings_payload_def)

lemma serialize_settings_entries:
  "length p mod 6 = 0 \<Longrightarrow> serialize_settings_payload (settings_entries p) = p"
proof (induction p rule: settings_entries.induct)
  case (1 a b c d e f rest)
  have id: "ucast (drop_bit 8 (push_bit 8 (ucast a) OR ucast b :: u16) AND 0xff) = (a :: u8)"
    "ucast ((push_bit 8 (ucast a) OR ucast b :: u16) AND 0xff) = (b :: u8)"
    by (rule bit_word_eqI; auto simp: bit_simps dest: bit_imp_le_length)+
  have "length rest mod 6 = 0" using "1.prems" by simp
  with "1.IH" id show ?case
    by (simp add: serialize_settings_payload_def read_u32_join write_u32_read_u32)
qed (simp_all add: serialize_settings_payload_def)

section \<open>Properties\<close>

lemma parse_all_Nil [simp]: "parse_all (\<lambda>s. frame_outcome (parse_frame s m)) [] = ([], [])"
  by (simp add: parse_all.simps frame_outcome_def parse_frame_def empty_parse_result_def)

text \<open>any sequence of frames that the serialiser accepts is read back by the frame parser as
  exactly that sequence, in order, with nothing left in the buffer.\<close>

theorem h2_frames_roundtrip:
  assumes "enc_all (\<lambda>f. serialize_frame f m) fs = Inr bs"
  shows "parse_all (\<lambda>s. frame_outcome (parse_frame s m)) (bytes_to_string bs) = (fs, [])"
  using h2.parse_all_enc_all [where rest = "[]", OF _ assms] by (simp add: list_all_iff)

definition ping_sample :: frame where
  "ping_sample = \<lparr>fr_type = 6, fr_flags = 0, fr_stream_id = 0, fr_payload = [1, 2, 3, 4, 5, 6, 7, 8]\<rparr>"

definition data_sample :: frame where
  "data_sample = \<lparr>fr_type = 0, fr_flags = 1, fr_stream_id = 3, fr_payload = [104, 105]\<rparr>"

theorem h2_frames_roundtrip_witness:
  "parse_all (\<lambda>s. frame_outcome (parse_frame s default_max_frame_size))
     (bytes_to_string ([0, 0, 8, 6, 0, 0, 0, 0, 0, 1, 2, 3, 4, 5, 6, 7, 8] @ [0, 0, 2, 0, 1, 0, 0, 0, 3, 104, 105]))
   = ([ping_sample, data_sample], [])"
proof -
  have "enc_all (\<lambda>f. serialize_frame f default_max_frame_size) [ping_sample, data_sample] =
     Inr ([0, 0, 8, 6, 0, 0, 0, 0, 0, 1, 2, 3, 4, 5, 6, 7, 8] @ [0, 0, 2, 0, 1, 0, 0, 0, 3, 104, 105])"
    by code_simp
  then show ?thesis by (rule h2_frames_roundtrip)
qed

text \<open>how the network cuts the byte stream does not matter: parsing \<open>s @ t\<close> at once yields
  the frames of \<open>s\<close> followed by the frames of what \<open>s\<close> left over together with \<open>t\<close>.\<close>

theorem h2_segmentation_independent:
  "parse_all (\<lambda>s. frame_outcome (parse_frame s m)) (s @ t) =
    (fst (parse_all (\<lambda>s. frame_outcome (parse_frame s m)) s) @
       fst (parse_all (\<lambda>s. frame_outcome (parse_frame s m))
         (snd (parse_all (\<lambda>s. frame_outcome (parse_frame s m)) s) @ t)),
     snd (parse_all (\<lambda>s. frame_outcome (parse_frame s m))
         (snd (parse_all (\<lambda>s. frame_outcome (parse_frame s m)) s) @ t)))"
  by (rule h2.parse_all_segments)

text \<open>a frame that was parsed from a buffer is valid, and serialising it gives back the bytes
  it was parsed from, with only the reserved bit of the stream identifier cleared.\<close>

theorem h2_reserialize:
  assumes "fp_ok (parse_frame s m)"
  shows "serialize_frame (fp_frame (parse_frame s m)) m =
    Inr ((string_to_bytes (take (fp_consumed (parse_frame s m)) s)) [5 := byte_of_char (s ! 5) AND 0x7f])"
  using serialize_parse_frame [OF assms] .

theorem h2_reserialize_witness:
  "serialize_frame (fp_frame (parse_frame (bytes_to_string [0, 0, 2, 0, 1, 0x80, 0, 0, 3, 104, 105, 7]) 16384)) 16384 =
     Inr ((string_to_bytes (take 11 (bytes_to_string [0, 0, 2, 0, 1, 0x80, 0, 0, 3, 104, 105, 7]))) [5 := 0])"
proof -
  let ?s = "bytes_to_string [0, 0, 2, 0, 1, 0x80, 0, 0, 3, 104, 105, 7]"
  have 1: "fp_ok (parse_frame ?s 16384)" by code_simp
  have 2: "fp_consumed (parse_frame ?s 16384) = 11" by code_simp
  have 3: "byte_of_char (?s ! 5) AND 0x7f = 0" by code_simp
  show ?thesis using h2_reserialize [OF 1] unfolding 2 3 .
qed

text \<open>SETTINGS payloads survive both directions: every list of settings is parsed back from
  its serialisation, and every payload the parser accepts is reproduced byte for byte.\<close>

theorem h2_settings_roundtrip:
  "parse_settings_payload (serialize_settings_payload ss) = Inr ss \<and>
   (parse_settings_payload p = Inr ts \<longrightarrow> serialize_settings_payload ts = p)"
  by (auto simp: parse_settings_payload_def length_serialize_settings serialize_settings_entries
      split: if_splits)

theorem h2_settings_roundtrip_witness:
  "serialize_settings_payload [\<lparr>st_identifier = 1, st_value = 4096\<rparr>] = [0, 1, 0, 0, 16, 0]"
proof -
  have "parse_settings_payload [0, 1, 0, 0, 16, 0] = Inr [\<lparr>st_identifier = 1, st_value = 4096\<rparr>]"
    by code_simp
  then show ?thesis using h2_settings_roundtrip by blast
qed

end
