(* ===== verification/Http3_Frame.thy ===== *)
theory Http3_Frame
  imports Rimau_Codec
begin

text \<open>
  \<open>src/src/protocol/http3_frame.cpp\<close>: QUIC variable-length integers, HTTP/3 frames and the
  HTTP/3 SETTINGS payload. Shown: a varint of at most 62 bits decodes to itself whatever follows
  it, larger values are refused, frames and SETTINGS payloads survive the round trip, and the
  codec meets the same contract (\<open>frame_codec\<close>) as the HTTP/2 one. Constants that would clash
  with the HTTP/2 layer carry the suffix \<open>_h3\<close>.
\<close>

record varint_result =
  vr_ok :: bool
  vr_incomplete :: bool
  vr_consumed :: nat
  vr_value :: u64
  vr_error :: string

definition empty_varint_result :: varint_result where
  "empty_varint_result =
     \<lparr>vr_ok = False, vr_incomplete = False, vr_consumed = 0, vr_value = 0, vr_error = []\<rparr>"

record frame_h3 =
  fr3_type :: u64
  fr3_payload :: bytes

definition empty_frame_h3 :: frame_h3 where
  "empty_frame_h3 = \<lparr>fr3_type = 0, fr3_payload = []\<rparr>"

record parse_result_h3 =
  pr3_ok :: bool
  pr3_incomplete :: bool
  pr3_consumed :: nat
  pr3_frame :: frame_h3
  pr3_error :: string

definition empty_parse_result_h3 :: parse_result_h3 where
  "empty_parse_result_h3 = \<lparr>pr3_ok = False, pr3_incomplete = False, pr3_consumed = 0,
     pr3_frame = empty_frame_h3, pr3_error = []\<rparr>"

record setting_h3 =
  st3_identifier :: u64
  st3_value :: u64

definition encode_varint :: "u64 \<Rightarrow> bytes result" where
  "encode_varint v =
     (if v \<le> 0x3f then Inr [ucast v]
      else if v \<le> 0x3fff
      then Inr [ucast (0x40 OR (drop_bit 8 v AND 0x3f)), ucast (v AND 0xff)]
      else if v \<le> 0x3fffffff
      then Inr [ucast (0x80 OR (drop_bit 24 v AND 0x3f)), ucast (drop_bit 16 v AND 0xff),
                ucast (drop_bit 8 v AND 0xff), ucast (v AND 0xff)]
      else if v \<le> 0x3fffffffffffffff
      then Inr [ucast (0xc0 OR (drop_bit 56 v AND 0x3f)), ucast (drop_bit 48 v AND 0xff),
                ucast (drop_bit 40 v AND 0xff), ucast (drop_bit 32 v AND 0xff),
                ucast (drop_bit 24 v AND 0xff), ucast (drop_bit 16 v AND 0xff),
                ucast (drop_bit 8 v AND 0xff), ucast (v AND 0xff)]
      else Inl ''HTTP/3 QUIC varint value exceeds 62 bits'')"

definition decode_varint :: "string \<Rightarrow> nat \<Rightarrow> varint_result" where
  "decode_varint s offset =
     (if offset \<ge> length s
      then empty_varint_result\<lparr>vr_incomplete := True, vr_error := ''incomplete QUIC varint''\<rparr>
      else
        let first = byte_of_char (s ! offset);
            len = 2 ^ unat (drop_bit 6 first)
        in if length s - offset < len
           then empty_varint_result\<lparr>vr_incomplete := True, vr_error := ''incomplete QUIC varint''\<rparr>
           else empty_varint_result\<lparr>vr_ok := True, vr_consumed := len,
                  vr_value := foldl (\<lambda>value index. push_bit 8 value OR ucast (byte_of_char (s ! (offset + index))))
                                (ucast (first AND 0x3f)) [1..<len]\<rparr>)"

definition serialize_frame_h3 :: "frame_h3 \<Rightarrow> bytes result" where
  "serialize_frame_h3 f =
     r_bind (encode_varint (fr3_type f)) (\<lambda>ty.
       r_bind (encode_varint (of_nat (length (fr3_payload f)))) (\<lambda>len.
         Inr (ty @ len @ fr3_payload f)))"

definition parse_frame_h3 :: "string \<Rightarrow> parse_result_h3" where
  "parse_frame_h3 s =
     (let type = decode_varint s 0 in
      if \<not> vr_ok type
      then empty_parse_result_h3\<lparr>pr3_incomplete := vr_incomplete type, pr3_error := vr_error type\<rparr>
      else
        let length' = decode_varint s (vr_consumed type) in
        if \<not> vr_ok length'
        then empty_parse_result_h3\<lparr>pr3_incomplete := vr_incomplete length', pr3_error := vr_error length'\<rparr>
        else
          let payload_offset = vr_consumed type + vr_consumed length' in
          if length s - payload_offset < unat (vr_value length')
          then empty_parse_result_h3\<lparr>pr3_incomplete := True,
                 pr3_error := ''incomplete HTTP/3 frame payload''\<rparr>
          else empty_parse_result_h3\<lparr>
                 pr3_frame := \<lparr>fr3_type = vr_value type,
                   fr3_payload = map (\<lambda>i. byte_of_char (s ! (payload_offset + i)))
                                   [0..<unat (vr_value length')]\<rparr>,
                 pr3_consumed := payload_offset + unat (vr_value length'), pr3_ok := True\<rparr>)"

fun serialize_settings_payload_h3 :: "setting_h3 list \<Rightarrow> bytes result" where
  "serialize_settings_payload_h3 [] = Inr []"
| "serialize_settings_payload_h3 (st # sts) =
     r_bind (encode_varint (st3_identifier st)) (\<lambda>i.
       r_bind (encode_varint (st3_value st)) (\<lambda>v.
         r_bind (serialize_settings_payload_h3 sts) (\<lambda>rest. Inr (i @ v @ rest))))"

text \<open>The SETTINGS loop at a byte offset; each iteration consumes two varints.\<close>

lemma decode_varint_progress: "vr_ok (decode_varint s i) \<Longrightarrow> 0 < vr_consumed (decode_varint s i)"
  by (auto simp: decode_varint_def Let_def empty_varint_result_def split: if_splits)

function parse_settings_from_h3 :: "string \<Rightarrow> nat \<Rightarrow> (setting_h3 list) result" where
  "parse_settings_from_h3 s offset =
     (if offset < length s
      then let identifier = decode_varint s offset in
           if \<not> vr_ok identifier then Inl ''incomplete HTTP/3 SETTINGS identifier''
           else
             let value = decode_varint s (offset + vr_consumed identifier) in
             if \<not> vr_ok value then Inl ''incomplete HTTP/3 SETTINGS value''
             else r_bind (parse_settings_from_h3 s (offset + vr_consumed identifier + vr_consumed value))
                    (\<lambda>rest. Inr (\<lparr>st3_identifier = vr_value identifier, st3_value = vr_value value\<rparr> # rest))
      else Inr [])"
  by pat_completeness auto
termination
proof (relation "measure (\<lambda>(s, offset). length s - offset)")
  fix s :: string and offset x xa
  assume "offset < length s" and x: "x = decode_varint s offset" and "\<not> \<not> vr_ok x"
    and "xa = decode_varint s (offset + vr_consumed x)"
  moreover from this have "0 < vr_consumed x" by (simp add: decode_varint_progress)
  ultimately show "((s, offset + vr_consumed x + vr_consumed xa), s, offset)
      \<in> measure (\<lambda>(s, offset). length s - offset)"
    by simp
qed simp

declare parse_settings_from_h3.simps [simp del]

definition parse_settings_payload_h3 :: "bytes \<Rightarrow> (setting_h3 list) result" where
  "parse_settings_payload_h3 payload = parse_settings_from_h3 (bytes_to_string payload) 0"

section \<open>Varints\<close>

text \<open>The bits of the big-endian accumulation.\<close>

lemma bit_shift_in:
  "bit (push_bit 8 v OR ucast (b :: u8) :: u64) n \<longleftrightarrow>
    (if n < 8 then bit b n else n < 64 \<and> bit v (n - 8))"
  by (auto simp: bit_simps dest: bit_imp_le_length)

lemma small_bits:
  fixes v :: u64
  assumes "unat v < 2 ^ k" and "bit v n"
  shows "n < k"
proof (rule ccontr)
  assume "\<not> n < k"
  have "drop_bit k v = 0" by (rule drop_bit_zeroI) (fact assms(1))
  then have "\<not> bit (drop_bit k v) (n - k)" by simp
  with \<open>\<not> n < k\<close> assms(2) show False by (simp add: bit_drop_bit_eq)
qed

lemma first_byte:
  fixes v :: u64
  shows "drop_bit 6 (ucast (0x40 OR (drop_bit k v AND 0x3f)) :: u8) = 1"
    "drop_bit 6 (ucast (0x80 OR (drop_bit k v AND 0x3f)) :: u8) = 2"
    "drop_bit 6 (ucast (0xc0 OR (drop_bit k v AND 0x3f)) :: u8) = 3"
  by (rule bit_word_eqI; auto simp: bit_simps bit_1_iff)+


abbreviation shift_in :: "u64 \<Rightarrow> u8 \<Rightarrow> u64" where
  "shift_in v b \<equiv> push_bit 8 v OR ucast b"

lemma fold_string_bytes:
  fixes pre rest :: string
  assumes "length bs = len"
  shows "foldl (\<lambda>v i. shift_in v (byte_of_char ((pre @ bytes_to_string bs @ rest) ! (length pre + i)))) x [1..<len]
    = foldl shift_in x (tl bs)"
proof -
  have "tl bs = map ((!) bs) [1..<len]"
    using assms by (intro nth_equalityI) (simp_all add: nth_tl)
  moreover have "foldl (\<lambda>v i. shift_in v (byte_of_char ((pre @ bytes_to_string bs @ rest) ! (length pre + i)))) x [1..<len]
    = foldl (\<lambda>v i. shift_in v (bs ! i)) x [1..<len]"
    using assms by (intro foldl_cong) (simp_all add: nth_append bytes_to_string_def)
  ultimately show ?thesis by (simp add: foldl_map)
qed

text \<open>What the decoder computes on the bytes of one varint.\<close>

lemma decode_varint_bytes:
  assumes "bs \<noteq> []" and "length bs = 2 ^ unat (drop_bit 6 (hd bs))"
  shows "decode_varint (pre @ bytes_to_string bs @ rest) (length pre) =
    empty_varint_result\<lparr>vr_ok := True, vr_consumed := length bs,
      vr_value := foldl shift_in (ucast (hd bs AND 0x3f)) (tl bs)\<rparr>"
proof -
  have "byte_of_char ((pre @ bytes_to_string bs @ rest) ! length pre) = hd bs"
    using assms(1) by (cases bs) (simp_all add: bytes_to_string_def nth_append)
  with assms fold_string_bytes [of bs "length bs" pre rest] show ?thesis
    by (simp add: decode_varint_def Let_def)
qed

text \<open>One accumulation step undoes one byte of the encoder; the tag bits of the first byte are
  masked away.\<close>

lemma shift_in_step:
  "shift_in (drop_bit (k + 8) v) (ucast (drop_bit k v AND 0xff)) = drop_bit k (v :: u64)"
proof (rule bit_word_eqI)
  fix n
  assume "n < LENGTH(64)"
  moreover have "k + 8 + (n - 8) = k + n" if "\<not> n < 8" using that by simp
  ultimately show "bit (shift_in (drop_bit (k + 8) v) (ucast (drop_bit k v AND 0xff))) n = bit (drop_bit k v) n"
    by (simp add: bit_shift_in bit_drop_bit_eq) (auto simp: bit_simps)
qed

lemmas shift_in_steps =
  shift_in_step [of 48, simplified] shift_in_step [of 40, simplified] shift_in_step [of 32, simplified]
  shift_in_step [of 24, simplified] shift_in_step [of 16, simplified] shift_in_step [of 8, simplified]
  shift_in_step [of 0, simplified]

lemma first_byte_value:
  fixes v :: u64
  assumes "unat v < 2 ^ (k + 6)"
  shows "ucast ((ucast (0x40 OR (drop_bit k v AND 0x3f)) :: u8) AND 0x3f) = drop_bit k v"
    "ucast ((ucast (0x80 OR (drop_bit k v AND 0x3f)) :: u8) AND 0x3f) = drop_bit k v"
    "ucast ((ucast (0xc0 OR (drop_bit k v AND 0x3f)) :: u8) AND 0x3f) = drop_bit k v"
proof -
  define w where "w = drop_bit k v"
  have small: "bit w n \<Longrightarrow> n < 6" for n
    using small_bits [OF assms, of "k + n"] by (simp add: w_def bit_drop_bit_eq)
  show "ucast ((ucast (0x40 OR (drop_bit k v AND 0x3f)) :: u8) AND 0x3f) = drop_bit k v"
    "ucast ((ucast (0x80 OR (drop_bit k v AND 0x3f)) :: u8) AND 0x3f) = drop_bit k v"
    "ucast ((ucast (0xc0 OR (drop_bit k v AND 0x3f)) :: u8) AND 0x3f) = drop_bit k v"
    unfolding w_def [symmetric]
    by (rule bit_word_eqI; auto simp: bit_simps dest: small)+
qed

lemma decode_encode_varint:
  assumes enc: "encode_varint v = Inr bs"
  shows "decode_varint (pre @ bytes_to_string bs @ rest) (length pre) =
    empty_varint_result\<lparr>vr_ok := True, vr_consumed := length bs, vr_value := v\<rparr>"
proof -
  consider (1) "v \<le> 0x3f" | (2) "\<not> v \<le> 0x3f" "v \<le> 0x3fff"
    | (4) "\<not> v \<le> 0x3f" "\<not> v \<le> 0x3fff" "v \<le> 0x3fffffff"
    | (8) "\<not> v \<le> 0x3f" "\<not> v \<le> 0x3fff" "\<not> v \<le> 0x3fffffff" "v \<le> 0x3fffffffffffffff"
    using enc by (auto simp: encode_varint_def split: if_splits)
  then have "bs \<noteq> [] \<and> length bs = 2 ^ unat (drop_bit 6 (hd bs)) \<and>
      foldl shift_in (ucast (hd bs AND 0x3f)) (tl bs) = v"
  proof cases
    case 1
    then have "unat v < 2 ^ 6" by (simp add: word_le_nat_alt)
    then have small: "bit v n \<Longrightarrow> n < 6" for n using small_bits [of v 6 n] by simp
    have "drop_bit 6 (ucast v :: u8) = 0" "ucast ((ucast v :: u8) AND 0x3f) = v"
      by (rule bit_word_eqI; auto simp: bit_simps dest: small)+
    with 1 enc show ?thesis by (auto simp: encode_varint_def)
  next
    case 2
    then have "unat v < 2 ^ (8 + 6)" by (simp add: word_le_nat_alt)
    from first_byte_value [OF this] 2 enc show ?thesis
      by (auto simp: encode_varint_def first_byte shift_in_steps)
  next
    case 4
    then have "unat v < 2 ^ (24 + 6)" by (simp add: word_le_nat_alt)
    from first_byte_value [OF this] 4 enc show ?thesis
      by (auto simp: encode_varint_def first_byte shift_in_steps)
  next
    case 8
    then have "unat v < 2 ^ (56 + 6)" by (simp add: word_le_nat_alt)
    from first_byte_value [OF this] 8 enc show ?thesis
      by (auto simp: encode_varint_def first_byte shift_in_steps)
  qed
  with decode_varint_bytes [of bs pre rest] show ?thesis by simp
qed

section \<open>Frames and settings\<close>

lemma decode_varint_append:
  assumes "vr_ok (decode_varint s i)"
  shows "decode_varint (s @ t) i = decode_varint s i"
proof -
  have i: "i < length s" and len: "2 ^ unat (drop_bit 6 (byte_of_char (s ! i))) \<le> length s - i"
    using assms by (auto simp: decode_varint_def Let_def empty_varint_result_def split: if_splits)
  define L where "L = (2 :: nat) ^ unat (drop_bit 6 (byte_of_char (s ! i)))"
  have "foldl (\<lambda>v k. shift_in v (byte_of_char ((s @ t) ! (i + k)))) x [1..<L] =
      foldl (\<lambda>v k. shift_in v (byte_of_char (s ! (i + k)))) x [1..<L]" for x
    using i len by (intro foldl_cong) (auto simp: nth_append L_def)
  with i len show ?thesis
    unfolding decode_varint_def Let_def by (simp add: nth_append L_def)
qed

lemma decode_varint_bound:
  "vr_ok (decode_varint s i) \<Longrightarrow> i + vr_consumed (decode_varint s i) \<le> length s"
  by (auto simp: decode_varint_def Let_def empty_varint_result_def split: if_splits)

definition fits_h3 :: "frame_h3 \<Rightarrow> bool" where
  "fits_h3 f \<longleftrightarrow> length (fr3_payload f) < 2 ^ 64"

lemma parse_frame_serialize_h3:
  assumes "fits_h3 f" and "serialize_frame_h3 f = Inr bs"
  shows "parse_frame_h3 (bytes_to_string bs @ rest) =
    \<lparr>pr3_ok = True, pr3_incomplete = False, pr3_consumed = length bs, pr3_frame = f, pr3_error = []\<rparr>"
proof -
  let ?p = "fr3_payload f"
  obtain ty len where ty: "encode_varint (fr3_type f) = Inr ty"
    and len: "encode_varint (of_nat (length ?p)) = Inr len" and bs: "bs = ty @ len @ ?p"
    using assms(2) by (auto simp: serialize_frame_h3_def r_bind_Inr_iff)
  define s where "s = bytes_to_string bs @ rest"
  have d1: "decode_varint s 0 = empty_varint_result\<lparr>vr_ok := True, vr_consumed := length ty,
      vr_value := fr3_type f\<rparr>"
    using decode_encode_varint [OF ty, of "[]" "bytes_to_string (len @ ?p) @ rest"] by (simp add: s_def bs)
  have d2: "decode_varint s (length ty) = empty_varint_result\<lparr>vr_ok := True,
      vr_consumed := length len, vr_value := of_nat (length ?p)\<rparr>"
    using decode_encode_varint [OF len, of "bytes_to_string ty" "bytes_to_string ?p @ rest"]
    by (simp add: s_def bs)
  have un: "unat (of_nat (length ?p) :: u64) = length ?p"
    using assms(1) by (simp add: fits_h3_def unat_of_nat)
  have pay: "map (\<lambda>i. byte_of_char (s ! (length ty + length len + i))) [0..<length ?p] = ?p"
    by (rule nth_equalityI) (simp_all add: s_def bs bytes_to_string_def nth_append)
  have size: "length s = length ty + length len + length ?p + length rest"
    by (simp add: s_def bs)
  have eta: "\<lparr>fr3_type = fr3_type f, fr3_payload = ?p\<rparr> = f" by simp
  show ?thesis
    unfolding s_def [symmetric]
    by (simp add: parse_frame_h3_def Let_def d1 d2 un pay size eta bs
        empty_parse_result_h3_def empty_varint_result_def)
qed

lemma parse_frame_h3_okD:
  assumes "pr3_ok (parse_frame_h3 s)"
  shows "vr_ok (decode_varint s 0)"
    and "vr_ok (decode_varint s (vr_consumed (decode_varint s 0)))"
    and "pr3_consumed (parse_frame_h3 s) = vr_consumed (decode_varint s 0) +
      vr_consumed (decode_varint s (vr_consumed (decode_varint s 0))) +
      unat (vr_value (decode_varint s (vr_consumed (decode_varint s 0))))"
    and "pr3_consumed (parse_frame_h3 s) \<le> length s"
proof -
  note ok = assms [unfolded parse_frame_h3_def Let_def empty_parse_result_h3_def]
  show 1: "vr_ok (decode_varint s 0)" using ok by (auto split: if_splits)
  show 2: "vr_ok (decode_varint s (vr_consumed (decode_varint s 0)))" using ok by (auto split: if_splits)
  show 3: "pr3_consumed (parse_frame_h3 s) = vr_consumed (decode_varint s 0) +
      vr_consumed (decode_varint s (vr_consumed (decode_varint s 0))) +
      unat (vr_value (decode_varint s (vr_consumed (decode_varint s 0))))"
    using ok by (auto simp: parse_frame_h3_def Let_def empty_parse_result_h3_def split: if_splits)
  show "pr3_consumed (parse_frame_h3 s) \<le> length s"
    using ok 1 decode_varint_bound [OF 2] unfolding 3 by (auto split: if_splits)
qed

lemma parse_frame_h3_append:
  assumes ok: "pr3_ok (parse_frame_h3 s)"
  shows "parse_frame_h3 (s @ t) = parse_frame_h3 s"
proof -
  note d = parse_frame_h3_okD [OF ok]
  note a = decode_varint_append [OF d(1), of t] decode_varint_append [OF d(2), of t]
  let ?o = "vr_consumed (decode_varint s 0) + vr_consumed (decode_varint s (vr_consumed (decode_varint s 0)))"
  let ?n = "unat (vr_value (decode_varint s (vr_consumed (decode_varint s 0))))"
  have le: "?o + ?n \<le> length s" using d(3,4) by simp
  then have pay: "map (\<lambda>i. byte_of_char ((s @ t) ! (?o + i))) [0..<?n] =
      map (\<lambda>i. byte_of_char (s ! (?o + i))) [0..<?n]"
    by (simp add: nth_append)
  from le d(1,2) show ?thesis by (simp add: parse_frame_h3_def Let_def a pay)
qed

definition frame_outcome_h3 :: "parse_result_h3 \<Rightarrow> frame_h3 outcome" where
  "frame_outcome_h3 r =
     (if pr3_ok r then Parsed (pr3_frame r) (pr3_consumed r)
      else if pr3_incomplete r then NeedMore (pr3_error r) else Malformed (pr3_error r))"

lemma encode_varint_not_Nil: "encode_varint v = Inr bs \<Longrightarrow> bs \<noteq> []"
  by (auto simp: encode_varint_def split: if_splits)

interpretation h3: frame_codec serialize_frame_h3 "\<lambda>s. frame_outcome_h3 (parse_frame_h3 s)" fits_h3
proof
  fix f bs rest
  assume "fits_h3 f" "serialize_frame_h3 f = Inr bs"
  then show "frame_outcome_h3 (parse_frame_h3 (bytes_to_string bs @ rest)) = Parsed f (length bs)"
    by (simp add: parse_frame_serialize_h3 frame_outcome_h3_def)
next
  fix f bs
  assume "serialize_frame_h3 f = Inr bs"
  then show "bs \<noteq> []"
    by (auto simp: serialize_frame_h3_def r_bind_Inr_iff dest: encode_varint_not_Nil)
next
  fix s f n t
  assume "frame_outcome_h3 (parse_frame_h3 s) = Parsed f n"
  then show "frame_outcome_h3 (parse_frame_h3 (s @ t)) = Parsed f n"
    using parse_frame_h3_append [of s t] by (auto simp: frame_outcome_h3_def split: if_splits)
next
  fix s f n
  assume "frame_outcome_h3 (parse_frame_h3 s) = Parsed f n"
  then show "0 < n \<and> n \<le> length s"
    using parse_frame_h3_okD [of s] decode_varint_progress [of s 0]
    by (auto simp: frame_outcome_h3_def split: if_splits)
qed

lemma parse_settings_from_serialize_h3:
  "serialize_settings_payload_h3 sts = Inr bs \<Longrightarrow>
    parse_settings_from_h3 (pre @ bytes_to_string bs) (length pre) = Inr sts"
proof (induction sts arbitrary: pre bs)
  case Nil
  then show ?case by (simp add: parse_settings_from_h3.simps)
next
  case (Cons st sts)
  then obtain i v rest where i: "encode_varint (st3_identifier st) = Inr i"
    and v: "encode_varint (st3_value st) = Inr v"
    and rest: "serialize_settings_payload_h3 sts = Inr rest" and bs: "bs = i @ v @ rest"
    by (auto simp: r_bind_Inr_iff)
  define s where "s = pre @ bytes_to_string bs"
  have d1: "decode_varint s (length pre) = empty_varint_result\<lparr>vr_ok := True,
      vr_consumed := length i, vr_value := st3_identifier st\<rparr>"
    using decode_encode_varint [OF i, of pre "bytes_to_string (v @ rest)"] by (simp add: s_def bs)
  have d2: "decode_varint s (length pre + length i) = empty_varint_result\<lparr>vr_ok := True,
      vr_consumed := length v, vr_value := st3_value st\<rparr>"
    using decode_encode_varint [OF v, of "pre @ bytes_to_string i" "bytes_to_string rest"]
    by (simp add: s_def bs)
  have IH: "parse_settings_from_h3 s (length pre + length i + length v) = Inr sts"
    using Cons.IH [OF rest, of "pre @ bytes_to_string i @ bytes_to_string v"] by (simp add: s_def bs add.assoc)
  have "length pre < length s"
    using encode_varint_not_Nil [OF i] by (simp add: s_def bs)
  with d1 d2 IH show ?case
    unfolding s_def [symmetric]
    by (simp add: parse_settings_from_h3.simps [of s "length pre"] empty_varint_result_def)
qed

section \<open>Properties\<close>

lemma encode_varint_total: "v \<le> 0x3fffffffffffffff \<Longrightarrow> \<exists>bs. encode_varint v = Inr bs \<and> length bs \<in> {1, 2, 4, 8}"
  by (auto simp: encode_varint_def)

text \<open>every value of at most 62 bits has an encoding of one, two, four or eight bytes that
  decodes to the value and consumes exactly these bytes, wherever it stands in the input and
  whatever follows it; every larger value is refused.\<close>

theorem varint_roundtrip:
  "if v \<le> 0x3fffffffffffffff
   then \<exists>bs. encode_varint v = Inr bs \<and> length bs \<in> {1, 2, 4, 8} \<and>
     decode_varint (pre @ bytes_to_string bs @ rest) (length pre) =
       \<lparr>vr_ok = True, vr_incomplete = False, vr_consumed = length bs, vr_value = v, vr_error = []\<rparr>
   else encode_varint v = Inl ''HTTP/3 QUIC varint value exceeds 62 bits''"
proof (cases "v \<le> 0x3fffffffffffffff")
  case True
  then obtain bs where "encode_varint v = Inr bs" "length bs \<in> {1, 2, 4, 8}"
    using encode_varint_total by blast
  with True show ?thesis
    by (simp add: decode_encode_varint empty_varint_result_def)
next
  case False
  then show ?thesis by (auto simp: encode_varint_def word_le_nat_alt)
qed

lemma parse_all_Nil_h3 [simp]: "parse_all (\<lambda>s. frame_outcome_h3 (parse_frame_h3 s)) [] = ([], [])"
  by (simp add: parse_all.simps frame_outcome_h3_def parse_frame_h3_def decode_varint_def
      empty_parse_result_h3_def empty_varint_result_def)

text \<open>a sequence of HTTP/3 frames that the serialiser accepts is read back as that sequence,
  in order, with nothing left over.\<close>

theorem h3_frames_roundtrip:
  assumes "list_all fits_h3 fs" and "enc_all serialize_frame_h3 fs = Inr bs"
  shows "parse_all (\<lambda>s. frame_outcome_h3 (parse_frame_h3 s)) (bytes_to_string bs) = (fs, [])"
  using h3.parse_all_enc_all [where rest = "[]", OF assms] by simp

theorem h3_frames_roundtrip_witness:
  "parse_all (\<lambda>s. frame_outcome_h3 (parse_frame_h3 s)) (bytes_to_string [64, 64, 2, 7, 9, 4, 0]) =
     ([\<lparr>fr3_type = 64, fr3_payload = [7, 9]\<rparr>, \<lparr>fr3_type = 4, fr3_payload = []\<rparr>], [])"
proof -
  have 1: "list_all fits_h3 [\<lparr>fr3_type = 64, fr3_payload = [7, 9]\<rparr>, \<lparr>fr3_type = 4, fr3_payload = []\<rparr>]"
    by (simp add: fits_h3_def)
  have 2: "enc_all serialize_frame_h3 [\<lparr>fr3_type = 64, fr3_payload = [7, 9]\<rparr>, \<lparr>fr3_type = 4, fr3_payload = []\<rparr>]
      = Inr [64, 64, 2, 7, 9, 4, 0]"
    by code_simp
  show ?thesis by (rule h3_frames_roundtrip [OF 1 2])
qed

text \<open>an HTTP/3 SETTINGS payload parses back to the settings it was built from.\<close>

theorem h3_settings_roundtrip:
  assumes "serialize_settings_payload_h3 sts = Inr bs"
  shows "parse_settings_payload_h3 bs = Inr sts"
  using parse_settings_from_serialize_h3 [OF assms, of "[]"] by (simp add: parse_settings_payload_h3_def)

theorem h3_settings_roundtrip_witness:
  "parse_settings_payload_h3 [1, 0x50, 0, 6, 7] =
     Inr [\<lparr>st3_identifier = 1, st3_value = 4096\<rparr>, \<lparr>st3_identifier = 6, st3_value = 7\<rparr>]"
proof -
  have "serialize_settings_payload_h3
      [\<lparr>st3_identifier = 1, st3_value = 4096\<rparr>, \<lparr>st3_identifier = 6, st3_value = 7\<rparr>] = Inr [1, 0x50, 0, 6, 7]"
    by code_simp
  then show ?thesis by (rule h3_settings_roundtrip)
qed

end
