(* ===== verification/Hpack_Huffman.thy ===== *)
theory Hpack_Huffman
  imports Rimau_Prelude
begin

text \<open>
  The Huffman part of \<open>src/src/protocol/http2_hpack.cpp\<close>: the code table, the index-linked node
  vector that \<open>build_huffman_tree\<close> fills from it, and the bit-by-bit decoder that walks the
  vector. The node vector is related to the set of code words it stands for by an invariant over
  the paths of its nodes; the table itself is shown to be prefix free by evaluation in the kernel.
  The outcome is an exact description of the decoder: it accepts a byte string if and only if the
  string is the canonical Huffman encoding of some text, and then returns that text.
\<close>

section \<open>The table\<close>

text \<open>Code and number of bits of each symbol; symbol 256 is EOS.\<close>

type_synonym huffman_code = "u32 \<times> nat"

definition huffman_table :: "huffman_code list" where
  "huffman_table = [
   (0x1ff8, 13), (0x7fffd8, 23), (0xfffffe2, 28), (0xfffffe3, 28),
   (0xfffffe4, 28), (0xfffffe5, 28), (0xfffffe6, 28), (0xfffffe7, 28),
   (0xfffffe8, 28), (0xffffea, 24), (0x3ffffffc, 30), (0xfffffe9, 28),
   (0xfffffea, 28), (0x3ffffffd, 30), (0xfffffeb, 28), (0xfffffec, 28),
   (0xfffffed, 28), (0xfffffee, 28), (0xfffffef, 28), (0xffffff0, 28),
   (0xffffff1, 28), (0xffffff2, 28), (0x3ffffffe, 30), (0xffffff3, 28),
   (0xffffff4, 28), (0xffffff5, 28), (0xffffff6, 28), (0xffffff7, 28),
   (0xffffff8, 28), (0xffffff9, 28), (0xffffffa, 28), (0xffffffb, 28),
   (0x14, 6), (0x3f8, 10), (0x3f9, 10), (0xffa, 12),
   (0x1ff9, 13), (0x15, 6), (0xf8, 8), (0x7fa, 11),
   (0x3fa, 10), (0x3fb, 10), (0xf9, 8), (0x7fb, 11),
   (0xfa, 8), (0x16, 6), (0x17, 6), (0x18, 6),
   (0x0, 5), (0x1, 5), (0x2, 5), (0x19, 6),
   (0x1a, 6), (0x1b, 6), (0x1c, 6), (0x1d, 6),
   (0x1e, 6), (0x1f, 6), (0x5c, 7), (0xfb, 8),
   (0x7ffc, 15), (0x20, 6), (0xffb, 12), (0x3fc, 10),
   (0x1ffa, 13), (0x21, 6), (0x5d, 7), (0x5e, 7),
   (0x5f, 7), (0x60, 7), (0x61, 7), (0x62, 7),
   (0x63, 7), (0x64, 7), (0x65, 7), (0x66, 7),
   (0x67, 7), (0x68, 7), (0x69, 7), (0x6a, 7),
   (0x6b, 7), (0x6c, 7), (0x6d, 7), (0x6e, 7),
   (0x6f, 7), (0x70, 7), (0x71, 7), (0x72, 7),
   (0xfc, 8), (0x73, 7), (0xfd, 8), (0x1ffb, 13),
   (0x7fff0, 19), (0x1ffc, 13), (0x3ffc, 14), (0x22, 6),
   (0x7ffd, 15), (0x3, 5), (0x23, 6), (0x4, 5),
   (0x24, 6), (0x5, 5), (0x25, 6), (0x26, 6),
   (0x27, 6), (0x6, 5), (0x74, 7), (0x75, 7),
   (0x28, 6), (0x29, 6), (0x2a, 6), (0x7, 5),
   (0x2b, 6), (0x76, 7), (0x2c, 6), (0x8, 5),
   (0x9, 5), (0x2d, 6), (0x77, 7), (0x78, 7),
   (0x79, 7), (0x7a, 7), (0x7b, 7), (0x7ffe, 15),
   (0x7fc, 11), (0x3ffd, 14), (0x1ffd, 13), (0xffffffc, 28),
   (0xfffe6, 20), (0x3fffd2, 22), (0xfffe7, 20), (0xfffe8, 20),
   (0x3fffd3, 22), (0x3fffd4, 22), (0x3fffd5, 22), (0x7fffd9, 23),
   (0x3fffd6, 22), (0x7fffda, 23), (0x7fffdb, 23), (0x7fffdc, 23),
   (0x7fffdd, 23), (0x7fffde, 23), (0xffffeb, 24), (0x7fffdf, 23),
   (0xffffec, 24), (0xffffed, 24), (0x3fffd7, 22), (0x7fffe0, 23),
   (0xffffee, 24), (0x7fffe1, 23), (0x7fffe2, 23), (0x7fffe3, 23),
   (0x7fffe4, 23), (0x1fffdc, 21), (0x3fffd8, 22), (0x7fffe5, 23),
   (0x3fffd9, 22), (0x7fffe6, 23), (0x7fffe7, 23), (0xffffef, 24),
   (0x3fffda, 22), (0x1fffdd, 21), (0xfffe9, 20), (0x3fffdb, 22),
   (0x3fffdc, 22), (0x7fffe8, 23), (0x7fffe9, 23), (0x1fffde, 21),
   (0x7fffea, 23), (0x3fffdd, 22), (0x3fffde, 22), (0xfffff0, 24),
   (0x1fffdf, 21), (0x3fffdf, 22), (0x7fffeb, 23), (0x7fffec, 23),
   (0x1fffe0, 21), (0x1fffe1, 21), (0x3fffe0, 22), (0x1fffe2, 21),
   (0x7fffed, 23), (0x3fffe1, 22), (0x7fffee, 23), (0x7fffef, 23),
   (0xfffea, 20), (0x3fffe2, 22), (0x3fffe3, 22), (0x3fffe4, 22),
   (0x7ffff0, 23), (0x3fffe5, 22), (0x3fffe6, 22), (0x7ffff1, 23),
   (0x3ffffe0, 26), (0x3ffffe1, 26), (0xfffeb, 20), (0x7fff1, 19),
   (0x3fffe7, 22), (0x7ffff2, 23), (0x3fffe8, 22), (0x1ffffec, 25),
   (0x3ffffe2, 26), (0x3ffffe3, 26), (0x3ffffe4, 26), (0x7ffffde, 27),
   (0x7ffffdf, 27), (0x3ffffe5, 26), (0xfffff1, 24), (0x1ffffed, 25),
   (0x7fff2, 19), (0x1fffe3, 21), (0x3ffffe6, 26), (0x7ffffe0, 27),
   (0x7ffffe1, 27), (0x3ffffe7, 26), (0x7ffffe2, 27), (0xfffff2, 24),
   (0x1fffe4, 21), (0x1fffe5, 21), (0x3ffffe8, 26), (0x3ffffe9, 26),
   (0xffffffd, 28), (0x7ffffe3, 27), (0x7ffffe4, 27), (0x7ffffe5, 27),
   (0xfffec, 20), (0xfffff3, 24), (0xfffed, 20), (0x1fffe6, 21),
   (0x3fffe9, 22), (0x1fffe7, 21), (0x1fffe8, 21), (0x7ffff3, 23),
   (0x3fffea, 22), (0x3fffeb, 22), (0x1ffffee, 25), (0x1ffffef, 25),
   (0xfffff4, 24), (0xfffff5, 24), (0x3ffffea, 26), (0x7ffff4, 23),
   (0x3ffffeb, 26), (0x7ffffe6, 27), (0x3ffffec, 26), (0x3ffffed, 26),
   (0x7ffffe7, 27), (0x7ffffe8, 27), (0x7ffffe9, 27), (0x7ffffea, 27),
   (0x7ffffeb, 27), (0xffffffe, 28), (0x7ffffec, 27), (0x7ffffed, 27),
   (0x7ffffee, 27), (0x7ffffef, 27), (0x7fffff0, 27), (0x3ffffee, 26),
   (0x3fffffff, 30)
  ]"

section \<open>The node vector\<close>

record huffman_node =
  hn_child0 :: int
  hn_child1 :: int
  hn_symbol :: int

definition empty_node :: huffman_node where
  "empty_node = \<lparr>hn_child0 = -1, hn_child1 = -1, hn_symbol = -1\<rparr>"

definition hn_child :: "huffman_node \<Rightarrow> bool \<Rightarrow> int" where
  "hn_child n b = (if b then hn_child1 n else hn_child0 n)"

definition set_child :: "huffman_node \<Rightarrow> bool \<Rightarrow> int \<Rightarrow> huffman_node" where
  "set_child n b v = (if b then n\<lparr>hn_child1 := v\<rparr> else n\<lparr>hn_child0 := v\<rparr>)"

text \<open>The bits of a code word, from the most significant one; the inner loop over \<open>bit_index\<close>.\<close>

definition code_bits :: "huffman_code \<Rightarrow> bool list" where
  "code_bits c = map (\<lambda>bit_index. drop_bit (snd c - bit_index - 1) (fst c) AND 1 = 1) [0..<snd c]"

fun insert_path :: "huffman_node list \<Rightarrow> nat \<Rightarrow> bool list \<Rightarrow> huffman_node list \<times> nat" where
  "insert_path nodes node [] = (nodes, node)"
| "insert_path nodes node (b # bs) =
     (let nodes' = (if hn_child (nodes ! node) b < 0
                    then nodes [node := set_child (nodes ! node) b (int (length nodes))] @ [empty_node]
                    else nodes)
      in insert_path nodes' (nat (hn_child (nodes' ! node) b)) bs)"

fun insert_symbols :: "huffman_node list \<Rightarrow> nat \<Rightarrow> huffman_code list \<Rightarrow> (huffman_node list) result" where
  "insert_symbols nodes symbol [] = Inr nodes"
| "insert_symbols nodes symbol (c # cs) =
     (case insert_path nodes 0 (code_bits c) of
        (nodes', node) \<Rightarrow>
          if hn_symbol (nodes' ! node) \<ge> 0 then Inl ''duplicate HPACK Huffman code''
          else insert_symbols (nodes' [node := (nodes' ! node)\<lparr>hn_symbol := int symbol\<rparr>]) (Suc symbol) cs)"

definition build_huffman_tree :: "(huffman_node list) result" where
  "build_huffman_tree = insert_symbols [empty_node] 0 huffman_table"

section \<open>The decoder\<close>

record huffman_state =
  hs_node :: nat
  hs_pending_code :: u32
  hs_pending_bits :: nat
  hs_output :: string

definition huffman_start :: huffman_state where
  "huffman_start = \<lparr>hs_node = 0, hs_pending_code = 0, hs_pending_bits = 0, hs_output = []\<rparr>"

definition huffman_bit :: "huffman_node list \<Rightarrow> huffman_state \<Rightarrow> bool \<Rightarrow> huffman_state result" where
  "huffman_bit tree s b =
     (let next = hn_child (tree ! hs_node s) b in
      if next < 0 then Inl ''invalid HPACK Huffman code''
      else
        let node = nat next;
            s' = s\<lparr>hs_node := node, hs_pending_code := push_bit 1 (hs_pending_code s) OR of_bool b,
                   hs_pending_bits := hs_pending_bits s + 1\<rparr>
        in if hn_symbol (tree ! node) \<ge> 0
           then (if hn_symbol (tree ! node) = 256
                 then Inl ''HPACK Huffman EOS symbol is not allowed in string data''
                 else Inr (s'\<lparr>hs_output := hs_output s @ [char_of (nat (hn_symbol (tree ! node)))],
                              hs_node := 0, hs_pending_code := 0, hs_pending_bits := 0\<rparr>))
           else Inr s')"

fun huffman_bits :: "huffman_node list \<Rightarrow> huffman_state \<Rightarrow> bool list \<Rightarrow> huffman_state result" where
  "huffman_bits tree s [] = Inr s"
| "huffman_bits tree s (b # bs) = r_bind (huffman_bit tree s b) (\<lambda>s'. huffman_bits tree s' bs)"

text \<open>The bits of a byte, \<open>bit_index\<close> running from 7 down to 0.\<close>

definition byte_bits :: "char \<Rightarrow> bool list" where
  "byte_bits c = map (\<lambda>bit_index. drop_bit bit_index (byte_of_char c) AND 1 = 1) [7, 6, 5, 4, 3, 2, 1, 0]"

definition huffman_finish :: "huffman_state \<Rightarrow> string result" where
  "huffman_finish s =
     (if hs_pending_bits s \<noteq> 0 \<and>
         (hs_pending_bits s > 7 \<or> hs_pending_code s \<noteq> push_bit (hs_pending_bits s) 1 - 1)
      then Inl ''invalid HPACK Huffman padding''
      else Inr (hs_output s))"

definition hpack_decode_huffman :: "string \<Rightarrow> string result" where
  "hpack_decode_huffman encoded =
     r_bind build_huffman_tree (\<lambda>tree.
       r_bind (huffman_bits tree huffman_start (concat (map byte_bits encoded))) huffman_finish)"

section \<open>The table is a prefix code\<close>

text \<open>A set of code words as a binary trie; inserting a word fails when it is comparable with a
  word already there. Evaluating the insertions of the whole table is the check that the table is
  a prefix code.\<close>

datatype code_trie = Empty | Stop | Fork code_trie code_trie

fun trie_words :: "code_trie \<Rightarrow> bool list set" where
  "trie_words Empty = {}"
| "trie_words Stop = {[]}"
| "trie_words (Fork l r) = Cons False ` trie_words l \<union> Cons True ` trie_words r"

fun trie_insert :: "bool list \<Rightarrow> code_trie \<Rightarrow> code_trie option" where
  "trie_insert [] Empty = Some Stop"
| "trie_insert [] t = None"
| "trie_insert (b # bs) Stop = None"
| "trie_insert (b # bs) Empty = map_option (\<lambda>t. if b then Fork Empty t else Fork t Empty) (trie_insert bs Empty)"
| "trie_insert (b # bs) (Fork l r) =
     (if b then map_option (Fork l) (trie_insert bs r) else map_option (\<lambda>t. Fork t r) (trie_insert bs l))"

fun trie_insert_all :: "bool list list \<Rightarrow> code_trie \<Rightarrow> code_trie option" where
  "trie_insert_all [] t = Some t"
| "trie_insert_all (w # ws) t = Option.bind (trie_insert w t) (trie_insert_all ws)"

definition comparable :: "bool list \<Rightarrow> bool list \<Rightarrow> bool" where
  "comparable p q \<longleftrightarrow> prefix p q \<or> prefix q p"

lemma comparable_Cons [simp]:
  "comparable (a # p) (b # q) \<longleftrightarrow> a = b \<and> comparable p q"
  by (auto simp: comparable_def)

lemma trie_insert_words:
  "trie_insert w t = Some t' \<Longrightarrow>
    trie_words t' = insert w (trie_words t) \<and> (\<forall>q \<in> trie_words t. \<not> comparable w q)"
  by (induction w t arbitrary: t' rule: trie_insert.induct) (auto split: if_splits)

lemma trie_insert_all_words:
  "trie_insert_all ws t = Some t' \<Longrightarrow>
    (\<forall>w \<in> set ws. \<forall>q \<in> trie_words t. \<not> comparable w q) \<and>
    (\<forall>i j. i < j \<and> j < length ws \<longrightarrow> \<not> comparable (ws ! j) (ws ! i))"
proof (induction ws arbitrary: t)
  case (Cons w ws)
  then obtain t1 where t1: "trie_insert w t = Some t1" and r: "trie_insert_all ws t1 = Some t'"
    by (auto simp: bind_eq_Some_conv)
  note step = trie_insert_words [OF t1] and IH = Cons.IH [OF r]
  have "\<not> comparable ((w # ws) ! j) ((w # ws) ! i)" if "i < j" "j < length (w # ws)" for i j
    using that step IH by (cases j; cases i) auto
  with step IH show ?case by auto
qed simp

lemma huffman_table_checked:
  "case trie_insert_all (map code_bits huffman_table) Empty of None \<Rightarrow> False | Some t \<Rightarrow> True"
  by code_simp

lemma huffman_table_facts:
  "length huffman_table = 257"
  "list_all (\<lambda>c. snd c \<noteq> 0 \<and> snd c \<le> 30) huffman_table"
  "code_bits (huffman_table ! 256) = replicate 30 True"
  by code_simp+

definition symbol_code :: "nat \<Rightarrow> bool list" where
  "symbol_code s = code_bits (huffman_table ! s)"

lemma symbol_code_incomparable:
  assumes "s < 257" "t < 257" "s \<noteq> t"
  shows "\<not> comparable (symbol_code s) (symbol_code t)"
proof -
  obtain t' where "trie_insert_all (map code_bits huffman_table) Empty = Some t'"
    using huffman_table_checked by (auto split: option.splits)
  note * = trie_insert_all_words [OF this, THEN conjunct2, rule_format]
  have "\<not> comparable (symbol_code j) (symbol_code i)" if "i < j" "j < 257" for i j
    using * [of i j] that by (simp add: symbol_code_def huffman_table_facts)
  with assms show ?thesis by (metis comparable_def nat_neq_iff)
qed

lemma symbol_code_prefix_iff:
  "s < 257 \<Longrightarrow> t < 257 \<Longrightarrow> prefix (symbol_code s) (symbol_code t) \<longleftrightarrow> s = t"
  using symbol_code_incomparable by (auto simp: comparable_def)

lemma symbol_code_eq_iff: "s < 257 \<Longrightarrow> t < 257 \<Longrightarrow> symbol_code s = symbol_code t \<longleftrightarrow> s = t"
  using symbol_code_prefix_iff [of s t] by auto

lemma symbol_code_length: "s < 257 \<Longrightarrow> 0 < length (symbol_code s) \<and> length (symbol_code s) \<le> 30"
  using huffman_table_facts(2) [unfolded list_all_length, rule_format, of s]
  by (simp add: symbol_code_def code_bits_def huffman_table_facts(1))

lemma symbol_code_EOS: "symbol_code 256 = replicate 30 True"
  using huffman_table_facts(3) unfolding symbol_code_def .

section \<open>The node vector represents the code words\<close>

text \<open>\<open>paths\<close> gives each node the bits that lead to it. Child indices agree with the paths.\<close>

definition tree_inv :: "huffman_node list \<Rightarrow> bool list list \<Rightarrow> bool" where
  "tree_inv nodes paths \<longleftrightarrow>
     length nodes = length paths \<and> paths \<noteq> [] \<and> paths ! 0 = [] \<and> distinct paths \<and>
     (\<forall>n < length nodes. \<forall>b.
        if hn_child (nodes ! n) b < 0 then paths ! n @ [b] \<notin> set paths
        else nat (hn_child (nodes ! n) b) < length nodes \<and>
             paths ! nat (hn_child (nodes ! n) b) = paths ! n @ [b])"

lemma tree_inv_child:
  assumes "tree_inv nodes paths" "n < length nodes"
  shows "hn_child (nodes ! n) b < 0 \<longleftrightarrow> paths ! n @ [b] \<notin> set paths"
    and "0 \<le> hn_child (nodes ! n) b \<Longrightarrow> nat (hn_child (nodes ! n) b) < length nodes \<and>
           paths ! nat (hn_child (nodes ! n) b) = paths ! n @ [b]"
proof -
  have *: "if hn_child (nodes ! n) b < 0 then paths ! n @ [b] \<notin> set paths
    else nat (hn_child (nodes ! n) b) < length nodes \<and>
         paths ! nat (hn_child (nodes ! n) b) = paths ! n @ [b]"
    and l: "length nodes = length paths"
    using assms unfolding tree_inv_def by blast+
  show "hn_child (nodes ! n) b < 0 \<longleftrightarrow> paths ! n @ [b] \<notin> set paths"
    using * l by (metis nth_mem)
  show "0 \<le> hn_child (nodes ! n) b \<Longrightarrow> nat (hn_child (nodes ! n) b) < length nodes \<and>
           paths ! nat (hn_child (nodes ! n) b) = paths ! n @ [b]"
    using * by simp
qed

lemma tree_inv_root:
  assumes "tree_inv nodes paths"
  shows "length nodes = length paths" "paths ! 0 = []" "0 < length nodes" "distinct paths"
  using assms unfolding tree_inv_def by auto

lemma hn_child_set_child: "hn_child (set_child n b v) b' = (if b' = b then v else hn_child n b')"
  by (auto simp: hn_child_def set_child_def)

lemma hn_symbol_set_child [simp]: "hn_symbol (set_child n b v) = hn_symbol n"
  by (simp add: set_child_def)

lemma hn_child_empty [simp]: "hn_child empty_node b = - 1" "hn_symbol empty_node = - 1"
  by (simp_all add: hn_child_def empty_node_def)

definition add_child :: "huffman_node list \<Rightarrow> nat \<Rightarrow> bool \<Rightarrow> huffman_node list" where
  "add_child nodes node b = nodes [node := set_child (nodes ! node) b (int (length nodes))] @ [empty_node]"

text \<open>Appending a child keeps the invariant when no node has the new path and no node lies below
  it; the latter follows from prefix closedness.\<close>

definition prefix_closed :: "bool list list \<Rightarrow> bool" where
  "prefix_closed paths \<longleftrightarrow> (\<forall>p b. p @ [b] \<in> set paths \<longrightarrow> p \<in> set paths)"

lemma tree_inv_add_child:
  assumes inv: "tree_inv nodes paths" and pc: "prefix_closed paths" and n: "node < length nodes"
    and new: "paths ! node @ [b] \<notin> set paths"
  shows "tree_inv (add_child nodes node b) (paths @ [paths ! node @ [b]])"
proof -
  let ?N = "add_child nodes node b" and ?p = "paths ! node @ [b]"
  let ?P = "paths @ [?p]"
  have len: "length nodes = length paths" and pne: "paths \<noteq> []" and d: "distinct paths"
    and p0: "paths ! 0 = []"
    using inv by (auto simp: tree_inv_def)
  have low: "?P ! i = paths ! i" if "i < length nodes" for i
    using that len by (simp add: nth_append)
  have "if hn_child (?N ! i) c < 0 then ?P ! i @ [c] \<notin> set ?P
        else nat (hn_child (?N ! i) c) < length ?N \<and> ?P ! nat (hn_child (?N ! i) c) = ?P ! i @ [c]"
    if i: "i < length ?N" for i c
  proof (cases "i = length nodes")
    case True
    have "?p @ [c] \<notin> set paths" using pc new unfolding prefix_closed_def by blast
    with True len show ?thesis by (simp add: add_child_def nth_append)
  next
    case False
    with i have il: "i < length nodes" by (simp add: add_child_def)
    show ?thesis
    proof (cases "i = node \<and> c = b")
      case True
      with n len show ?thesis by (simp add: add_child_def nth_append hn_child_set_child)
    next
      case False
      then have "hn_child (?N ! i) c = hn_child (nodes ! i) c"
        using il by (cases "i = node") (auto simp: add_child_def nth_append hn_child_set_child)
      moreover have "paths ! i @ [c] \<noteq> ?p"
        using False il n len d by (auto simp: nth_eq_iff_index_eq)
      ultimately show ?thesis
        using tree_inv_child [OF inv il, of c] il low by (auto simp: add_child_def)
    qed
  qed
  moreover have "length ?N = length ?P" "?P ! 0 = []" "distinct ?P"
    using len pne p0 d new by (simp_all add: add_child_def nth_append)
  ultimately show ?thesis unfolding tree_inv_def by blast
qed

lemma prefix_closed_add:
  "prefix_closed paths \<Longrightarrow> p \<in> set paths \<Longrightarrow> prefix_closed (paths @ [p @ [b]])"
  by (auto simp: prefix_closed_def)

lemma insert_path_Cons:
  "insert_path nodes node (b # bs) =
    (if hn_child (nodes ! node) b < 0
     then insert_path (add_child nodes node b) (nat (hn_child (add_child nodes node b ! node) b)) bs
     else insert_path nodes (nat (hn_child (nodes ! node) b)) bs)"
  by (simp add: add_child_def Let_def)

declare insert_path.simps(2) [simp del]

lemma insert_path_inv:
  assumes "tree_inv nodes paths" "prefix_closed paths" "node < length nodes"
    and "insert_path nodes node bs = (nodes', node')"
  shows "\<exists>paths'. tree_inv nodes' paths' \<and> prefix_closed paths' \<and> node' < length nodes' \<and>
    paths' ! node' = paths ! node @ bs \<and> prefix paths paths' \<and>
    set paths' = set paths \<union> {paths ! node @ p |p. prefix p bs} \<and>
    (\<forall>i < length nodes'. hn_symbol (nodes' ! i) =
        (if i < length nodes then hn_symbol (nodes ! i) else - 1))"
  using assms
proof (induction bs arbitrary: nodes node paths)
  case Nil
  have "paths ! node \<in> set paths" using Nil by (simp add: tree_inv_def)
  with Nil show ?case by (intro exI [of _ paths]) auto
next
  case (Cons b bs)
  note inv = Cons.prems(1) and pc = Cons.prems(2) and n = Cons.prems(3)
  have pn: "paths ! node \<in> set paths" and len: "length nodes = length paths"
    using inv n by (auto simp: tree_inv_def)
  have ext: "{q @ p |p. prefix p (b # bs)} = insert q {(q @ [b]) @ p |p. prefix p bs}" for q
    by (auto simp: prefix_Cons)
  show ?case
  proof (cases "hn_child (nodes ! node) b < 0")
    case True
    let ?N = "add_child nodes node b" and ?P = "paths @ [paths ! node @ [b]]"
    have new: "paths ! node @ [b] \<notin> set paths" using tree_inv_child(1) [OF inv n] True by simp
    have c: "nat (hn_child (?N ! node) b) = length nodes"
      using n by (simp add: add_child_def nth_append hn_child_set_child)
    have l: "length nodes < length ?N" by (simp add: add_child_def)
    have run: "insert_path ?N (length nodes) bs = (nodes', node')"
      using Cons.prems(4) True c by (simp add: insert_path_Cons)
    obtain paths' where IH: "tree_inv nodes' paths'" "prefix_closed paths'" "node' < length nodes'"
      "paths' ! node' = ?P ! length nodes @ bs" "prefix ?P paths'"
      "set paths' = set ?P \<union> {?P ! length nodes @ p |p. prefix p bs}"
      "\<forall>i < length nodes'. hn_symbol (nodes' ! i) = (if i < length ?N then hn_symbol (?N ! i) else - 1)"
      using Cons.IH [OF tree_inv_add_child [OF inv pc n new] prefix_closed_add [OF pc pn] l run]
      by blast
    have "hn_symbol (?N ! i) = (if i < length nodes then hn_symbol (nodes ! i) else - 1)"
      if "i < length ?N" for i
      using that n by (auto simp: add_child_def nth_append nth_list_update)
    then have sym: "\<forall>i < length nodes'. hn_symbol (nodes' ! i) =
        (if i < length nodes then hn_symbol (nodes ! i) else - 1)"
      using IH(7) l by (metis order_less_trans)
    have last: "?P ! length nodes = paths ! node @ [b]" using len by simp
    have "prefix paths paths'" using IH(5) by (metis append_prefixD)
    moreover have "set paths' = set paths \<union> {paths ! node @ p |p. prefix p (b # bs)}"
      unfolding ext IH(6) last using pn by auto
    moreover have "paths' ! node' = paths ! node @ b # bs" using IH(4) last by simp
    ultimately show ?thesis using IH(1,2,3) sym by blast
  next
    case False
    then have c: "nat (hn_child (nodes ! node) b) < length nodes"
      "paths ! nat (hn_child (nodes ! node) b) = paths ! node @ [b]"
      using tree_inv_child(2) [OF inv n, of b] by auto
    have run: "insert_path nodes (nat (hn_child (nodes ! node) b)) bs = (nodes', node')"
      using Cons.prems(4) False by (simp add: insert_path_Cons)
    from Cons.IH [OF inv pc c(1) run] c(2) ext [of "paths ! node"] pn show ?thesis
      by (auto simp: insert_absorb)
  qed
qed

text \<open>After the first \<open>k\<close> symbols: the paths are the prefixes of their codes, and a node carries a
  symbol exactly when its path is that symbol's code.\<close>

definition tree_codes :: "huffman_node list \<Rightarrow> bool list list \<Rightarrow> nat \<Rightarrow> bool" where
  "tree_codes nodes paths k \<longleftrightarrow>
     tree_inv nodes paths \<and> prefix_closed paths \<and>
     set paths = insert [] {p. \<exists>s < k. prefix p (symbol_code s)} \<and>
     (\<forall>i < length nodes. \<forall>s < k. paths ! i = symbol_code s \<longrightarrow> hn_symbol (nodes ! i) = int s) \<and>
     (\<forall>i < length nodes. (\<forall>s < k. paths ! i \<noteq> symbol_code s) \<longrightarrow> hn_symbol (nodes ! i) = - 1)"

lemma tree_inv_symbol:
  assumes "tree_inv nodes paths"
  shows "tree_inv (nodes [n := (nodes ! n)\<lparr>hn_symbol := v\<rparr>]) paths"
proof -
  have "hn_child (nodes [n := (nodes ! n)\<lparr>hn_symbol := v\<rparr>] ! i) b = hn_child (nodes ! i) b"
    if "i < length nodes" for i b
    using that by (cases "i = n") (simp_all add: hn_child_def)
  note same = this
  show ?thesis
    unfolding tree_inv_def length_list_update
    using assms same unfolding tree_inv_def by metis
qed

lemma insert_symbol_step:
  assumes tc: "tree_codes nodes paths k" and k: "k < 257"
    and ins: "insert_path nodes 0 (symbol_code k) = (nodes', node)"
  shows "hn_symbol (nodes' ! node) = - 1 \<and>
    (\<exists>paths'. tree_codes (nodes' [node := (nodes' ! node)\<lparr>hn_symbol := int k\<rparr>]) paths' (Suc k))"
proof -
  let ?N = "nodes' [node := (nodes' ! node)\<lparr>hn_symbol := int k\<rparr>]"
  have inv: "tree_inv nodes paths" and pc: "prefix_closed paths"
    and ps: "set paths = insert [] {p. \<exists>s < k. prefix p (symbol_code s)}"
    and sy: "\<And>i s. i < length nodes \<Longrightarrow> s < k \<Longrightarrow> paths ! i = symbol_code s \<Longrightarrow> hn_symbol (nodes ! i) = int s"
    and no: "\<And>i. i < length nodes \<Longrightarrow> (\<And>s. s < k \<Longrightarrow> paths ! i \<noteq> symbol_code s) \<Longrightarrow> hn_symbol (nodes ! i) = - 1"
    using tc unfolding tree_codes_def by blast+
  note l = tree_inv_root(1) [OF inv] and root = tree_inv_root(2,3) [OF inv]
  obtain paths' where P: "tree_inv nodes' paths'" "prefix_closed paths'" "node < length nodes'"
    "paths' ! node = paths ! 0 @ symbol_code k" "prefix paths paths'"
    "set paths' = set paths \<union> {paths ! 0 @ p |p. prefix p (symbol_code k)}"
    "\<And>i. i < length nodes' \<Longrightarrow> hn_symbol (nodes' ! i) = (if i < length nodes then hn_symbol (nodes ! i) else - 1)"
    using insert_path_inv [OF inv pc root(2) ins] by blast
  have pn: "paths' ! node = symbol_code k" using P(4) root by simp
  have l': "length nodes' = length paths'" "distinct paths'" using tree_inv_root [OF P(1)] by simp_all
  have old: "paths' ! i = paths ! i" if "i < length nodes" for i
    using P(5) that l by (auto simp: prefix_def nth_append)
  have sym: "hn_symbol (nodes' ! i) = (if i < length nodes \<and> (\<exists>s < k. paths' ! i = symbol_code s)
       then hn_symbol (nodes ! i) else - 1)" if "i < length nodes'" for i
    using P(7) [OF that] no [of i] old [of i] by (cases "\<exists>s < k. paths' ! i = symbol_code s") auto
  have known: "i < length nodes" if i: "i < length nodes'" and s: "s < k" "paths' ! i = symbol_code s" for i s
  proof -
    have "symbol_code s \<in> set paths" using s ps by blast
    then obtain j where j: "j < length nodes" "paths ! j = symbol_code s"
      using l by (auto simp: in_set_conv_nth)
    have "j < length nodes'" using j(1) P(5) l l'(1) by (auto simp: prefix_def)
    with j old [of j] s i l' have "i = j" by (metis nth_eq_iff_index_eq)
    with j show ?thesis by simp
  qed
  have free: "hn_symbol (nodes' ! node) = - 1"
    using sym [OF P(3)] pn k symbol_code_eq_iff by auto
  have only: "i = node" if "i < length nodes'" "paths' ! i = symbol_code k" for i
    using that pn P(3) l' by (metis nth_eq_iff_index_eq)
  have "\<forall>i < length ?N. \<forall>s < Suc k. paths' ! i = symbol_code s \<longrightarrow> hn_symbol (?N ! i) = int s"
  proof (intro allI impI)
    fix i s assume i: "i < length ?N" and s: "s < Suc k" "paths' ! i = symbol_code s"
    show "hn_symbol (?N ! i) = int s"
    proof (cases "s = k")
      case True
      with only s i P(3) show ?thesis by simp
    next
      case False
      then have sk: "s < k" using s(1) by simp
      have i': "i < length nodes'" using i by simp
      have "i \<noteq> node" using s(2) False k sk pn symbol_code_eq_iff [of s k] by auto
      then have "hn_symbol (?N ! i) = hn_symbol (nodes' ! i)" by simp
      also have "\<dots> = hn_symbol (nodes ! i)"
        using P(7) [OF i'] known [OF i' sk s(2)] by simp
      also have "\<dots> = int s"
        using known [OF i' sk s(2)] sy [OF _ sk] old s(2) by simp
      finally show ?thesis .
    qed
  qed
  moreover have "\<forall>i < length ?N. (\<forall>s < Suc k. paths' ! i \<noteq> symbol_code s) \<longrightarrow> hn_symbol (?N ! i) = - 1"
  proof (intro allI impI)
    fix i assume i: "i < length ?N" and none: "\<forall>s < Suc k. paths' ! i \<noteq> symbol_code s"
    then have "i \<noteq> node" using pn by auto
    have "\<not> (\<exists>s < k. paths' ! i = symbol_code s)" using none by (meson less_SucI)
    then have "hn_symbol (nodes' ! i) = - 1" using i sym [of i] by (auto split: if_splits)
    with \<open>i \<noteq> node\<close> show "hn_symbol (?N ! i) = - 1" by simp
  qed
  moreover have "set paths' = insert [] {p. \<exists>s < Suc k. prefix p (symbol_code s)}"
    unfolding P(6) ps using root by (auto simp: less_Suc_eq)
  ultimately have "tree_codes ?N paths' (Suc k)"
    using tree_inv_symbol [OF P(1)] P(2) unfolding tree_codes_def by blast
  with free show ?thesis by blast
qed

lemma insert_symbols_codes:
  assumes "tree_codes nodes paths k" "cs = drop k huffman_table" "k \<le> 257"
  shows "\<exists>nodes' paths'. insert_symbols nodes k cs = Inr nodes' \<and> tree_codes nodes' paths' 257"
  using assms
proof (induction cs arbitrary: nodes paths k)
  case Nil
  then have "k = 257" using huffman_table_facts(1) by simp
  with Nil show ?case by auto
next
  case (Cons c cs)
  then have k: "k < length huffman_table"
    by (metis drop_eq_Nil linorder_not_less list.distinct(1))
  with Cons.prems(2) have c: "c = huffman_table ! k" "cs = drop (Suc k) huffman_table"
    by (metis Cons_nth_drop_Suc list.inject)+
  then have code: "code_bits c = symbol_code k" by (simp add: symbol_code_def)
  obtain nodes' node where ins: "insert_path nodes 0 (symbol_code k) = (nodes', node)"
    by (cases "insert_path nodes 0 (symbol_code k)")
  have k': "k < 257" using k huffman_table_facts(1) by simp
  obtain paths' where free: "hn_symbol (nodes' ! node) = - 1"
    and tc: "tree_codes (nodes' [node := (nodes' ! node)\<lparr>hn_symbol := int k\<rparr>]) paths' (Suc k)"
    using insert_symbol_step [OF Cons.prems(1) k' ins] by blast
  from Cons.IH [OF tc c(2)] k' free show ?case by (simp add: code ins)
qed

lemma tree_codes_empty: "tree_codes [empty_node] [[]] 0"
  by (auto simp: tree_codes_def tree_inv_def prefix_closed_def)

text \<open>The constructor of the static tree never throws \<open>duplicate HPACK Huffman code\<close>.\<close>

lemma build_huffman_tree_ok:
  "\<exists>nodes paths. build_huffman_tree = Inr nodes \<and> tree_codes nodes paths 257"
  unfolding build_huffman_tree_def
  by (rule insert_symbols_codes [OF tree_codes_empty]) simp_all

section \<open>What the decoder accepts\<close>

text \<open>The pending bits as the machine word the decoder keeps.\<close>

definition bits_word :: "bool list \<Rightarrow> u32" where
  "bits_word p = foldl (\<lambda>w b. push_bit 1 w OR of_bool b) 0 p"

lemma bits_word_snoc: "bits_word (p @ [b]) = push_bit 1 (bits_word p) OR of_bool b"
  by (simp add: bits_word_def)

lemma bit_bits_word:
  "length p \<le> 32 \<Longrightarrow> bit (bits_word p) i \<longleftrightarrow> i < length p \<and> p ! (length p - 1 - i)"
proof (induction p arbitrary: i rule: rev_induct)
  case Nil
  then show ?case by (simp add: bits_word_def)
next
  case (snoc b p)
  have step: "bit (bits_word (p @ [b])) i \<longleftrightarrow>
      0 < i \<and> i < 32 \<and> bit (bits_word p) (i - 1) \<or> i = 0 \<and> b"
    unfolding bits_word_snoc bit_or_iff bit_push_bit_iff
    by (cases b) (auto simp: bit_1_iff possible_bit_word)
  show ?case
  proof (cases i)
    case 0
    with step show ?thesis by (simp add: nth_append)
  next
    case (Suc j)
    with snoc.IH [of j] snoc.prems step show ?thesis by (auto simp: nth_append)
  qed
qed

lemma bits_word_ones_iff:
  assumes "length p \<le> 32"
  shows "bits_word p = push_bit (length p) 1 - 1 \<longleftrightarrow> p = replicate (length p) True"
proof -
  have mask: "push_bit (length p) (1 :: u32) - 1 = mask (length p)"
    by (simp add: mask_eq_exp_minus_1)
  have "bits_word p = mask (length p) \<longleftrightarrow> (\<forall>i < length p. p ! (length p - 1 - i))"
  proof
    assume eq: "bits_word p = mask (length p)"
    show "\<forall>i < length p. p ! (length p - 1 - i)"
    proof (intro allI impI)
      fix i assume "i < length p"
      then have "bit (mask (length p) :: u32) i" using assms by (simp add: bit_mask_iff possible_bit_word)
      then show "p ! (length p - 1 - i)" using bit_bits_word [OF assms, of i] eq by simp
    qed
  qed (auto intro!: bit_word_eqI simp: bit_bits_word [OF assms] bit_mask_iff possible_bit_word)
  also have "\<dots> \<longleftrightarrow> (\<forall>i < length p. p ! i)"
    using all_set_conv_all_nth [of "rev p" "\<lambda>b. b"] all_set_conv_all_nth [of p "\<lambda>b. b"]
    by (simp add: rev_nth)
  also have "\<dots> \<longleftrightarrow> p = replicate (length p) True"
    by (metis (full_types) length_replicate nth_equalityI nth_replicate)
  finally show ?thesis by (simp only: mask)
qed

text \<open>The decoder has written the texts of \<open>syms\<close> and has read the further bits \<open>p\<close>.\<close>

definition decoding :: "bool list list \<Rightarrow> huffman_state \<Rightarrow> nat list \<Rightarrow> bool list \<Rightarrow> bool" where
  "decoding paths st syms p \<longleftrightarrow>
     hs_node st < length paths \<and> paths ! hs_node st = p \<and> hs_pending_code st = bits_word p \<and>
     hs_pending_bits st = length p \<and> hs_output st = map char_of syms"

lemma tree_codes_symbol:
  assumes "tree_codes nodes paths 257" "i < length nodes"
  shows "s < 257 \<Longrightarrow> hn_symbol (nodes ! i) = int s \<longleftrightarrow> paths ! i = symbol_code s"
    and "hn_symbol (nodes ! i) < 0 \<longleftrightarrow> paths ! i \<notin> symbol_code ` {..< 257}"
proof -
  have a: "\<And>s. s < 257 \<Longrightarrow> paths ! i = symbol_code s \<Longrightarrow> hn_symbol (nodes ! i) = int s"
    and b: "(\<And>s. s < 257 \<Longrightarrow> paths ! i \<noteq> symbol_code s) \<Longrightarrow> hn_symbol (nodes ! i) = - 1"
    using assms unfolding tree_codes_def by blast+
  show "s < 257 \<Longrightarrow> hn_symbol (nodes ! i) = int s \<longleftrightarrow> paths ! i = symbol_code s"
  proof (cases "\<exists>t < 257. paths ! i = symbol_code t")
    case True
    then obtain t where t: "t < 257" "paths ! i = symbol_code t" by blast
    then have "hn_symbol (nodes ! i) = int t" by (rule a)
    then show "s < 257 \<Longrightarrow> ?thesis" using t symbol_code_eq_iff [of t s] by auto
  next
    case False
    then have "hn_symbol (nodes ! i) = - 1" by (intro b) auto
    with False show "s < 257 \<Longrightarrow> ?thesis" by auto
  qed
  show "hn_symbol (nodes ! i) < 0 \<longleftrightarrow> paths ! i \<notin> symbol_code ` {..< 257}"
  proof (cases "\<exists>s < 257. paths ! i = symbol_code s")
    case True
    then obtain s where s: "s < 257" "paths ! i = symbol_code s" by blast
    then have "hn_symbol (nodes ! i) = int s" by (rule a)
    moreover have "paths ! i \<in> symbol_code ` {..< 257}" using s by auto
    ultimately show ?thesis by simp
  next
    case False
    then have "hn_symbol (nodes ! i) = - 1" by (intro b) auto
    with False show ?thesis by auto
  qed
qed

text \<open>One bit, on the code words instead of the node vector.\<close>

lemma huffman_bit_cases:
  assumes tc: "tree_codes nodes paths 257" and d: "decoding paths st syms p"
  shows "p @ [b] \<notin> set paths \<Longrightarrow> huffman_bit nodes st b = Inl ''invalid HPACK Huffman code''"
    and "p @ [b] = symbol_code 256 \<Longrightarrow>
      huffman_bit nodes st b = Inl ''HPACK Huffman EOS symbol is not allowed in string data''"
    and "s < 256 \<Longrightarrow> p @ [b] = symbol_code s \<Longrightarrow>
      \<exists>st'. huffman_bit nodes st b = Inr st' \<and> decoding paths st' (syms @ [s]) []"
    and "p @ [b] \<in> set paths \<Longrightarrow> p @ [b] \<notin> symbol_code ` {..< 257} \<Longrightarrow>
      \<exists>st'. huffman_bit nodes st b = Inr st' \<and> decoding paths st' syms (p @ [b])"
proof -
  have inv: "tree_inv nodes paths" and ps: "set paths = insert [] {p. \<exists>s < 257. prefix p (symbol_code s)}"
    using tc unfolding tree_codes_def by blast+
  note root = tree_inv_root [OF inv]
  let ?c = "hn_child (nodes ! hs_node st) b"
  have n: "hs_node st < length nodes" "paths ! hs_node st = p" using d root by (auto simp: decoding_def)
  have neg: "?c < 0 \<longleftrightarrow> p @ [b] \<notin> set paths" using tree_inv_child(1) [OF inv n(1)] n(2) by simp
  have child: "nat ?c < length nodes" "paths ! nat ?c = p @ [b]" if "p @ [b] \<in> set paths"
    using tree_inv_child(2) [OF inv n(1), of b] n(2) neg that by auto
  have sym: "hn_symbol (nodes ! nat ?c) = int s \<longleftrightarrow> p @ [b] = symbol_code s"
    if "p @ [b] \<in> set paths" "s < 257" for s
    using tree_codes_symbol(1) [OF tc child(1) [OF that(1)] that(2)] child(2) [OF that(1)] by simp
  have nosym: "hn_symbol (nodes ! nat ?c) < 0 \<longleftrightarrow> p @ [b] \<notin> symbol_code ` {..< 257}"
    if "p @ [b] \<in> set paths"
    using tree_codes_symbol(2) [OF tc child(1) [OF that]] child(2) [OF that] by simp
  have mem: "p @ [b] \<in> set paths" if "s < 257" "p @ [b] = symbol_code s" for s
    using that ps by auto
  show "p @ [b] \<notin> set paths \<Longrightarrow> huffman_bit nodes st b = Inl ''invalid HPACK Huffman code''"
    by (simp add: huffman_bit_def neg)
  show "huffman_bit nodes st b = Inl ''HPACK Huffman EOS symbol is not allowed in string data''"
    if "p @ [b] = symbol_code 256"
    using mem [of 256] sym [of 256] neg that by (simp add: huffman_bit_def Let_def)
  show "\<exists>st'. huffman_bit nodes st b = Inr st' \<and> decoding paths st' (syms @ [s]) []"
    if "s < 256" "p @ [b] = symbol_code s"
    using mem [of s] sym [of s] neg that d root
    by (simp add: huffman_bit_def Let_def decoding_def bits_word_def)
  show "\<exists>st'. huffman_bit nodes st b = Inr st' \<and> decoding paths st' syms (p @ [b])"
    if "p @ [b] \<in> set paths" "p @ [b] \<notin> symbol_code ` {..< 257}"
    using that nosym child neg d root
    by (simp add: huffman_bit_def Let_def decoding_def bits_word_snoc)
qed

lemma huffman_bits_append:
  "huffman_bits tree s (xs @ ys) = r_bind (huffman_bits tree s xs) (\<lambda>s'. huffman_bits tree s' ys)"
  by (induction xs arbitrary: s) (simp_all add: r_bind_def split: sum.splits)

text \<open>The states the decoder can be in: texts already written, and a proper prefix of a code.\<close>

definition proper :: "bool list list \<Rightarrow> bool list \<Rightarrow> bool" where
  "proper paths p \<longleftrightarrow> p \<in> set paths \<and> p \<notin> symbol_code ` {..< 257}"

abbreviation codes :: "nat list \<Rightarrow> bool list" where
  "codes syms \<equiv> concat (map symbol_code syms)"

lemma huffman_bits_sound:
  assumes tc: "tree_codes nodes paths 257" and d: "decoding paths st [] []" "proper paths []"
    and run: "huffman_bits nodes st bs = Inr st'"
  shows "\<exists>syms p. bs = codes syms @ p \<and> decoding paths st' syms p \<and> proper paths p \<and>
    list_all (\<lambda>s. s < 256) syms"
  using run
proof (induction bs arbitrary: st' rule: rev_induct)
  case Nil
  with d show ?case by (intro exI [of _ "[]"]) auto
next
  case (snoc b bs)
  then obtain s1 where s1: "huffman_bits nodes st bs = Inr s1" "huffman_bit nodes s1 b = Inr st'"
    by (auto simp: huffman_bits_append r_bind_Inr_iff)
  obtain syms p where IH: "bs = codes syms @ p" "decoding paths s1 syms p" "proper paths p"
    "list_all (\<lambda>s. s < 256) syms"
    using snoc.IH [OF s1(1)] by blast
  note step = huffman_bit_cases [OF tc IH(2), where b = b]
  have mem: "p @ [b] \<in> set paths" using step(1) s1(2) by force
  show ?case
  proof (cases "p @ [b] \<in> symbol_code ` {..< 257}")
    case True
    then obtain s where s: "s < 257" "p @ [b] = symbol_code s" by auto
    moreover have "s \<noteq> 256" using step(2) s(2) s1(2) by force
    ultimately have s': "s < 256" by simp
    with step(3) [OF s' s(2)] s1(2) have "decoding paths st' (syms @ [s]) []" by auto
    with IH s s' d(2) show ?thesis by (intro exI [of _ "syms @ [s]"] exI [of _ "[]"]) auto
  next
    case False
    with step(4) [OF mem] s1(2) have "decoding paths st' syms (p @ [b])" by auto
    with IH False mem show ?thesis
      by (intro exI [of _ syms] exI [of _ "p @ [b]"]) (auto simp: proper_def)
  qed
qed

lemma huffman_bits_partial:
  assumes tc: "tree_codes nodes paths 257" and "decoding paths st syms p"
    and "\<And>k. 0 < k \<Longrightarrow> k \<le> length q \<Longrightarrow> proper paths (p @ take k q)"
  shows "\<exists>st'. huffman_bits nodes st q = Inr st' \<and> decoding paths st' syms (p @ q)"
  using assms(2,3)
proof (induction q arbitrary: st p)
  case (Cons b q)
  have "proper paths (p @ [b])" using Cons.prems(2) [of 1] by simp
  then obtain s1 where s1: "huffman_bit nodes st b = Inr s1" "decoding paths s1 syms (p @ [b])"
    using huffman_bit_cases(4) [OF tc Cons.prems(1)] by (auto simp: proper_def)
  have "proper paths ((p @ [b]) @ take k q)" if "0 < k" "k \<le> length q" for k
    using Cons.prems(2) [of "Suc k"] that by simp
  from Cons.IH [OF s1(2) this] s1(1) show ?case by auto
qed auto

lemma strict_prefix_proper:
  assumes tc: "tree_codes nodes paths 257" and "s < 257" "strict_prefix p (symbol_code s)"
  shows "proper paths p"
proof -
  have "p \<in> set paths" using assms unfolding tree_codes_def by (auto simp: strict_prefix_def)
  moreover have "p \<noteq> symbol_code t" if "t < 257" for t
    using that assms(2,3) symbol_code_prefix_iff [of t s] by (auto simp: strict_prefix_def)
  ultimately show ?thesis by (auto simp: proper_def)
qed

lemma huffman_bits_code:
  assumes tc: "tree_codes nodes paths 257" and d: "decoding paths st syms []" and s: "s < 256"
  shows "\<exists>st'. huffman_bits nodes st (symbol_code s) = Inr st' \<and> decoding paths st' (syms @ [s]) []"
proof -
  have ne: "symbol_code s \<noteq> []" using symbol_code_length [of s] s by auto
  then obtain q b where q: "symbol_code s = q @ [b]" by (metis rev_exhaust)
  have "proper paths ([] @ take k q)" if "k \<le> length q" for k
  proof -
    have "strict_prefix (take k q) (symbol_code s)"
      unfolding q strict_prefix_def
      by (metis append_take_drop_id append_assoc prefixI append_self_conv snoc_eq_iff_butlast same_append_eq)
    with strict_prefix_proper [OF tc, of s] s show ?thesis by simp
  qed
  then obtain s1 where "huffman_bits nodes st q = Inr s1" "decoding paths s1 syms q"
    using huffman_bits_partial [OF tc d, of q] by auto
  with huffman_bit_cases(3) [OF tc _ s, of s1 syms q b] q show ?thesis
    by (auto simp: huffman_bits_append)
qed

lemma huffman_bits_codes:
  assumes tc: "tree_codes nodes paths 257" and d: "decoding paths st syms0 []"
    and "list_all (\<lambda>s. s < 256) syms"
  shows "\<exists>st'. huffman_bits nodes st (codes syms) = Inr st' \<and> decoding paths st' (syms0 @ syms) []"
  using d assms(3)
proof (induction syms arbitrary: st syms0)
  case (Cons s syms)
  then obtain s1 where s1: "huffman_bits nodes st (symbol_code s) = Inr s1" "decoding paths s1 (syms0 @ [s]) []"
    using huffman_bits_code [OF tc Cons.prems(1), of s] by auto
  from Cons.IH [OF s1(2)] Cons.prems(2) s1(1) show ?case by (auto simp: huffman_bits_append)
qed auto

text \<open>Acceptance in terms of bits: the codes of some text, then at most seven ones.\<close>

lemma huffman_start_decoding:
  assumes "tree_codes nodes paths 257"
  shows "decoding paths huffman_start [] [] \<and> proper paths []"
proof -
  have "proper paths []"
    using strict_prefix_proper [OF assms, of 256 "[]"] by (simp add: symbol_code_EOS strict_prefix_def)
  moreover have "tree_inv nodes paths" using assms unfolding tree_codes_def by blast
  ultimately show ?thesis
    using tree_inv_root [of nodes paths] by (simp add: decoding_def huffman_start_def bits_word_def)
qed

lemma huffman_finish_iff:
  assumes "decoding paths st syms p"
  shows "huffman_finish st = Inr t \<longleftrightarrow> (\<exists>k \<le> 7. p = replicate k True) \<and> t = map char_of syms"
proof -
  have "huffman_finish st = Inr t \<longleftrightarrow>
      (length p \<le> 7 \<and> bits_word p = push_bit (length p) 1 - 1) \<and> t = map char_of syms"
    using assms by (cases p) (auto simp: huffman_finish_def decoding_def bits_word_def)
  also have "length p \<le> 7 \<and> bits_word p = push_bit (length p) 1 - 1 \<longleftrightarrow> (\<exists>k \<le> 7. p = replicate k True)"
  proof (cases "length p \<le> 7")
    case True
    then show ?thesis using bits_word_ones_iff [of p] by (auto intro: exI [of _ "length p"])
  qed auto
  finally show ?thesis .
qed

definition text_bits :: "string \<Rightarrow> bool list" where
  "text_bits t = concat (map (\<lambda>c. symbol_code (code c)) t)"

lemma codes_eq_text_bits:
  "list_all (\<lambda>s. s < 256) syms \<Longrightarrow> codes syms = text_bits (map char_of syms)"
  by (induction syms) (auto simp: text_bits_def of_char_of)

lemma hpack_decode_huffman_bits:
  "hpack_decode_huffman x = Inr t \<longleftrightarrow>
    (\<exists>k \<le> 7. concat (map byte_bits x) = text_bits t @ replicate k True)"
proof -
  obtain nodes paths where b: "build_huffman_tree = Inr nodes" and tc: "tree_codes nodes paths 257"
    using build_huffman_tree_ok by blast
  note start = huffman_start_decoding [OF tc]
  let ?bs = "concat (map byte_bits x)"
  have "hpack_decode_huffman x = Inr t \<longleftrightarrow>
      (\<exists>st. huffman_bits nodes huffman_start ?bs = Inr st \<and> huffman_finish st = Inr t)"
    by (simp add: hpack_decode_huffman_def b r_bind_Inr_iff)
  also have "\<dots> \<longleftrightarrow> (\<exists>k \<le> 7. ?bs = text_bits t @ replicate k True)"
  proof
    assume "\<exists>st. huffman_bits nodes huffman_start ?bs = Inr st \<and> huffman_finish st = Inr t"
    then obtain st where st: "huffman_bits nodes huffman_start ?bs = Inr st" "huffman_finish st = Inr t"
      by blast
    obtain syms p where p: "?bs = codes syms @ p" "decoding paths st syms p" "list_all (\<lambda>s. s < 256) syms"
      using huffman_bits_sound [OF tc _ _ st(1)] start by blast
    with huffman_finish_iff [OF p(2), of t] st(2) codes_eq_text_bits [OF p(3)]
    show "\<exists>k \<le> 7. ?bs = text_bits t @ replicate k True" by auto
  next
    assume "\<exists>k \<le> 7. ?bs = text_bits t @ replicate k True"
    then obtain k where k: "k \<le> 7" "?bs = text_bits t @ replicate k True" by blast
    define syms where "syms = map (of_char :: char \<Rightarrow> nat) t"
    have syms: "codes syms = text_bits t" "list_all (\<lambda>s. s < 256) syms" "map char_of syms = t"
      by (simp_all add: syms_def text_bits_def o_def list_all_iff)
    obtain s1 where s1: "huffman_bits nodes huffman_start (codes syms) = Inr s1" "decoding paths s1 syms []"
      using huffman_bits_codes [OF tc _ syms(2), of huffman_start "[]"] start by auto
    have "strict_prefix (replicate j True) (symbol_code 256)" if "j \<le> 7" for j
      using that replicate_add [of j "30 - j" True] by (auto simp: symbol_code_EOS strict_prefix_def prefix_def)
    then have "proper paths ([] @ take j (replicate k True))" if "j \<le> length (replicate k True)" for j
      using strict_prefix_proper [OF tc, of 256] that k(1) by (simp add: take_replicate)
    then obtain s2 where s2: "huffman_bits nodes s1 (replicate k True) = Inr s2"
      "decoding paths s2 syms (replicate k True)"
      using huffman_bits_partial [OF tc s1(2), of "replicate k True"] by auto
    have "huffman_finish s2 = Inr t" using huffman_finish_iff [OF s2(2)] k(1) syms(3) by auto
    with s1 s2 k(2) syms(1) show
      "\<exists>st. huffman_bits nodes huffman_start ?bs = Inr st \<and> huffman_finish st = Inr t"
      by (auto simp: huffman_bits_append)
  qed
  finally show ?thesis .
qed

section \<open>The canonical encoding\<close>

text \<open>RFC 7541, 5.2: the codes of the characters, padded with ones to a whole number of octets.\<close>

fun pack :: "bool list \<Rightarrow> string" where
  "pack (a # b # c # d # e # f # g # h # r) = Char h g f e d c b a # pack r"
| "pack _ = []"

definition huffman_encode :: "string \<Rightarrow> string" where
  "huffman_encode t =
     (let bs = text_bits t in pack (bs @ replicate ((8 - length bs mod 8) mod 8) True))"

lemma byte_bits_Char: "byte_bits (Char a b c d e f g h) = [h, g, f, e, d, c, b, a]"
  by (cases a; cases b; cases c; cases d; cases e; cases f; cases g; cases h)
    (simp_all add: byte_bits_def byte_of_char_def)

lemma length_byte_bits [simp]: "length (byte_bits c) = 8"
  by (simp add: byte_bits_def)

lemma bits_pack: "8 dvd length bs \<Longrightarrow> concat (map byte_bits (pack bs)) = bs"
proof (induction bs rule: pack.induct)
  case (1 a b c d e f g h r)
  then have "8 dvd length r" by simp presburger
  with 1 show ?case by (simp add: byte_bits_Char)
qed (simp_all, presburger+)

lemma pack_bits: "pack (concat (map byte_bits x)) = x"
proof (induction x)
  case (Cons c x)
  then show ?case by (cases c) (simp add: byte_bits_Char)
qed simp

lemma length_bits: "length (concat (map byte_bits x)) = 8 * length x"
  by (induction x) simp_all

lemma hpack_decode_huffman_iff: "hpack_decode_huffman x = Inr t \<longleftrightarrow> x = huffman_encode t"
proof -
  define n where "n = length (text_bits t)"
  have pad: "k = (8 - n mod 8) mod 8 \<longleftrightarrow> 8 dvd (n + k)" if "k \<le> 7" for k
  proof -
    have "8 dvd (n + k) \<longleftrightarrow> 8 dvd (n mod 8 + k)" by (simp add: dvd_eq_mod_eq_0 mod_add_left_eq)
    moreover have "n mod 8 = 0 \<or> n mod 8 = 1 \<or> n mod 8 = 2 \<or> n mod 8 = 3 \<or> n mod 8 = 4 \<or>
        n mod 8 = 5 \<or> n mod 8 = 6 \<or> n mod 8 = 7"
      using mod_less_divisor [of 8 n] by linarith
    ultimately show ?thesis using that by (elim disjE; simp; presburger)
  qed
  have "8 dvd (n + (8 - n mod 8) mod 8)" using pad [of "(8 - n mod 8) mod 8"] by simp
  then have canon: "concat (map byte_bits (huffman_encode t)) = text_bits t @ replicate ((8 - n mod 8) mod 8) True"
    by (simp add: huffman_encode_def Let_def n_def bits_pack)
  have "(\<exists>k \<le> 7. concat (map byte_bits x) = text_bits t @ replicate k True) \<longleftrightarrow> x = huffman_encode t"
  proof
    assume "\<exists>k \<le> 7. concat (map byte_bits x) = text_bits t @ replicate k True"
    then obtain k where k: "k \<le> 7" "concat (map byte_bits x) = text_bits t @ replicate k True" by blast
    have "8 dvd (n + k)" using arg_cong [OF k(2), of length] length_bits [of x] unfolding n_def
      by (metis dvd_triv_left length_append length_replicate)
    with pad [OF k(1)] k(2) canon pack_bits show "x = huffman_encode t" by metis
  next
    assume "x = huffman_encode t"
    with canon show "\<exists>k \<le> 7. concat (map byte_bits x) = text_bits t @ replicate k True"
      by (intro exI [of _ "(8 - n mod 8) mod 8"]) simp
  qed
  with hpack_decode_huffman_bits show ?thesis by simp
qed

text \<open>C35: The Huffman decoder is exact: \<open>hpack_decode_huffman\<close> returns a text for an input if and
  only if the input is the canonical encoding of that text (the code words of its characters, padded
  to an octet boundary with fewer than eight ones). Everything else is refused: code words cut
  short, the EOS symbol, padding that is too long or not all ones.\<close>

theorem huffman_decode_exact: "hpack_decode_huffman x = Inr t \<longleftrightarrow> x = huffman_encode t"
  by (rule hpack_decode_huffman_iff)

end
