(* ===== verification/Http2_Hpack.thy ===== *)
theory Http2_Hpack
  imports Hpack_Huffman
begin

text \<open>
  The rest of \<open>src/src/protocol/http2_hpack.cpp\<close>: the static table, prefixed integers, string
  literals, the header block encoder, and \<open>HpackDecoder\<close> with its dynamic table. A decoder method
  returns the decoder it leaves behind, also when it throws: the tables updated before the
  exception stay updated. The lemmas give the round trips of integers, strings and blocks, the
  size invariant of the dynamic table and its specification as a bounded FIFO.
\<close>

section \<open>Static table\<close>

record header_field =
  hf_name :: string
  hf_value :: string

definition static_table :: "header_field list" where
  "static_table = [
     \<lparr>hf_name = '':authority'', hf_value = ''''\<rparr>,
     \<lparr>hf_name = '':method'', hf_value = ''GET''\<rparr>,
     \<lparr>hf_name = '':method'', hf_value = ''POST''\<rparr>,
     \<lparr>hf_name = '':path'', hf_value = ''/''\<rparr>,
     \<lparr>hf_name = '':path'', hf_value = ''/index.html''\<rparr>,
     \<lparr>hf_name = '':scheme'', hf_value = ''http''\<rparr>,
     \<lparr>hf_name = '':scheme'', hf_value = ''https''\<rparr>,
     \<lparr>hf_name = '':status'', hf_value = ''200''\<rparr>,
     \<lparr>hf_name = '':status'', hf_value = ''204''\<rparr>,
     \<lparr>hf_name = '':status'', hf_value = ''206''\<rparr>,
     \<lparr>hf_name = '':status'', hf_value = ''304''\<rparr>,
     \<lparr>hf_name = '':status'', hf_value = ''400''\<rparr>,
     \<lparr>hf_name = '':status'', hf_value = ''404''\<rparr>,
     \<lparr>hf_name = '':status'', hf_value = ''500''\<rparr>,
     \<lparr>hf_name = ''accept-charset'', hf_value = ''''\<rparr>,
     \<lparr>hf_name = ''accept-encoding'', hf_value = ''gzip, deflate''\<rparr>,
     \<lparr>hf_name = ''accept-language'', hf_value = ''''\<rparr>,
     \<lparr>hf_name = ''accept-ranges'', hf_value = ''''\<rparr>,
     \<lparr>hf_name = ''accept'', hf_value = ''''\<rparr>,
     \<lparr>hf_name = ''access-control-allow-origin'', hf_value = ''''\<rparr>,
     \<lparr>hf_name = ''age'', hf_value = ''''\<rparr>,
     \<lparr>hf_name = ''allow'', hf_value = ''''\<rparr>,
     \<lparr>hf_name = ''authorization'', hf_value = ''''\<rparr>,
     \<lparr>hf_name = ''cache-control'', hf_value = ''''\<rparr>,
     \<lparr>hf_name = ''content-disposition'', hf_value = ''''\<rparr>,
     \<lparr>hf_name = ''content-encoding'', hf_value = ''''\<rparr>,
     \<lparr>hf_name = ''content-language'', hf_value = ''''\<rparr>,
     \<lparr>hf_name = ''content-length'', hf_value = ''''\<rparr>,
     \<lparr>hf_name = ''content-location'', hf_value = ''''\<rparr>,
     \<lparr>hf_name = ''content-range'', hf_value = ''''\<rparr>,
     \<lparr>hf_name = ''content-type'', hf_value = ''''\<rparr>,
     \<lparr>hf_name = ''cookie'', hf_value = ''''\<rparr>,
     \<lparr>hf_name = ''date'', hf_value = ''''\<rparr>,
     \<lparr>hf_name = ''etag'', hf_value = ''''\<rparr>,
     \<lparr>hf_name = ''expect'', hf_value = ''''\<rparr>,
     \<lparr>hf_name = ''expires'', hf_value = ''''\<rparr>,
     \<lparr>hf_name = ''from'', hf_value = ''''\<rparr>,
     \<lparr>hf_name = ''host'', hf_value = ''''\<rparr>,
     \<lparr>hf_name = ''if-match'', hf_value = ''''\<rparr>,
     \<lparr>hf_name = ''if-modified-since'', hf_value = ''''\<rparr>,
     \<lparr>hf_name = ''if-none-match'', hf_value = ''''\<rparr>,
     \<lparr>hf_name = ''if-range'', hf_value = ''''\<rparr>,
     \<lparr>hf_name = ''if-unmodified-since'', hf_value = ''''\<rparr>,
     \<lparr>hf_name = ''last-modified'', hf_value = ''''\<rparr>,
     \<lparr>hf_name = ''link'', hf_value = ''''\<rparr>,
     \<lparr>hf_name = ''location'', hf_value = ''''\<rparr>,
     \<lparr>hf_name = ''max-forwards'', hf_value = ''''\<rparr>,
     \<lparr>hf_name = ''proxy-authenticate'', hf_value = ''''\<rparr>,
     \<lparr>hf_name = ''proxy-authorization'', hf_value = ''''\<rparr>,
     \<lparr>hf_name = ''range'', hf_value = ''''\<rparr>,
     \<lparr>hf_name = ''referer'', hf_value = ''''\<rparr>,
     \<lparr>hf_name = ''refresh'', hf_value = ''''\<rparr>,
     \<lparr>hf_name = ''retry-after'', hf_value = ''''\<rparr>,
     \<lparr>hf_name = ''server'', hf_value = ''''\<rparr>,
     \<lparr>hf_name = ''set-cookie'', hf_value = ''''\<rparr>,
     \<lparr>hf_name = ''strict-transport-security'', hf_value = ''''\<rparr>,
     \<lparr>hf_name = ''transfer-encoding'', hf_value = ''''\<rparr>,
     \<lparr>hf_name = ''user-agent'', hf_value = ''''\<rparr>,
     \<lparr>hf_name = ''vary'', hf_value = ''''\<rparr>,
     \<lparr>hf_name = ''via'', hf_value = ''''\<rparr>,
     \<lparr>hf_name = ''www-authenticate'', hf_value = ''''\<rparr>]"

definition static_entry :: "u32 \<Rightarrow> header_field result" where
  "static_entry index =
     (if index = 0 \<or> unat index > length static_table
      then Inl ''HPACK static table index is out of range''
      else Inr (static_table ! (unat index - 1)))"

fun find_static :: "(header_field \<Rightarrow> bool) \<Rightarrow> nat \<Rightarrow> header_field list \<Rightarrow> u32" where
  "find_static P index [] = 0"
| "find_static P index (e # es) = (if P e then of_nat (index + 1) else find_static P (index + 1) es)"

definition find_exact_static_index :: "header_field \<Rightarrow> u32" where
  "find_exact_static_index h =
     find_static (\<lambda>e. hf_name e = hf_name h \<and> hf_value e = hf_value h) 0 static_table"

definition find_name_static_index :: "string \<Rightarrow> u32" where
  "find_name_static_index n = find_static (\<lambda>e. hf_name e = n) 0 static_table"

definition entry_size :: "header_field \<Rightarrow> nat" where
  "entry_size h = length (hf_name h) + length (hf_value h) + 32"

section \<open>Integers and strings\<close>

function encode_integer_rest :: "u32 \<Rightarrow> bytes" where
  "encode_integer_rest v =
     (if v \<ge> 128 then ucast (v mod 128 + 128) # encode_integer_rest (v div 128) else [ucast v])"
  by pat_completeness auto
termination
proof (relation "measure unat")
  fix v :: u32 assume "v \<ge> 128"
  then have "128 \<le> unat v" by (simp add: word_le_nat_alt)
  then show "(v div 128, v) \<in> measure unat" by (simp add: unat_div)
qed simp

declare encode_integer_rest.simps [simp del]

definition max_prefix :: "nat \<Rightarrow> u32" where
  "max_prefix prefix_bits = push_bit prefix_bits 1 - 1"

definition hpack_encode_integer :: "u32 \<Rightarrow> nat \<Rightarrow> u8 \<Rightarrow> bytes result" where
  "hpack_encode_integer v prefix_bits prefix_mask =
     (if prefix_bits = 0 \<or> prefix_bits > 8 then Inl ''invalid HPACK integer prefix width''
      else if v < max_prefix prefix_bits then Inr [prefix_mask OR ucast v]
      else Inr ((prefix_mask OR ucast (max_prefix prefix_bits)) #
                encode_integer_rest (v - max_prefix prefix_bits)))"

function decode_integer_rest :: "bytes \<Rightarrow> nat \<Rightarrow> u32 \<Rightarrow> u32 \<Rightarrow> (nat \<times> u32) result" where
  "decode_integer_rest bytes offset multiplier v =
     (if offset \<ge> length bytes then Inl ''incomplete HPACK integer continuation''
      else
        let byte = bytes ! offset; low = (ucast byte :: u32) AND 0x7f in
        if multiplier \<ge> 28 \<and> low \<noteq> 0 then Inl ''HPACK integer overflow''
        else
          let v' = v + push_bit (unat multiplier) low in
          if byte AND 0x80 = 0 then Inr (offset + 1, v')
          else decode_integer_rest bytes (offset + 1) (multiplier + 7) v')"
  by pat_completeness auto
termination
  by (relation "measure (\<lambda>(bytes, offset, _). length bytes - offset)") auto

declare decode_integer_rest.simps [simp del]

definition hpack_decode_integer :: "bytes \<Rightarrow> nat \<Rightarrow> nat \<Rightarrow> (nat \<times> u32) result" where
  "hpack_decode_integer bytes offset prefix_bits =
     (if offset \<ge> length bytes then Inl ''incomplete HPACK integer''
      else if prefix_bits = 0 \<or> prefix_bits > 8 then Inl ''invalid HPACK integer prefix width''
      else
        let v = ucast (bytes ! offset) AND max_prefix prefix_bits in
        if v < max_prefix prefix_bits then Inr (offset + 1, v)
        else decode_integer_rest bytes (offset + 1) 0 v)"

definition hpack_encode_string :: "string \<Rightarrow> bytes result" where
  "hpack_encode_string s =
     (if length s > 2 ^ 32 - 1 then Inl ''HPACK string is too large''
      else r_bind (hpack_encode_integer (of_nat (length s)) 7 0) (\<lambda>n. Inr (n @ string_to_bytes s)))"

definition hpack_decode_string :: "bytes \<Rightarrow> nat \<Rightarrow> (nat \<times> string) result" where
  "hpack_decode_string bytes offset =
     (if offset \<ge> length bytes then Inl ''incomplete HPACK string''
      else
        let huffman = (bytes ! offset AND 0x80 \<noteq> 0) in
        r_bind (hpack_decode_integer bytes offset 7) (\<lambda>(offset, size).
          if length bytes - offset < unat size then Inl ''incomplete HPACK string data''
          else
            let encoded = bytes_to_string (substr bytes offset (unat size)) in
            r_bind (if huffman then hpack_decode_huffman encoded else Inr encoded)
              (\<lambda>v. Inr (offset + unat size, v))))"

fun hpack_encode_header_block :: "header_field list \<Rightarrow> bytes result" where
  "hpack_encode_header_block [] = Inr []"
| "hpack_encode_header_block (h # hs) =
     (if hf_name h = [] then Inl ''HPACK header name cannot be empty''
      else r_bind
        (if find_exact_static_index h \<noteq> 0
         then hpack_encode_integer (find_exact_static_index h) 7 0x80
         else
           let name_index = find_name_static_index (hf_name h) in
           r_bind (hpack_encode_integer name_index 4 0) (\<lambda>i.
           r_bind (if name_index = 0 then hpack_encode_string (hf_name h) else Inr []) (\<lambda>n.
           r_bind (hpack_encode_string (hf_value h)) (\<lambda>v. Inr (i @ n @ v)))))
        (\<lambda>bs. r_bind (hpack_encode_header_block hs) (\<lambda>rest. Inr (bs @ rest))))"

section \<open>The decoder and its dynamic table\<close>

record hpack_decoder =
  hd_max_table_size :: nat
  hd_table_size :: nat
  hd_dynamic_table :: "header_field list"

definition new_decoder :: hpack_decoder where
  "new_decoder = \<lparr>hd_max_table_size = 4096, hd_table_size = 0, hd_dynamic_table = []\<rparr>"

definition hd_reset :: "hpack_decoder \<Rightarrow> hpack_decoder" where
  "hd_reset d = d\<lparr>hd_dynamic_table := [], hd_table_size := 0\<rparr>"

function evict_loop :: "hpack_decoder \<Rightarrow> hpack_decoder" where
  "evict_loop d =
     (if hd_table_size d > hd_max_table_size d \<and> hd_dynamic_table d \<noteq> []
      then evict_loop (d\<lparr>hd_table_size := hd_table_size d - entry_size (last (hd_dynamic_table d)),
                         hd_dynamic_table := butlast (hd_dynamic_table d)\<rparr>)
      else d)"
  by pat_completeness auto
termination
  by (relation "measure (\<lambda>d. length (hd_dynamic_table d))") auto

declare evict_loop.simps [simp del]

definition evict_dynamic :: "hpack_decoder \<Rightarrow> hpack_decoder" where
  "evict_dynamic d =
     (let d' = evict_loop d in if hd_max_table_size d' = 0 then hd_reset d' else d')"

definition set_max_table_size :: "nat \<Rightarrow> hpack_decoder \<Rightarrow> hpack_decoder" where
  "set_max_table_size bytes d = evict_dynamic (d\<lparr>hd_max_table_size := bytes\<rparr>)"

definition add_dynamic :: "header_field \<Rightarrow> hpack_decoder \<Rightarrow> hpack_decoder" where
  "add_dynamic h d =
     (if entry_size h > hd_max_table_size d then hd_reset d
      else evict_dynamic (d\<lparr>hd_table_size := hd_table_size d + entry_size h,
                            hd_dynamic_table := h # hd_dynamic_table d\<rparr>))"

definition indexed_header :: "hpack_decoder \<Rightarrow> u32 \<Rightarrow> header_field result" where
  "indexed_header d index =
     (if index = 0 then Inl ''HPACK index 0 is invalid''
      else if unat index \<le> length static_table then static_entry index
      else
        let dynamic_index = unat (index - of_nat (length static_table) - 1) in
        if dynamic_index \<ge> length (hd_dynamic_table d) then Inl ''HPACK dynamic table index is out of range''
        else Inr (hd_dynamic_table d ! dynamic_index))"

definition indexed_name :: "hpack_decoder \<Rightarrow> u32 \<Rightarrow> string result" where
  "indexed_name d index = r_bind (indexed_header d index) (\<lambda>h. Inr (hf_name h))"

text \<open>A literal field: its name by index or as a string, then its value.\<close>

definition decode_literal :: "hpack_decoder \<Rightarrow> bytes \<Rightarrow> nat \<Rightarrow> nat \<Rightarrow> (nat \<times> header_field) result" where
  "decode_literal d block offset prefix_bits =
     r_bind (hpack_decode_integer block offset prefix_bits) (\<lambda>(offset, name_index).
     r_bind (if name_index = 0 then hpack_decode_string block offset
             else r_bind (indexed_name d name_index) (\<lambda>n. Inr (offset, n))) (\<lambda>(offset, name).
     r_bind (hpack_decode_string block offset) (\<lambda>(offset, v).
       Inr (offset, \<lparr>hf_name = name, hf_value = v\<rparr>))))"

lemma decode_integer_rest_offset:
  "decode_integer_rest bytes offset m v = Inr (offset', v') \<Longrightarrow> offset < offset' \<and> offset' \<le> length bytes"
proof (induction bytes offset m v rule: decode_integer_rest.induct)
  case (1 bytes offset m v)
  let ?low = "(ucast (bytes ! offset) :: u32) AND 0x7f"
  have off: "offset < length bytes" and ok: "\<not> (m \<ge> 28 \<and> ?low \<noteq> 0)"
    using "1.prems" by (auto simp: decode_integer_rest.simps [of bytes offset] Let_def split: if_splits)
  show ?case
  proof (cases "bytes ! offset AND 0x80 = 0")
    case True
    with "1.prems" off ok show ?thesis
      by (simp only: decode_integer_rest.simps [of bytes offset] Let_def) simp
  next
    case False
    with "1.prems" off ok have "decode_integer_rest bytes (offset + 1) (m + 7) (v + push_bit (unat m) ?low) = Inr (offset', v')"
      by (simp only: decode_integer_rest.simps [of bytes offset] Let_def not_le if_False if_not_P not_less)
    from "1.IH" [OF _ refl refl ok refl False this] off show ?thesis by simp
  qed
qed

lemma hpack_decode_integer_offset:
  "hpack_decode_integer bytes offset p = Inr (offset', v) \<Longrightarrow> offset < offset' \<and> offset' \<le> length bytes"
  by (auto simp: hpack_decode_integer_def Let_def dest: decode_integer_rest_offset split: if_splits)

lemma hpack_decode_string_offset:
  "hpack_decode_string bytes offset = Inr (offset', s) \<Longrightarrow> offset < offset' \<and> offset' \<le> length bytes"
  by (auto simp: hpack_decode_string_def Let_def r_bind_Inr_iff dest!: hpack_decode_integer_offset
      split: if_splits prod.splits)

lemma decode_literal_offset:
  assumes "decode_literal d block offset p = Inr (offset', h)"
  shows "offset < offset' \<and> offset' \<le> length block"
  using assms
  by (auto simp: decode_literal_def r_bind_Inr_iff split: if_splits prod.splits
      dest!: hpack_decode_integer_offset hpack_decode_string_offset)

function decode_fields ::
    "hpack_decoder \<Rightarrow> bytes \<Rightarrow> nat \<Rightarrow> bool \<Rightarrow> header_field list \<Rightarrow> hpack_decoder \<times> header_field list result" where
  "decode_fields d block offset regular_header_seen headers =
     (if offset \<ge> length block then (d, Inr headers)
      else
        let byte = block ! offset in
        if byte AND 0x80 \<noteq> 0 then
          (case r_bind (hpack_decode_integer block offset 7) (\<lambda>(o', index).
                  r_bind (indexed_header d index) (\<lambda>h. Inr (o', h))) of
             Inl e \<Rightarrow> (d, Inl e)
           | Inr (offset', h) \<Rightarrow> decode_fields d block offset' True (headers @ [h]))
        else if byte AND 0xe0 = 0x20 then
          (if regular_header_seen then (d, Inl ''HPACK dynamic table size update must precede header fields'')
           else case hpack_decode_integer block offset 5 of
             Inl e \<Rightarrow> (d, Inl e)
           | Inr (offset', new_size) \<Rightarrow>
               decode_fields (set_max_table_size (unat new_size) d) block offset' regular_header_seen headers)
        else if byte AND 0x40 \<noteq> 0 then
          (case decode_literal d block offset 6 of
             Inl e \<Rightarrow> (d, Inl e)
           | Inr (offset', h) \<Rightarrow> decode_fields (add_dynamic h d) block offset' True (headers @ [h]))
        else
          (case decode_literal d block offset 4 of
             Inl e \<Rightarrow> (d, Inl e)
           | Inr (offset', h) \<Rightarrow> decode_fields d block offset' True (headers @ [h])))"
  by pat_completeness auto
termination
  by (relation "measure (\<lambda>(d, block, offset, _). length block - offset)")
    (auto simp: r_bind_Inr_iff split: prod.splits
      dest: hpack_decode_integer_offset decode_literal_offset)

declare decode_fields.simps [simp del]

definition decode_header_block :: "hpack_decoder \<Rightarrow> bytes \<Rightarrow> hpack_decoder \<times> header_field list result" where
  "decode_header_block d block = decode_fields d block 0 False []"

definition hpack_decode_header_block :: "bytes \<Rightarrow> header_field list result" where
  "hpack_decode_header_block block = snd (decode_header_block new_decoder block)"

section \<open>Integers\<close>

lemma unat_byte_u32: "unat (ucast (b :: u8) :: u32) = unat b"
  using order_less_trans [OF unat_u8_less [of b], of "2 ^ 32"] by (simp add: unsigned_ucast_eq take_bit_eq_mod)

lemma low_bits: "(ucast (b :: u8) :: u32) AND 0x7f = of_nat (unat b mod 128)"
proof -
  have "(ucast b :: u32) AND 0x7f = take_bit 7 (ucast b)"
    by (simp add: take_bit_eq_mask mask_eq_exp_minus_1)
  moreover have "unat (take_bit 7 (ucast b :: u32)) = unat b mod 128"
    by (simp add: take_bit_eq_mod unat_mod unat_byte_u32)
  ultimately show ?thesis
    using mod_less_divisor [of 128 "unat b"] by (simp add: word_unat_eq_iff unat_of_nat)
qed

lemma bit_test: "(b :: u8) AND 0x80 = 0 \<longleftrightarrow> \<not> bit b 7" "b AND 0x40 = 0 \<longleftrightarrow> \<not> bit b 6"
proof -
  show "b AND 0x80 = 0 \<longleftrightarrow> \<not> bit b 7"
  proof
    assume "b AND 0x80 = 0"
    then have "\<not> bit (b AND 0x80) 7" by simp
    then show "\<not> bit b 7" by (simp add: bit_and_iff)
  qed (auto intro!: bit_word_eqI simp: bit_and_iff)
  show "b AND 0x40 = 0 \<longleftrightarrow> \<not> bit b 6"
  proof
    assume "b AND 0x40 = 0"
    then have "\<not> bit (b AND 0x40) 6" by simp
    then show "\<not> bit b 6" by (simp add: bit_and_iff)
  qed (auto intro!: bit_word_eqI simp: bit_and_iff)
qed

lemma high_bit: "(b :: u8) AND 0x80 = 0 \<longleftrightarrow> unat b < 128"
proof -
  note bit_test(1) [of b]
  also have "bit b 7 \<longleftrightarrow> odd (unat b div 128)"
  proof -
    have "bit b 7 \<longleftrightarrow> bit (unat b) 7" by (simp add: bit_unsigned_iff)
    then show ?thesis by (simp add: bit_iff_odd)
  qed
  also have "\<not> odd (unat b div 128) \<longleftrightarrow> unat b < 128"
  proof (cases "unat b < 128")
    case False
    then have "unat b div 128 = 1" using unat_u8_less [of b] by (intro div_nat_eqI) simp_all
    with False show ?thesis by simp
  qed simp
  finally show ?thesis .
qed

lemma unat_continuation:
  fixes v :: u32
  shows "unat (ucast (v mod 128 + 128) :: u8) = unat v mod 128 + 128"
proof -
  have "unat (v mod 128 + 128) = unat v mod 128 + 128"
    using mod_less_divisor [of 128 "unat v"] by (simp add: unat_plus_if' unat_mod)
  then show ?thesis
    using mod_less_divisor [of 128 "unat v"] by (simp add: unsigned_ucast_eq take_bit_eq_mod)
qed

lemma unat_small_byte:
  fixes v :: u32
  shows "unat v < 256 \<Longrightarrow> unat (ucast v :: u8) = unat v"
  by (simp add: unsigned_ucast_eq take_bit_eq_mod)

text \<open>One step of the decoder on a byte of known value.\<close>

lemma decode_rest_last:
  assumes "offset = length pre" "unat b < 128" "multiplier < 28 \<or> b = 0"
  shows "decode_integer_rest (pre @ b # rest) offset multiplier acc =
    Inr (offset + 1, acc + push_bit (unat multiplier) (of_nat (unat b)))"
  using assms
  by (subst decode_integer_rest.simps) (auto simp: Let_def low_bits high_bit not_le)

lemma decode_rest_more:
  assumes "offset = length pre" "128 \<le> unat b" "multiplier < 28 \<or> unat b = 128"
  shows "decode_integer_rest (pre @ b # rest) offset multiplier acc =
    decode_integer_rest (pre @ b # rest) (offset + 1) (multiplier + 7)
      (acc + push_bit (unat multiplier) (of_nat (unat b - 128)))"
proof -
  have "unat b - 128 < 128" using unat_u8_less [of b] by linarith
  then have "unat b mod 128 = unat b - 128"
    using assms(2) by (simp add: le_mod_geq)
  note b = this
  show ?thesis
  proof (cases "unat b = 128")
    case True
    with assms(1) show ?thesis
      by (subst decode_integer_rest.simps) (simp add: Let_def low_bits high_bit)
  next
    case False
    with assms have "\<not> 28 \<le> multiplier" by auto
    with assms(1,2) b show ?thesis
      by (subst decode_integer_rest.simps) (simp add: Let_def low_bits high_bit)
  qed
qed

lemma decode_rest_overflow:
  assumes "offset = length pre" "28 \<le> multiplier" "unat b mod 128 \<noteq> 0"
  shows "decode_integer_rest (pre @ b # rest) offset multiplier acc = Inl ''HPACK integer overflow''"
proof -
  have "(of_nat (unat b mod 128) :: u32) \<noteq> 0"
  proof
    assume "(of_nat (unat b mod 128) :: u32) = 0"
    then have "unat (of_nat (unat b mod 128) :: u32) = 0" by simp
    with assms(3) show False using mod_less_divisor [of 128 "unat b"] by (simp add: unat_of_nat)
  qed
  with assms show ?thesis
    by (subst decode_integer_rest.simps) (simp add: Let_def low_bits)
qed

lemma push_bit_split:
  fixes v :: u32
  shows "push_bit m (v mod 128) + push_bit (m + 7) (v div 128) = push_bit m v"
proof -
  have "(v mod 128) * 2 ^ m + (v div 128) * (2 ^ m * 128) = (v mod 128 + (v div 128) * 128) * 2 ^ m"
    by (simp add: algebra_simps)
  also have "\<dots> = v * 2 ^ m" by (simp only: mod_mult_div_eq mult.commute [of "v div 128"] add.commute)
  finally show ?thesis by (simp add: push_bit_eq_mult power_add)
qed

lemma decode_encode_rest:
  assumes "unat m = 7 * k" "k < 4" and "unat v < 128 ^ (4 - k)"
  shows "decode_integer_rest (pre @ encode_integer_rest v @ rest) (length pre) m acc =
    Inr (length pre + length (encode_integer_rest v), acc + push_bit (unat m) v)"
  using assms
proof (induction v arbitrary: m k acc pre rule: encode_integer_rest.induct)
  case (1 v)
  have lt: "m < 28" using "1.prems"(1,2) by (simp add: word_less_nat_alt)
  show ?case
  proof (cases "v \<ge> 128")
    case False
    then have v: "unat v < 128" by (simp add: word_le_nat_alt)
    then have "unat (ucast v :: u8) = unat v" by (simp add: unat_small_byte)
    with False v lt show ?thesis
      by (simp add: encode_integer_rest.simps [of v] decode_rest_last)
  next
    case True
    let ?b = "ucast (v mod 128 + 128) :: u8"
    have v: "128 \<le> unat v" using True by (simp add: word_le_nat_alt)
    have k: "Suc k < 4" using v "1.prems"(2,3) by (cases "k = 3") auto
    have m: "unat (m + 7) = 7 * Suc k" using "1.prems"(1,2) by (simp add: unat_plus_if')
    have pow: "(128 :: nat) ^ (4 - k) = 128 * 128 ^ (4 - Suc k)"
      using k by (metis Suc_diff_Suc power_Suc less_trans lessI)
    have "unat (v div 128) < 128 ^ (4 - Suc k)"
      using "1.prems"(3) unfolding pow by (simp add: unat_div less_mult_imp_div_less mult.commute)
    note IH = "1.IH" [OF True m k this, of "pre @ [?b]"]
    have low: "of_nat (unat ?b - 128) = v mod 128"
      by (simp only: unat_continuation add_diff_cancel_right' word_unat_eq_iff unat_mod)
        (simp add: unat_of_nat)
    have "decode_integer_rest (pre @ ?b # encode_integer_rest (v div 128) @ rest) (length pre) m acc =
        decode_integer_rest (pre @ ?b # encode_integer_rest (v div 128) @ rest) (length pre + 1) (m + 7)
          (acc + push_bit (unat m) (of_nat (unat ?b - 128)))"
      by (rule decode_rest_more) (simp_all only: unat_continuation lt, simp_all)
    also have "\<dots> = Inr (length pre + 1 + length (encode_integer_rest (v div 128)),
        acc + push_bit (unat m) (v mod 128) + push_bit (unat (m + 7)) (v div 128))"
      using IH unfolding low by simp
    also have "acc + push_bit (unat m) (v mod 128) + push_bit (unat (m + 7)) (v div 128) = acc + push_bit (unat m) v"
      using push_bit_split [of "unat m" v] m "1.prems"(1) by (simp add: add.assoc add.commute [of 7])
    finally show ?thesis using True by (simp add: encode_integer_rest.simps [of v])
  qed
qed

lemma decode_rest_too_far:
  assumes "28 \<le> unat m" "unat m + unat v < 2 ^ 32" "0 < unat v"
  shows "decode_integer_rest (pre @ encode_integer_rest v @ rest) (length pre) m acc =
    Inl ''HPACK integer overflow''"
  using assms
proof (induction v arbitrary: m acc pre rule: encode_integer_rest.induct)
  case (1 v)
  have ge: "28 \<le> m" using "1.prems"(1) by (simp add: word_le_nat_alt)
  show ?case
  proof (cases "v \<ge> 128")
    case False
    then have v: "unat v < 128" by (simp add: word_le_nat_alt)
    then have "unat (ucast v :: u8) mod 128 \<noteq> 0" using "1.prems"(3) by (simp add: unat_small_byte)
    from decode_rest_overflow [OF refl ge this] False show ?thesis
      by (simp add: encode_integer_rest.simps [of v])
  next
    case True
    let ?b = "ucast (v mod 128 + 128) :: u8"
    have v: "128 \<le> unat v" using True by (simp add: word_le_nat_alt)
    show ?thesis
    proof (cases "unat v mod 128 = 0")
      case False
      then have "unat ?b mod 128 \<noteq> 0" by (simp add: unat_continuation)
      from decode_rest_overflow [OF refl ge this] True show ?thesis
        by (simp add: encode_integer_rest.simps [of v])
    next
      case z: True
      have d: "unat (v div 128) = unat v div 128" by (simp add: unat_div)
      have "unat v = 128 * (unat v div 128)" using z by (metis mult_div_mod_eq add_0_right)
      then have dv: "unat v div 128 + 7 \<le> unat v" using v by linarith
      have m: "unat (m + 7) = unat m + 7" using "1.prems"(2) v by (simp add: unat_plus_if')
      have pos: "0 < unat (v div 128)" unfolding d using v by (simp add: div_greater_zero_iff)
      note IH = "1.IH" [OF True, of "m + 7" "pre @ [?b]", unfolded d m]
      have "decode_integer_rest (pre @ ?b # encode_integer_rest (v div 128) @ rest) (length pre) m acc =
          decode_integer_rest (pre @ ?b # encode_integer_rest (v div 128) @ rest) (length pre + 1) (m + 7)
            (acc + push_bit (unat m) (of_nat (unat ?b - 128)))"
        by (rule decode_rest_more) (simp_all only: unat_continuation z, simp_all)
      also have "\<dots> = Inl ''HPACK integer overflow''"
        using IH "1.prems" dv pos [unfolded d] by simp
      finally show ?thesis using True by (simp add: encode_integer_rest.simps [of v])
    qed
  qed
qed

lemma decode_rest_too_large:
  assumes "unat m = 7 * k" "k \<le> 4" and "128 ^ (4 - k) \<le> unat v" and "k < 4 \<or> unat v < 2 ^ 32 - 28"
  shows "decode_integer_rest (pre @ encode_integer_rest v @ rest) (length pre) m acc =
    Inl ''HPACK integer overflow''"
  using assms
proof (induction v arbitrary: m k acc pre rule: encode_integer_rest.induct)
  case (1 v)
  show ?case
  proof (cases "k = 4")
    case True
    with "1.prems" show ?thesis by (intro decode_rest_too_far) simp_all
  next
    case False
    let ?b = "ucast (v mod 128 + 128) :: u8"
    have k: "Suc k \<le> 4" using False "1.prems"(2) by simp
    have pow: "(128 :: nat) ^ (4 - k) = 128 * 128 ^ (4 - Suc k)"
      using k by (metis Suc_diff_le diff_Suc_Suc power_Suc)
    have "128 \<le> unat v" using "1.prems"(3) unfolding pow by (metis mult.right_neutral mult_le_mono2 one_le_numeral one_le_power order_trans)
    then have v: "v \<ge> 128" by (simp add: word_le_nat_alt)
    have lt: "m < 28" using "1.prems"(1) k by (simp add: word_less_nat_alt)
    have m: "unat (m + 7) = 7 * Suc k" using "1.prems"(1) k by (simp add: unat_plus_if')
    have d: "128 ^ (4 - Suc k) \<le> unat (v div 128)"
      using "1.prems"(3) unfolding pow by (simp add: unat_div less_eq_div_iff_mult_less_eq mult.commute)
    have "unat v < 2 ^ 32" using unsigned_less [of v, where ?'a = nat] by simp
    then have "unat (v div 128) < 2 ^ 32 - 28" by (simp add: unat_div)
    note IH = "1.IH" [OF v m k d disjI2 [OF this], of "pre @ [?b]"]
    have "decode_integer_rest (pre @ ?b # encode_integer_rest (v div 128) @ rest) (length pre) m acc =
        decode_integer_rest (pre @ ?b # encode_integer_rest (v div 128) @ rest) (length pre + 1) (m + 7)
          (acc + push_bit (unat m) (of_nat (unat ?b - 128)))"
      by (rule decode_rest_more) (simp_all only: unat_continuation lt, simp_all)
    with IH v show ?thesis by (simp add: encode_integer_rest.simps [of v])
  qed
qed

lemma max_prefix_mask: "max_prefix p = mask p"
  by (simp add: max_prefix_def mask_eq_exp_minus_1)

lemma unat_max_prefix: "p \<le> 8 \<Longrightarrow> unat (max_prefix p) = 2 ^ p - 1"
proof -
  assume "p \<le> 8"
  then have "p = 0 \<or> p = 1 \<or> p = 2 \<or> p = 3 \<or> p = 4 \<or> p = 5 \<or> p = 6 \<or> p = 7 \<or> p = 8" by linarith
  then show ?thesis by (elim disjE) (simp_all add: max_prefix_def)
qed

lemma max_prefix_take_bit:
  assumes "p \<le> 8" "v \<le> max_prefix p"
  shows "take_bit p v = v"
proof -
  have "unat v < 2 ^ p"
    using assms unat_max_prefix [of p]
    by (simp add: word_le_nat_alt less_eq_Suc_le [symmetric]) (metis Suc_pred le_imp_less_Suc zero_less_numeral zero_less_power)
  then show ?thesis by (simp only: word_unat_eq_iff unsigned_take_bit_eq take_bit_nat_eq_self)
qed

lemma prefix_head:
  assumes "p \<le> 8" "take_bit p prefix_mask = 0" "v \<le> max_prefix p"
  shows "take_bit p (prefix_mask OR ucast v :: u8) OR prefix_mask = prefix_mask OR ucast v"
proof -
  have "take_bit p v = v" by (rule max_prefix_take_bit) (use assms in auto)
  then have vb: "bit v i \<Longrightarrow> i < p" for i by (metis bit_take_bit_iff)
  show ?thesis by (rule bit_word_eqI) (use vb in \<open>auto simp: bit_simps\<close>)
qed

lemma prefix_byte:
  assumes "p \<le> 8" "take_bit p prefix_mask = 0" "v \<le> max_prefix p"
  shows "ucast (prefix_mask OR ucast v :: u8) AND max_prefix p = v"
proof -
  have pm: "\<not> bit prefix_mask i" if "i < p" for i
    using assms(2) that by (metis bit_take_bit_iff bit_0_eq bot_apply bot_bool_def)
  have "take_bit p v = v" by (rule max_prefix_take_bit) (use assms in auto)
  then have vb: "bit v i \<Longrightarrow> i < p" for i by (metis bit_take_bit_iff)
  show ?thesis
    by (rule bit_word_eqI)
      (use pm vb order_less_le_trans [OF vb assms(1)] in \<open>auto simp: max_prefix_mask bit_simps\<close>)
qed

text \<open>The round trip of integers, first as a lemma the string and block codecs build on.\<close>

lemma hpack_integer_codec:
  assumes "1 \<le> p" "p \<le> 8" and "take_bit p prefix_mask = 0"
  shows "\<exists>bs. hpack_encode_integer v p prefix_mask = Inr bs \<and> bs \<noteq> [] \<and>
    take_bit p (hd bs) OR prefix_mask = hd bs \<and>
    hpack_decode_integer (pre @ bs @ rest) (length pre) p =
      (if unat v < 2 ^ p - 1 + 2 ^ 28 then Inr (length pre + length bs, v)
       else Inl ''HPACK integer overflow'')"
proof (cases "v < max_prefix p")
  case True
  then have "unat v < 2 ^ p - 1" using assms(2) unat_max_prefix by (simp add: word_less_nat_alt)
  with True assms prefix_byte [of p prefix_mask v] prefix_head [of p prefix_mask v] show ?thesis
    by (simp add: hpack_encode_integer_def hpack_decode_integer_def)
next
  case False
  let ?b = "prefix_mask OR ucast (max_prefix p)" and ?v = "v - max_prefix p"
  have ge: "2 ^ p - 1 \<le> unat v" using False assms(2) unat_max_prefix by (simp add: word_le_nat_alt not_less)
  have v: "unat ?v = unat v - (2 ^ p - 1)"
    using False assms(2) unat_max_prefix [of p] by (simp add: unat_sub not_less)
  have "2 ^ 1 \<le> (2 :: nat) ^ p" using assms(1) by (intro power_increasing) auto
  have enc: "hpack_encode_integer v p prefix_mask = Inr (?b # encode_integer_rest ?v)"
    using assms(1,2) False by (simp add: hpack_encode_integer_def)
  have dec: "hpack_decode_integer (pre @ (?b # encode_integer_rest ?v) @ rest) (length pre) p =
      decode_integer_rest ((pre @ [?b]) @ encode_integer_rest ?v @ rest) (length (pre @ [?b])) 0 (max_prefix p)"
    using assms prefix_byte [of p prefix_mask "max_prefix p"] by (simp add: hpack_decode_integer_def Let_def)
  have head: "take_bit p ?b OR prefix_mask = ?b"
    using prefix_head [of p prefix_mask "max_prefix p"] assms by simp
  show ?thesis
  proof (cases "unat ?v < 2 ^ 28")
    case True
    with v ge have "unat v < 2 ^ p - 1 + 2 ^ 28" by linarith
    with decode_encode_rest [of 0 0 ?v "pre @ [?b]" rest "max_prefix p"] True enc dec head show ?thesis by simp
  next
    case big: False
    with v ge have "\<not> unat v < 2 ^ p - 1 + 2 ^ 28" by linarith
    with decode_rest_too_large [of 0 0 ?v "pre @ [?b]" rest "max_prefix p"] big enc dec head show ?thesis
      by (simp add: not_less)
  qed
qed

text \<open>Prefixed integers round trip: for every prefix width of 1 to 8 bits and every 32-bit value,
  \<open>hpack_encode_integer\<close> succeeds, and \<open>hpack_decode_integer\<close> at the position of the encoding
  returns the value and the position after it when the value is below \<open>2^prefix - 1 + 2^28\<close>; for
  every larger value it throws \<open>HPACK integer overflow\<close>. (The mask holds the representation's
  pattern above the prefix.)\<close>

theorem hpack_integer_roundtrip:
  assumes "1 \<le> p" "p \<le> 8" and "take_bit p prefix_mask = 0"
  shows "\<exists>bs. hpack_encode_integer v p prefix_mask = Inr bs \<and>
    hpack_decode_integer (pre @ bs @ rest) (length pre) p =
      (if unat v < 2 ^ p - 1 + 2 ^ 28 then Inr (length pre + length bs, v)
       else Inl ''HPACK integer overflow'')"
  using hpack_integer_codec [OF assms, of v pre rest] by blast

theorem hpack_integer_roundtrip_witness:
  "(\<exists>bs. hpack_encode_integer 1337 5 0xe0 = Inr bs \<and>
     hpack_decode_integer ([7] @ bs @ [9]) (length [7 :: u8]) 5 = Inr (1 + length bs, 1337)) \<and>
   (\<exists>bs. hpack_encode_integer 0xffffffff 5 0xe0 = Inr bs \<and>
     hpack_decode_integer ([7] @ bs @ [9]) (length [7 :: u8]) 5 = Inl ''HPACK integer overflow'')"
  using hpack_integer_roundtrip [of 5 "0xe0" 1337 "[7]" "[9]"]
    hpack_integer_roundtrip [of 5 "0xe0" "0xffffffff" "[7]" "[9]"]
  by simp

section \<open>Strings and header blocks\<close>

lemma substr_middle:
  "substr (pre @ xs @ rest) (length pre) (length xs) = xs"
  by (simp add: substr_def)

lemma hpack_string_body:
  assumes n: "hpack_encode_integer (of_nat (length body)) 7 flag = Inr n" and "flag = 0 \<or> flag = 0x80"
    and len: "length body < 127 + 2 ^ 28"
  shows "hpack_decode_string (pre @ (n @ body) @ rest) (length pre) =
    r_bind (if flag = 0 then Inr (bytes_to_string body) else hpack_decode_huffman (bytes_to_string body))
      (\<lambda>v. Inr (length pre + length (n @ body), v))"
proof -
  have flag: "take_bit 7 flag = 0" using assms(2) by (auto simp: take_bit_eq_mod)
  have u: "unat (of_nat (length body) :: u32) = length body" using len by (simp add: unat_of_nat)
  obtain n' where n': "hpack_encode_integer (of_nat (length body)) 7 flag = Inr n'" "n' \<noteq> []"
    "take_bit 7 (hd n') OR flag = hd n'"
    "hpack_decode_integer (pre @ n' @ body @ rest) (length pre) 7 = Inr (length pre + length n', of_nat (length body))"
    using hpack_integer_codec [OF _ _ flag, of "of_nat (length body)" pre "body @ rest"] len u by auto
  with n have nn: "n' = n" by simp
  obtain b n2 where b: "n = b # n2" using n'(2) nn by (cases n) auto
  have "bit b 7 \<longleftrightarrow> bit flag 7" using n'(3) nn b
    by (metis bit_or_iff bit_take_bit_iff list.sel(1) less_irrefl)
  then have h: "b AND 0x80 = 0 \<longleftrightarrow> flag = 0" using assms(2) by (auto simp: bit_test)
  have "length pre < length (pre @ (n @ body) @ rest)" "(pre @ (n @ body) @ rest) ! length pre = b"
    using b by simp_all
  moreover have "length (pre @ (n @ body) @ rest) - (length pre + length n) \<ge> length body" by simp
  moreover have "substr (pre @ (n @ body) @ rest) (length pre + length n) (length body) = body"
    using substr_middle [of "pre @ n" body rest] by simp
  ultimately show ?thesis
    using n'(2,4) nn h u by (simp add: hpack_decode_string_def Let_def add.assoc)
qed

lemma hpack_string_codec:
  assumes "length t < 127 + 2 ^ 28"
  shows "\<exists>bs. hpack_encode_string t = Inr bs \<and>
    hpack_decode_string (pre @ bs @ rest) (length pre) = Inr (length pre + length bs, t)"
proof -
  obtain n where n: "hpack_encode_integer (of_nat (length (string_to_bytes t))) 7 0 = Inr n"
    using hpack_integer_codec [of 7 0 "of_nat (length (string_to_bytes t))"] by auto
  then have "hpack_encode_string t = Inr (n @ string_to_bytes t)"
    using assms by (simp add: hpack_encode_string_def)
  with hpack_string_body [OF n, of pre rest] assms show ?thesis by simp
qed

text \<open>String literals round trip: what \<open>hpack_encode_string\<close> writes for a text of fewer than
  \<open>2^28 + 127\<close> characters, \<open>hpack_decode_string\<close> reads back, with the position after it, wherever it
  stands in the block; and the Huffman form of a text (flag bit, length, canonical Huffman encoding) is
  read back as the same text.\<close>

theorem hpack_string_roundtrip:
  assumes "length t < 127 + 2 ^ 28" and "length (huffman_encode t) < 127 + 2 ^ 28"
  shows "(\<exists>bs. hpack_encode_string t = Inr bs \<and>
      hpack_decode_string (pre @ bs @ rest) (length pre) = Inr (length pre + length bs, t)) \<and>
    (\<exists>n. hpack_encode_integer (of_nat (length (huffman_encode t))) 7 0x80 = Inr n \<and>
      hpack_decode_string (pre @ (n @ string_to_bytes (huffman_encode t)) @ rest) (length pre) =
        Inr (length pre + length n + length (huffman_encode t), t))"
proof -
  obtain n where n: "hpack_encode_integer (of_nat (length (string_to_bytes (huffman_encode t)))) 7 0x80 = Inr n"
    using hpack_integer_codec [of 7 "0x80" "of_nat (length (string_to_bytes (huffman_encode t)))"]
    by (auto simp: take_bit_eq_mod)
  have "hpack_decode_huffman (huffman_encode t) = Inr t" using hpack_decode_huffman_iff by blast
  with hpack_string_body [OF n, of pre rest] assms(2) n have
    "\<exists>n. hpack_encode_integer (of_nat (length (huffman_encode t))) 7 0x80 = Inr n \<and>
      hpack_decode_string (pre @ (n @ string_to_bytes (huffman_encode t)) @ rest) (length pre) =
        Inr (length pre + length n + length (huffman_encode t), t)"
    by simp
  with hpack_string_codec [OF assms(1)] show ?thesis by blast
qed

theorem hpack_string_roundtrip_witness:
  "(\<exists>bs. hpack_encode_string ''ab'' = Inr bs \<and>
      hpack_decode_string ([1] @ bs @ [2]) (length [1 :: u8]) = Inr (length [1 :: u8] + length bs, ''ab'')) \<and>
    (\<exists>n. hpack_encode_integer (of_nat (length (huffman_encode ''ab''))) 7 0x80 = Inr n \<and>
      hpack_decode_string ([1] @ (n @ string_to_bytes (huffman_encode ''ab'')) @ [2]) (length [1 :: u8]) =
        Inr (length [1 :: u8] + length n + length (huffman_encode ''ab''), ''ab''))"
proof -
  have "huffman_encode ''ab'' = [CHR 0x1C, CHR 0x7F]" by code_simp
  then have "length (huffman_encode ''ab'') < 127 + 2 ^ 28" by simp
  then show ?thesis by (intro hpack_string_roundtrip) simp_all
qed

lemma find_static_cases:
  "find_static P index es = 0 \<or> (\<exists>i < length es. find_static P index es = of_nat (index + i + 1) \<and> P (es ! i))"
proof (induction es arbitrary: index)
  case (Cons e es)
  show ?case
  proof (cases "P e")
    case False
    with Cons.IH [of "index + 1"] show ?thesis by auto
  qed auto
qed simp

lemma length_static_table: "length static_table = 61"
  by (simp add: static_table_def)

lemma static_index:
  assumes "find_static P 0 static_table \<noteq> 0"
  shows "\<exists>h. indexed_header d (find_static P 0 static_table) = Inr h \<and> P h \<and>
    unat (find_static P 0 static_table) \<le> 61"
proof -
  obtain i where i: "i < 61" "find_static P 0 static_table = of_nat (i + 1)" "P (static_table ! i)"
    using find_static_cases [of P 0 static_table] assms by (auto simp: length_static_table)
  then have u: "unat (of_nat (i + 1) :: u32) = i + 1" by (simp only: unat_of_nat) simp
  then have "(of_nat (i + 1) :: u32) \<noteq> 0" by (metis unat_0 add_is_0 one_neq_zero)
  with i u show ?thesis
    by (simp only: indexed_header_def static_entry_def length_static_table i(2)) simp
qed

definition fits_string :: "string \<Rightarrow> bool" where
  "fits_string t \<longleftrightarrow> length t < 127 + 2 ^ 28"

definition encodable :: "header_field \<Rightarrow> bool" where
  "encodable h \<longleftrightarrow> hf_name h \<noteq> [] \<and> fits_string (hf_name h) \<and> fits_string (hf_value h)"

definition encode_field :: "header_field \<Rightarrow> bytes result" where
  "encode_field h =
     (if find_exact_static_index h \<noteq> 0
      then hpack_encode_integer (find_exact_static_index h) 7 0x80
      else
        let name_index = find_name_static_index (hf_name h) in
        r_bind (hpack_encode_integer name_index 4 0) (\<lambda>i.
        r_bind (if name_index = 0 then hpack_encode_string (hf_name h) else Inr []) (\<lambda>n.
        r_bind (hpack_encode_string (hf_value h)) (\<lambda>v. Inr (i @ n @ v)))))"

lemma decode_exact_field:
  assumes "find_exact_static_index h \<noteq> 0"
  shows "\<exists>bs. encode_field h = Inr bs \<and> bs \<noteq> [] \<and>
    decode_fields d (pre @ bs @ rest) (length pre) seen hs =
    decode_fields d (pre @ bs @ rest) (length pre + length bs) True (hs @ [h])"
proof -
  let ?i = "find_exact_static_index h"
  obtain h' where h': "indexed_header d ?i = Inr h'" "hf_name h' = hf_name h" "hf_value h' = hf_value h"
    "unat ?i \<le> 61"
    using static_index assms unfolding find_exact_static_index_def by blast
  then have "h' = h" by (simp add: header_field.equality)
  have f: "take_bit 7 (0x80 :: u8) = 0" by (simp add: take_bit_eq_mod)
  obtain bs where bs: "hpack_encode_integer ?i 7 0x80 = Inr bs" "bs \<noteq> []" "take_bit 7 (hd bs) OR 0x80 = hd bs"
    "hpack_decode_integer (pre @ bs @ rest) (length pre) 7 = Inr (length pre + length bs, ?i)"
    using hpack_integer_codec [OF _ _ f, of ?i pre rest] h'(4) by auto
  have "bit (hd bs) 7" using arg_cong [OF bs(3), of "\<lambda>b. bit b 7"] by (simp add: bit_or_iff)
  then have "(pre @ bs @ rest) ! length pre AND 0x80 \<noteq> 0"
    using bs(2) by (cases bs) (auto simp: bit_test)
  with bs h'(1) \<open>h' = h\<close> assms show ?thesis
    by (subst decode_fields.simps) (simp add: encode_field_def Let_def)
qed

lemma decode_name:
  assumes "fits_string n"
  shows "\<exists>is ns. hpack_encode_integer (find_name_static_index n) 4 0 = Inr is \<and> is \<noteq> [] \<and>
    take_bit 4 (hd is) = hd is \<and>
    (if find_name_static_index n = 0 then hpack_encode_string n else Inr []) = Inr ns \<and>
    (\<forall>post. r_bind (hpack_decode_integer (pre @ is @ ns @ post) (length pre) 4) (\<lambda>(offset, name_index).
       if name_index = 0 then hpack_decode_string (pre @ is @ ns @ post) offset
       else r_bind (indexed_name d name_index) (\<lambda>n. Inr (offset, n))) =
     Inr (length pre + length is + length ns, n))"
proof -
  let ?i = "find_name_static_index n"
  have i: "?i \<noteq> 0 \<Longrightarrow> indexed_name d ?i = Inr n \<and> unat ?i \<le> 61"
    using static_index [of "\<lambda>e. hf_name e = n" d] unfolding find_name_static_index_def
    by (auto simp: indexed_name_def)
  then have small: "unat ?i < 2 ^ 4 - 1 + 2 ^ 28" by (cases "?i = 0") auto
  have z: "take_bit 4 (0 :: u8) = 0" by simp
  obtain is' where is': "hpack_encode_integer ?i 4 0 = Inr is'" "is' \<noteq> []" "take_bit 4 (hd is') = hd is'"
    using hpack_integer_codec [OF _ _ z, of ?i] by auto
  have dec: "hpack_decode_integer (pre @ is' @ post) (length pre) 4 = Inr (length pre + length is', ?i)" for post
    using hpack_integer_codec [OF _ _ z, of ?i pre post] is'(1) small by auto
  show ?thesis
  proof (cases "?i = 0")
    case True
    obtain ns where ns: "hpack_encode_string n = Inr ns"
      using hpack_string_codec assms unfolding fits_string_def by blast
    have "hpack_decode_string ((pre @ is') @ ns @ post) (length (pre @ is')) =
        Inr (length (pre @ is') + length ns, n)" for post
      using hpack_string_codec [of n "pre @ is'" post] assms ns unfolding fits_string_def by auto
    with True is' dec ns show ?thesis by (intro exI [of _ is'] exI [of _ ns]) (simp add: add.assoc)
  next
    case False
    with i is' dec show ?thesis by (intro exI [of _ is'] exI [of _ "[]"]) simp
  qed
qed

lemma low_nibble:
  fixes b :: u8
  assumes "take_bit 4 b = b"
  shows "b AND 0x80 = 0" "b AND 0x40 = 0" "b AND 0xe0 \<noteq> 0x20"
proof -
  have hi: "\<not> bit b i" if "4 \<le> i" for i
    using assms that by (metis bit_take_bit_iff not_le)
  show "b AND 0x80 = 0" "b AND 0x40 = 0" using hi by (simp_all add: bit_test)
  have "\<not> bit (b AND 0xe0) 5" "bit (0x20 :: u8) 5" using hi by (simp_all add: bit_and_iff)
  then show "b AND 0xe0 \<noteq> 0x20" by metis
qed

lemma decode_literal_field:
  assumes "find_exact_static_index h = 0" "encodable h"
  shows "\<exists>bs. encode_field h = Inr bs \<and> bs \<noteq> [] \<and>
    decode_fields d (pre @ bs @ rest) (length pre) seen hs =
    decode_fields d (pre @ bs @ rest) (length pre + length bs) True (hs @ [h])"
proof -
  have fn: "fits_string (hf_name h)" and fv: "fits_string (hf_value h)"
    using assms(2) by (auto simp: encodable_def)
  obtain is' ns where n: "hpack_encode_integer (find_name_static_index (hf_name h)) 4 0 = Inr is'" "is' \<noteq> []"
    "take_bit 4 (hd is') = hd is'"
    "(if find_name_static_index (hf_name h) = 0 then hpack_encode_string (hf_name h) else Inr []) = Inr ns"
    and dn: "\<And>post. r_bind (hpack_decode_integer (pre @ is' @ ns @ post) (length pre) 4) (\<lambda>(offset, name_index).
       if name_index = 0 then hpack_decode_string (pre @ is' @ ns @ post) offset
       else r_bind (indexed_name d name_index) (\<lambda>n. Inr (offset, n))) =
     Inr (length pre + length is' + length ns, hf_name h)"
    using decode_name [OF fn, of pre d] by blast
  obtain vs where vs: "hpack_encode_string (hf_value h) = Inr vs"
    and dv: "hpack_decode_string ((pre @ is' @ ns) @ vs @ rest) (length (pre @ is' @ ns)) =
      Inr (length (pre @ is' @ ns) + length vs, hf_value h)"
    using hpack_string_codec [of "hf_value h" "pre @ is' @ ns" rest] fv unfolding fits_string_def by blast
  let ?bs = "is' @ ns @ vs" and ?block = "pre @ (is' @ ns @ vs) @ rest"
  have "decode_literal d ?block (length pre) 4 = Inr (length pre + length ?bs, h)"
  proof -
    obtain a b where ab: "hpack_decode_integer ?block (length pre) 4 = Inr (a, b)"
      and nm: "(if b = 0 then hpack_decode_string ?block a
        else r_bind (indexed_name d b) (\<lambda>n. Inr (a, n))) = Inr (length (pre @ is' @ ns), hf_name h)"
      using dn [of "vs @ rest"] by (auto simp: r_bind_Inr_iff add.assoc cong: if_cong)
    have blk: "?block = (pre @ is' @ ns) @ vs @ rest" by simp
    have "decode_literal d ?block (length pre) 4 =
        Inr (length (pre @ is' @ ns) + length vs, \<lparr>hf_name = hf_name h, hf_value = hf_value h\<rparr>)"
      unfolding decode_literal_def ab r_bind_simps prod.case nm
      unfolding blk dv r_bind_simps prod.case by simp
    then show ?thesis by (simp add: add.assoc)
  qed
  moreover have "?block ! length pre = hd is'" "length pre < length ?block"
    using n(2) by (cases is'; simp)+
  ultimately have "decode_fields d ?block (length pre) seen hs = decode_fields d ?block (length pre + length ?bs) True (hs @ [h])"
    using low_nibble [OF n(3)] n(2) by (subst decode_fields.simps) (simp add: Let_def)
  moreover have "encode_field h = Inr ?bs"
    using assms(1) n vs by (simp add: encode_field_def Let_def)
  ultimately show ?thesis using n(2) by blast
qed

lemma encode_block_Cons:
  "hf_name h \<noteq> [] \<Longrightarrow> hpack_encode_header_block (h # hs) =
    r_bind (encode_field h) (\<lambda>bs. r_bind (hpack_encode_header_block hs) (\<lambda>rest. Inr (bs @ rest)))"
  by (simp add: encode_field_def)

lemma decode_encode_fields:
  assumes "list_all encodable hs"
  shows "\<exists>bs. hpack_encode_header_block hs = Inr bs \<and>
    (\<forall>pre seen acc. snd (decode_fields d (pre @ bs) (length pre) seen acc) = Inr (acc @ hs) \<and>
      fst (decode_fields d (pre @ bs) (length pre) seen acc) = d)"
  using assms
proof (induction hs)
  case Nil
  show ?case by (auto simp: decode_fields.simps)
next
  case (Cons h hs)
  then obtain cs where cs: "hpack_encode_header_block hs = Inr cs"
    and IH: "\<And>pre seen acc. snd (decode_fields d (pre @ cs) (length pre) seen acc) = Inr (acc @ hs)"
      "\<And>pre seen acc. fst (decode_fields d (pre @ cs) (length pre) seen acc) = d" by auto
  have e: "encodable h" and ne: "hf_name h \<noteq> []" using Cons.prems by (auto simp: encodable_def)
  have field: "\<exists>bs. encode_field h = Inr bs \<and> bs \<noteq> [] \<and>
      decode_fields d (pre @ bs @ cs) (length pre) seen acc =
      decode_fields d (pre @ bs @ cs) (length pre + length bs) True (acc @ [h])" for pre seen acc
    using decode_exact_field decode_literal_field e by (cases "find_exact_static_index h = 0") blast+
  then obtain bs where bs: "encode_field h = Inr bs" by blast
  have "decode_fields d (pre @ bs @ cs) (length pre) seen acc =
      decode_fields d ((pre @ bs) @ cs) (length (pre @ bs)) True (acc @ [h])" for pre seen acc
    using field [of pre seen acc] bs by simp
  then have "snd (decode_fields d (pre @ bs @ cs) (length pre) seen acc) = Inr (acc @ h # hs) \<and>
      fst (decode_fields d (pre @ bs @ cs) (length pre) seen acc) = d" for pre seen acc
    using IH [of "pre @ bs" True "acc @ [h]"] by simp
  moreover have "hpack_encode_header_block (h # hs) = Inr (bs @ cs)"
    unfolding encode_block_Cons [OF ne] by (simp add: bs cs)
  ultimately show ?case by blast
qed

lemma decode_encode_block:
  assumes "list_all encodable hs"
  shows "\<exists>bs. hpack_encode_header_block hs = Inr bs \<and> decode_header_block d bs = (d, Inr hs)"
  using decode_encode_fields [OF assms, of d] unfolding decode_header_block_def
  by (metis append_Nil list.size(3) prod.collapse)

text \<open>Header blocks round trip through any decoder: for header fields with non-empty names and
  strings of fewer than \<open>2^28 + 127\<close> characters, \<open>hpack_encode_header_block\<close> succeeds, and
  \<open>HpackDecoder::decode_header_block\<close> returns exactly these fields in order, whatever its dynamic table
  holds, and leaves the table as it was.\<close>

theorem hpack_block_roundtrip:
  assumes "list_all encodable hs"
  shows "\<exists>bs. hpack_encode_header_block hs = Inr bs \<and> decode_header_block d bs = (d, Inr hs)"
  using assms by (rule decode_encode_block)

theorem hpack_block_roundtrip_witness:
  "\<exists>bs. hpack_encode_header_block
     [\<lparr>hf_name = '':status'', hf_value = ''200''\<rparr>, \<lparr>hf_name = ''server'', hf_value = ''x''\<rparr>,
      \<lparr>hf_name = ''x-a'', hf_value = ''''\<rparr>] = Inr bs \<and>
   decode_header_block new_decoder bs = (new_decoder,
     Inr [\<lparr>hf_name = '':status'', hf_value = ''200''\<rparr>, \<lparr>hf_name = ''server'', hf_value = ''x''\<rparr>,
      \<lparr>hf_name = ''x-a'', hf_value = ''''\<rparr>])"
  by (rule hpack_block_roundtrip) (simp add: encodable_def fits_string_def)

section \<open>The dynamic table\<close>

definition total_size :: "header_field list \<Rightarrow> nat" where
  "total_size hs = sum_list (map entry_size hs)"

definition table_inv :: "hpack_decoder \<Rightarrow> bool" where
  "table_inv d \<longleftrightarrow> hd_table_size d = total_size (hd_dynamic_table d) \<and> hd_table_size d \<le> hd_max_table_size d"

text \<open>The specification: a table of at most \<open>n\<close> octets holds the longest run of the newest entries
  that fits.\<close>

fun fitting :: "nat \<Rightarrow> header_field list \<Rightarrow> header_field list" where
  "fitting n [] = []"
| "fitting n (h # hs) = (if entry_size h \<le> n then h # fitting (n - entry_size h) hs else [])"

lemma total_size_simps [simp]:
  "total_size [] = 0" "total_size (h # hs) = entry_size h + total_size hs"
  "total_size (hs @ gs) = total_size hs + total_size gs"
  by (simp_all add: total_size_def)

lemma entry_size_pos [simp]: "0 < entry_size h"
  by (simp add: entry_size_def)

lemma fitting_size: "total_size (fitting n hs) \<le> n"
  by (induction n hs rule: fitting.induct) auto

lemma fitting_all: "total_size hs \<le> n \<Longrightarrow> fitting n hs = hs"
  by (induction n hs rule: fitting.induct) auto

lemma fitting_snoc: "n < total_size (hs @ [h]) \<Longrightarrow> fitting n (hs @ [h]) = fitting n hs"
  by (induction n hs rule: fitting.induct) auto

lemma evict_loop_fields: "hd_max_table_size (evict_loop d) = hd_max_table_size d"
proof (induction d rule: evict_loop.induct)
  case (1 d)
  then show ?case by (simp add: evict_loop.simps [of d])
qed

lemma evict_loop_spec:
  assumes "hd_table_size d = total_size (hd_dynamic_table d)"
  shows "hd_dynamic_table (evict_loop d) = fitting (hd_max_table_size d) (hd_dynamic_table d) \<and>
    hd_table_size (evict_loop d) = total_size (hd_dynamic_table (evict_loop d))"
  using assms
proof (induction d rule: evict_loop.induct)
  case (1 d)
  show ?case
  proof (cases "hd_table_size d > hd_max_table_size d \<and> hd_dynamic_table d \<noteq> []")
    case True
    then obtain hs h where t: "hd_dynamic_table d = hs @ [h]" by (metis rev_exhaust)
    from "1.IH" [OF True] "1.prems" True t fitting_snoc [of "hd_max_table_size d" hs h] show ?thesis
      by (simp add: evict_loop.simps [of d])
  next
    case False
    with "1.prems" show ?thesis
      by (auto simp: evict_loop.simps [of d] fitting_all not_less)
  qed
qed

lemma fitting_0 [simp]: "fitting 0 hs = []"
  using entry_size_pos by (cases hs) (auto simp: not_le)

lemma evict_dynamic_spec:
  assumes "hd_table_size d = total_size (hd_dynamic_table d)"
  shows "evict_dynamic d = d\<lparr>hd_dynamic_table := fitting (hd_max_table_size d) (hd_dynamic_table d),
    hd_table_size := total_size (fitting (hd_max_table_size d) (hd_dynamic_table d))\<rparr>"
  using evict_loop_spec [OF assms] evict_loop_fields [of d]
  by (auto simp: evict_dynamic_def Let_def hd_reset_def intro!: hpack_decoder.equality)

lemma set_max_table_size_spec:
  assumes "table_inv d"
  shows "set_max_table_size n d = \<lparr>hd_max_table_size = n,
    hd_table_size = total_size (fitting n (hd_dynamic_table d)),
    hd_dynamic_table = fitting n (hd_dynamic_table d)\<rparr>"
  using assms evict_dynamic_spec [of "d\<lparr>hd_max_table_size := n\<rparr>"]
  by (simp add: set_max_table_size_def table_inv_def)

lemma add_dynamic_spec:
  assumes "table_inv d"
  shows "add_dynamic h d = \<lparr>hd_max_table_size = hd_max_table_size d,
    hd_table_size = total_size (fitting (hd_max_table_size d) (h # hd_dynamic_table d)),
    hd_dynamic_table = fitting (hd_max_table_size d) (h # hd_dynamic_table d)\<rparr>"
proof (cases "entry_size h > hd_max_table_size d")
  case True
  then show ?thesis by (simp add: add_dynamic_def hd_reset_def)
next
  case False
  with assms evict_dynamic_spec [of "d\<lparr>hd_table_size := hd_table_size d + entry_size h,
      hd_dynamic_table := h # hd_dynamic_table d\<rparr>"]
  show ?thesis by (simp add: add_dynamic_def table_inv_def)
qed

lemma table_inv_ops [simp]:
  "table_inv new_decoder" "table_inv (hd_reset d)"
  "table_inv d \<Longrightarrow> table_inv (set_max_table_size n d)" "table_inv d \<Longrightarrow> table_inv (add_dynamic h d)"
  by (simp_all add: set_max_table_size_spec add_dynamic_spec fitting_size table_inv_def new_decoder_def hd_reset_def
      del: fitting.simps)

lemma table_after:
  assumes "table_inv d"
  shows "hd_dynamic_table (add_dynamic h d) = fitting (hd_max_table_size d) (h # hd_dynamic_table d)"
    and "hd_dynamic_table (set_max_table_size n d) = fitting n (hd_dynamic_table d)"
    and "hd_max_table_size (set_max_table_size n d) = n"
  by (simp_all only: add_dynamic_spec [OF assms] set_max_table_size_spec [OF assms] hpack_decoder.select_convs)

lemma decode_fields_inv:
  "table_inv d \<Longrightarrow> table_inv (fst (decode_fields d block offset seen hs))"
proof (induction d block offset seen hs rule: decode_fields.induct)
  case (1 d block offset seen hs)
  show ?case
    using "1.prems" "1.IH"(1) [OF _ refl] "1.IH"(2) [OF _ refl] "1.IH"(3) [OF _ refl] "1.IH"(4) [OF _ refl]
    by (subst decode_fields.simps) (auto simp: Let_def split: sum.splits prod.splits)
qed

text \<open>The dynamic table of the HPACK decoder is a bounded FIFO. Starting from a new decoder, every
  operation, including a header block whose decoding throws half way, keeps the recorded size equal to
  the sum of the entry sizes (32 octets of overhead each) and at most the current maximum; a new entry
  and a new maximum leave exactly the longest run of newest entries that fits, so an entry larger than
  the table empties it.\<close>

theorem hpack_table_bounded_fifo:
  "table_inv new_decoder \<and>
   (\<forall>d h n block. table_inv d \<longrightarrow>
     table_inv (hd_reset d) \<and>
     table_inv (fst (decode_header_block d block)) \<and>
     table_inv (add_dynamic h d) \<and> table_inv (set_max_table_size n d) \<and>
     hd_dynamic_table (add_dynamic h d) = fitting (hd_max_table_size d) (h # hd_dynamic_table d) \<and>
     hd_dynamic_table (set_max_table_size n d) = fitting n (hd_dynamic_table d) \<and>
     hd_max_table_size (set_max_table_size n d) = n)"
  by (simp add: table_after decode_header_block_def decode_fields_inv del: fitting.simps)

definition sample_decoder :: hpack_decoder where
  "sample_decoder = add_dynamic \<lparr>hf_name = ''x-a'', hf_value = ''1''\<rparr> new_decoder"

theorem hpack_table_bounded_fifo_witness:
  "table_inv sample_decoder \<and> table_inv (fst (decode_header_block sample_decoder [0x3f, 0x01, 0xbe, 0x80])) \<and>
   hd_dynamic_table (set_max_table_size 40 sample_decoder) = [\<lparr>hf_name = ''x-a'', hf_value = ''1''\<rparr>] \<and>
   hd_dynamic_table (set_max_table_size 35 sample_decoder) = []"
proof -
  note P = hpack_table_bounded_fifo [THEN conjunct2, rule_format] and N = hpack_table_bounded_fifo [THEN conjunct1]
  have s: "table_inv sample_decoder" unfolding sample_decoder_def using P [OF N] by blast
  have t: "hd_dynamic_table sample_decoder = [\<lparr>hf_name = ''x-a'', hf_value = ''1''\<rparr>]"
    unfolding sample_decoder_def using P [OF N] by (simp add: new_decoder_def entry_size_def)
  show ?thesis using P [OF s] s t by (simp add: entry_size_def)
qed

end
