(* ===== verification/Http_Request.thy ===== *)
theory Http_Request
  imports Rimau_Prelude
begin

text \<open>
  \<open>src/include/rimau/http/request.hpp\<close> and \<open>src/src/http/parser.cpp\<close>: the request value, its body
  reader, percent decoding, the request target, and \<open>parse_request\<close>. A body that was spooled to
  disk is named by its path; the contents of files are a parameter \<open>fs\<close> (\<open>None\<close>: the file does not
  open). \<open>std::getline\<close> and the extraction of words with \<open>operator>>\<close> are modelled from the standard
  library's description.
\<close>

section \<open>Requests\<close>

type_synonym query_params = "(string \<times> string list) list"

record request =
  rq_method :: string
  rq_target :: string
  rq_path :: string
  rq_query_string :: string
  rq_version :: string
  rq_headers :: headers
  rq_query_params :: query_params
  rq_body :: string
  rq_body_size_bytes :: nat
  rq_body_file :: "string option"

definition new_request :: request where
  "new_request = \<lparr>rq_method = [], rq_target = [], rq_path = [], rq_query_string = [], rq_version = [],
     rq_headers = [], rq_query_params = [], rq_body = [], rq_body_size_bytes = 0, rq_body_file = None\<rparr>"

definition request_header :: "request \<Rightarrow> string \<Rightarrow> string option" where
  "request_header r name = map_of (rq_headers r) (lowercase name)"

definition request_query :: "request \<Rightarrow> string \<Rightarrow> string option" where
  "request_query r name =
     (case map_of (rq_query_params r) name of
        None \<Rightarrow> None
      | Some vs \<Rightarrow> if vs = [] then None else Some (hd vs))"

definition content_type_contains :: "request \<Rightarrow> string \<Rightarrow> bool" where
  "content_type_contains r token =
     (case request_header r ''content-type'' of
        None \<Rightarrow> False
      | Some v \<Rightarrow> contains (lowercase v) (lowercase token))"

definition is_json :: "request \<Rightarrow> bool" where
  "is_json r \<longleftrightarrow> content_type_contains r ''application/json'' \<or> content_type_contains r ''+json''"

definition body_spooled_to_file :: "request \<Rightarrow> bool" where
  "body_spooled_to_file r \<longleftrightarrow> rq_body_file r \<noteq> None"

definition body_size :: "request \<Rightarrow> nat" where
  "body_size r =
     (if rq_body_size_bytes r = 0 \<and> \<not> body_spooled_to_file r then length (rq_body r) else rq_body_size_bytes r)"

section \<open>The body reader\<close>

text \<open>\<open>rd_file\<close>: what is left to read of the opened file, \<open>None\<close> when no file is open.\<close>

record body_reader =
  rd_request :: request
  rd_file :: "string option"
  rd_offset :: nat
  rd_exhausted :: bool

definition open_body_reader :: "(string \<Rightarrow> string option) \<Rightarrow> request \<Rightarrow> body_reader" where
  "open_body_reader fs r =
     \<lparr>rd_request = r, rd_file = Option.bind (rq_body_file r) fs, rd_offset = 0, rd_exhausted = False\<rparr>"

definition rd_eof :: "body_reader \<Rightarrow> bool" where
  "rd_eof d =
     (if rd_exhausted d then True
      else if rq_body_file (rd_request d) = None then rd_offset d \<ge> length (rq_body (rd_request d))
      else rd_file d = None \<or> rd_offset d \<ge> body_size (rd_request d))"

definition read_chunk :: "nat \<Rightarrow> body_reader \<Rightarrow> body_reader \<times> string" where
  "read_chunk max_bytes d =
     (if max_bytes = 0 \<or> rd_eof d then (d, [])
      else if rq_body_file (rd_request d) = None then
        let body = rq_body (rd_request d);
            remaining = length body - rd_offset d;
            chunk = substr body (rd_offset d) (min max_bytes remaining);
            offset = rd_offset d + length chunk
        in (d\<lparr>rd_offset := offset, rd_exhausted := (offset \<ge> length body)\<rparr>, chunk)
      else
        let data = (case rd_file d of None \<Rightarrow> [] | Some s \<Rightarrow> s);
            chunk = take max_bytes data;
            offset = rd_offset d + length chunk
        in (d\<lparr>rd_file := map_option (drop max_bytes) (rd_file d), rd_offset := offset,
              rd_exhausted := (chunk = [] \<or> offset \<ge> body_size (rd_request d))\<rparr>, chunk))"

function body_text_loop :: "nat \<Rightarrow> body_reader \<Rightarrow> string \<Rightarrow> string" where
  "body_text_loop bytes_to_read d output =
     (if length output < bytes_to_read \<and> \<not> rd_eof d then
        case read_chunk (min 8192 (bytes_to_read - length output)) d of
          (d', chunk) \<Rightarrow>
            if chunk = [] then output else body_text_loop bytes_to_read d' (output @ chunk)
      else output)"
  by pat_completeness auto
termination
  by (relation "measure (\<lambda>(n, d, output). n - length output)") (auto simp: length_greater_0_conv intro!: diff_less_mono2)

declare body_text_loop.simps [simp del]

definition body_text :: "(string \<Rightarrow> string option) \<Rightarrow> request \<Rightarrow> nat \<Rightarrow> string" where
  "body_text fs r max_bytes =
     (let bytes_to_read = (if max_bytes = 0 then body_size r else min max_bytes (body_size r))
      in body_text_loop bytes_to_read (open_body_reader fs r) [])"

section \<open>Percent decoding\<close>

text \<open>\<open>strtol\<close> on a two-character string in base 16, when it consumes both characters: two digits, or
  white space or a sign in front of one digit.\<close>

definition strtol_hex2 :: "char \<Rightarrow> char \<Rightarrow> int option" where
  "strtol_hex2 a b =
     (case hex_value b of
        None \<Rightarrow> None
      | Some d \<Rightarrow>
          (case hex_value a of
             Some e \<Rightarrow> Some (16 * int e + int d)
           | None \<Rightarrow>
               if isspace a \<or> a = CHR ''+'' then Some (int d)
               else if a = CHR ''-'' then Some (- int d) else None))"

text \<open>\<open>static_cast<char> (long)\<close>.\<close>

definition char_of_long :: "int \<Rightarrow> char" where
  "char_of_long n = char_of (nat (n mod 256))"

fun percent_decode :: "bool \<Rightarrow> string \<Rightarrow> string" where
  "percent_decode plus_as_space [] = []"
| "percent_decode plus_as_space (ch # rest) =
     (case (if ch = CHR ''%'' then (case rest of a # b # _ \<Rightarrow> strtol_hex2 a b | _ \<Rightarrow> None) else None) of
        Some parsed \<Rightarrow> char_of_long parsed # percent_decode plus_as_space (drop 2 rest)
      | None \<Rightarrow>
          (if ch = CHR ''+'' \<and> plus_as_space then CHR '' '' else ch) # percent_decode plus_as_space rest)"

section \<open>The request target\<close>

definition add_param :: "query_params \<Rightarrow> string \<Rightarrow> string \<Rightarrow> query_params" where
  "add_param ps n v = AList.update n ((case map_of ps n of None \<Rightarrow> [] | Some vs \<Rightarrow> vs) @ [v]) ps"

definition parse_param :: "query_params \<Rightarrow> string \<Rightarrow> query_params" where
  "parse_param ps pair =
     (if pair = [] then ps
      else
        let (raw_name, raw_value) =
              (case find_char (CHR ''='') pair of None \<Rightarrow> (pair, []) | Some i \<Rightarrow> (take i pair, drop (i + 1) pair))
        in add_param ps (percent_decode True raw_name) (percent_decode True raw_value))"

function parse_params :: "query_params \<Rightarrow> string \<Rightarrow> query_params" where
  "parse_params ps s =
     (case find_char (CHR ''&'') s of
        None \<Rightarrow> parse_param ps s
      | Some i \<Rightarrow> parse_params (parse_param ps (take i s)) (drop (i + 1) s))"
  by pat_completeness auto
termination
  by (relation "measure (\<lambda>(ps, s). length s)") (auto dest: find_char_Some)

declare parse_params.simps [simp del]

definition parse_target :: "request \<Rightarrow> request" where
  "parse_target r =
     (let t = rq_target r;
          query_start = find_char (CHR ''?'') t;
          fragment_start = find_char (CHR ''#'') t;
          path_end = min (case query_start of None \<Rightarrow> length t | Some i \<Rightarrow> i)
                         (case fragment_start of None \<Rightarrow> length t | Some i \<Rightarrow> i);
          r = r\<lparr>rq_path := percent_decode False (take path_end t)\<rparr>
      in case query_start of
           None \<Rightarrow> r\<lparr>rq_query_string := []\<rparr>
         | Some q \<Rightarrow>
             if (case fragment_start of None \<Rightarrow> False | Some f \<Rightarrow> f < q) then r\<lparr>rq_query_string := []\<rparr>
             else
               let query_end = (case fragment_start of None \<Rightarrow> length t | Some f \<Rightarrow> f);
                   qs = substr t (q + 1) (query_end - q - 1)
               in r\<lparr>rq_query_string := qs, rq_query_params := parse_params (rq_query_params r) qs\<rparr>)"

section \<open>Parsing a request\<close>

datatype parse_error =
    no_error | empty_request | malformed_request_line | malformed_header | malformed_body
  | unsupported_http_version

record parse_result =
  pr_request :: "request option"
  pr_error :: parse_error
  pr_message :: string

definition parse_error_result :: "parse_error \<Rightarrow> string \<Rightarrow> parse_result" where
  "parse_error_result e m = \<lparr>pr_request = None, pr_error = e, pr_message = m\<rparr>"

text \<open>\<open>std::getline\<close>: the next line and the rest of the stream.\<close>

definition getline :: "string \<Rightarrow> (string \<times> string) option" where
  "getline s =
     (if s = [] then None
      else Some (takeWhile (\<lambda>c. c \<noteq> LF) s, drop 1 (dropWhile (\<lambda>c. c \<noteq> LF) s)))"

definition strip_cr :: "string \<Rightarrow> string" where
  "strip_cr line = (if line \<noteq> [] \<and> last line = CR then butlast line else line)"

text \<open>The words \<open>operator>>\<close> extracts one after the other.\<close>

function stream_words :: "string \<Rightarrow> string list" where
  "stream_words s =
     (case dropWhile isspace s of
        [] \<Rightarrow> []
      | c # r \<Rightarrow> (c # takeWhile (\<lambda>x. \<not> isspace x) r) # stream_words (dropWhile (\<lambda>x. \<not> isspace x) r))"
  by pat_completeness auto
termination
proof (relation "measure length")
  fix s c r
  assume "dropWhile isspace s = c # r"
  then have "Suc (length r) \<le> length s" by (metis length_Cons length_dropWhile_le)
  moreover have "length (dropWhile (\<lambda>x. \<not> isspace x) r) \<le> length r" by (rule length_dropWhile_le)
  ultimately show "(dropWhile (\<lambda>x. \<not> isspace x) r, s) \<in> measure length" by simp
qed simp

declare stream_words.simps [simp del]

lemma getline_shorter: "getline s = Some (line, rest) \<Longrightarrow> length rest < length s"
proof -
  assume "getline s = Some (line, rest)"
  then have "s \<noteq> []" "rest = drop 1 (dropWhile (\<lambda>c. c \<noteq> LF) s)"
    by (auto simp: getline_def split: if_splits)
  moreover have "length (dropWhile (\<lambda>c. c \<noteq> LF) s) \<le> length s" by (rule length_dropWhile_le)
  ultimately show ?thesis by (cases "dropWhile (\<lambda>c. c \<noteq> LF) s") auto
qed

text \<open>The header loop; it returns the headers and the unread rest of the stream.\<close>

function parse_headers :: "headers \<Rightarrow> string \<Rightarrow> (parse_error \<times> string) + (headers \<times> string)" where
  "parse_headers hs s =
     (case getline s of
        None \<Rightarrow> Inr (hs, [])
      | Some (line0, rest) \<Rightarrow>
          let line = strip_cr line0 in
          if line = [] then Inr (hs, rest)
          else
            case find_char (CHR '':'') line of
              None \<Rightarrow> Inl (malformed_header, ''header is missing '' @ [CHR 0x27, CHR '':'', CHR 0x27])
            | Some i \<Rightarrow>
                let name = lowercase (trim (take i line)); v = trim (drop (i + 1) line) in
                if name = [] then Inl (malformed_header, ''header name is empty'')
                else parse_headers (AList.update name v hs) rest)"
  by pat_completeness auto
termination
  by (relation "measure (\<lambda>(hs, s). length s)") (auto dest: getline_shorter)

declare parse_headers.simps [simp del]

definition parse_request :: "string \<Rightarrow> parse_result" where
  "parse_request raw =
     (if raw = [] then parse_error_result empty_request ''request is empty''
      else
        case getline raw of
          None \<Rightarrow> parse_error_result empty_request ''request line is empty''
        | Some (line0, rest) \<Rightarrow>
            (case stream_words (strip_cr line0) of
               [method, target, version] \<Rightarrow>
                 if version \<noteq> ''HTTP/1.1'' \<and> version \<noteq> ''HTTP/1.0''
                 then parse_error_result unsupported_http_version
                        ''only HTTP/1.0 and HTTP/1.1 parsing is implemented''
                 else
                   (case parse_headers [] rest of
                      Inl (e, m) \<Rightarrow> parse_error_result e m
                    | Inr (hs, body) \<Rightarrow>
                        \<lparr>pr_request = Some (parse_target (new_request\<lparr>rq_method := method, rq_target := target,
                           rq_version := version, rq_headers := hs, rq_body := body,
                           rq_body_size_bytes := length body\<rparr>)),
                         pr_error = no_error, pr_message = []\<rparr>)
             | _ \<Rightarrow> parse_error_result malformed_request_line ''request line must be: METHOD TARGET HTTP/VERSION''))"

section \<open>Reading a body\<close>

definition body_contents :: "(string \<Rightarrow> string option) \<Rightarrow> request \<Rightarrow> string" where
  "body_contents fs r =
     (case rq_body_file r of None \<Rightarrow> rq_body r | Some p \<Rightarrow> (case fs p of None \<Rightarrow> [] | Some c \<Rightarrow> c))"

text \<open>The recorded size agrees with the body: what the parser and the body accumulator set up.\<close>

definition body_wf :: "(string \<Rightarrow> string option) \<Rightarrow> request \<Rightarrow> bool" where
  "body_wf fs r \<longleftrightarrow>
     (case rq_body_file r of
        None \<Rightarrow> rq_body_size_bytes r = 0 \<or> rq_body_size_bytes r = length (rq_body r)
      | Some p \<Rightarrow> fs p \<noteq> None \<and> rq_body_size_bytes r = length (body_contents fs r))"

definition reader_at :: "(string \<Rightarrow> string option) \<Rightarrow> request \<Rightarrow> nat \<Rightarrow> body_reader \<Rightarrow> bool" where
  "reader_at fs r k d \<longleftrightarrow>
     rd_request d = r \<and> rd_offset d = k \<and> k \<le> length (body_contents fs r) \<and>
     (rd_exhausted d \<longrightarrow> k = length (body_contents fs r)) \<and>
     (rq_body_file r \<noteq> None \<longrightarrow> rd_file d = Some (drop k (body_contents fs r)))"

lemma body_size_contents: "body_wf fs r \<Longrightarrow> body_size r = length (body_contents fs r)"
  by (auto simp: body_wf_def body_size_def body_spooled_to_file_def body_contents_def split: option.splits)

lemma rd_eof_iff:
  assumes "body_wf fs r" "reader_at fs r k d"
  shows "rd_eof d \<longleftrightarrow> k = length (body_contents fs r)"
  using assms body_size_contents [OF assms(1)]
  by (auto simp: rd_eof_def reader_at_def body_contents_def split: option.splits)

lemma read_chunk_at:
  assumes wf: "body_wf fs r" and at: "reader_at fs r k d" and k: "k < length (body_contents fs r)" and n: "0 < n"
  shows "\<exists>d'. read_chunk n d = (d', take n (drop k (body_contents fs r))) \<and>
    reader_at fs r (min (k + n) (length (body_contents fs r))) d'"
proof -
  let ?c = "body_contents fs r"
  have e: "\<not> rd_eof d" using rd_eof_iff [OF wf at] k by simp
  have s: "body_size r = length ?c" by (rule body_size_contents [OF wf])
  show ?thesis
  proof (cases "rq_body_file r")
    case None
    then have c: "?c = rq_body r" by (simp add: body_contents_def)
    have "min n (length ?c - k) = length (take n (drop k ?c))" by simp
    with None at e k n c show ?thesis
      by (auto simp: read_chunk_def Let_def reader_at_def substr_def min_def)
  next
    case (Some p)
    with at e k n s show ?thesis
      by (auto simp: read_chunk_def Let_def reader_at_def drop_drop min_def add.commute)
  qed
qed

lemma body_text_loop_at:
  assumes wf: "body_wf fs r" and n: "n \<le> length (body_contents fs r)"
  shows "reader_at fs r k d \<Longrightarrow> k \<le> n \<Longrightarrow>
    body_text_loop n d (take k (body_contents fs r)) = take n (body_contents fs r)"
proof (induction "n - k" arbitrary: k d rule: less_induct)
  case less
  let ?c = "body_contents fs r"
  have lk: "length (take k ?c) = k" using less.prems(2) n by simp
  show ?case
  proof (cases "k = n")
    case True
    then show ?thesis using lk by (subst body_text_loop.simps) simp
  next
    case False
    then have k: "k < n" using less.prems by simp
    let ?m = "min 8192 (n - k)"
    have m: "0 < ?m" "k + ?m \<le> n" using k by simp_all
    obtain d' where d': "read_chunk ?m d = (d', take ?m (drop k ?c))"
      "reader_at fs r (min (k + ?m) (length ?c)) d'"
      using read_chunk_at [OF wf less.prems(1) _ m(1)] k n by auto
    have at: "reader_at fs r (k + ?m) d'" using d'(2) m(2) n by (simp add: min_def split: if_splits)
    have ne: "take ?m (drop k ?c) \<noteq> []" using m(1) k n by simp
    have "\<not> rd_eof d" using rd_eof_iff [OF wf less.prems(1)] k n by simp
    then have "body_text_loop n d (take k ?c) = body_text_loop n d' (take k ?c @ take ?m (drop k ?c))"
      using k lk d'(1) ne m(1) by (subst body_text_loop.simps) (simp del: min_less_iff_conj)
    also have "take k ?c @ take ?m (drop k ?c) = take (k + ?m) ?c" by (simp only: take_add)
    also have "body_text_loop n d' (take (k + ?m) ?c) = take n ?c"
      using less.hyps [OF _ at] m k by simp
    finally show ?thesis .
  qed
qed

lemma body_text_contents:
  assumes "body_wf fs r"
  shows "body_text fs r max_bytes =
    (if max_bytes = 0 then body_contents fs r else take max_bytes (body_contents fs r))"
proof -
  let ?c = "body_contents fs r"
  have s: "body_size r = length ?c" by (rule body_size_contents [OF assms])
  have at: "reader_at fs r 0 (open_body_reader fs r)"
    using assms by (auto simp: reader_at_def open_body_reader_def body_wf_def body_contents_def split: option.splits)
  have "body_text_loop n (open_body_reader fs r) [] = take n ?c" if "n \<le> length ?c" for n
    using body_text_loop_at [OF assms that at] by simp
  then show ?thesis by (auto simp: body_text_def Let_def s min_def)
qed

text \<open>Reading a request body: for every request whose recorded size agrees with its body, held in
  memory or spooled to a file, \<open>Request::body_text\<close> terminates and returns the body, or its first
  \<open>max_bytes\<close> characters when a limit is given, although it reads in chunks of at most 8192.\<close>

theorem body_text_reads_body:
  assumes "body_wf fs r"
  shows "body_text fs r max_bytes =
    (if max_bytes = 0 then body_contents fs r else take max_bytes (body_contents fs r))"
  using assms by (rule body_text_contents)

theorem body_text_reads_body_witness:
  "body_text (\<lambda>p. if p = ''/tmp/b'' then Some ''abcdef'' else None)
     (new_request\<lparr>rq_body_file := Some ''/tmp/b'', rq_body_size_bytes := 6\<rparr>) 4 = ''abcd''"
  by (subst body_text_reads_body) (simp_all add: body_wf_def body_contents_def new_request_def)

section \<open>Percent decoding\<close>

text \<open>An encoder that may leave characters alone.\<close>

definition percent_encode_char :: "char \<Rightarrow> string" where
  "percent_encode_char c = [CHR ''%'', digit_char (code c div 16), digit_char (code c mod 16)]"

definition percent_encode :: "(char \<Rightarrow> bool) \<Rightarrow> string \<Rightarrow> string" where
  "percent_encode keep s = concat (map (\<lambda>c. if keep c then [c] else percent_encode_char c) s)"

lemma percent_decode_encoded:
  "percent_decode p (percent_encode_char c @ s) = c # percent_decode p s"
proof -
  have "code c div 16 < 16" using code_less_256 [of c] by linarith
  moreover have "code c mod 16 < 16" by simp
  moreover have "char_of_long (16 * int (code c div 16) + int (code c mod 16)) = c"
  proof -
    have "16 * int (code c div 16) + int (code c mod 16) = int (code c)"
      by (metis mult_div_mod_eq of_nat_add of_nat_mult of_nat_numeral)
    moreover have "int (code c) mod 256 = int (code c)" using code_less_256 [of c] by simp
    ultimately show ?thesis by (simp add: char_of_long_def)
  qed
  ultimately show ?thesis by (simp add: percent_encode_char_def strtol_hex2_def hex_value_digit_char)
qed

lemma percent_decode_inverse:
  assumes "\<not> keep (CHR ''%'')" and "p \<longrightarrow> \<not> keep (CHR ''+'')"
  shows "percent_decode p (percent_encode keep s) = s"
proof (induction s)
  case (Cons c s)
  show ?case
  proof (cases "keep c")
    case True
    with assms have "c \<noteq> CHR ''%''" "\<not> (c = CHR ''+'' \<and> p)" by auto
    with Cons True show ?thesis by (auto simp: percent_encode_def)
  next
    case False
    with Cons percent_decode_encoded [of p c "percent_encode keep s"] show ?thesis
      by (simp add: percent_encode_def)
  qed
qed (simp add: percent_encode_def)

text \<open>Percent decoding inverts percent encoding: whatever set of characters an encoder leaves alone,
  as long as it escapes the percent sign (and the plus sign where plus stands for a space), decoding its
  output gives the original text. \<close>

theorem percent_decode_encode:
  assumes "\<not> keep (CHR ''%'')" and "p \<longrightarrow> \<not> keep (CHR ''+'')"
  shows "percent_decode p (percent_encode keep s) = s"
  using assms by (rule percent_decode_inverse)

theorem percent_decode_encode_witness:
  "percent_decode True (percent_encode isalnum ''a+b %'') = ''a+b %''"
  by (rule percent_decode_encode) (simp_all add: isalnum_def isalpha_def isupper_def isdigit_def)

section \<open>Parsing\<close>

lemma getline_append: "LF \<notin> set l \<Longrightarrow> getline (l @ LF # rest) = Some (l, rest)"
proof -
  assume "LF \<notin> set l"
  then have "\<And>c. c \<in> set l \<Longrightarrow> c \<noteq> LF" by blast
  then have "takeWhile (\<lambda>c. c \<noteq> LF) (l @ LF # rest) = l" "dropWhile (\<lambda>c. c \<noteq> LF) (l @ LF # rest) = LF # rest"
    by (simp_all add: takeWhile_append2 dropWhile_append2)
  then show ?thesis by (simp add: getline_def)
qed

lemma getline_Some:
  assumes "getline s = Some (line, rest)"
  shows "LF \<notin> set line \<and> suffix rest s \<and> (\<exists>post. s = line @ post)"
proof -
  have l: "line = takeWhile (\<lambda>c. c \<noteq> LF) s" and r: "rest = drop 1 (dropWhile (\<lambda>c. c \<noteq> LF) s)"
    using assms by (auto simp: getline_def split: if_splits)
  have "LF \<notin> set line" unfolding l by (metis (mono_tags, lifting) set_takeWhileD)
  moreover have "suffix rest s" unfolding r by (meson suffix_drop suffix_dropWhile suffix_order.trans)
  ultimately show ?thesis unfolding l by (metis takeWhile_dropWhile_id)
qed

lemma strip_cr_append [simp]: "strip_cr (l @ [CR]) = l"
  by (simp add: strip_cr_def)

lemma set_strip_cr: "set (strip_cr l) \<subseteq> set l"
  by (auto simp: strip_cr_def dest: in_set_butlastD)

definition no_space :: "string \<Rightarrow> bool" where
  "no_space w \<longleftrightarrow> list_all (\<lambda>c. \<not> isspace c) w"

lemma stream_words_word:
  assumes "no_space w" "w \<noteq> []" "s = [] \<or> isspace (hd s)"
  shows "stream_words (w @ s) = w # stream_words s"
proof -
  obtain c r where w: "w = c # r" using assms(2) by (cases w) auto
  have nr: "\<And>x. x \<in> set r \<Longrightarrow> \<not> isspace x" and nc: "\<not> isspace c"
    using assms(1) by (auto simp: w no_space_def list_all_iff)
  have s: "takeWhile (\<lambda>x. \<not> isspace x) s = [] \<and> dropWhile (\<lambda>x. \<not> isspace x) s = s"
    using assms(3) by (cases s) auto
  have "takeWhile (\<lambda>x. \<not> isspace x) (r @ s) = r" "dropWhile (\<lambda>x. \<not> isspace x) (r @ s) = s"
    using nr s by (simp_all add: takeWhile_append2 dropWhile_append2)
  with nc show ?thesis by (simp add: w stream_words.simps [of "c # r @ s"])
qed

lemma stream_words_space: "isspace c \<Longrightarrow> stream_words (c # s) = stream_words s"
  by (simp add: stream_words.simps [of "c # s"] stream_words.simps [of s])

lemma stream_words_Nil [simp]: "stream_words [] = []"
  by (simp add: stream_words.simps)

lemma stream_words_no_space: "w \<in> set (stream_words s) \<Longrightarrow> no_space w \<and> w \<noteq> [] \<and> set w \<subseteq> set s"
proof (induction s rule: stream_words.induct)
  case (1 s)
  show ?case
  proof (cases "dropWhile isspace s")
    case Nil
    with "1.prems" show ?thesis by (simp add: stream_words.simps [of s])
  next
    case (Cons c r)
    have c: "\<not> isspace c" using Cons by (metis hd_dropWhile list.distinct(1) list.sel(1))
    have sub: "set (c # r) \<subseteq> set s" using Cons by (metis set_dropWhileD subsetI)
    have "w = c # takeWhile (\<lambda>x. \<not> isspace x) r \<or> w \<in> set (stream_words (dropWhile (\<lambda>x. \<not> isspace x) r))"
      using "1.prems" Cons by (simp add: stream_words.simps [of s])
    then show ?thesis
    proof
      assume "w = c # takeWhile (\<lambda>x. \<not> isspace x) r"
      with c sub show ?thesis by (auto simp: no_space_def list_all_iff dest: set_takeWhileD)
    next
      assume "w \<in> set (stream_words (dropWhile (\<lambda>x. \<not> isspace x) r))"
      from "1.IH" [OF Cons this] sub show ?thesis by (auto dest: set_dropWhileD)
    qed
  qed
qed

lemma update_new: "k \<notin> fst ` set al \<Longrightarrow> AList.update k v al = al @ [(k, v)]"
  by (induction al) auto

lemma set_update: "set (AList.update k v al) \<subseteq> insert (k, v) (set al)"
  by (induction al) auto

lemma isspace_tolower [simp]: "isspace (tolower c) = isspace c"
  by (auto simp: isspace_def code_tolower isupper_def)

lemma dropWhile_isspace_trim: "dropWhile isspace (trim s) = trim s"
proof (cases "trim s")
  case (Cons c t)
  have "prefix (trim s) (dropWhile isspace s)"
    using suffix_dropWhile [of isspace "rev (dropWhile isspace s)"] by (simp add: suffix_to_prefix trim_def)
  with Cons obtain zs where "dropWhile isspace s = c # t @ zs" by (auto simp: prefix_def)
  then have "\<not> isspace c" by (metis hd_dropWhile list.distinct(1) list.sel(1))
  with Cons show ?thesis by simp
qed simp

lemma trim_idem [simp]: "trim (trim s) = trim s"
proof -
  have "trim (trim s) = rev (dropWhile isspace (rev (trim s)))"
    by (simp add: trim_def [of "trim s"] dropWhile_isspace_trim)
  also have "rev (trim s) = dropWhile isspace (rev (dropWhile isspace s))" by (simp add: trim_def)
  also have "rev (dropWhile isspace (dropWhile isspace (rev (dropWhile isspace s)))) = trim s"
    by (simp add: trim_def)
  finally show ?thesis .
qed

lemma dropWhile_map: "dropWhile P (map f xs) = map f (dropWhile (\<lambda>x. P (f x)) xs)"
  by (induction xs) auto

lemma trim_lowercase: "trim (lowercase s) = lowercase (trim s)"
  by (simp add: trim_def lowercase_def dropWhile_map rev_map)

text \<open>What the parser guarantees of the headers it accepts.\<close>

definition header_ok :: "string \<times> string \<Rightarrow> bool" where
  "header_ok h \<longleftrightarrow> fst h \<noteq> [] \<and> lowercase (fst h) = fst h \<and> trim (fst h) = fst h \<and> trim (snd h) = snd h \<and>
     LF \<notin> set (fst h) \<and> LF \<notin> set (snd h) \<and> CHR '':'' \<notin> set (fst h)"

lemma tolower_special: "tolower c = LF \<longleftrightarrow> c = LF" "tolower c = CHR '':'' \<longleftrightarrow> c = CHR '':''"
proof -
  have "(code (tolower c) = 10 \<longleftrightarrow> code c = 10) \<and> (code (tolower c) = 58 \<longleftrightarrow> code c = 58)"
    by (auto simp: code_tolower isupper_def)
  moreover have "d = LF \<longleftrightarrow> code d = 10" "d = CHR '':'' \<longleftrightarrow> code d = 58" for d
    using of_char_eq_iff [of d LF, where ?'a = nat] of_char_eq_iff [of d "CHR '':''", where ?'a = nat] by simp_all
  ultimately show "tolower c = LF \<longleftrightarrow> c = LF" "tolower c = CHR '':'' \<longleftrightarrow> c = CHR '':''" by simp_all
qed

lemma header_ok_line:
  assumes "LF \<notin> set line" "find_char (CHR '':'') line = Some i" "lowercase (trim (take i line)) \<noteq> []"
  shows "header_ok (lowercase (trim (take i line)), trim (drop (i + 1) line))"
proof -
  have "set (trim (take i line)) \<subseteq> set (take i line)" "set (trim (drop (i + 1) line)) \<subseteq> set line"
    using set_trim [of "take i line"] set_trim [of "drop (i + 1) line"] set_drop_subset [of "i + 1" line] by blast+
  moreover have "CHR '':'' \<notin> set (take i line)" using find_char_Some [OF assms(2)] by simp
  moreover have "LF \<notin> set (take i line)" using assms(1) by (meson in_set_takeD)
  ultimately have "LF \<notin> set (trim (take i line))" "CHR '':'' \<notin> set (trim (take i line))"
    "LF \<notin> set (trim (drop (i + 1) line))" using assms(1) by blast+
  moreover have "LF \<in> set (lowercase t) \<longleftrightarrow> LF \<in> set t" "CHR '':'' \<in> set (lowercase t) \<longleftrightarrow> CHR '':'' \<in> set t" for t
    unfolding lowercase_def set_map by (metis imageE image_eqI tolower_special)+
  ultimately show ?thesis using assms(3) by (simp add: header_ok_def trim_lowercase)
qed

lemma parse_headers_ok:
  "parse_headers hs s = Inr (hs', body) \<Longrightarrow> list_all header_ok hs \<Longrightarrow> distinct (map fst hs) \<Longrightarrow>
    list_all header_ok hs' \<and> distinct (map fst hs') \<and> suffix body s"
proof (induction hs s rule: parse_headers.induct)
  case (1 hs s)
  show ?case
  proof (cases "getline s")
    case None
    with "1.prems" show ?thesis by (simp add: parse_headers.simps [of hs s])
  next
    case (Some p)
    then obtain line0 rest where g: "getline s = Some (line0, rest)" by (cases p) auto
    note gl = getline_Some [OF g]
    let ?line = "strip_cr line0"
    show ?thesis
    proof (cases "?line = []")
      case True
      with "1.prems" g gl show ?thesis by (simp add: parse_headers.simps [of hs s])
    next
      case False
      then obtain i where i: "find_char (CHR '':'') ?line = Some i"
        using "1.prems"(1) g by (cases "find_char (CHR '':'') ?line") (auto simp: parse_headers.simps [of hs s] Let_def)
      let ?n = "lowercase (trim (take i ?line))" and ?v = "trim (drop (i + 1) ?line)"
      have n: "?n \<noteq> []" and rec: "parse_headers (AList.update ?n ?v hs) rest = Inr (hs', body)"
        using "1.prems"(1) g False i by (auto simp: parse_headers.simps [of hs s] Let_def split: if_splits)
      have "LF \<notin> set ?line" using gl set_strip_cr by blast
      then have "header_ok (?n, ?v)" by (rule header_ok_line [OF _ i n])
      then have "list_all header_ok (AList.update ?n ?v hs)"
        using "1.prems"(2) set_update [of ?n ?v hs] unfolding list_all_iff by blast
      moreover have "distinct (map fst (AList.update ?n ?v hs))" using "1.prems"(3) by (rule distinct_update)
      ultimately show ?thesis
        using "1.IH" [OF g _ refl False i refl refl n rec] gl by (meson suffix_order.trans)
    qed
  qed
qed

lemma parse_target_fields [simp]:
  "rq_method (parse_target r) = rq_method r" "rq_target (parse_target r) = rq_target r"
  "rq_version (parse_target r) = rq_version r" "rq_headers (parse_target r) = rq_headers r"
  "rq_body (parse_target r) = rq_body r" "rq_body_size_bytes (parse_target r) = rq_body_size_bytes r"
  "rq_body_file (parse_target r) = rq_body_file r"
  by (simp_all add: parse_target_def Let_def split: option.split)

lemma parsed_request_wf:
  assumes "pr_request (parse_request raw) = Some r"
  shows "(rq_version r = ''HTTP/1.1'' \<or> rq_version r = ''HTTP/1.0'') \<and>
    no_space (rq_method r) \<and> rq_method r \<noteq> [] \<and> no_space (rq_target r) \<and> rq_target r \<noteq> [] \<and>
    list_all header_ok (rq_headers r) \<and> distinct (map fst (rq_headers r)) \<and>
    suffix (rq_body r) raw \<and> rq_body_file r = None \<and> body_size r = length (rq_body r) \<and>
    pr_error (parse_request raw) = no_error"
proof -
  obtain line0 rest where g: "getline raw = Some (line0, rest)"
    using assms by (cases "getline raw") (auto simp: parse_request_def parse_error_result_def split: if_splits)
  have raw: "raw \<noteq> []" using assms by (auto simp: parse_request_def parse_error_result_def)
  obtain m t v where w: "stream_words (strip_cr line0) = [m, t, v]"
    using assms raw g
    by (cases "stream_words (strip_cr line0)" rule: remdups_adj.cases)
      (auto simp: parse_request_def parse_error_result_def split: list.splits)
  have v: "v = ''HTTP/1.1'' \<or> v = ''HTTP/1.0''"
    using assms raw g w by (auto simp: parse_request_def parse_error_result_def split: if_splits)
  obtain hs body where p: "parse_headers [] rest = Inr (hs, body)"
    using assms raw g w v
    by (cases "parse_headers [] rest") (auto simp: parse_request_def parse_error_result_def)
  have ok: "list_all header_ok hs \<and> distinct (map fst hs) \<and> suffix body rest"
    using parse_headers_ok [OF p] by simp
  have words: "no_space m \<and> m \<noteq> []" "no_space t \<and> t \<noteq> []"
    using stream_words_no_space [of _ "strip_cr line0"] w by auto
  have res: "parse_request raw = \<lparr>pr_request = Some (parse_target (new_request\<lparr>rq_method := m, rq_target := t,
      rq_version := v, rq_headers := hs, rq_body := body, rq_body_size_bytes := length body\<rparr>)),
      pr_error = no_error, pr_message = []\<rparr>"
    using raw g w v p by (auto simp: parse_request_def)
  have "suffix body raw" using ok getline_Some [OF g] by (meson suffix_order.trans)
  with assms res ok words v show ?thesis
    by (auto simp: new_request_def body_size_def)
qed

text \<open>What \<open>parse_request\<close> accepts is well formed: the version is HTTP/1.0 or HTTP/1.1; method and
  target are non-empty and free of white space; header names are distinct, non-empty, lower case, without
  surrounding space, colon or line feed, and values are trimmed and contain no line feed; the body is a
  suffix of the input and its recorded size is its length.\<close>

theorem parse_request_wf:
  assumes "pr_request (parse_request raw) = Some r"
  shows "(rq_version r = ''HTTP/1.1'' \<or> rq_version r = ''HTTP/1.0'') \<and>
    no_space (rq_method r) \<and> rq_method r \<noteq> [] \<and> no_space (rq_target r) \<and> rq_target r \<noteq> [] \<and>
    list_all header_ok (rq_headers r) \<and> distinct (map fst (rq_headers r)) \<and>
    suffix (rq_body r) raw \<and> rq_body_file r = None \<and> body_size r = length (rq_body r) \<and>
    pr_error (parse_request raw) = no_error"
  using assms by (rule parsed_request_wf)

text \<open>A request as it goes over the wire.\<close>

definition render_headers :: "headers \<Rightarrow> string" where
  "render_headers hs = concat (map (\<lambda>(n, v). n @ '': '' @ v @ CRLF) hs)"

definition render_request :: "string \<Rightarrow> string \<Rightarrow> string \<Rightarrow> headers \<Rightarrow> string \<Rightarrow> string" where
  "render_request m t v hs body = m @ '' '' @ t @ '' '' @ v @ CRLF @ render_headers hs @ CRLF @ body"

lemma trim_space_prefix: "trim (CHR '' '' # s) = trim s"
  by (simp add: trim_def isspace_def)

definition name_ok :: "string \<Rightarrow> bool" where
  "name_ok n \<longleftrightarrow> n \<noteq> [] \<and> lowercase n = n \<and> trim n = n \<and> LF \<notin> set n \<and> CHR '':'' \<notin> set n"

text \<open>The parser keeps the last value of a name that occurs twice.\<close>

definition store_headers :: "headers \<Rightarrow> headers \<Rightarrow> headers" where
  "store_headers hs acc = fold (\<lambda>(n, v). AList.update n (trim v)) hs acc"

lemma parse_headers_stores:
  assumes "list_all (\<lambda>(n, v). name_ok n \<and> LF \<notin> set v) hs"
  shows "parse_headers acc (render_headers hs @ CRLF @ body) = Inr (store_headers hs acc, body)"
  using assms
proof (induction hs arbitrary: acc)
  case Nil
  have "getline (CRLF @ body) = Some ([CR], body)" using getline_append [of "[CR]" body] by simp
  then show ?case by (simp add: parse_headers.simps render_headers_def strip_cr_def store_headers_def)
next
  case (Cons h hs)
  obtain n v where h: "h = (n, v)" by (cases h)
  have ok: "n \<noteq> []" "lowercase n = n" "trim n = n" "LF \<notin> set n" "LF \<notin> set v" "CHR '':'' \<notin> set n"
    using Cons.prems(1) by (auto simp: h name_ok_def)
  let ?line = "n @ '': '' @ v" and ?rest = "render_headers hs @ CRLF @ body"
  have "getline ((?line @ [CR]) @ LF # ?rest) = Some (?line @ [CR], ?rest)"
    by (rule getline_append) (use ok in auto)
  then have g: "getline (render_headers (h # hs) @ CRLF @ body) = Some (?line @ [CR], ?rest)"
    by (simp add: render_headers_def h)
  have s: "strip_cr (?line @ [CR]) = ?line" using strip_cr_append [of ?line] by simp
  have i: "find_char (CHR '':'') ?line = Some (length n)"
    using find_char_append [OF ok(6), of "CHR '' '' # v"] by simp
  have "parse_headers acc (render_headers (h # hs) @ CRLF @ body) = parse_headers (AList.update n (trim v) acc) ?rest"
    using ok g s i by (subst parse_headers.simps) (simp add: Let_def trim_space_prefix)
  with Cons show ?case by (simp add: store_headers_def h)
qed

lemma store_headers_distinct:
  "distinct (map fst (acc @ hs)) \<Longrightarrow> store_headers hs acc = acc @ map (\<lambda>(n, v). (n, trim v)) hs"
proof (induction hs arbitrary: acc)
  case (Cons h hs)
  obtain n v where h: "h = (n, v)" by (cases h)
  have "n \<notin> fst ` set acc" using Cons.prems by (auto simp: h)
  with Cons show ?case by (simp add: store_headers_def h update_new)
qed (simp add: store_headers_def)

lemma parse_headers_render_trim:
  assumes "list_all (\<lambda>(n, v). name_ok n \<and> LF \<notin> set v) hs" "distinct (map fst (acc @ hs))"
  shows "parse_headers acc (render_headers hs @ CRLF @ body) = Inr (acc @ map (\<lambda>(n, v). (n, trim v)) hs, body)"
  using parse_headers_stores [OF assms(1)] store_headers_distinct [OF assms(2)] by simp

lemma parse_headers_render:
  assumes "list_all header_ok hs" "distinct (map fst (acc @ hs))"
  shows "parse_headers acc (render_headers hs @ CRLF @ body) = Inr (acc @ hs, body)"
proof -
  have "map (\<lambda>(n, v). (n, trim v)) hs = hs"
    using assms(1) by (auto simp: list_all_iff header_ok_def intro!: map_idI)
  moreover have "list_all (\<lambda>(n, v). name_ok n \<and> LF \<notin> set v) hs"
    using assms(1) by (auto simp: list_all_iff header_ok_def name_ok_def)
  ultimately show ?thesis using parse_headers_render_trim [of hs acc body] assms(2) by simp
qed

lemma parse_rendered:
  assumes "no_space m" "m \<noteq> []" "no_space t" "t \<noteq> []" and v: "v = ''HTTP/1.1'' \<or> v = ''HTTP/1.0''"
    and "parse_headers [] (render_headers hs @ CRLF @ body) = Inr (hs', body)"
  shows "parse_request (render_request m t v hs body) =
    \<lparr>pr_request = Some (parse_target (new_request\<lparr>rq_method := m, rq_target := t, rq_version := v,
       rq_headers := hs', rq_body := body, rq_body_size_bytes := length body\<rparr>)),
     pr_error = no_error, pr_message = []\<rparr>"
proof -
  let ?line = "m @ '' '' @ t @ '' '' @ v"
  have nv: "no_space v" "v \<noteq> []" using v by (auto simp: no_space_def isspace_def)
  have lf: "LF \<notin> set w" if "no_space w" for w
    using that by (auto simp: no_space_def list_all_iff isspace_def)
  have "getline ((?line @ [CR]) @ LF # render_headers hs @ CRLF @ body) =
      Some (?line @ [CR], render_headers hs @ CRLF @ body)"
    by (rule getline_append) (use assms nv lf in auto)
  then have g: "getline (render_request m t v hs body) = Some (?line @ [CR], render_headers hs @ CRLF @ body)"
    by (simp add: render_request_def)
  have s: "strip_cr (?line @ [CR]) = ?line" using strip_cr_append [of ?line] by simp
  have sp: "isspace (CHR '' '')" by (simp add: isspace_def)
  have w: "stream_words ?line = [m, t, v]"
    using stream_words_word [OF assms(1,2), of "'' '' @ t @ '' '' @ v"]
      stream_words_word [OF assms(3,4), of "'' '' @ v"] stream_words_word [OF nv, of "[]"] sp
    by (simp add: stream_words_space)
  have "render_request m t v hs body \<noteq> []" using assms(2) by (simp add: render_request_def)
  with g s w v assms(6) show ?thesis
    by (auto simp: parse_request_def)
qed

text \<open>Parsing a rendered request gives the request back: for every method, target and version
  \<open>parse_request\<close> can return, every list of well-formed headers with distinct names and every body, the
  parser returns these fields unchanged, with the path and the query derived from the target.\<close>

theorem parse_render_request:
  assumes "no_space m" "m \<noteq> []" "no_space t" "t \<noteq> []" and v: "v = ''HTTP/1.1'' \<or> v = ''HTTP/1.0''"
    and "list_all header_ok hs" "distinct (map fst hs)"
  shows "parse_request (render_request m t v hs body) =
    \<lparr>pr_request = Some (parse_target (new_request\<lparr>rq_method := m, rq_target := t, rq_version := v,
       rq_headers := hs, rq_body := body, rq_body_size_bytes := length body\<rparr>)),
     pr_error = no_error, pr_message = []\<rparr>"
  using parse_rendered [OF assms(1-5) parse_headers_render [of hs "[]" body]] assms(6,7) by simp

theorem parse_request_wf_witness:
  "suffix (rq_body (the (pr_request (parse_request (''GET /a%20b?x=1 HTTP/1.1'' @ CRLF @ ''Host: H'' @ CRLF @ CRLF @ ''xy'')))))
     (''GET /a%20b?x=1 HTTP/1.1'' @ CRLF @ ''Host: H'' @ CRLF @ CRLF @ ''xy'')"
proof -
  have "pr_request (parse_request (''GET /a%20b?x=1 HTTP/1.1'' @ CRLF @ ''Host: H'' @ CRLF @ CRLF @ ''xy'')) \<noteq> None"
    by code_simp
  then obtain r where "pr_request (parse_request (''GET /a%20b?x=1 HTTP/1.1'' @ CRLF @ ''Host: H'' @ CRLF @ CRLF @ ''xy'')) = Some r"
    by blast
  from parse_request_wf [OF this] this show ?thesis by simp
qed

theorem parse_render_request_witness:
  "pr_error (parse_request (render_request ''POST'' ''/x'' ''HTTP/1.1'' [(''host'', ''h''), (''x-b'', '''')] ''data'')) = no_error"
  by (subst parse_render_request)
    (simp_all add: no_space_def isspace_def header_ok_def lowercase_def tolower_def isupper_def trim_def)

end
