(* ===== verification/Rimau_Path.thy ===== *)
theory Rimau_Path
  imports Rimau_Prelude
begin

text \<open>
  The part of \<open>std::filesystem::path\<close> (generic POSIX format) that the static file code uses: the
  decomposition of a path into its elements, \<open>operator/\<close>, \<open>lexically_normal\<close> and \<open>extension\<close>, and
  \<open>starts_with_path\<close> of \<open>src/src/http/response.cpp\<close>, the element-wise containment test behind the
  document root check.
\<close>

type_synonym path = string

fun split_on :: "char \<Rightarrow> string \<Rightarrow> string list" where
  "split_on d [] = [[]]"
| "split_on d (c # s) =
     (if c = d then [] # split_on d s
      else case split_on d s of [] \<Rightarrow> [[c]] | w # ws \<Rightarrow> (c # w) # ws)"

definition is_absolute :: "path \<Rightarrow> bool" where
  "is_absolute p \<longleftrightarrow> p \<noteq> [] \<and> hd p = CHR ''/''"

text \<open>What iterating over a path yields: the root directory, the file names, and an empty name for a
  trailing separator.\<close>

definition path_elems :: "path \<Rightarrow> string list" where
  "path_elems p =
     (let names = filter (\<lambda>w. w \<noteq> []) (split_on (CHR ''/'') p) in
      (if is_absolute p then [''/''] else []) @ names @
      (if names \<noteq> [] \<and> last p = CHR ''/'' then [[]] else []))"

definition path_append :: "path \<Rightarrow> path \<Rightarrow> path" where
  "path_append a b =
     (if is_absolute b then b
      else if a \<noteq> [] \<and> last a \<noteq> CHR ''/'' then a @ ''/'' @ b
      else a @ b)"

definition path_filename :: "path \<Rightarrow> string" where
  "path_filename p = last (split_on (CHR ''/'') p)"

definition path_extension :: "path \<Rightarrow> string" where
  "path_extension p =
     (let f = path_filename p in
      if f = ''.'' \<or> f = ''..'' then []
      else case rfind_char (CHR ''.'') f of
             None \<Rightarrow> []
           | Some i \<Rightarrow> if i = 0 then [] else drop i f)"

text \<open>One name of \<open>lexically_normal\<close>: the names kept so far, newest first, and whether the path now
  ends with a separator.\<close>

definition normal_step :: "bool \<Rightarrow> string list \<times> bool \<Rightarrow> string \<Rightarrow> string list \<times> bool" where
  "normal_step rooted st w =
     (case st of (kept, trailing) \<Rightarrow>
        if w = [] \<or> w = ''.'' then (kept, True)
        else if w = ''..'' then
          (case kept of
             k # ks \<Rightarrow> if k = ''..'' then (''..'' # kept, False) else (ks, True)
           | [] \<Rightarrow> if rooted then ([], True) else ([''..''], False))
        else (w # kept, False))"

fun join_path :: "string list \<Rightarrow> string" where
  "join_path [] = []"
| "join_path [w] = w"
| "join_path (w # ws) = w @ ''/'' @ join_path ws"

definition lexically_normal :: "path \<Rightarrow> path" where
  "lexically_normal p =
     (if p = [] then []
      else
        let rooted = is_absolute p;
            (kept, trailing) = foldl (normal_step rooted) ([], False) (split_on (CHR ''/'') p);
            names = rev kept
        in if names = [] then (if rooted then ''/'' else ''.'')
           else (if rooted then ''/'' else []) @ join_path names @
                (if trailing \<and> last names \<noteq> ''..'' then ''/'' else []))"

definition starts_with_path :: "path \<Rightarrow> path \<Rightarrow> bool" where
  "starts_with_path child parent \<longleftrightarrow> prefix (path_elems parent) (path_elems child)"

text \<open>Examples from the description of \<open>lexically_normal\<close> in the standard.\<close>

lemma lexically_normal_examples:
  "lexically_normal ''foo/./bar/..'' = ''foo/''" "lexically_normal ''foo/.///bar/../'' = ''foo/''"
  "lexically_normal ''/../a//b/../c'' = ''/a/c''" "lexically_normal ''a/..'' = ''.''"
  "lexically_normal ''../a/../..'' = ''../..''" "lexically_normal ''./'' = ''.''"
  by code_simp+

text \<open>Names without a separator.\<close>

lemma split_on_no_sep: "d \<notin> set w \<Longrightarrow> split_on d w = [w]"
  by (induction w) auto

lemma split_on_append: "d \<notin> set w \<Longrightarrow> split_on d (w @ d # s) = w # split_on d s"
  by (induction w) auto

lemma split_on_not_Nil [simp]: "split_on d s \<noteq> []"
  by (induction s) (auto split: list.split)

lemma split_on_names: "w \<in> set (split_on d s) \<Longrightarrow> d \<notin> set w"
  by (induction s arbitrary: w) (auto split: list.splits if_splits)

definition plain_name :: "string \<Rightarrow> bool" where
  "plain_name w \<longleftrightarrow> w \<noteq> [] \<and> w \<noteq> ''.'' \<and> w \<noteq> ''..'' \<and> CHR ''/'' \<notin> set w"

lemma normal_step_kept:
  assumes "list_all plain_name kept" "CHR ''/'' \<notin> set w"
  shows "list_all plain_name (fst (normal_step True (kept, t) w))"
  using assms by (auto simp: normal_step_def plain_name_def split: list.splits)

lemma foldl_normal_kept:
  "list_all plain_name (fst st) \<Longrightarrow> (\<And>w. w \<in> set ws \<Longrightarrow> CHR ''/'' \<notin> set w) \<Longrightarrow>
    list_all plain_name (fst (foldl (normal_step True) st ws))"
proof (induction ws arbitrary: st)
  case (Cons w ws)
  then have "list_all plain_name (fst (normal_step True st w))"
    using normal_step_kept [of "fst st" w "snd st"] by simp
  with Cons show ?case by simp
qed simp

lemma split_join_path:
  assumes "ws \<noteq> []" "list_all plain_name ws"
  shows "split_on (CHR ''/'') (join_path ws) = ws"
  using assms
  by (induction ws rule: join_path.induct)
    (auto simp: plain_name_def split_on_no_sep split_on_append)

lemma join_path_last: "ws \<noteq> [] \<Longrightarrow> list_all plain_name ws \<Longrightarrow> join_path ws \<noteq> [] \<and> last (join_path ws) \<noteq> CHR ''/''"
proof (induction ws rule: join_path.induct)
  case (2 w)
  then show ?case by (auto simp: plain_name_def dest: last_in_set)
next
  case (3 w v ws)
  then show ?case by auto
qed simp

end
