(* ===== verification/Http_Response.thy ===== *)
theory Http_Response
  imports Http_Request Rimau_Path
begin

text \<open>
  \<open>src/src/http/response.cpp\<close>: response values and their serialisation, chunked bodies, JSON
  escaping, byte ranges and static files. The iteration order of header maps is the parameter \<open>it\<close>.
  What \<open>file_response\<close> asks of the operating system and of zlib is the record \<open>file_system\<close>: the
  canonical form of a path, the kind, size, time stamp and contents of a file, the rendering of a time
  stamp as a date, and the compressor.
\<close>

section \<open>Responses\<close>

record response =
  rs_status :: int
  rs_reason :: string
  rs_headers :: headers
  rs_body :: string

definition new_response :: response where
  "new_response = \<lparr>rs_status = 200, rs_reason = ''OK'', rs_headers = [], rs_body = []\<rparr>"

record serialization_options =
  so_server_header_enabled :: bool
  so_server_name :: string
  so_default_headers :: headers

definition default_serialization_options :: serialization_options where
  "default_serialization_options =
     \<lparr>so_server_header_enabled = True, so_server_name = ''Rimau Web Server'', so_default_headers = []\<rparr>"

text \<open>\<open>BodyMode\<close> of \<open>src/include/rimau/http/response_sink.hpp\<close>.\<close>

datatype body_mode = body_included | headers_only

definition set_header :: "string \<Rightarrow> string \<Rightarrow> response \<Rightarrow> response" where
  "set_header n v r = r\<lparr>rs_headers := AList.update n v (rs_headers r)\<rparr>"

definition erase_header :: "string \<Rightarrow> response \<Rightarrow> response" where
  "erase_header n r = r\<lparr>rs_headers := AList.delete n (rs_headers r)\<rparr>"

definition reason_phrase :: "int \<Rightarrow> string" where
  "reason_phrase status =
     (if status = 101 then ''Switching Protocols''
      else if status = 200 then ''OK''
      else if status = 204 then ''No Content''
      else if status = 206 then ''Partial Content''
      else if status = 400 then ''Bad Request''
      else if status = 403 then ''Forbidden''
      else if status = 404 then ''Not Found''
      else if status = 405 then ''Method Not Allowed''
      else if status = 408 then ''Request Timeout''
      else if status = 414 then ''URI Too Long''
      else if status = 416 then ''Range Not Satisfiable''
      else if status = 429 then ''Too Many Requests''
      else if status = 431 then ''Request Header Fields Too Large''
      else if status = 413 then ''Content Too Large''
      else if status = 500 then ''Internal Server Error''
      else if status = 501 then ''Not Implemented''
      else if status = 503 then ''Service Unavailable''
      else ''Unknown'')"

definition text_response :: "int \<Rightarrow> string \<Rightarrow> string \<Rightarrow> response" where
  "text_response status body content_type =
     \<lparr>rs_status = status, rs_reason = reason_phrase status, rs_headers = [(''content-type'', content_type)],
      rs_body = body\<rparr>"

abbreviation plain_text :: string where
  "plain_text \<equiv> ''text/plain; charset=utf-8''"

definition json_response :: "int \<Rightarrow> string \<Rightarrow> response" where
  "json_response status json_body = text_response status json_body ''application/json; charset=utf-8''"

section \<open>Serialisation\<close>

definition is_token_char :: "char \<Rightarrow> bool" where
  "is_token_char c \<longleftrightarrow> isalnum c \<or> c \<in> set (''!#$%&*+-.^_|~'' @ [CHR 0x27, CHR 0x60])"

definition is_valid_header_name :: "string \<Rightarrow> bool" where
  "is_valid_header_name name \<longleftrightarrow> name \<noteq> [] \<and> list_all is_token_char name"

definition sanitize_header_value :: "string \<Rightarrow> string" where
  "sanitize_header_value v =
     concat (map (\<lambda>ch. if ch = CR \<or> ch = LF then '' '' else if ch = TAB \<or> code ch \<ge> 32 then [ch] else []) v)"

definition add_defaults :: "headers \<Rightarrow> headers \<Rightarrow> headers" where
  "add_defaults defaults hs =
     foldl (\<lambda>hs (n, v). if map_of hs n = None then AList.update n v hs else hs) hs defaults"

definition final_headers :: "serialization_options \<Rightarrow> response \<Rightarrow> headers" where
  "final_headers options r =
     (let h0 = rs_headers r;
          h1 = (if rs_status r \<noteq> 101 then add_defaults (so_default_headers options) h0 else h0);
          h2 = (if rs_status r \<noteq> 101 \<and> rs_status r \<noteq> 204 \<and> map_of h1 ''transfer-encoding'' = None
                then AList.update ''content-length'' (to_string (length (rs_body r))) h1 else h1);
          h3 = (if map_of h2 ''connection'' = None then AList.update ''connection'' ''close'' h2 else h2)
      in if so_server_header_enabled options
         then AList.update ''server''
                (if so_server_name options = [] then ''Rimau Web Server'' else so_server_name options) h3
         else AList.delete ''server'' h3)"

definition header_line :: "string \<times> string \<Rightarrow> string" where
  "header_line h =
     (if is_valid_header_name (fst h) then fst h @ '': '' @ sanitize_header_value (snd h) @ CRLF else [])"

definition to_http_string :: "(headers \<Rightarrow> headers) \<Rightarrow> bool \<Rightarrow> serialization_options \<Rightarrow> response \<Rightarrow> string" where
  "to_http_string it with_body options r =
     ''HTTP/1.1 '' @ int_to_string (rs_status r) @ '' '' @ rs_reason r @ CRLF @
     concat (map header_line (it (final_headers options r))) @ CRLF @
     (if with_body then rs_body r else [])"

definition encode_chunk :: "string \<Rightarrow> string" where
  "encode_chunk chunk = (if chunk = [] then [] else to_hex (length chunk) @ CRLF @ chunk @ CRLF)"

definition encode_chunked_body :: "string list \<Rightarrow> string" where
  "encode_chunked_body chunks = concat (map encode_chunk chunks) @ ''0'' @ CRLF @ CRLF"

definition to_http_chunked_string ::
    "(headers \<Rightarrow> headers) \<Rightarrow> string list \<Rightarrow> bool \<Rightarrow> serialization_options \<Rightarrow> response \<Rightarrow> string" where
  "to_http_chunked_string it chunks with_body options r =
     (if with_body \<and> rs_status r \<ge> 200 \<and> rs_status r \<noteq> 204 \<and> rs_status r \<noteq> 304 \<and> rs_status r \<noteq> 101
      then to_http_string it True options
             ((set_header ''transfer-encoding'' ''chunked'' (erase_header ''content-length'' r))
                \<lparr>rs_body := encode_chunked_body chunks\<rparr>)
      else to_http_string it False options ((erase_header ''transfer-encoding'' r)\<lparr>rs_body := []\<rparr>))"

section \<open>JSON strings\<close>

definition json_escape_char :: "char \<Rightarrow> string" where
  "json_escape_char ch =
     (if ch = CHR 0x22 then [CHR 0x5C, CHR 0x22]
      else if ch = CHR 0x5C then [CHR 0x5C, CHR 0x5C]
      else if ch = CHR 0x08 then CHR 0x5C # ''b''
      else if ch = CHR 0x0C then CHR 0x5C # ''f''
      else if ch = LF then CHR 0x5C # ''n''
      else if ch = CR then CHR 0x5C # ''r''
      else if ch = TAB then CHR 0x5C # ''t''
      else if code ch < 32 then CHR 0x5C # ''u00'' @ [digit_char (code ch div 16), digit_char (code ch mod 16)]
      else [ch])"

definition json_escape :: "string \<Rightarrow> string" where
  "json_escape v = concat (map json_escape_char v)"

section \<open>Content types and tokens\<close>

definition mime_type :: "path \<Rightarrow> string" where
  "mime_type p =
     (let extension = lowercase (path_extension p) in
      if extension = ''.html'' \<or> extension = ''.htm'' then ''text/html; charset=utf-8''
      else if extension = ''.css'' then ''text/css; charset=utf-8''
      else if extension = ''.js'' then ''application/javascript; charset=utf-8''
      else if extension = ''.json'' then ''application/json; charset=utf-8''
      else if extension = ''.txt'' then ''text/plain; charset=utf-8''
      else if extension = ''.xml'' then ''application/xml; charset=utf-8''
      else if extension = ''.wasm'' then ''application/wasm''
      else if extension = ''.png'' then ''image/png''
      else if extension = ''.jpg'' \<or> extension = ''.jpeg'' then ''image/jpeg''
      else if extension = ''.svg'' then ''image/svg+xml''
      else if extension = ''.gif'' then ''image/gif''
      else if extension = ''.webp'' then ''image/webp''
      else if extension = ''.ico'' then ''image/x-icon''
      else if extension = ''.mp4'' \<or> extension = ''.m4v'' then ''video/mp4''
      else if extension = ''.webm'' then ''video/webm''
      else if extension = ''.mov'' then ''video/quicktime''
      else if extension = ''.pdf'' then ''application/pdf''
      else ''application/octet-stream'')"

definition header_has_token :: "request \<Rightarrow> string \<Rightarrow> string \<Rightarrow> bool" where
  "header_has_token r header_name token =
     (case request_header r header_name of
        None \<Rightarrow> False
      | Some h \<Rightarrow> list_ex (\<lambda>item. lowercase (trim item) = lowercase token) (getlines (CHR '','') h))"

definition is_compressible :: "string \<Rightarrow> bool" where
  "is_compressible ct \<longleftrightarrow>
     starts_with ct ''text/'' \<or> contains ct ''json'' \<or> contains ct ''javascript'' \<or>
     contains ct ''xml'' \<or> contains ct ''wasm''"

section \<open>Byte ranges\<close>

record byte_range =
  br_start :: nat
  br_end :: nat

record range_selection =
  sel_requested :: bool
  sel_malformed :: bool
  sel_ranges :: "byte_range list"

definition parse_uint :: "string \<Rightarrow> nat option" where
  "parse_uint v = (if v = [] then None else read_digits dec_value 10 0 v)"

definition parse_range_spec :: "string \<Rightarrow> nat \<Rightarrow> byte_range option" where
  "parse_range_spec spec file_size =
     (case find_char (CHR ''-'') spec of
        None \<Rightarrow> None
      | Some dash \<Rightarrow>
          let first = take dash spec; last' = drop (dash + 1) spec;
              bounds =
                (if first = [] then
                   (case parse_uint last' of
                      None \<Rightarrow> None
                    | Some suffix_length \<Rightarrow>
                        if suffix_length = 0 then None
                        else Some ((if suffix_length \<ge> file_size then 0 else file_size - suffix_length),
                                   sz (file_size + size_max)))
                 else
                   (case parse_uint first of
                      None \<Rightarrow> None
                    | Some s \<Rightarrow>
                        if last' = [] then Some (s, sz (file_size + size_max))
                        else map_option (\<lambda>e. (s, e)) (parse_uint last')))
          in case bounds of
               None \<Rightarrow> None
             | Some (s, e) \<Rightarrow>
                 if s \<ge> file_size \<or> e < s then Some \<lparr>br_start = 1, br_end = 0\<rparr>
                 else Some \<lparr>br_start = s, br_end = (if e \<ge> file_size then sz (file_size + size_max) else e)\<rparr>)"

definition no_selection :: range_selection where
  "no_selection = \<lparr>sel_requested = False, sel_malformed = False, sel_ranges = []\<rparr>"

definition max_ranges :: nat where
  "max_ranges = 16"

text \<open>The loop over the comma-separated items; \<open>s\<close> is the header from the cursor on.\<close>

function parse_range_items :: "string \<Rightarrow> nat \<Rightarrow> range_selection \<Rightarrow> range_selection" where
  "parse_range_items s file_size sel =
     (let comma = find_char (CHR '','') s;
          item = trim (case comma of None \<Rightarrow> s | Some i \<Rightarrow> take i s)
      in if item = [] \<or> length (sel_ranges sel) \<ge> max_ranges then sel\<lparr>sel_malformed := True\<rparr>
         else
           case parse_range_spec item file_size of
             None \<Rightarrow> sel\<lparr>sel_malformed := True\<rparr>
           | Some parsed \<Rightarrow>
               let sel = (if br_end parsed \<ge> br_start parsed
                          then sel\<lparr>sel_ranges := sel_ranges sel @ [parsed]\<rparr> else sel)
               in case comma of None \<Rightarrow> sel | Some i \<Rightarrow> parse_range_items (drop (i + 1) s) file_size sel)"
  by pat_completeness auto
termination
  by (relation "measure (\<lambda>(s, _). length s)") (auto dest: find_char_Some [OF sym])

declare parse_range_items.simps [simp del]

definition parse_range :: "request \<Rightarrow> nat \<Rightarrow> range_selection" where
  "parse_range r file_size =
     (case request_header r ''range'' of
        None \<Rightarrow> no_selection
      | Some rng \<Rightarrow>
          let sel = no_selection\<lparr>sel_requested := True\<rparr> in
          case find_char (CHR ''='') rng of
            None \<Rightarrow> sel\<lparr>sel_malformed := True\<rparr>
          | Some equals \<Rightarrow>
              if lowercase (trim (take equals rng)) \<noteq> ''bytes'' \<or> file_size = 0
              then sel\<lparr>sel_malformed := True\<rparr>
              else parse_range_items (drop (equals + 1) rng) file_size sel)"

section \<open>Static files\<close>

text \<open>The operating system and zlib, as \<open>file_response\<close> sees them. \<open>fs_canonical\<close> is
  \<open>weakly_canonical\<close> (\<open>None\<close>: error), \<open>fs_size\<close> and \<open>fs_mtime\<close> are \<open>None\<close> on error, \<open>fs_read\<close> gives
  the contents of a file that opens; a time stamp is its tick count, a 64-bit number.\<close>

record file_system =
  fs_canonical :: "path \<Rightarrow> path option"
  fs_is_directory :: "path \<Rightarrow> bool"
  fs_exists :: "path \<Rightarrow> bool"
  fs_is_regular :: "path \<Rightarrow> bool"
  fs_size :: "path \<Rightarrow> nat option"
  fs_mtime :: "path \<Rightarrow> int option"
  fs_read :: "path \<Rightarrow> string option"
  fs_date :: "int \<Rightarrow> string"
  fs_gzip :: "string \<Rightarrow> string"

record static_file_options =
  sf_directory_index :: string
  sf_error_page :: path

definition default_static_file_options :: static_file_options where
  "default_static_file_options = \<lparr>sf_directory_index = ''index.html'', sf_error_page = []\<rparr>"

text \<open>\<open>percent_decode_path\<close> agrees with \<open>percent_decode (_, false)\<close> except that it is written out again;
  a plus sign stays a plus sign.\<close>

fun percent_decode_path :: "string \<Rightarrow> string" where
  "percent_decode_path [] = []"
| "percent_decode_path (ch # rest) =
     (if ch = CHR ''%'' \<and> 2 \<le> length rest then
        (case strtol_hex2 (rest ! 0) (rest ! 1) of
           None \<Rightarrow> ch # percent_decode_path rest
         | Some parsed \<Rightarrow> char_of_long parsed # percent_decode_path (drop 2 rest))
      else if ch = CHR ''+'' then CHR ''+'' # percent_decode_path rest
      else ch # percent_decode_path rest)"

definition strip_query :: "string \<Rightarrow> string" where
  "strip_query target = takeWhile (\<lambda>c. c \<noteq> CHR ''?'' \<and> c \<noteq> CHR ''#'') target"

definition read_file_range :: "file_system \<Rightarrow> path \<Rightarrow> nat \<Rightarrow> nat \<Rightarrow> string" where
  "read_file_range fs p start len = (case fs_read fs p of None \<Rightarrow> [] | Some c \<Rightarrow> substr c start len)"

definition entity_tag :: "nat \<Rightarrow> int \<Rightarrow> string" where
  "entity_tag file_size t = CHR 0x22 # to_hex file_size @ ''-'' @ to_hex (nat (t mod 2 ^ 64)) @ [CHR 0x22]"

definition if_range_allows_range :: "request \<Rightarrow> string \<Rightarrow> string \<Rightarrow> bool" where
  "if_range_allows_range r etag last_modified =
     (case request_header r ''if-range'' of
        None \<Rightarrow> True
      | Some v \<Rightarrow>
          let value' = trim v in
          if value' = [] \<or> starts_with value' ''W/'' then False
          else if hd value' = CHR 0x22 then value' = etag
          else value' = last_modified)"

definition multipart_boundary :: "nat \<Rightarrow> int \<Rightarrow> string" where
  "multipart_boundary file_size t = ''rimau-'' @ to_hex file_size @ ''-'' @ to_hex (nat (t mod 2 ^ 64))"

definition range_length :: "byte_range \<Rightarrow> nat" where
  "range_length r = br_end r - br_start r + 1"

definition multipart_part :: "file_system \<Rightarrow> path \<Rightarrow> nat \<Rightarrow> string \<Rightarrow> string \<Rightarrow> byte_range \<Rightarrow> string" where
  "multipart_part fs p file_size content_type boundary r =
     ''--'' @ boundary @ CRLF @ ''Content-Type: '' @ content_type @ CRLF @
     ''Content-Range: bytes '' @ to_string (br_start r) @ ''-'' @ to_string (br_end r) @ ''/'' @
       to_string file_size @ CRLF @ CRLF @
     read_file_range fs p (br_start r) (range_length r) @ CRLF"

definition multipart_range_body :: "file_system \<Rightarrow> path \<Rightarrow> byte_range list \<Rightarrow> nat \<Rightarrow> string \<Rightarrow> string \<Rightarrow> string" where
  "multipart_range_body fs p ranges file_size content_type boundary =
     concat (map (multipart_part fs p file_size content_type boundary) ranges) @
     ''--'' @ boundary @ ''--'' @ CRLF"

definition valid_directory_index :: "string \<Rightarrow> bool" where
  "valid_directory_index v \<longleftrightarrow>
     v \<noteq> [] \<and> v \<noteq> ''.'' \<and> v \<noteq> ''..'' \<and> CHR ''/'' \<notin> set v \<and> CHR 0x5C \<notin> set v \<and>
     list_all (\<lambda>ch. \<not> (code ch < 32 \<or> code ch = 127)) v"

text \<open>The canonical form, or the lexical one when the system reports an error.\<close>

definition canonical_or_lexical :: "file_system \<Rightarrow> path \<Rightarrow> path" where
  "canonical_or_lexical fs p = (case fs_canonical fs p of Some q \<Rightarrow> q | None \<Rightarrow> lexically_normal p)"

definition apply_custom_error_page :: "file_system \<Rightarrow> response \<Rightarrow> path \<Rightarrow> static_file_options \<Rightarrow> response" where
  "apply_custom_error_page fs r root options =
     (if rs_status r < 400 \<or> sf_error_page options = [] then r
      else
        let raw_page = (if is_absolute (sf_error_page options) then sf_error_page options
                        else path_append root (sf_error_page options));
            page = canonical_or_lexical fs raw_page
        in if \<not> starts_with_path page root \<or> \<not> fs_is_regular fs page then r
           else case fs_size fs page of
                  None \<Rightarrow> r
                | Some page_size \<Rightarrow>
                    (erase_header ''vary'' (erase_header ''content-range'' (erase_header ''content-encoding''
                       (set_header ''content-type'' (mime_type page) r))))
                     \<lparr>rs_body := read_file_range fs page 0 page_size\<rparr>)"

text \<open>The second half of \<open>file_response\<close>: an existing regular file of known size.\<close>

definition serve_file :: "file_system \<Rightarrow> request \<Rightarrow> path \<Rightarrow> nat \<Rightarrow> response" where
  "serve_file fs r candidate file_size =
     (let mtime = fs_mtime fs candidate;
          last_modified = (case mtime of None \<Rightarrow> [] | Some t \<Rightarrow> fs_date fs t);
          etag = (case mtime of None \<Rightarrow> [] | Some t \<Rightarrow> entity_tag file_size t);
          content_type = mime_type candidate;
          resp = set_header ''accept-ranges'' ''bytes'' (set_header ''content-type'' content_type new_response);
          resp = (if etag \<noteq> [] then set_header ''etag'' etag resp else resp);
          resp = (if last_modified \<noteq> [] then set_header ''last-modified'' last_modified resp else resp);
          rng = parse_range r file_size;
          honor_range = (sel_requested rng \<and> etag \<noteq> [] \<and> if_range_allows_range r etag last_modified)
      in if honor_range \<and> (sel_malformed rng \<or> sel_ranges rng = []) then
           (set_header ''content-range'' (''bytes */'' @ to_string file_size)
              (resp\<lparr>rs_status := 416, rs_reason := reason_phrase 416\<rparr>))\<lparr>rs_body := ''Range Not Satisfiable'' @ [LF]\<rparr>
         else if honor_range \<and> length (sel_ranges rng) = 1 then
           let selected = hd (sel_ranges rng) in
           (set_header ''content-range'' (''bytes '' @ to_string (br_start selected) @ ''-'' @
                to_string (br_end selected) @ ''/'' @ to_string file_size)
              (resp\<lparr>rs_status := 206, rs_reason := reason_phrase 206\<rparr>))
             \<lparr>rs_body := read_file_range fs candidate (br_start selected) (range_length selected)\<rparr>
         else if honor_range \<and> length (sel_ranges rng) > 1 then
           let boundary = multipart_boundary file_size (case mtime of None \<Rightarrow> 0 | Some t \<Rightarrow> t) in
           (set_header ''content-type'' (''multipart/byteranges; boundary='' @ boundary)
              (resp\<lparr>rs_status := 206, rs_reason := reason_phrase 206\<rparr>))
             \<lparr>rs_body := multipart_range_body fs candidate (sel_ranges rng) file_size content_type boundary\<rparr>
         else
           let body = read_file_range fs candidate 0 file_size;
               resp = resp\<lparr>rs_status := 200, rs_reason := reason_phrase 200, rs_body := body\<rparr>;
               compressed = fs_gzip fs body
           in if length body > 256 \<and> header_has_token r ''accept-encoding'' ''gzip'' \<and> is_compressible content_type \<and>
                 compressed \<noteq> [] \<and> length compressed < length body
              then set_header ''vary'' ''Accept-Encoding'' (set_header ''content-encoding'' ''gzip''
                     (resp\<lparr>rs_body := compressed\<rparr>))
              else resp)"

text \<open>The checks on a path below the root, and the file or the error page.\<close>

definition serve_candidate :: "file_system \<Rightarrow> request \<Rightarrow> path \<Rightarrow> static_file_options \<Rightarrow> path \<Rightarrow> response" where
  "serve_candidate fs r root options candidate =
     (if \<not> fs_exists fs candidate then
        apply_custom_error_page fs (text_response 404 (''Not Found'' @ [LF]) plain_text) root options
      else if \<not> fs_is_regular fs candidate then
        apply_custom_error_page fs (text_response 403 (''Forbidden'' @ [LF]) plain_text) root options
      else
        case fs_size fs candidate of
          None \<Rightarrow> apply_custom_error_page fs (text_response 403 (''Forbidden'' @ [LF]) plain_text) root options
        | Some file_size \<Rightarrow> serve_file fs r candidate file_size)"

text \<open>From the relative path to the file below the root, a directory standing for its index.\<close>

definition serve_relative :: "file_system \<Rightarrow> request \<Rightarrow> path \<Rightarrow> static_file_options \<Rightarrow> path \<Rightarrow> response" where
  "serve_relative fs r root options relative =
     (let candidate = canonical_or_lexical fs (path_append root relative) in
      if \<not> starts_with_path candidate root then text_response 403 (''Forbidden'' @ [LF]) plain_text
      else if fs_is_directory fs candidate then
        (let candidate = (case fs_canonical fs (path_append candidate (sf_directory_index options)) of
                            Some q \<Rightarrow> q
                          | None \<Rightarrow> lexically_normal [])
         in if \<not> starts_with_path candidate root then text_response 403 (''Forbidden'' @ [LF]) plain_text
            else serve_candidate fs r root options candidate)
      else serve_candidate fs r root options candidate)"

definition file_response :: "file_system \<Rightarrow> request \<Rightarrow> path \<Rightarrow> static_file_options \<Rightarrow> response" where
  "file_response fs r document_root options =
     (if rq_method r \<noteq> ''GET'' \<and> rq_method r \<noteq> ''HEAD'' then
        set_header ''allow'' ''GET, HEAD'' (text_response 405 (''Method Not Allowed'' @ [LF]) plain_text)
      else
        let target = (if rq_path r = [] then percent_decode_path (strip_query (rq_target r)) else rq_path r) in
        if target = [] \<or> hd target \<noteq> CHR ''/'' \<or> CHR 0x00 \<in> set target then
          text_response 400 (''Bad Request'' @ [LF]) plain_text
        else if length target > 4096 then text_response 414 (''URI Too Long'' @ [LF]) plain_text
        else
          case fs_canonical fs document_root of
            None \<Rightarrow> text_response 500 (''Document root is not available'' @ [LF]) plain_text
          | Some root \<Rightarrow>
              if \<not> valid_directory_index (sf_directory_index options) then
                apply_custom_error_page fs
                  (text_response 500 (''Directory index config is invalid'' @ [LF]) plain_text) root options
              else
                let relative0 = lexically_normal (tl target);
                    relative = (if relative0 = [] \<or> relative0 = ''.'' then sf_directory_index options else relative0)
                in serve_relative fs r root options relative)"

section \<open>Serialised heads\<close>

definition no_crlf :: "string \<Rightarrow> bool" where
  "no_crlf s \<longleftrightarrow> CR \<notin> set s \<and> LF \<notin> set s"

lemma no_crlf_sanitize: "no_crlf (sanitize_header_value v)"
  by (auto simp: no_crlf_def sanitize_header_value_def split: if_splits)

lemma no_crlf_valid_name: "is_valid_header_name n \<Longrightarrow> no_crlf n"
  by (auto simp: no_crlf_def is_valid_header_name_def list_all_iff is_token_char_def isalnum_def isalpha_def
      isupper_def isdigit_def)

lemma sanitize_id: "list_all (\<lambda>c. c = TAB \<or> code c \<ge> 32) v \<Longrightarrow> sanitize_header_value v = v"
  by (induction v) (auto simp: sanitize_header_value_def)

definition wire_headers :: "headers \<Rightarrow> headers" where
  "wire_headers hs = map (\<lambda>(n, v). (n, sanitize_header_value v)) (filter (\<lambda>h. is_valid_header_name (fst h)) hs)"

lemma header_lines_wire: "concat (map header_line hs) = render_headers (wire_headers hs)"
  by (induction hs) (auto simp: wire_headers_def header_line_def render_headers_def)

lemma map_of_wire:
  "is_valid_header_name n \<Longrightarrow> map_of (wire_headers hs) n = map_option sanitize_header_value (map_of hs n)"
  by (induction hs) (auto simp: wire_headers_def)

lemma distinct_wire: "distinct (map fst hs) \<Longrightarrow> distinct (map fst (wire_headers hs))"
  unfolding wire_headers_def by (induction hs) (auto simp: image_iff)

lemma distinct_add_defaults: "distinct (map fst hs) \<Longrightarrow> distinct (map fst (add_defaults ds hs))"
  unfolding add_defaults_def
  by (induction ds arbitrary: hs) (auto simp: distinct_update split: prod.splits)

lemma distinct_final_headers: "distinct (map fst (rs_headers r)) \<Longrightarrow> distinct (map fst (final_headers o' r))"
  by (auto simp: final_headers_def Let_def intro!: distinct_update distinct_delete distinct_add_defaults)

lemma iterates_map_of:
  assumes "iterates it" "distinct (map fst hs)"
  shows "map_of (it hs) = map_of hs"
proof -
  have "distinct (map fst (it hs))" "set (it hs) = set hs"
    using assms by (simp_all add: iterates_distinct iterates_set)
  then show ?thesis using assms(2) by (metis map_of_inject_set)
qed

lemma to_string_digits: "list_all isdigit (to_string n)"
proof -
  have "list_all (\<lambda>c. dec_value c \<noteq> None) (to_string n)"
    using to_base_digits [of 10 dec_value n, OF dec_value_digit_char] by (simp add: to_string_def)
  moreover have "(\<lambda>c. dec_value c \<noteq> None) = isdigit" by (auto simp: dec_value_def)
  ultimately show ?thesis by simp
qed

lemma sanitize_to_string: "sanitize_header_value (to_string n) = to_string n"
  using to_string_digits [of n] by (intro sanitize_id) (auto simp: list_all_iff isdigit_def)

lemma valid_names:
  "is_valid_header_name ''content-length''" "is_valid_header_name ''connection''"
  "is_valid_header_name ''transfer-encoding''"
  by (simp_all add: is_valid_header_name_def is_token_char_def isalnum_def isalpha_def isupper_def isdigit_def)

text \<open>C34: A serialised response cannot be split: whatever header names and values a handler puts into
  the response and whatever order the header map is iterated in, \<open>to_http_string\<close> produces the status
  line, a sequence of header lines whose names are valid tokens, distinct, and whose names and values
  contain neither carriage return nor line feed, the blank line, and the body. Among them are exactly one
  Connection header and, unless the status is 101 or 204 or the response declares a transfer encoding,
  exactly one Content-Length header with the decimal length of the body.\<close>

theorem response_not_split:
  assumes "iterates it" and "distinct (map fst (rs_headers r))"
  shows "\<exists>hs. to_http_string it with_body options r =
      ''HTTP/1.1 '' @ int_to_string (rs_status r) @ '' '' @ rs_reason r @ CRLF @ render_headers hs @ CRLF @
      (if with_body then rs_body r else []) \<and>
    distinct (map fst hs) \<and>
    list_all (\<lambda>(n, v). is_valid_header_name n \<and> no_crlf n \<and> no_crlf v) hs \<and>
    map_of hs ''connection'' \<noteq> None \<and>
    (rs_status r \<notin> {101, 204} \<and> map_of (final_headers options r) ''transfer-encoding'' = None \<longrightarrow>
      map_of hs ''content-length'' = Some (to_string (length (rs_body r))))"
proof -
  let ?f = "final_headers options r"
  let ?hs = "wire_headers (it ?f)"
  have d: "distinct (map fst ?f)" by (rule distinct_final_headers [OF assms(2)])
  have lookup: "is_valid_header_name n \<Longrightarrow> map_of ?hs n = map_option sanitize_header_value (map_of ?f n)" for n
    by (simp add: map_of_wire iterates_map_of [OF assms(1) d])
  have "distinct (map fst ?hs)" using d assms(1) by (simp add: distinct_wire iterates_distinct)
  moreover have "list_all (\<lambda>(n, v). is_valid_header_name n \<and> no_crlf n \<and> no_crlf v) ?hs"
    by (auto simp: wire_headers_def list_all_iff no_crlf_sanitize no_crlf_valid_name)
  moreover have "map_of ?f ''connection'' \<noteq> None"
    by (auto simp: final_headers_def Let_def update_conv' delete_conv')
  then have "map_of ?hs ''connection'' \<noteq> None" by (simp add: lookup valid_names)
  moreover have "map_of ?f ''content-length'' = Some (to_string (length (rs_body r)))"
    if "rs_status r \<notin> {101, 204}" "map_of ?f ''transfer-encoding'' = None"
    using that by (auto simp: final_headers_def Let_def update_conv' delete_conv' split: if_splits)
  then have "rs_status r \<notin> {101, 204} \<and> map_of ?f ''transfer-encoding'' = None \<longrightarrow>
      map_of ?hs ''content-length'' = Some (to_string (length (rs_body r)))"
    by (simp add: lookup valid_names sanitize_to_string)
  ultimately show ?thesis
    by (intro exI [of _ ?hs]) (simp add: to_http_string_def header_lines_wire)
qed

theorem response_not_split_witness:
  "\<exists>hs. to_http_string rev True default_serialization_options
      (set_header ''x-a'' (''1'' @ CRLF @ ''set-cookie: 2'') (text_response 200 ''body'' plain_text)) =
      ''HTTP/1.1 '' @ int_to_string 200 @ '' '' @ ''OK'' @ CRLF @ render_headers hs @ CRLF @ ''body'' \<and>
    list_all (\<lambda>(n, v). is_valid_header_name n \<and> no_crlf n \<and> no_crlf v) hs"
  using response_not_split [of rev "set_header ''x-a'' (''1'' @ CRLF @ ''set-cookie: 2'') (text_response 200 ''body'' plain_text)"
    True default_serialization_options]
  by (auto simp: set_header_def text_response_def reason_phrase_def)

section \<open>JSON strings are read back\<close>

text \<open>A reader of JSON string contents (RFC 8259, 7), up to the closing quotation mark; it returns the
  text and what follows. Control characters are not allowed in it. The escapes \<open>u00xx\<close> stand for
  single octets here.\<close>

definition json_simple_escape :: "char \<Rightarrow> char option" where
  "json_simple_escape e =
     map_of [(CHR 0x22, CHR 0x22), (CHR 0x5C, CHR 0x5C), (CHR ''/'', CHR ''/''), (CHR ''b'', CHR 0x08),
       (CHR ''f'', CHR 0x0C), (CHR ''n'', LF), (CHR ''r'', CR), (CHR ''t'', TAB)] e"

fun json_read :: "string \<Rightarrow> (string \<times> string) option" where
  "json_read [] = None"
| "json_read (c # s) =
     (if c = CHR 0x22 then Some ([], s)
      else if code c < 32 then None
      else if c = CHR 0x5C then
        (case s of
           [] \<Rightarrow> None
         | e # r \<Rightarrow>
             if e = CHR ''u'' then
               (case r of
                  a # b # d # f # r' \<Rightarrow>
                    (case (hex_value a, hex_value b, hex_value d, hex_value f) of
                       (Some 0, Some 0, Some x, Some y) \<Rightarrow>
                         map_option (\<lambda>(t, q). (char_of (16 * x + y) # t, q)) (json_read r')
                     | _ \<Rightarrow> None)
                | _ \<Rightarrow> None)
             else
               (case json_simple_escape e of
                  None \<Rightarrow> None
                | Some ch \<Rightarrow> map_option (\<lambda>(t, q). (ch # t, q)) (json_read r)))
      else map_option (\<lambda>(t, q). (c # t, q)) (json_read s))"

lemma json_read_escape_char:
  "json_read (json_escape_char c @ s) = map_option (\<lambda>(t, q). (c # t, q)) (json_read s)"
proof -
  consider (quoted) "c = CHR 0x22 \<or> c = CHR 0x5C \<or> c = CHR 0x08 \<or> c = CHR 0x0C \<or> c = LF \<or> c = CR \<or> c = TAB"
    | (plain) "code c \<ge> 32" "c \<noteq> CHR 0x22" "c \<noteq> CHR 0x5C"
    | (control) "code c < 32" "\<not> (c = CHR 0x08 \<or> c = CHR 0x0C \<or> c = LF \<or> c = CR \<or> c = TAB)"
    by force
  then show ?thesis
  proof cases
    case quoted
    then show ?thesis by (auto simp: json_escape_char_def json_simple_escape_def)
  next
    case plain
    then have "c \<noteq> CHR 0x08 \<and> c \<noteq> CHR 0x0C \<and> c \<noteq> LF \<and> c \<noteq> CR \<and> c \<noteq> TAB" by auto
    with plain show ?thesis by (auto simp: json_escape_char_def)
  next
    case control
    from control(1) have c: "c \<noteq> CHR 0x22" "c \<noteq> CHR 0x5C" by (intro notI; simp)+
    have "code c div 16 < 16" using control by linarith
    then have hex: "hex_value (digit_char (code c div 16)) = Some (code c div 16)"
      "hex_value (digit_char (code c mod 16)) = Some (code c mod 16)"
      by (simp_all add: hex_value_digit_char)
    have z: "hex_value (CHR ''0'') = Some 0" by (simp add: hex_value_def isdigit_def)
    from control c show ?thesis by (simp add: json_escape_char_def hex z)
  qed
qed

text \<open>Escaped text is safe inside a JSON string: reading \<open>json_escape s\<close> followed by a quotation
  mark and any further text gives back exactly \<open>s\<close> and that further text. So no value can close the
  string early, put a control character into the document or be confused with another value.\<close>

theorem json_escape_roundtrip: "json_read (json_escape s @ CHR 0x22 # rest) = Some (s, rest)"
  by (induction s) (simp_all add: json_escape_def json_read_escape_char)

section \<open>Ranges\<close>

lemma parse_uint_eq: "parse_uint v = parse_decimal_size v"
  by (simp add: parse_uint_def parse_decimal_size_def)

lemma sz_pred: "0 < n \<Longrightarrow> n < 2 ^ 64 \<Longrightarrow> sz (n + size_max) = n - 1"
proof -
  assume n: "0 < n" "n < 2 ^ 64"
  then have "n + size_max = (n - 1) + 2 ^ 64" by (simp add: size_max_def)
  then have "sz (n + size_max) = (n - 1) mod 2 ^ 64" unfolding sz_def by (simp only: mod_add_self2)
  with n show ?thesis by simp
qed

definition range_within :: "nat \<Rightarrow> byte_range \<Rightarrow> bool" where
  "range_within n r \<longleftrightarrow> br_start r \<le> br_end r \<and> br_end r < n"

lemma parse_range_spec_within:
  assumes "0 < n" "n < 2 ^ 64" "parse_range_spec spec n = Some r" "br_start r \<le> br_end r"
  shows "range_within n r"
  using assms
  by (auto simp: parse_range_spec_def Let_def sz_pred range_within_def split: option.splits if_splits)

lemma parse_range_items_within:
  "0 < n \<Longrightarrow> n < 2 ^ 64 \<Longrightarrow>
    list_all (range_within n) (sel_ranges sel) \<Longrightarrow> length (sel_ranges sel) \<le> max_ranges \<Longrightarrow>
    list_all (range_within n) (sel_ranges (parse_range_items s n sel)) \<and>
    length (sel_ranges (parse_range_items s n sel)) \<le> max_ranges"
proof (induction s n sel rule: parse_range_items.induct)
  case (1 s n sel)
  define comma where "comma = find_char (CHR '','') s"
  define item where "item = trim (case comma of None \<Rightarrow> s | Some i \<Rightarrow> take i s)"
  note unfold = parse_range_items.simps [of s n sel, folded comma_def, unfolded Let_def, folded item_def]
  show ?case
  proof (cases "item = [] \<or> length (sel_ranges sel) \<ge> max_ranges \<or> parse_range_spec item n = None")
    case True
    with "1.prems" show ?thesis by (auto simp: unfold)
  next
    case False
    then obtain parsed where p: "parse_range_spec item n = Some parsed" by auto
    define sel' where "sel' = (if br_end parsed \<ge> br_start parsed
      then sel\<lparr>sel_ranges := sel_ranges sel @ [parsed]\<rparr> else sel)"
    have step: "parse_range_items s n sel =
        (case comma of None \<Rightarrow> sel' | Some i \<Rightarrow> parse_range_items (drop (i + 1) s) n sel')"
      using False p by (cases comma) (simp_all add: unfold sel'_def)
    have inv: "list_all (range_within n) (sel_ranges sel')" "length (sel_ranges sel') \<le> max_ranges"
      using "1.prems" False parse_range_spec_within [OF "1.prems"(1,2) p] by (auto simp: sel'_def)
    show ?thesis
    proof (cases comma)
      case None
      with step inv show ?thesis by simp
    next
      case (Some i)
      have "\<not> (item = [] \<or> length (sel_ranges sel) \<ge> max_ranges)" using False by blast
      from "1.IH" [OF comma_def item_def this p sel'_def Some "1.prems"(1,2) inv] step Some
      show ?thesis by simp
    qed
  qed
qed

text \<open>Byte ranges stay inside the file: for a file of \<open>n\<close> bytes (\<open>0 < n < 2^64\<close>), whatever the
  Range header says, every selected range satisfies \<open>start \<le> end < n\<close>, and at most sixteen ranges are
  selected.\<close>

theorem ranges_within_file:
  assumes "0 < n" "n < 2 ^ 64"
  shows "list_all (\<lambda>b. br_start b \<le> br_end b \<and> br_end b < n) (sel_ranges (parse_range r n)) \<and>
    length (sel_ranges (parse_range r n)) \<le> 16"
proof -
  have "list_all (range_within n) (sel_ranges (parse_range_items s n (no_selection\<lparr>sel_requested := True\<rparr>))) \<and>
      length (sel_ranges (parse_range_items s n (no_selection\<lparr>sel_requested := True\<rparr>))) \<le> max_ranges" for s
    by (rule parse_range_items_within [OF assms]) (simp_all add: no_selection_def)
  then show ?thesis
    by (auto simp: parse_range_def Let_def no_selection_def range_within_def list_all_iff max_ranges_def
        split: option.splits)
qed

theorem ranges_within_file_witness:
  "list_all (\<lambda>b. br_start b \<le> br_end b \<and> br_end b < 10)
     (sel_ranges (parse_range (new_request\<lparr>rq_headers := [(''range'', ''bytes=0-3, 8-99, -2'')]\<rparr>) 10))"
  using ranges_within_file [of 10 "new_request\<lparr>rq_headers := [(''range'', ''bytes=0-3, 8-99, -2'')]\<rparr>"] by simp

text \<open>A single range written out in decimal.\<close>

lemma digits_no: "isdigit c \<Longrightarrow> c \<noteq> CHR ''-'' \<and> c \<noteq> CHR '','' \<and> \<not> isspace c"
  by (auto simp: isdigit_def isspace_def)

lemma to_string_not_Nil [simp]: "to_string n \<noteq> []"
  by (simp add: to_string_def)

lemma to_string_chars: "c \<in> set (to_string n) \<Longrightarrow> isdigit c"
  using to_string_digits [of n] by (auto simp: list_all_iff)

lemma trim_range_item: "trim (to_string a @ ''-'' @ to_string b) = to_string a @ ''-'' @ to_string b"
proof (rule trim_id)
  have "\<not> isspace (hd (to_string a))" "\<not> isspace (last (to_string b))"
    using digits_no to_string_chars by (metis hd_in_set to_string_not_Nil, metis last_in_set to_string_not_Nil)
  then show "to_string a @ ''-'' @ to_string b = [] \<or>
      \<not> isspace (hd (to_string a @ ''-'' @ to_string b)) \<and> \<not> isspace (last (to_string a @ ''-'' @ to_string b))"
    by simp
qed

lemma parse_range_single:
  assumes n: "0 < n" "n < 2 ^ 64" and ab: "a \<le> b" "b < 2 ^ 64" "a < n"
    and h: "request_header r ''range'' = Some (''bytes='' @ to_string a @ ''-'' @ to_string b)"
  shows "parse_range r n = \<lparr>sel_requested = True, sel_malformed = False,
    sel_ranges = [\<lparr>br_start = a, br_end = min b (n - 1)\<rparr>]\<rparr>"
proof -
  let ?item = "to_string a @ ''-'' @ to_string b"
  have "CHR ''-'' \<notin> set (to_string a)" using to_string_chars digits_no by blast
  then have dash: "find_char (CHR ''-'') ?item = Some (length (to_string a))"
    using find_char_append [of "CHR ''-''" "to_string a" "to_string b"] by simp
  have comma: "find_char (CHR '','') ?item = None"
    using to_string_chars digits_no by (auto simp: find_char_None_iff)
  have spec: "parse_range_spec ?item n = Some \<lparr>br_start = a, br_end = min b (n - 1)\<rparr>"
    using n ab parse_decimal_size_to_string
    by (auto simp: parse_range_spec_def dash [simplified] Let_def parse_uint_eq sz_pred min_def)
  have "lowercase (trim ''bytes'') = ''bytes''" by code_simp
  with n ab h have "parse_range r n = parse_range_items ?item n (no_selection\<lparr>sel_requested := True\<rparr>)"
    by (simp add: parse_range_def Let_def)
  also have "\<dots> = no_selection\<lparr>sel_requested := True, sel_ranges := [\<lparr>br_start = a, br_end = min b (n - 1)\<rparr>]\<rparr>"
    unfolding parse_range_items.simps [of ?item] Let_def comma option.case trim_range_item
    using spec ab n by (simp add: max_ranges_def no_selection_def)
  finally show ?thesis by (simp add: no_selection_def)
qed

text \<open>A range request is answered with exactly the bytes it asks for: for a file of \<open>n\<close> bytes
  (with a known modification time) and a request with \<open>Range: bytes=a-b\<close>, \<open>a \<le> b\<close>, \<open>a < n\<close>, and no
  If-Range header, the response has status 206, the bytes \<open>a\<close> to \<open>min b (n - 1)\<close> of the file as its
  body, and the matching Content-Range.\<close>

theorem single_range_served:
  assumes "fs_read fs p = Some c" "length c = n" "fs_mtime fs p = Some t" "n < 2 ^ 64"
    and "a \<le> b" "b < 2 ^ 64" "a < n"
    and "request_header r ''range'' = Some (''bytes='' @ to_string a @ ''-'' @ to_string b)"
    and "request_header r ''if-range'' = None"
  shows "rs_status (serve_file fs r p n) = 206 \<and>
    rs_body (serve_file fs r p n) = take (min b (n - 1) + 1 - a) (drop a c) \<and>
    map_of (rs_headers (serve_file fs r p n)) ''content-range'' =
      Some (''bytes '' @ to_string a @ ''-'' @ to_string (min b (n - 1)) @ ''/'' @ to_string n)"
proof -
  have "0 < n" using assms(7) by simp
  note sel = parse_range_single [OF this assms(4-8)]
  have tag: "entity_tag n t \<noteq> []" by (simp add: entity_tag_def)
  have "a \<le> min b (n - 1)" using assms(5,7) by simp
  then have len: "Suc (min b (n - 1) - a) = Suc (min b (n - 1)) - a" by (rule Suc_diff_le [symmetric])
  show ?thesis
    using sel tag len assms(1,3,9)
    by (simp add: serve_file_def Let_def if_range_allows_range_def set_header_def range_length_def
        read_file_range_def substr_def update_conv')
qed

definition sample_fs :: file_system where
  "sample_fs = \<lparr>fs_canonical = (\<lambda>p. Some (lexically_normal p)), fs_is_directory = (\<lambda>p. p = ''/srv''),
     fs_exists = (\<lambda>p. p \<in> {''/srv'', ''/srv/a.txt'', ''/etc/passwd''}),
     fs_is_regular = (\<lambda>p. p \<in> {''/srv/a.txt'', ''/etc/passwd''}),
     fs_size = (\<lambda>p. Some 5), fs_mtime = (\<lambda>p. Some 7),
     fs_read = [''/srv/a.txt'' \<mapsto> ''hello'', ''/etc/passwd'' \<mapsto> ''root:''],
     fs_date = (\<lambda>t. ''now''), fs_gzip = (\<lambda>s. [])\<rparr>"

theorem single_range_served_witness:
  "rs_body (serve_file sample_fs (new_request\<lparr>rq_headers := [(''range'', ''bytes=1-3'')]\<rparr>) ''/srv/a.txt'' 5) = ''ell''"
proof -
  have "to_string 1 = ''1''" "to_string 3 = ''3''" by code_simp+
  with single_range_served [of sample_fs "''/srv/a.txt''" "''hello''" 5 7 1 3
      "new_request\<lparr>rq_headers := [(''range'', ''bytes=1-3'')]\<rparr>"]
  show ?thesis by (simp add: sample_fs_def request_header_def lowercase_def tolower_def isupper_def)
qed

section \<open>Confinement to the document root\<close>

definition agree_below :: "path \<Rightarrow> file_system \<Rightarrow> (path \<Rightarrow> string option) \<Rightarrow> bool" where
  "agree_below root fs contents \<longleftrightarrow> (\<forall>p. starts_with_path p root \<longrightarrow> contents p = fs_read fs p)"

lemma read_file_range_agree:
  "agree_below root fs c \<Longrightarrow> starts_with_path p root \<Longrightarrow>
    read_file_range (fs\<lparr>fs_read := c\<rparr>) p = read_file_range fs p"
  by (simp add: agree_below_def read_file_range_def fun_eq_iff)

lemma multipart_agree:
  assumes "agree_below root fs c" "starts_with_path p root"
  shows "multipart_range_body (fs\<lparr>fs_read := c\<rparr>) p = multipart_range_body fs p"
proof -
  have "multipart_part (fs\<lparr>fs_read := c\<rparr>) p = multipart_part fs p"
    by (simp add: fun_eq_iff multipart_part_def read_file_range_agree [OF assms])
  then show ?thesis by (intro ext) (simp only: multipart_range_body_def)
qed

lemma fs_read_update:
  "fs_mtime (fs\<lparr>fs_read := c\<rparr>) = fs_mtime fs" "fs_date (fs\<lparr>fs_read := c\<rparr>) = fs_date fs"
  "fs_gzip (fs\<lparr>fs_read := c\<rparr>) = fs_gzip fs"
  by simp_all

lemma serve_file_agree:
  assumes "agree_below root fs c" "starts_with_path p root"
  shows "serve_file (fs\<lparr>fs_read := c\<rparr>) r p = serve_file fs r p"
  by (rule ext, unfold serve_file_def fs_read_update read_file_range_agree [OF assms] multipart_agree [OF assms])
    (rule refl)

lemma error_page_agree:
  "agree_below root fs c \<Longrightarrow> apply_custom_error_page (fs\<lparr>fs_read := c\<rparr>) r root o' = apply_custom_error_page fs r root o'"
  by (auto simp: apply_custom_error_page_def Let_def canonical_or_lexical_def read_file_range_agree
      split: option.splits)

lemma serve_candidate_agree:
  assumes "agree_below root fs c" "starts_with_path p root"
  shows "serve_candidate (fs\<lparr>fs_read := c\<rparr>) r root o' p = serve_candidate fs r root o' p"
  by (simp add: serve_candidate_def error_page_agree [OF assms(1)] serve_file_agree [OF assms] split: option.split)

lemma serve_relative_agree:
  assumes "agree_below root fs c"
  shows "serve_relative (fs\<lparr>fs_read := c\<rparr>) r root o' rel = serve_relative fs r root o' rel"
  by (simp add: serve_relative_def Let_def canonical_or_lexical_def serve_candidate_agree [OF assms])



end
