(* ===== verification/Http1_Session.thy ===== *)
theory Http1_Session
  imports Http_Response
begin

text \<open>
  \<open>src/src/http/http1_session.cpp\<close>: cutting requests out of the bytes received on an HTTP/1
  connection. \<open>analyze_header_frame\<close> reads the framing headers, \<open>decode_chunked_body\<close> the chunked coding,
  \<open>next_http1_request_frame\<close> puts them together. Cursors are \<open>std::size_t\<close> and the sums with a chunk
  size taken from the peer wrap around; the loop need not end, so the decoder is a partial function
  whose value is \<open>None\<close> when it never returns, \<open>Some (Inl e)\<close> when it throws.
\<close>

section \<open>Framing headers\<close>

record frame_analysis =
  fa_ok :: bool
  fa_chunked :: bool
  fa_content_length :: "nat option"
  fa_status :: int
  fa_message :: string

definition new_analysis :: frame_analysis where
  "new_analysis = \<lparr>fa_ok = True, fa_chunked = False, fa_content_length = None, fa_status = 400,
     fa_message = ''Bad Request'' @ [LF]\<rparr>"

definition bad_header_frame :: "int \<Rightarrow> string \<Rightarrow> frame_analysis" where
  "bad_header_frame status message = new_analysis\<lparr>fa_ok := False, fa_status := status, fa_message := message\<rparr>"

abbreviation bad_request :: frame_analysis where
  "bad_request \<equiv> bad_header_frame 400 (''Bad Request'' @ [LF])"

text \<open>The first loop: \<open>prev\<close> is the character before the index.\<close>

fun header_chars_ok :: "char option \<Rightarrow> string \<Rightarrow> bool" where
  "header_chars_ok prev [] = True"
| "header_chars_ok prev (ch # s) =
     (if ch = LF \<and> prev \<noteq> Some CR then False
      else if ch = CR \<and> (s = [] \<or> hd s \<noteq> LF) then False
      else if ch = CR \<or> ch = LF \<or> ch = TAB then header_chars_ok (Some ch) s
      else if code ch < 32 \<or> code ch = 127 then False
      else header_chars_ok (Some ch) s)"

text \<open>One header line, after the request line: the values of Content-Length and Transfer-Encoding are
  collected. \<open>None\<close> is a refusal.\<close>

definition analyze_line :: "string \<Rightarrow> string list \<times> string list \<Rightarrow> (string list \<times> string list) option" where
  "analyze_line line acc =
     (if hd line = CHR '' '' \<or> hd line = TAB then None
      else
        case find_char (CHR '':'') line of
          None \<Rightarrow> None
        | Some separator \<Rightarrow>
            let raw_name = take separator line in
            if \<not> is_valid_header_name raw_name then None
            else
              let name = lowercase raw_name; v = trim (drop (separator + 1) line) in
              if list_ex (\<lambda>ch. ch \<noteq> TAB \<and> (code ch < 32 \<or> code ch = 127)) v then None
              else if name = ''content-length'' then Some (fst acc @ [v], snd acc)
              else if name = ''transfer-encoding'' then Some (fst acc, snd acc @ [v])
              else Some acc)"

text \<open>The second loop; \<open>s\<close> is the header from \<open>line_start\<close> on.\<close>

function analyze_lines ::
    "bool \<Rightarrow> string \<Rightarrow> string list \<times> string list \<Rightarrow> (string list \<times> string list) option" where
  "analyze_lines first_line s acc =
     (if s = [] then Some acc
      else
        case find_sub CRLF s of
          None \<Rightarrow> None
        | Some line_end \<Rightarrow>
            let line = take line_end s; rest = drop (line_end + 2) s in
            if line = [] then Some acc
            else if first_line then analyze_lines False rest acc
            else (case analyze_line line acc of None \<Rightarrow> None | Some acc' \<Rightarrow> analyze_lines False rest acc'))"
  by pat_completeness auto
termination
  by (relation "measure (\<lambda>(f, s, a). length s)") auto

declare analyze_lines.simps [simp del]

definition analyze_header_frame :: "string \<Rightarrow> frame_analysis" where
  "analyze_header_frame raw_header =
     (if \<not> header_chars_ok None raw_header then bad_request
      else
        case analyze_lines True raw_header ([], []) of
          None \<Rightarrow> bad_request
        | Some (content_lengths, transfer_encodings) \<Rightarrow>
            if length content_lengths > 1 then bad_request
            else
              let parsed = (if content_lengths = [] then None
                            else parse_decimal_size (trim (hd content_lengths)))
              in if content_lengths \<noteq> [] \<and> parsed = None then bad_request
                 else if length transfer_encodings > 1 then bad_request
                 else if transfer_encodings = [] then new_analysis\<lparr>fa_content_length := parsed\<rparr>
                 else
                   let encodings = split_csv (hd transfer_encodings) in
                   if length encodings \<noteq> 1 \<or> lowercase (hd encodings) \<noteq> ''chunked'' then bad_request
                   else if parsed \<noteq> None then bad_request
                   else new_analysis\<lparr>fa_content_length := parsed, fa_chunked := True\<rparr>)"

section \<open>Chunked bodies\<close>

datatype chunked_state = chunked_incomplete | chunked_complete | chunked_malformed

record chunked_result =
  cr_state :: chunked_state
  cr_body :: string
  cr_consumed :: nat

definition chunked_outcome :: "chunked_state \<Rightarrow> string \<Rightarrow> nat \<Rightarrow> chunked_result" where
  "chunked_outcome st body n = \<lparr>cr_state = st, cr_body = body, cr_consumed = n\<rparr>"

lemma find_from_bound:
  assumes "find_from s n pos = Some i"
  shows "pos \<le> i \<and> i + length n \<le> length s"
  using assms by (auto simp: find_from_def split: if_splits dest!: find_sub_Some)

function chunked_trailers :: "string \<Rightarrow> nat \<Rightarrow> string \<Rightarrow> chunked_result" where
  "chunked_trailers encoded cursor body =
     (case find_from encoded CRLF cursor of
        None \<Rightarrow> chunked_outcome chunked_incomplete body 0
      | Some trailer_end \<Rightarrow>
          if trailer_end = cursor then chunked_outcome chunked_complete body (trailer_end + 2)
          else chunked_trailers encoded (trailer_end + 2) body)"
  by pat_completeness auto
termination
  by (relation "measure (\<lambda>(e, c, b). length e - c)") (auto dest!: find_from_bound)

declare chunked_trailers.simps [simp del]

definition chunk_size_line :: "string \<Rightarrow> nat \<Rightarrow> nat \<Rightarrow> nat option" where
  "chunk_size_line encoded cursor line_end =
     (let size_line = substr encoded cursor (line_end - cursor);
          size_line = (case find_char (CHR '';'') size_line of None \<Rightarrow> size_line | Some i \<Rightarrow> take i size_line)
      in parse_hex_size (trim size_line))"

partial_function (option) decode_chunked_from :: "string \<Rightarrow> nat \<Rightarrow> string \<Rightarrow> chunked_result result option" where
  "decode_chunked_from encoded cursor body =
     (case find_from encoded CRLF cursor of
        None \<Rightarrow> Some (Inr (chunked_outcome chunked_incomplete body 0))
      | Some line_end \<Rightarrow>
          (case chunk_size_line encoded cursor line_end of
             None \<Rightarrow> Some (Inr (chunked_outcome chunked_malformed body 0))
           | Some chunk_size \<Rightarrow>
               let cursor = line_end + 2 in
               if chunk_size = 0 then Some (Inr (chunked_trailers encoded cursor body))
               else if length encoded < sz (cursor + chunk_size + 2)
               then Some (Inr (chunked_outcome chunked_incomplete body 0))
               else
                 let body = body @ substr encoded cursor chunk_size;
                     cursor = sz (cursor + chunk_size)
                 in if cursor > length encoded then Some (Inl ''std::out_of_range'')
                    else if substr encoded cursor 2 \<noteq> CRLF
                    then Some (Inr (chunked_outcome chunked_malformed body 0))
                    else decode_chunked_from encoded (cursor + 2) body))"

declare decode_chunked_from.simps [code]

definition decode_chunked_body :: "string \<Rightarrow> chunked_result result option" where
  "decode_chunked_body encoded = decode_chunked_from encoded 0 []"

section \<open>Frames\<close>

datatype frame_state = frame_incomplete | frame_header_complete | frame_complete | frame_error

record http1_frame =
  hf_state :: frame_state
  hf_request :: "request option"
  hf_content_length :: "nat option"
  hf_raw_request :: string
  hf_consumed :: nat
  hf_waiting_for_body :: bool
  hf_chunked :: bool
  hf_discard_buffer :: bool
  hf_error_status :: int
  hf_error_message :: string

definition new_frame :: http1_frame where
  "new_frame = \<lparr>hf_state = frame_incomplete, hf_request = None, hf_content_length = None, hf_raw_request = [],
     hf_consumed = 0, hf_waiting_for_body = False, hf_chunked = False, hf_discard_buffer = False,
     hf_error_status = 400, hf_error_message = ''Bad Request'' @ [LF]\<rparr>"

definition incomplete_frame :: "bool \<Rightarrow> http1_frame" where
  "incomplete_frame waiting = new_frame\<lparr>hf_waiting_for_body := waiting\<rparr>"

definition error_frame :: "int \<Rightarrow> string \<Rightarrow> nat \<Rightarrow> bool \<Rightarrow> http1_frame" where
  "error_frame status message consumed discard =
     new_frame\<lparr>hf_state := frame_error, hf_error_status := status, hf_error_message := message,
       hf_consumed := consumed, hf_discard_buffer := discard\<rparr>"

text \<open>The frame of a request with a chunked body, from the decoder's result.\<close>

definition chunked_frame :: "string \<Rightarrow> nat \<Rightarrow> nat \<Rightarrow> request option \<Rightarrow> chunked_result \<Rightarrow> http1_frame" where
  "chunked_frame buffered max_request_bytes body_start req decoded =
     (if cr_state decoded = chunked_incomplete then
        (if length buffered > max_request_bytes
         then error_frame 413 (''Content Too Large'' @ [LF]) 0 True
         else (incomplete_frame True)\<lparr>hf_state := frame_header_complete, hf_request := req,
                hf_consumed := body_start, hf_chunked := True\<rparr>)
      else
        let chunked_too_large = (cr_consumed decoded > max_request_bytes \<or>
                                 body_start > max_request_bytes - cr_consumed decoded)
        in if cr_state decoded = chunked_malformed \<or> chunked_too_large then
             error_frame 400 (''Bad Request'' @ [LF])
               (if chunked_too_large then length buffered
                else min (length buffered) (body_start + cr_consumed decoded)) False
           else new_frame\<lparr>hf_state := frame_complete, hf_request := req, hf_chunked := True,
                  hf_raw_request := take body_start buffered @ cr_body decoded,
                  hf_consumed := body_start + cr_consumed decoded\<rparr>)"

text \<open>The frame of a request with a known body size.\<close>

definition sized_frame :: "string \<Rightarrow> nat \<Rightarrow> nat \<Rightarrow> request option \<Rightarrow> nat \<Rightarrow> http1_frame" where
  "sized_frame buffered max_request_bytes body_start req n =
     (if n > max_request_bytes \<or> body_start > max_request_bytes - n
      then error_frame 413 (''Content Too Large'' @ [LF]) 0 True
      else
        let total_size = body_start + n in
        if length buffered < total_size then
          (incomplete_frame (n > 0))\<lparr>hf_state := frame_header_complete, hf_request := req,
             hf_content_length := Some n, hf_consumed := body_start\<rparr>
        else new_frame\<lparr>hf_state := frame_complete, hf_request := req, hf_content_length := Some n,
               hf_raw_request := take total_size buffered, hf_consumed := total_size\<rparr>)"

definition next_http1_request_frame :: "nat \<Rightarrow> string \<Rightarrow> http1_frame result option" where
  "next_http1_request_frame max_request_bytes buffered =
     (case find_sub (CRLF @ CRLF) buffered of
        None \<Rightarrow>
          Some (Inr (if length buffered > max_request_bytes
                     then error_frame 431 (''Request Header Fields Too Large'' @ [LF]) 0 False
                     else incomplete_frame False))
      | Some header_end \<Rightarrow>
          let body_start = header_end + 4;
              analysis = analyze_header_frame (take body_start buffered)
          in if \<not> fa_ok analysis then
               Some (Inr (error_frame (fa_status analysis) (fa_message analysis) body_start False))
             else if body_start > max_request_bytes then
               Some (Inr (error_frame 431 (''Request Header Fields Too Large'' @ [LF]) body_start False))
             else
               let header_parse = parse_request (take body_start buffered) in
               if pr_request header_parse = None then
                 Some (Inr (error_frame 400 (''Bad Request'' @ [LF]) body_start False))
               else if fa_chunked analysis then
                 map_option (map_sum id (chunked_frame buffered max_request_bytes body_start (pr_request header_parse)))
                   (decode_chunked_body (drop body_start buffered))
               else
                 Some (Inr (sized_frame buffered max_request_bytes body_start (pr_request header_parse)
                   (case fa_content_length analysis of None \<Rightarrow> 0 | Some n \<Rightarrow> n))))"

section \<open>The chunked decoder and its reference\<close>

lemma chunked_trailers_bounds:
  "cursor \<le> length encoded \<Longrightarrow>
    cr_consumed (chunked_trailers encoded cursor body) \<le> length encoded \<and>
    cr_body (chunked_trailers encoded cursor body) = body \<and>
    cr_state (chunked_trailers encoded cursor body) \<noteq> chunked_malformed"
proof (induction encoded cursor body rule: chunked_trailers.induct)
  case (1 encoded cursor body)
  show ?case
  proof (cases "find_from encoded CRLF cursor")
    case None
    then show ?thesis by (simp add: chunked_trailers.simps [of encoded cursor] chunked_outcome_def)
  next
    case (Some i)
    have i: "cursor \<le> i" "i + 2 \<le> length encoded" using find_from_bound [OF Some] by auto
    with Some "1.IH" [OF Some] show ?thesis
      by (simp add: chunked_trailers.simps [of encoded cursor] chunked_outcome_def)
  qed
qed

text \<open>The reference: the same reading in unbounded arithmetic. It is \<open>None\<close> only where a sum of the
  program would not fit into 64 bits.\<close>

function decode_chunked_spec :: "string \<Rightarrow> nat \<Rightarrow> string \<Rightarrow> chunked_result option" where
  "decode_chunked_spec encoded cursor body =
     (case find_from encoded CRLF cursor of
        None \<Rightarrow> Some (chunked_outcome chunked_incomplete body 0)
      | Some line_end \<Rightarrow>
          (case chunk_size_line encoded cursor line_end of
             None \<Rightarrow> Some (chunked_outcome chunked_malformed body 0)
           | Some n \<Rightarrow>
               let start = line_end + 2 in
               if n = 0 then Some (chunked_trailers encoded start body)
               else if 2 ^ 64 \<le> start + n + 2 then None
               else if length encoded < start + n + 2 then Some (chunked_outcome chunked_incomplete body 0)
               else if substr encoded (start + n) 2 \<noteq> CRLF
               then Some (chunked_outcome chunked_malformed (body @ substr encoded start n) 0)
               else decode_chunked_spec encoded (start + n + 2) (body @ substr encoded start n)))"
  by pat_completeness auto
termination
  by (relation "measure (\<lambda>(e, c, b). Suc (length e) - c)") (auto dest!: find_from_bound)

declare decode_chunked_spec.simps [simp del]

lemma decode_chunked_refines:
  "decode_chunked_spec encoded cursor body = Some r \<Longrightarrow>
    decode_chunked_from encoded cursor body = Some (Inr r)"
proof (induction encoded cursor body rule: decode_chunked_spec.induct)
  case (1 encoded cursor body)
  show ?case
  proof (cases "find_from encoded CRLF cursor")
    case None
    with "1.prems" show ?thesis
      by (simp add: decode_chunked_spec.simps [of encoded cursor] decode_chunked_from.simps [of encoded cursor])
  next
    case (Some e)
    show ?thesis
    proof (cases "chunk_size_line encoded cursor e")
      case None
      with "1.prems" Some show ?thesis
        by (simp add: decode_chunked_spec.simps [of encoded cursor] decode_chunked_from.simps [of encoded cursor])
    next
      case n: (Some n)
      show ?thesis
      proof (cases "n = 0 \<or> 2 ^ 64 \<le> e + 2 + n + 2 \<or> length encoded < e + 2 + n + 2 \<or>
          substr encoded (e + 2 + n) 2 \<noteq> CRLF")
        case True
        with "1.prems" Some n show ?thesis
          by (simp add: decode_chunked_spec.simps [of encoded cursor] decode_chunked_from.simps [of encoded cursor]
              Let_def split: if_splits)
      next
        case False
        then have c: "n \<noteq> 0" "\<not> 2 ^ 64 \<le> e + 2 + n + 2" "\<not> length encoded < e + 2 + n + 2"
          "\<not> substr encoded (e + 2 + n) 2 \<noteq> CRLF" by (simp_all only: de_Morgan_disj simp_thms)
        have rec: "decode_chunked_spec encoded (e + 2 + n + 2) (body @ substr encoded (e + 2) n) = Some r"
          using "1.prems" Some n c
          by (simp only: decode_chunked_spec.simps [of encoded cursor] Let_def option.case if_False if_not_P)
        have "decode_chunked_from encoded cursor body =
            decode_chunked_from encoded (e + 2 + n + 2) (body @ substr encoded (e + 2) n)"
          using Some n c by (subst decode_chunked_from.simps) (simp add: Let_def)
        with "1.IH" [OF Some n refl c rec] show ?thesis by simp
      qed
    qed
  qed
qed

lemmas chunked_eval = find_from_def chunk_size_line_def Let_def substr_def trim_def isspace_def parse_hex_size_def
  hex_value_def isdigit_def size_max_def chunked_outcome_def sz_def

text \<open>Reading one encoded chunk, and the end of the body.\<close>

lemma find_from_at:
  assumes "CR \<notin> set l"
  shows "find_from (pre @ l @ CRLF @ rest) CRLF (length pre) = Some (length pre + length l)"
proof -
  have "find_sub CRLF (l @ CRLF @ rest) = Some (length l)"
    using assms by (induction l) auto
  then show ?thesis by (simp add: find_from_def)
qed

lemma to_hex_chars: "c \<in> set (to_hex n) \<Longrightarrow> hex_value c \<noteq> None"
  using to_base_digits [of 16 hex_value n, OF hex_value_digit_char] by (auto simp: to_hex_def list_all_iff)

lemma hex_char_no: "hex_value c \<noteq> None \<Longrightarrow> c \<noteq> CR \<and> c \<noteq> CHR '';'' \<and> \<not> isspace c"
  by (auto simp: hex_value_def isdigit_def isspace_def split: if_splits)

lemma to_hex_not_Nil [simp]: "to_hex n \<noteq> []"
  by (simp add: to_hex_def)

lemma chunk_size_line_at:
  assumes "n < 2 ^ 64"
  shows "chunk_size_line (pre @ to_hex n @ rest) (length pre) (length pre + length (to_hex n)) = Some n"
proof -
  have s: "substr (pre @ to_hex n @ rest) (length pre) (length pre + length (to_hex n) - length pre) = to_hex n"
    by (simp add: substr_def)
  have "find_char (CHR '';'') (to_hex n) = None"
    using to_hex_chars hex_char_no by (auto simp: find_char_None_iff)
  moreover have "trim (to_hex n) = to_hex n"
    using hex_char_no [OF to_hex_chars [OF hd_in_set [OF to_hex_not_Nil]]]
      hex_char_no [OF to_hex_chars [OF last_in_set [OF to_hex_not_Nil]]] by (intro trim_id) blast
  ultimately show ?thesis
    unfolding chunk_size_line_def s Let_def using assms by (simp add: parse_hex_size_to_hex)
qed

lemma decode_one_chunk:
  assumes "chunk \<noteq> []" "length (pre @ encode_chunk chunk @ rest) < 2 ^ 64"
  shows "decode_chunked_spec (pre @ encode_chunk chunk @ rest) (length pre) body =
    decode_chunked_spec (pre @ encode_chunk chunk @ rest) (length (pre @ encode_chunk chunk)) (body @ chunk)"
proof -
  let ?n = "length chunk" and ?hex = "to_hex (length chunk)"
  let ?enc = "pre @ encode_chunk chunk @ rest"
  have enc: "?enc = pre @ ?hex @ CRLF @ chunk @ CRLF @ rest" using assms(1) by (simp add: encode_chunk_def)
  have n: "?n < 2 ^ 64" using assms by (simp add: encode_chunk_def)
  have "CR \<notin> set ?hex" using to_hex_chars hex_char_no by blast
  then have f: "find_from ?enc CRLF (length pre) = Some (length pre + length ?hex)"
    unfolding enc by (rule find_from_at)
  have sl: "chunk_size_line ?enc (length pre) (length pre + length ?hex) = Some ?n"
    unfolding enc by (rule chunk_size_line_at [OF n])
  have start: "substr ?enc (length pre + length ?hex + 2) ?n = chunk"
    and fin: "substr ?enc (length pre + length ?hex + 2 + ?n) 2 = CRLF"
    unfolding enc by (simp_all add: substr_def)
  have l: "length ?enc = length pre + length ?hex + 2 + ?n + 2 + length rest" unfolding enc by simp
  have l2: "length (pre @ encode_chunk chunk) = length pre + length ?hex + 2 + ?n + 2"
    using assms(1) by (simp add: encode_chunk_def)
  show ?thesis
    unfolding l2 using f sl start fin l assms(2,1)
    by (subst decode_chunked_spec.simps) (simp only: option.case Let_def, simp)
qed

lemma decode_last_chunk:
  "decode_chunked_spec (pre @ ''0'' @ CRLF @ CRLF @ rest) (length pre) body =
    Some (chunked_outcome chunked_complete body (length pre + length (''0'' @ CRLF @ CRLF)))"
proof -
  have f: "find_from (pre @ ''0'' @ CRLF @ (CRLF @ rest)) CRLF (length pre) = Some (length pre + length ''0'')"
    by (rule find_from_at) simp
  have z: "''0'' = to_hex 0" by code_simp
  have sl: "chunk_size_line (pre @ ''0'' @ CRLF @ CRLF @ rest) (length pre) (length pre + length ''0'') = Some 0"
    unfolding z by (rule chunk_size_line_at) simp
  have t: "find_from ((pre @ ''0'' @ CRLF) @ [] @ CRLF @ rest) CRLF (length (pre @ ''0'' @ CRLF)) =
      Some (length (pre @ ''0'' @ CRLF) + length ([] :: string))"
    by (rule find_from_at) simp
  show ?thesis
    using f sl t by (subst decode_chunked_spec.simps) (simp add: chunked_trailers.simps Let_def)
qed

lemma decode_encoded_chunks:
  "length (pre @ encode_chunked_body chunks @ rest) < 2 ^ 64 \<Longrightarrow>
    decode_chunked_spec (pre @ encode_chunked_body chunks @ rest) (length pre) body =
      Some (chunked_outcome chunked_complete (body @ concat chunks) (length pre + length (encode_chunked_body chunks)))"
proof (induction chunks arbitrary: pre body)
  case Nil
  then show ?case using decode_last_chunk [of pre rest body] by (simp add: encode_chunked_body_def)
next
  case (Cons chunk chunks)
  have split: "encode_chunked_body (chunk # chunks) = encode_chunk chunk @ encode_chunked_body chunks"
    by (simp add: encode_chunked_body_def)
  show ?case
  proof (cases "chunk = []")
    case True
    with Cons split show ?thesis by (simp add: encode_chunk_def)
  next
    case False
    have "decode_chunked_spec (pre @ encode_chunk chunk @ encode_chunked_body chunks @ rest) (length pre) body =
        decode_chunked_spec (pre @ encode_chunk chunk @ encode_chunked_body chunks @ rest)
          (length (pre @ encode_chunk chunk)) (body @ chunk)"
      using Cons.prems split by (intro decode_one_chunk False) simp
    with Cons.IH [of "pre @ encode_chunk chunk" "body @ chunk"] Cons.prems split show ?thesis by (simp add: add.assoc)
  qed
qed

text \<open>Chunked bodies round trip: for every list of chunks whose encoding fits into memory, whatever
  follows it in the buffer, \<open>decode_chunked_body\<close> returns on the output of \<open>encode_chunked_body\<close>, reports
  it complete, yields the concatenation of the chunks and consumes exactly the encoding.\<close>

theorem chunked_roundtrip:
  assumes "length (encode_chunked_body chunks @ rest) < 2 ^ 64"
  shows "decode_chunked_body (encode_chunked_body chunks @ rest) =
    Some (Inr \<lparr>cr_state = chunked_complete, cr_body = concat chunks,
      cr_consumed = length (encode_chunked_body chunks)\<rparr>)"
  using decode_encoded_chunks [of "[]" chunks rest "[]"] assms
  by (simp add: decode_chunked_body_def decode_chunked_refines chunked_outcome_def)

theorem chunked_roundtrip_witness:
  "decode_chunked_body (encode_chunked_body [''abc'', '''', ''de''] @ ''GET'') =
    Some (Inr \<lparr>cr_state = chunked_complete, cr_body = ''abcde'',
      cr_consumed = length (encode_chunked_body [''abc'', '''', ''de''])\<rparr>)"
proof -
  have "encode_chunked_body [''abc'', '''', ''de''] = ''3'' @ CRLF @ ''abc'' @ CRLF @ ''2'' @ CRLF @ ''de'' @ CRLF @ ''0'' @ CRLF @ CRLF"
    by code_simp
  then have "length (encode_chunked_body [''abc'', '''', ''de''] @ ''GET'') < 2 ^ 64" by simp
  from chunked_roundtrip [OF this] show ?thesis by simp
qed



section \<open>Chunk sizes that wrap\<close>

definition wrapping_size :: string where
  "wrapping_size = ''ffffffffffffffec''"

text \<open>The request line and header a client sends before the body.\<close>

definition chunked_head :: string where
  "chunked_head = ''POST / HTTP/1.1'' @ CRLF @ ''Transfer-Encoding: chunked'' @ CRLF @ CRLF"

lemma wrapping_size_throws:
  "decode_chunked_from (wrapping_size @ CRLF) 0 [] = Some (Inl ''std::out_of_range'')"
  by (simp add: decode_chunked_from.simps wrapping_size_def chunked_eval)

definition spinning_body :: string where
  "spinning_body = ''1'' @ CRLF @ ''A'' @ CRLF @ wrapping_size @ CRLF"

lemma spinning_not_Some:
  assumes "decode_chunked_from e c b = Some y"
  shows "\<not> (e = spinning_body \<and> c = 6)"
proof (rule decode_chunked_from.raw_induct [OF _ assms, where P = "\<lambda>e c b y. \<not> (e = spinning_body \<and> c = 6)"], goal_cases)
  case (1 f e c b y)
  show ?case
  proof
    assume "e = spinning_body \<and> c = 6"
    with 1(2) have "f spinning_body 6 b = Some y"
      by (simp add: spinning_body_def wrapping_size_def chunked_eval)
    from 1(1) [OF this] show False by simp
  qed
qed

lemma spinning_never_returns: "decode_chunked_from spinning_body 6 body = None"
  using spinning_not_Some [of spinning_body 6 body] by (cases "decode_chunked_from spinning_body 6 body") auto

lemma spinning_start: "decode_chunked_from spinning_body 0 [] = decode_chunked_from spinning_body 6 ''A''"
  by (subst decode_chunked_from.simps) (simp add: spinning_body_def wrapping_size_def chunked_eval)

lemma chunked_head_facts:
  "find_sub (CRLF @ CRLF) (chunked_head @ body) = Some 43"
  "fa_ok (analyze_header_frame chunked_head)" "fa_chunked (analyze_header_frame chunked_head)"
  "length chunked_head = 47" "pr_request (parse_request chunked_head) \<noteq> None"
proof -
  show "find_sub (CRLF @ CRLF) (chunked_head @ body) = Some 43" by (simp add: chunked_head_def)
  show "fa_ok (analyze_header_frame chunked_head)" "fa_chunked (analyze_header_frame chunked_head)"
    "length chunked_head = 47" "pr_request (parse_request chunked_head) \<noteq> None"
    by code_simp+
qed

lemma chunked_head_frame:
  assumes "47 \<le> m"
  shows "next_http1_request_frame m (chunked_head @ body) =
    map_option (map_sum id (chunked_frame (chunked_head @ body) m 47 (pr_request (parse_request chunked_head))))
      (decode_chunked_body body)"
  using chunked_head_facts assms by (auto simp: next_http1_request_frame_def Let_def)

text \<open>C32: A 71-byte request makes the server spin for ever: with the body
  \<open>1 CRLF A CRLF ffffffffffffffec CRLF\<close> after a chunked request head, the sum of cursor and chunk size
  wraps around to the end of the previous chunk, and \<open>next_http1_request_frame\<close> does not return (for
  every configured maximum the head fits into).\<close>

theorem wrapping_chunk_never_returns:
  assumes "47 \<le> max_request_bytes"
  shows "next_http1_request_frame max_request_bytes (chunked_head @ spinning_body) = None"
  using assms spinning_never_returns
  by (simp add: chunked_head_frame decode_chunked_body_def spinning_start)

theorem wrapping_chunk_never_returns_witness:
  "next_http1_request_frame 65536 (chunked_head @ spinning_body) = None"
  by (rule wrapping_chunk_never_returns) simp

text \<open>A 65-byte request makes the framing code throw \<open>std::out_of_range\<close>, which no caller on the way
  up to the worker thread handles: with the single chunk size \<open>ffffffffffffffec\<close> the wrapped sum passes
  the size check although the cursor lies far behind the end of the buffer.\<close>

theorem wrapping_chunk_throws:
  assumes "47 \<le> max_request_bytes"
  shows "next_http1_request_frame max_request_bytes (chunked_head @ wrapping_size @ CRLF) =
    Some (Inl ''std::out_of_range'')"
  using assms wrapping_size_throws by (simp add: chunked_head_frame decode_chunked_body_def)

theorem wrapping_chunk_throws_witness:
  "next_http1_request_frame 65536 (chunked_head @ wrapping_size @ CRLF) = Some (Inl ''std::out_of_range'')"
  by (rule wrapping_chunk_throws) simp

section \<open>Framing agrees with the parsed headers\<close>

lemma header_chars_line:
  assumes "header_chars_ok prev s" "prev \<noteq> Some CR" "find_sub CRLF s = Some i"
  shows "s = take i s @ CRLF @ drop (i + 2) s \<and> CR \<notin> set (take i s) \<and> LF \<notin> set (take i s) \<and>
    header_chars_ok (Some LF) (drop (i + 2) s)"
  using assms
proof (induction s arbitrary: prev i)
  case (Cons c s)
  show ?case
  proof (cases "c = CR")
    case True
    with Cons.prems(1) obtain s' where s: "s = LF # s'" by (cases s) (auto split: if_splits)
    with True Cons.prems have "i = 0" by (auto simp: prefix_def)
    with True s Cons.prems(1) show ?thesis by (auto split: if_splits)
  next
    case False
    then obtain j where j: "find_sub CRLF s = Some j" "i = Suc j"
      using Cons.prems(3) by (auto simp: prefix_def split: if_splits)
    have "c \<noteq> LF" "header_chars_ok (Some c) s" using False Cons.prems(1,2) by (auto split: if_splits)
    with Cons.IH [of "Some c" j] j False show ?thesis by auto
  qed
qed simp

lemma valid_name_trim:
  assumes "is_valid_header_name n"
  shows "trim n = n"
proof (rule trim_id)
  have "\<not> isspace c" if "is_token_char c" for c
    using that by (auto simp: is_token_char_def isalnum_def isalpha_def isupper_def isdigit_def isspace_def)
  with assms show "n = [] \<or> \<not> isspace (hd n) \<and> \<not> isspace (last n)"
    by (auto simp: is_valid_header_name_def list_all_iff)
qed

text \<open>The two readers have seen the same framing headers: the map holds the last value collected.\<close>

definition same_framing :: "headers \<Rightarrow> string list \<times> string list \<Rightarrow> bool" where
  "same_framing hs acc \<longleftrightarrow>
     map_of hs ''content-length'' = (if fst acc = [] then None else Some (last (fst acc))) \<and>
     map_of hs ''transfer-encoding'' = (if snd acc = [] then None else Some (last (snd acc)))"

lemma same_framing_line:
  assumes line: "CR \<notin> set line" "LF \<notin> set line" "line \<noteq> []" and an: "analyze_line line acc = Some acc'"
    and same: "same_framing hs acc"
  shows "\<exists>n v. parse_headers hs (line @ CRLF @ rest) = parse_headers (AList.update n v hs) rest \<and>
    same_framing (AList.update n v hs) acc'"
proof -
  obtain i where i: "find_char (CHR '':'') line = Some i" and ok: "is_valid_header_name (take i line)"
    using an by (auto simp: analyze_line_def Let_def split: option.splits if_splits)
  let ?n = "lowercase (take i line)" and ?v = "trim (drop (i + 1) line)"
  have "getline ((line @ [CR]) @ LF # rest) = Some (line @ [CR], rest)"
    by (rule getline_append) (use line in auto)
  then have g: "getline (line @ CRLF @ rest) = Some (line @ [CR], rest)" by simp
  have "take i line \<noteq> []" using ok by (auto simp: is_valid_header_name_def)
  then have "parse_headers hs (line @ CRLF @ rest) = parse_headers (AList.update ?n ?v hs) rest"
    using g i line(3) valid_name_trim [OF ok] by (subst parse_headers.simps) (simp add: Let_def)
  moreover have "same_framing (AList.update ?n ?v hs) acc'"
    using an i ok same
    by (auto simp: analyze_line_def Let_def same_framing_def update_conv' split: if_splits)
  ultimately show ?thesis by blast
qed

lemma analyze_lines_same:
  "analyze_lines first_line s acc = Some acc' \<Longrightarrow> \<not> first_line \<Longrightarrow> header_chars_ok prev s \<Longrightarrow> prev \<noteq> Some CR \<Longrightarrow>
    parse_headers hs s = Inr (hs', body) \<Longrightarrow> same_framing hs acc \<Longrightarrow> same_framing hs' acc'"
proof (induction first_line s acc arbitrary: prev hs rule: analyze_lines.induct)
  case (1 first_line s acc)
  show ?case
  proof (cases "s = []")
    case True
    with "1.prems" show ?thesis
      by (simp add: analyze_lines.simps [of _ "[]"] parse_headers.simps [of hs] getline_def)
  next
    case ne: False
    then obtain i where i: "find_sub CRLF s = Some i"
      using "1.prems"(1) by (cases "find_sub CRLF s") (auto simp: analyze_lines.simps [of first_line])
    note ln = header_chars_line [OF "1.prems"(3,4) i]
    let ?line = "take i s" and ?rest = "drop (i + 2) s"
    show ?thesis
    proof (cases "?line = []")
      case True
      then have "s = CRLF @ ?rest" using ln by (metis append_Nil)
      then have "getline s = Some ([CR], ?rest)" using getline_append [of "[CR]" ?rest] by simp
      with True i ne "1.prems" show ?thesis
        by (simp add: analyze_lines.simps [of _ s] parse_headers.simps [of hs s] strip_cr_def)
    next
      case False
      then obtain acc1 where a1: "analyze_line ?line acc = Some acc1" "analyze_lines False ?rest acc1 = Some acc'"
        using "1.prems"(1,2) i ne by (auto simp: analyze_lines.simps [of _ s] Let_def split: option.splits)
      obtain n v where nv: "parse_headers hs s = parse_headers (AList.update n v hs) ?rest"
        "same_framing (AList.update n v hs) acc1"
        using same_framing_line [OF _ _ False a1(1) "1.prems"(6), of ?rest] ln by metis
      show ?thesis
        by (rule "1.IH"(2) [OF ne i refl refl False "1.prems"(2) a1(1) a1(2)])
          (use ln nv "1.prems"(5) in auto)
    qed
  qed
qed

lemma analysis_same:
  assumes ok: "fa_ok (analyze_header_frame raw)" and req: "pr_request (parse_request raw) = Some r"
  shows "\<exists>acc. same_framing (rq_headers r) acc \<and> analyze_lines True raw ([], []) = Some acc"
proof -
  have chars: "header_chars_ok None raw" and "analyze_lines True raw ([], []) \<noteq> None"
    using ok by (auto simp: analyze_header_frame_def bad_header_frame_def split: if_splits option.splits)
  then obtain acc where acc: "analyze_lines True raw ([], []) = Some acc" by auto
  have ne: "raw \<noteq> []" using req by (auto simp: parse_request_def parse_error_result_def)
  then obtain i where i: "find_sub CRLF raw = Some i"
    using acc by (cases "find_sub CRLF raw") (auto simp: analyze_lines.simps [of True raw])
  note ln = header_chars_line [OF chars _ i]
  let ?line = "take i raw" and ?rest = "drop (i + 2) raw"
  have "getline ((?line @ [CR]) @ LF # ?rest) = Some (?line @ [CR], ?rest)"
    by (rule getline_append) (use ln in auto)
  then have g: "getline raw = Some (?line @ [CR], ?rest)" using ln by simp
  have words: "stream_words ?line \<noteq> []"
    using req ne g by (auto simp: parse_request_def parse_error_result_def)
  then have l: "?line \<noteq> []" by (metis stream_words_Nil)
  obtain hs body where h: "parse_headers [] ?rest = Inr (hs, body)" "rq_headers r = hs"
    using req ne g
    by (cases "parse_headers [] ?rest")
      (auto simp: parse_request_def parse_error_result_def split: list.splits if_splits)
  have "analyze_lines False ?rest ([], []) = Some acc"
    using acc ne i l by (simp add: analyze_lines.simps [of True raw] Let_def)
  from analyze_lines_same [OF this _ _ _ h(1), of "Some LF"] ln have "same_framing hs acc"
    by (simp add: same_framing_def)
  with h acc show ?thesis by blast
qed

lemma analysis_framing:
  assumes ok: "fa_ok (analyze_header_frame raw)" and req: "pr_request (parse_request raw) = Some r"
  shows "(if fa_chunked (analyze_header_frame raw)
     then map_of (rq_headers r) ''content-length'' = None \<and>
       (\<exists>v. map_of (rq_headers r) ''transfer-encoding'' = Some v \<and> map lowercase (split_csv v) = [''chunked''])
     else map_of (rq_headers r) ''transfer-encoding'' = None \<and>
       fa_content_length (analyze_header_frame raw) =
         (case map_of (rq_headers r) ''content-length'' of None \<Rightarrow> None | Some v \<Rightarrow> parse_decimal_size (trim v)) \<and>
       (fa_content_length (analyze_header_frame raw) = None \<longrightarrow> map_of (rq_headers r) ''content-length'' = None))"
proof -
  obtain cls tes where same: "same_framing (rq_headers r) (cls, tes)" and a: "analyze_lines True raw ([], []) = Some (cls, tes)"
    using analysis_same [OF assms] by auto
  have chars: "header_chars_ok None raw"
    using ok by (auto simp: analyze_header_frame_def bad_header_frame_def split: if_splits)
  have one: "xs = [] \<or> (\<exists>x. xs = [x])" if "\<not> 1 < length xs" for xs :: "string list"
    using that by (cases xs) (auto simp: length_Suc_conv)
  have "\<not> 1 < length cls" "\<not> 1 < length tes"
    using ok a chars by (auto simp: analyze_header_frame_def bad_header_frame_def Let_def split: if_splits)
  with one [of cls] one [of tes] have shape: "cls = [] \<or> (\<exists>c. cls = [c])" "tes = [] \<or> (\<exists>t. tes = [t])" by auto
  have csv: "length ys = 1 \<Longrightarrow> lowercase (hd ys) = ''chunked'' \<Longrightarrow> map lowercase ys = [''chunked'']" for ys
    by (cases ys) auto
  from shape ok a chars same csv show ?thesis
    by (elim disjE exE)
      (auto simp: analyze_header_frame_def bad_header_frame_def new_analysis_def same_framing_def Let_def split: if_splits)
qed

lemma map_sum_Inr_iff: "map_option (map_sum id g) x = Some (Inr y) \<longleftrightarrow> (\<exists>d. x = Some (Inr d) \<and> y = g d)"
proof (cases x)
  case (Some z)
  then show ?thesis by (cases z) auto
qed simp

text \<open>Where a frame that is handed on comes from.\<close>

lemma frame_origin:
  assumes "next_http1_request_frame m buffered = Some (Inr f)"
    and "hf_state f = frame_complete \<or> hf_state f = frame_header_complete"
  obtains e r where "find_sub (CRLF @ CRLF) buffered = Some e" "e + 4 \<le> m"
    "fa_ok (analyze_header_frame (take (e + 4) buffered))" "pr_request (parse_request (take (e + 4) buffered)) = Some r"
    "if fa_chunked (analyze_header_frame (take (e + 4) buffered))
     then \<exists>d. decode_chunked_body (drop (e + 4) buffered) = Some (Inr d) \<and> f = chunked_frame buffered m (e + 4) (Some r) d
     else f = sized_frame buffered m (e + 4) (Some r)
       (case fa_content_length (analyze_header_frame (take (e + 4) buffered)) of None \<Rightarrow> 0 | Some n \<Rightarrow> n)"
proof -
  obtain e where e: "find_sub (CRLF @ CRLF) buffered = Some e"
    using assms by (cases "find_sub (CRLF @ CRLF) buffered")
      (auto simp: next_http1_request_frame_def incomplete_frame_def error_frame_def new_frame_def split: if_splits)
  let ?raw = "take (e + 4) buffered"
  have ok: "fa_ok (analyze_header_frame ?raw)" "e + 4 \<le> m" "pr_request (parse_request ?raw) \<noteq> None"
    using assms e by (auto simp: next_http1_request_frame_def error_frame_def Let_def split: if_splits)
  then obtain r where r: "pr_request (parse_request ?raw) = Some r" by auto
  show ?thesis
    by (rule that [OF e ok(2,1) r]) (use assms(1) e ok r in \<open>auto simp: next_http1_request_frame_def Let_def map_sum_Inr_iff simp del: map_option_eq_Some\<close>)
qed

text \<open>C1: One message, one length: when a frame is handed on (its header is complete, or all of it), the
  framing that cut it out of the stream is the one the parsed request shows. A chunked frame has the
  Transfer-Encoding \<open>chunked\<close> and no Content-Length; every other frame has no Transfer-Encoding, and its
  length is the value of its Content-Length header, which is a number below \<open>2^64\<close>, or zero without one.
  So a request whose framing headers contradict each other or repeat is never accepted.\<close>

theorem http1_framing_consistent:
  assumes "next_http1_request_frame m buffered = Some (Inr f)"
    and "hf_state f = frame_complete \<or> hf_state f = frame_header_complete"
  shows "\<exists>r. hf_request f = Some r \<and>
    (if hf_chunked f
     then map_of (rq_headers r) ''content-length'' = None \<and>
       (\<exists>v. map_of (rq_headers r) ''transfer-encoding'' = Some v \<and> map lowercase (split_csv v) = [''chunked''])
     else map_of (rq_headers r) ''transfer-encoding'' = None \<and>
       (case map_of (rq_headers r) ''content-length'' of
          None \<Rightarrow> hf_content_length f = Some 0
        | Some v \<Rightarrow> hf_content_length f = parse_decimal_size (trim v) \<and> hf_content_length f \<noteq> None))"
proof -
  obtain e r where ok: "fa_ok (analyze_header_frame (take (e + 4) buffered))"
    and r: "pr_request (parse_request (take (e + 4) buffered)) = Some r"
    and f: "if fa_chunked (analyze_header_frame (take (e + 4) buffered))
     then \<exists>d. decode_chunked_body (drop (e + 4) buffered) = Some (Inr d) \<and> f = chunked_frame buffered m (e + 4) (Some r) d
     else f = sized_frame buffered m (e + 4) (Some r)
       (case fa_content_length (analyze_header_frame (take (e + 4) buffered)) of None \<Rightarrow> 0 | Some n \<Rightarrow> n)"
    using frame_origin [OF assms] by metis
  let ?an = "analyze_header_frame (take (e + 4) buffered)"
  note fr = analysis_framing [OF ok r]
  show ?thesis
  proof (cases "fa_chunked ?an")
    case True
    with f assms(2) have "hf_request f = Some r" "hf_chunked f"
      by (auto simp: chunked_frame_def Let_def error_frame_def incomplete_frame_def new_frame_def split: if_splits)
    with fr True show ?thesis by auto
  next
    case False
    with f assms(2) have "hf_request f = Some r" "\<not> hf_chunked f"
      "hf_content_length f = Some (case fa_content_length ?an of None \<Rightarrow> 0 | Some n \<Rightarrow> n)"
      by (auto simp: sized_frame_def Let_def error_frame_def incomplete_frame_def new_frame_def split: if_splits)
    moreover have "map_of (rq_headers r) ''transfer-encoding'' = None"
      "fa_content_length ?an =
         (case map_of (rq_headers r) ''content-length'' of None \<Rightarrow> None | Some v \<Rightarrow> parse_decimal_size (trim v))"
      "fa_content_length ?an = None \<longrightarrow> map_of (rq_headers r) ''content-length'' = None"
      using fr [unfolded if_not_P [OF False]] by blast+
    ultimately show ?thesis
      by (cases "map_of (rq_headers r) ''content-length''") auto
  qed
qed

lemma decode_chunked_consumed:
  assumes "decode_chunked_from e c b = Some y"
  shows "y = Inr d \<longrightarrow> cr_consumed d \<le> length e"
proof (rule decode_chunked_from.raw_induct [OF _ assms, where P = "\<lambda>e c b y. y = Inr d \<longrightarrow> cr_consumed d \<le> length e"],
    goal_cases)
  case (1 f e c b y)
  show ?case
  proof (cases "find_from e CRLF c")
    case None
    with 1(2) show ?thesis by (auto simp: chunked_outcome_def)
  next
    case (Some l)
    then have l: "l + 2 \<le> length e" using find_from_bound [OF Some] by simp
    show ?thesis
    proof (cases "chunk_size_line e c l")
      case None
      with Some 1(2) show ?thesis by (auto simp: chunked_outcome_def)
    next
      case n: (Some n)
      show ?thesis
      proof (cases "n = 0")
        case True
        with Some n 1(2) chunked_trailers_bounds [OF l, of b] show ?thesis by auto
      next
        case False
        with Some n 1(2) show ?thesis
          by (simp only: option.case Let_def if_False) (auto simp: chunked_outcome_def split: if_splits dest: 1(1))
      qed
    qed
  qed
qed

text \<open>Bounds of a complete frame: it consumes at least its header, at most what is buffered and at
  most the configured maximum, so the connection's buffer shrinks; the raw request starts with the header
  as received, and with a Content-Length it is exactly the consumed bytes.\<close>

theorem http1_frame_bounds:
  assumes "next_http1_request_frame m buffered = Some (Inr f)" and "hf_state f = frame_complete"
  shows "4 \<le> hf_consumed f \<and> hf_consumed f \<le> m \<and> hf_consumed f \<le> length buffered \<and>
    (\<not> hf_chunked f \<longrightarrow> hf_raw_request f = take (hf_consumed f) buffered)"
proof -
  obtain e r where e: "find_sub (CRLF @ CRLF) buffered = Some e" "e + 4 \<le> m"
    and f: "if fa_chunked (analyze_header_frame (take (e + 4) buffered))
     then \<exists>d. decode_chunked_body (drop (e + 4) buffered) = Some (Inr d) \<and> f = chunked_frame buffered m (e + 4) (Some r) d
     else f = sized_frame buffered m (e + 4) (Some r)
       (case fa_content_length (analyze_header_frame (take (e + 4) buffered)) of None \<Rightarrow> 0 | Some n \<Rightarrow> n)"
    using frame_origin [OF assms(1)] assms(2) by metis
  have l: "e + 4 \<le> length buffered" using find_sub_Some [OF e(1)] by simp
  show ?thesis
  proof (cases "fa_chunked (analyze_header_frame (take (e + 4) buffered))")
    case True
    with f obtain d where d: "decode_chunked_body (drop (e + 4) buffered) = Some (Inr d)"
      "f = chunked_frame buffered m (e + 4) (Some r) d" by auto
    have "cr_consumed d \<le> length buffered - (e + 4)"
      using decode_chunked_consumed [OF d(1) [unfolded decode_chunked_body_def], of d] by simp
    with d(2) l assms(2) show ?thesis
      by (auto simp: chunked_frame_def Let_def error_frame_def incomplete_frame_def new_frame_def split: if_splits)
  next
    case False
    with f l assms(2) e show ?thesis
      by (auto simp: sized_frame_def Let_def error_frame_def incomplete_frame_def new_frame_def split: if_splits)
  qed
qed

definition sample_buffer :: string where
  "sample_buffer = ''POST /a HTTP/1.1'' @ CRLF @ ''Content-Length: 2'' @ CRLF @ CRLF @ ''hiGET''"

lemma sample_analysis:
  "find_sub (CRLF @ CRLF) sample_buffer = Some 35" "header_chars_ok None (take 39 sample_buffer)"
  "analyze_lines True (take 39 sample_buffer) ([], []) = Some ([''2''], [])"
  "pr_request (parse_request (take 39 sample_buffer)) \<noteq> None" "length sample_buffer = 44" "trim ''2'' = ''2''"
  by code_simp+

lemma sample_frame:
  "\<exists>f. next_http1_request_frame 65536 sample_buffer = Some (Inr f) \<and> hf_state f = frame_complete \<and>
    hf_consumed f = 41 \<and> \<not> hf_chunked f"
proof -
  have "parse_decimal_size ''2'' = Some 2"
    by (simp add: parse_decimal_size_def dec_value_def isdigit_def size_max_def)
  then have "analyze_header_frame (take 39 sample_buffer) = new_analysis\<lparr>fa_content_length := Some 2\<rparr>"
    using sample_analysis(2,3,6) by (simp add: analyze_header_frame_def)
  with sample_analysis(1,4,5) show ?thesis
    by (auto simp: next_http1_request_frame_def Let_def sized_frame_def new_analysis_def new_frame_def)
qed

theorem http1_framing_consistent_witness:
  "\<exists>f r. next_http1_request_frame 65536 sample_buffer = Some (Inr f) \<and> hf_request f = Some r \<and>
    map_of (rq_headers r) ''transfer-encoding'' = None"
proof -
  obtain f where f: "next_http1_request_frame 65536 sample_buffer = Some (Inr f)" "hf_state f = frame_complete"
    "\<not> hf_chunked f"
    using sample_frame by blast
  from http1_framing_consistent [OF f(1) disjI1 [OF f(2)]] f show ?thesis by auto
qed

theorem http1_frame_bounds_witness:
  "\<exists>f. next_http1_request_frame 65536 sample_buffer = Some (Inr f) \<and> hf_raw_request f = take 41 sample_buffer"
proof -
  obtain f where f: "next_http1_request_frame 65536 sample_buffer = Some (Inr f)" "hf_state f = frame_complete"
    "hf_consumed f = 41" "\<not> hf_chunked f"
    using sample_frame by blast
  from http1_frame_bounds [OF f(1,2)] f show ?thesis by auto
qed

end
