(* ===== verification/Http2_Session.thy ===== *)
theory Http2_Session
  imports Http2_Frame Http2_Hpack Http_Response
begin

text \<open>
  \<open>src/src/protocol/http2_session.cpp\<close>: the server side of an HTTP/2 connection. The session record is
  \<open>ServerSession\<close>; every handler returns the session it leaves behind and either a \<open>SessionResult\<close> or the
  exception of \<open>serialize_frame\<close>. \<open>process_input\<close> also returns the rest of the input buffer. The
  iteration order of header maps is the parameter \<open>it\<close>. Shown: an invariant of all reachable sessions, the
  exactness of the requests built from streams, that no handler throws, and the facts behind the
  deviations from the protocol that are listed as findings.
\<close>

section \<open>Constants and frames\<close>

definition flag_end_stream :: u8 where "flag_end_stream = 0x1"
definition flag_end_headers :: u8 where "flag_end_headers = 0x4"
definition flag_padded :: u8 where "flag_padded = 0x8"
definition flag_priority :: u8 where "flag_priority = 0x20"

definition error_protocol :: u32 where "error_protocol = 0x1"
definition error_flow_control :: u32 where "error_flow_control = 0x3"
definition error_stream_closed :: u32 where "error_stream_closed = 0x5"
definition error_compression :: u32 where "error_compression = 0x9"
definition error_enhance_your_calm :: u32 where "error_enhance_your_calm = 0xb"
definition error_http_1_1_required :: u32 where "error_http_1_1_required = 0xd"

definition u32_payload :: "u32 \<Rightarrow> bytes" where
  "u32_payload v = [ucast (drop_bit 24 v AND 0xff), ucast (drop_bit 16 v AND 0xff),
     ucast (drop_bit 8 v AND 0xff), ucast (v AND 0xff)]"

definition frame_string :: "frame \<Rightarrow> string result" where
  "frame_string f = r_bind (serialize_frame f default_max_frame_size) (\<lambda>bs. Inr (bytes_to_string bs))"

definition settings_frame :: "bool \<Rightarrow> string result" where
  "settings_frame ack = frame_string (empty_frame\<lparr>fr_type := frame_type_value FT_settings,
     fr_flags := (if ack then 0x1 else 0x0), fr_stream_id := 0\<rparr>)"

definition rst_stream_frame :: "u32 \<Rightarrow> u32 \<Rightarrow> string result" where
  "rst_stream_frame stream_id error_code = frame_string (empty_frame\<lparr>fr_type := frame_type_value FT_rst_stream,
     fr_stream_id := stream_id, fr_payload := u32_payload error_code\<rparr>)"

definition ping_frame :: "bytes \<Rightarrow> bool \<Rightarrow> string result" where
  "ping_frame payload ack = frame_string (empty_frame\<lparr>fr_type := frame_type_value FT_ping,
     fr_flags := (if ack then 0x1 else 0x0), fr_stream_id := 0, fr_payload := payload\<rparr>)"

definition window_update_frame :: "u32 \<Rightarrow> u32 \<Rightarrow> string result" where
  "window_update_frame stream_id increment = frame_string (empty_frame\<lparr>fr_type := frame_type_value FT_window_update,
     fr_stream_id := stream_id, fr_payload := u32_payload (increment AND 0x7fffffff)\<rparr>)"

definition headers_frame :: "u32 \<Rightarrow> header_field list \<Rightarrow> bool \<Rightarrow> string result" where
  "headers_frame stream_id headers end_stream =
     r_bind (hpack_encode_header_block headers) (\<lambda>payload.
       frame_string (empty_frame\<lparr>fr_type := frame_type_value FT_headers,
         fr_flags := flag_end_headers OR (if end_stream then flag_end_stream else 0),
         fr_stream_id := stream_id, fr_payload := payload\<rparr>))"

definition data_frame :: "u32 \<Rightarrow> string \<Rightarrow> bool \<Rightarrow> string result" where
  "data_frame stream_id payload end_stream = frame_string (empty_frame\<lparr>fr_type := frame_type_value FT_data,
     fr_flags := (if end_stream then flag_end_stream else 0), fr_stream_id := stream_id,
     fr_payload := string_to_bytes payload\<rparr>)"

definition goaway_frame :: "u32 \<Rightarrow> string \<Rightarrow> string result" where
  "goaway_frame error_code debug_data = frame_string (empty_frame\<lparr>fr_type := frame_type_value FT_goaway,
     fr_stream_id := 0, fr_payload := u32_payload 0 @ u32_payload error_code @ string_to_bytes debug_data\<rparr>)"

section \<open>Header rules\<close>

definition header_name_has_uppercase :: "string \<Rightarrow> bool" where
  "header_name_has_uppercase name = list_ex isupper name"

definition header_value_has_invalid_control :: "string \<Rightarrow> bool" where
  "header_value_has_invalid_control v = list_ex (\<lambda>ch. ch \<noteq> TAB \<and> (code ch < 32 \<or> code ch = 127)) v"

definition forbidden_request_header :: "string \<Rightarrow> string \<Rightarrow> bool" where
  "forbidden_request_header name v =
     (if name = ''te'' then lowercase v \<noteq> ''trailers''
      else name \<in> {''connection'', ''keep-alive'', ''proxy-connection'', ''transfer-encoding'', ''upgrade''})"

definition forbidden_response_header :: "string \<Rightarrow> bool" where
  "forbidden_response_header name \<longleftrightarrow>
     name \<in> {''connection'', ''keep-alive'', ''proxy-authenticate'', ''proxy-authorization'', ''te'', ''trailer'',
       ''transfer-encoding'', ''upgrade''}"

text \<open>Padding: the pad length octet and the padding are cut off. \<open>None\<close> is \<open>std::nullopt\<close>.\<close>

definition unpadded_bounds :: "frame \<Rightarrow> (nat \<times> nat) option" where
  "unpadded_bounds f =
     (if fr_flags f AND flag_padded \<noteq> 0 then
        (if fr_payload f = [] then None
         else
           let padding = unat (fr_payload f ! 0) in
           if padding > length (fr_payload f) - 1 then None
           else Some (1, length (fr_payload f) - padding))
      else Some (0, length (fr_payload f)))"

definition header_block_payload :: "frame \<Rightarrow> bytes option" where
  "header_block_payload f =
     (case unpadded_bounds f of
        None \<Rightarrow> None
      | Some (cursor, end') \<Rightarrow>
          if fr_flags f AND flag_priority \<noteq> 0 \<and> end' - cursor < 5 then None
          else
            let cursor = (if fr_flags f AND flag_priority \<noteq> 0 then cursor + 5 else cursor) in
            if cursor > end' then None else Some (substr (fr_payload f) cursor (end' - cursor)))"

definition data_payload :: "frame \<Rightarrow> bytes option" where
  "data_payload f =
     (case unpadded_bounds f of
        None \<Rightarrow> None
      | Some (cursor, end') \<Rightarrow>
          if cursor > end' then None else Some (substr (fr_payload f) cursor (end' - cursor)))"

section \<open>Responses\<close>

definition response_may_have_body :: "int \<Rightarrow> bool" where
  "response_may_have_body status \<longleftrightarrow> status \<ge> 200 \<and> status \<noteq> 204 \<and> status \<noteq> 304"

definition apply_response_defaults :: "response \<Rightarrow> serialization_options \<Rightarrow> response" where
  "apply_response_defaults input options =
     (let h0 = rs_headers input;
          h1 = (if rs_status input \<noteq> 101 then add_defaults (so_default_headers options) h0 else h0);
          h2 = (if rs_status input \<noteq> 101 \<and> rs_status input \<noteq> 204 \<and> map_of h1 ''transfer-encoding'' = None
                then AList.update ''content-length'' (to_string (length (rs_body input))) h1 else h1)
      in input\<lparr>rs_headers :=
           (if so_server_header_enabled options
            then AList.update ''server''
                   (if so_server_name options = [] then ''Rimau Web Server'' else so_server_name options) h2
            else AList.delete ''server'' h2)\<rparr>)"

definition response_fields :: "(headers \<Rightarrow> headers) \<Rightarrow> response \<Rightarrow> header_field list" where
  "response_fields it r =
     \<lparr>hf_name = '':status'', hf_value = int_to_string (rs_status r)\<rparr> #
     concat (map (\<lambda>(raw_name, raw_value).
       let name = lowercase raw_name in
       if \<not> is_valid_header_name name \<or> forbidden_response_header name then []
       else [\<lparr>hf_name = name, hf_value = sanitize_header_value raw_value\<rparr>]) (it (rs_headers r)))"

function data_frames :: "u32 \<Rightarrow> string \<Rightarrow> nat \<Rightarrow> string result" where
  "data_frames stream_id body offset =
     (if offset < length body then
        let remaining = length body - offset;
            chunk_size = min remaining (unat default_max_frame_size);
            end_stream = (offset + chunk_size = length body)
        in r_bind (data_frame stream_id (substr body offset chunk_size) end_stream) (\<lambda>d.
           r_bind (data_frames stream_id body (offset + chunk_size)) (\<lambda>rest. Inr (d @ rest)))
      else Inr [])"
  by pat_completeness auto
termination
  by (relation "measure (\<lambda>(s, b, off). length b - off)") (auto simp: default_max_frame_size_def)

declare data_frames.simps [simp del]

definition serialize_response ::
    "(headers \<Rightarrow> headers) \<Rightarrow> u32 \<Rightarrow> response \<Rightarrow> body_mode \<Rightarrow> serialization_options \<Rightarrow> string result" where
  "serialize_response it stream_id input mode options =
     (let r = apply_response_defaults input options;
          with_body = (mode = body_included \<and> response_may_have_body (rs_status r));
          no_data = (\<not> with_body \<or> rs_body r = [])
      in r_bind (headers_frame stream_id (response_fields it r) no_data) (\<lambda>output.
           if no_data then Inr output
           else r_bind (data_frames stream_id (rs_body r) 0) (\<lambda>d. Inr (output @ d))))"

section \<open>The session\<close>

datatype stream_lifecycle = stream_open | stream_half_closed_remote

record stream_state =
  ss_id :: u32
  ss_headers_received :: bool
  ss_lifecycle :: stream_lifecycle
  ss_inbound_window :: int
  ss_headers :: "header_field list"
  ss_body :: string

definition new_stream :: stream_state where
  "new_stream = \<lparr>ss_id = 0, ss_headers_received = False, ss_lifecycle = stream_open, ss_inbound_window = 65535,
     ss_headers = [], ss_body = []\<rparr>"

record pending_header_block =
  pb_stream_id :: u32
  pb_end_stream :: bool
  pb_block :: bytes

record completed_stream =
  cs_stream_id :: u32
  cs_request :: request

record session_result =
  sr_output :: string
  sr_keep_connection :: bool
  sr_close_now :: bool
  sr_completed_stream :: "completed_stream option"
  sr_error_response :: "response option"
  sr_error_stream_id :: u32
  sr_warning :: string

definition no_result :: session_result where
  "no_result = \<lparr>sr_output = [], sr_keep_connection = True, sr_close_now = False, sr_completed_stream = None,
     sr_error_response = None, sr_error_stream_id = 0, sr_warning = []\<rparr>"

record server_session =
  sv_active :: bool
  sv_last_client_stream_id :: u32
  sv_connection_inbound_window :: int
  sv_decoder :: hpack_decoder
  sv_pending_headers :: "pending_header_block option"
  sv_streams :: "u32 \<rightharpoonup> stream_state"

definition new_session :: server_session where
  "new_session = \<lparr>sv_active = False, sv_last_client_stream_id = 0, sv_connection_inbound_window = 65535,
     sv_decoder = new_decoder, sv_pending_headers = None, sv_streams = Map.empty\<rparr>"

definition session_reset :: "server_session \<Rightarrow> server_session" where
  "session_reset s = s\<lparr>sv_active := False, sv_last_client_stream_id := 0, sv_connection_inbound_window := 65535,
     sv_decoder := hd_reset (sv_decoder s), sv_pending_headers := None, sv_streams := Map.empty\<rparr>"

definition reset_stream :: "u32 \<Rightarrow> server_session \<Rightarrow> server_session" where
  "reset_stream stream_id s = s\<lparr>sv_streams := (sv_streams s) (stream_id := None)\<rparr>"

type_synonym session_step = "server_session \<times> session_result result"

definition fail_connection :: "u32 \<Rightarrow> string \<Rightarrow> server_session \<Rightarrow> session_step" where
  "fail_connection error_code debug_data s =
     (s\<lparr>sv_streams := Map.empty, sv_pending_headers := None, sv_active := False\<rparr>,
      r_bind (goaway_frame error_code debug_data) (\<lambda>out.
        Inr (no_result\<lparr>sr_output := out, sr_keep_connection := False\<rparr>)))"

definition reset_stream_result :: "u32 \<Rightarrow> u32 \<Rightarrow> server_session \<Rightarrow> session_step" where
  "reset_stream_result stream_id error_code s =
     (reset_stream stream_id s,
      r_bind (rst_stream_frame stream_id error_code) (\<lambda>out. Inr (no_result\<lparr>sr_output := out\<rparr>)))"

section \<open>Building the request of a stream\<close>

record field_scan =
  fs_pseudo :: headers
  fs_headers :: headers
  fs_regular_seen :: bool
  fs_content_length :: "nat option"

definition new_scan :: field_scan where
  "new_scan = \<lparr>fs_pseudo = [], fs_headers = [], fs_regular_seen = False, fs_content_length = None\<rparr>"

definition merge_header :: "string \<Rightarrow> string \<Rightarrow> headers \<Rightarrow> headers" where
  "merge_header name v hs =
     (case map_of hs name of
        None \<Rightarrow> AList.update name v hs
      | Some old \<Rightarrow> AList.update name (old @ (if name = ''cookie'' then ''; '' else '', '') @ v) hs)"

text \<open>One field; \<open>None\<close> is the 400 response.\<close>

definition scan_field :: "header_field \<Rightarrow> field_scan \<Rightarrow> field_scan option" where
  "scan_field f sc =
     (let name = lowercase (hf_name f) in
      if name = [] \<or> header_name_has_uppercase (hf_name f) \<or> header_value_has_invalid_control (hf_value f) then None
      else if hd name = CHR '':'' then
        (if name \<notin> {'':method'', '':path'', '':scheme'', '':authority''} then None
         else if fs_regular_seen sc \<or> map_of (fs_pseudo sc) name \<noteq> None then None
         else Some (sc\<lparr>fs_pseudo := AList.update name (hf_value f) (fs_pseudo sc)\<rparr>))
      else
        let sc = sc\<lparr>fs_regular_seen := True\<rparr> in
        if \<not> is_valid_header_name name \<or> forbidden_request_header name (hf_value f) then None
        else
          let parsed = parse_decimal_size (trim (hf_value f)) in
          if name = ''content-length'' \<and> (fs_content_length sc \<noteq> None \<or> parsed = None) then None
          else
            let sc = (if name = ''content-length'' then sc\<lparr>fs_content_length := parsed\<rparr> else sc)
            in Some (sc\<lparr>fs_headers := merge_header name (hf_value f) (fs_headers sc)\<rparr>))"

fun scan_fields :: "header_field list \<Rightarrow> field_scan \<Rightarrow> field_scan option" where
  "scan_fields [] sc = Some sc"
| "scan_fields (f # fs) sc = (case scan_field f sc of None \<Rightarrow> None | Some sc' \<Rightarrow> scan_fields fs sc')"

definition bad_request_response :: response where
  "bad_request_response = text_response 400 (''Bad Request'' @ [LF]) plain_text"

text \<open>The text handed to the HTTP/1 parser.\<close>

definition raw_request_text :: "(headers \<Rightarrow> headers) \<Rightarrow> string \<Rightarrow> string \<Rightarrow> headers \<Rightarrow> nat option \<Rightarrow> string \<Rightarrow> string" where
  "raw_request_text it method path hs content_length body =
     method @ '' '' @ path @ '' HTTP/1.1'' @ CRLF @ render_headers (it hs) @
     (if body \<noteq> [] \<and> content_length = None then ''content-length: '' @ to_string (length body) @ CRLF else []) @
     CRLF @ body"

definition build_request :: "(headers \<Rightarrow> headers) \<Rightarrow> stream_state \<Rightarrow> response + request" where
  "build_request it stream =
     (case scan_fields (ss_headers stream) new_scan of
        None \<Rightarrow> Inl bad_request_response
      | Some sc \<Rightarrow>
          (case (map_of (fs_pseudo sc) '':method'', map_of (fs_pseudo sc) '':path'', map_of (fs_pseudo sc) '':scheme'') of
             (Some method, Some path, Some scheme) \<Rightarrow>
               if scheme \<noteq> ''http'' \<and> scheme \<noteq> ''https'' then Inl bad_request_response
               else if (case fs_content_length sc of None \<Rightarrow> False | Some n \<Rightarrow> n \<noteq> length (ss_body stream))
               then Inl bad_request_response
               else
                 let authority = map_of (fs_pseudo sc) '':authority''; host = map_of (fs_headers sc) ''host'' in
                 if authority \<noteq> None \<and> host \<noteq> None \<and> host \<noteq> authority then Inl bad_request_response
                 else
                   let hs = (case authority of None \<Rightarrow> fs_headers sc
                             | Some a \<Rightarrow> AList.update ''host'' a (fs_headers sc))
                   in case pr_request (parse_request (raw_request_text it method path hs (fs_content_length sc) (ss_body stream))) of
                        None \<Rightarrow> Inl bad_request_response
                      | Some r \<Rightarrow> Inr (r\<lparr>rq_version := ''HTTP/2''\<rparr>)
           | _ \<Rightarrow> Inl bad_request_response))"

definition complete_stream :: "(headers \<Rightarrow> headers) \<Rightarrow> u32 \<Rightarrow> server_session \<Rightarrow> session_step" where
  "complete_stream it stream_id s =
     (case sv_streams s stream_id of
        None \<Rightarrow> reset_stream_result stream_id error_stream_closed s
      | Some stream \<Rightarrow>
          (reset_stream stream_id s,
           Inr (case build_request it stream of
                  Inl e \<Rightarrow> no_result\<lparr>sr_error_stream_id := stream_id, sr_error_response := Some e\<rparr>
                | Inr r \<Rightarrow> no_result\<lparr>sr_completed_stream := Some \<lparr>cs_stream_id = stream_id, cs_request = r\<rparr>\<rparr>)))"

section \<open>Frames\<close>

definition put_stream :: "u32 \<Rightarrow> stream_state \<Rightarrow> server_session \<Rightarrow> server_session" where
  "put_stream stream_id stream s = s\<lparr>sv_streams := (sv_streams s) (stream_id \<mapsto> stream)\<rparr>"

definition decode_headers :: "(headers \<Rightarrow> headers) \<Rightarrow> u32 \<Rightarrow> bool \<Rightarrow> bytes \<Rightarrow> server_session \<Rightarrow> session_step" where
  "decode_headers it stream_id end_stream block s =
     (case decode_header_block (sv_decoder s) block of
        (d, Inl e) \<Rightarrow>
          (case reset_stream_result stream_id error_compression (s\<lparr>sv_decoder := d\<rparr>) of
             (s', r) \<Rightarrow> (s', r_bind r (\<lambda>res. Inr (res\<lparr>sr_warning := ''HTTP/2 HPACK decode failed: '' @ e\<rparr>))))
      | (d, Inr headers) \<Rightarrow>
          let s = s\<lparr>sv_decoder := d\<rparr>;
              stream = (case sv_streams s stream_id of None \<Rightarrow> new_stream | Some st \<Rightarrow> st)
          in if sv_streams s stream_id \<noteq> None \<and> ss_headers_received stream
             then reset_stream_result stream_id error_protocol s
             else
               let stream = stream\<lparr>ss_id := stream_id, ss_headers_received := True, ss_headers := headers,
                     ss_lifecycle := (if end_stream then stream_half_closed_remote else stream_open)\<rparr>;
                   s = put_stream stream_id stream s;
                   s = (if stream_id > sv_last_client_stream_id s then s\<lparr>sv_last_client_stream_id := stream_id\<rparr> else s)
               in if end_stream then complete_stream it stream_id s else (s, Inr no_result))"

definition handle_headers_frame :: "(headers \<Rightarrow> headers) \<Rightarrow> frame \<Rightarrow> nat \<Rightarrow> server_session \<Rightarrow> session_step" where
  "handle_headers_frame it f max_request_bytes s =
     (if sv_pending_headers s \<noteq> None then
        fail_connection error_protocol ''HTTP/2 HEADERS received before pending CONTINUATION sequence ended'' s
      else if fr_stream_id f mod 2 = 0 then
        fail_connection error_protocol ''HTTP/2 client stream id must be odd'' s
      else if sv_streams s (fr_stream_id f) = None \<and> fr_stream_id f \<le> sv_last_client_stream_id s then
        reset_stream_result (fr_stream_id f) error_stream_closed s
      else
        case header_block_payload f of
          None \<Rightarrow> reset_stream_result (fr_stream_id f) error_protocol s
        | Some block \<Rightarrow>
            if length block > max_request_bytes then
              reset_stream_result (fr_stream_id f) error_enhance_your_calm s
            else if fr_flags f AND flag_end_headers = 0 then
              (s\<lparr>sv_pending_headers := Some \<lparr>pb_stream_id = fr_stream_id f,
                   pb_end_stream = (fr_flags f AND flag_end_stream \<noteq> 0), pb_block = block\<rparr>\<rparr>, Inr no_result)
            else decode_headers it (fr_stream_id f) (fr_flags f AND flag_end_stream \<noteq> 0) block s)"

definition handle_continuation_frame :: "(headers \<Rightarrow> headers) \<Rightarrow> frame \<Rightarrow> nat \<Rightarrow> server_session \<Rightarrow> session_step" where
  "handle_continuation_frame it f max_request_bytes s =
     (case sv_pending_headers s of
        None \<Rightarrow> fail_connection error_protocol ''HTTP/2 CONTINUATION received without matching HEADERS'' s
      | Some pending \<Rightarrow>
          if pb_stream_id pending \<noteq> fr_stream_id f then
            fail_connection error_protocol ''HTTP/2 CONTINUATION received without matching HEADERS'' s
          else if length (pb_block pending) + length (fr_payload f) > max_request_bytes then
            reset_stream_result (fr_stream_id f) error_enhance_your_calm (s\<lparr>sv_pending_headers := None\<rparr>)
          else
            let pending = pending\<lparr>pb_block := pb_block pending @ fr_payload f\<rparr> in
            if fr_flags f AND flag_end_headers = 0 then
              (s\<lparr>sv_pending_headers := Some pending\<rparr>, Inr no_result)
            else decode_headers it (pb_stream_id pending) (pb_end_stream pending) (pb_block pending)
                   (s\<lparr>sv_pending_headers := None\<rparr>))"

text \<open>\<open>static_cast<std::size_t> (std::int32_t)\<close>.\<close>

definition window_size :: "int \<Rightarrow> nat" where
  "window_size w = nat (w mod 2 ^ 64)"

definition handle_data_frame :: "(headers \<Rightarrow> headers) \<Rightarrow> frame \<Rightarrow> nat \<Rightarrow> server_session \<Rightarrow> session_step" where
  "handle_data_frame it f max_request_bytes s =
     (let id = fr_stream_id f in
      case sv_streams s id of
        None \<Rightarrow> reset_stream_result id error_stream_closed s
      | Some stream \<Rightarrow>
          if \<not> ss_headers_received stream \<or> ss_lifecycle stream = stream_half_closed_remote then
            reset_stream_result id error_stream_closed s
          else
            case data_payload f of
              None \<Rightarrow> reset_stream_result id error_protocol s
            | Some payload \<Rightarrow>
                if length payload > window_size (sv_connection_inbound_window s) \<or>
                   length payload > window_size (ss_inbound_window stream) then
                  fail_connection error_flow_control ''HTTP/2 inbound flow-control window exceeded'' s
                else if length (ss_body stream) + length payload > max_request_bytes then
                  reset_stream_result id error_enhance_your_calm s
                else
                  let n = int (length payload);
                      stream = stream\<lparr>ss_inbound_window := ss_inbound_window stream - n,
                                      ss_body := ss_body stream @ bytes_to_string payload\<rparr>;
                      s = s\<lparr>sv_connection_inbound_window := sv_connection_inbound_window s - n\<rparr>;
                      increment = of_nat (length payload);
                      updates = (if payload = [] then Inr []
                        else r_bind (window_update_frame 0 increment) (\<lambda>a.
                             r_bind (window_update_frame id increment) (\<lambda>b. Inr (a @ b))));
                      s = (if payload = [] then s
                           else s\<lparr>sv_connection_inbound_window := sv_connection_inbound_window s + n\<rparr>);
                      stream = (if payload = [] then stream
                                else stream\<lparr>ss_inbound_window := ss_inbound_window stream + n\<rparr>)
                  in case updates of
                       Inl e \<Rightarrow> (put_stream id stream s, Inl e)
                     | Inr window_updates \<Rightarrow>
                         if fr_flags f AND flag_end_stream \<noteq> 0 then
                           (case complete_stream it id
                                   (put_stream id (stream\<lparr>ss_lifecycle := stream_half_closed_remote\<rparr>) s) of
                              (s', r) \<Rightarrow> (s', r_bind r (\<lambda>res. Inr (res\<lparr>sr_output := window_updates @ sr_output res\<rparr>))))
                         else (put_stream id stream s, Inr (no_result\<lparr>sr_output := window_updates\<rparr>)))"

definition apply_settings :: "setting list \<Rightarrow> hpack_decoder \<Rightarrow> hpack_decoder" where
  "apply_settings settings d =
     foldl (\<lambda>d st. if st_identifier st = header_table_size then set_max_table_size (unat (st_value st)) d else d)
       d settings"

definition handle_frame :: "(headers \<Rightarrow> headers) \<Rightarrow> frame \<Rightarrow> nat \<Rightarrow> server_session \<Rightarrow> session_step" where
  "handle_frame it f max_request_bytes s =
     (let type = as_frame_type (fr_type f) in
      if sv_pending_headers s \<noteq> None \<and> type \<noteq> Some FT_continuation then
        fail_connection error_protocol ''HTTP/2 expected CONTINUATION before any other frame'' s
      else
        case type of
          Some FT_settings \<Rightarrow>
            if fr_flags f AND 0x1 = 0 then
              (case parse_settings_payload (fr_payload f) of
                 Inl e \<Rightarrow> fail_connection error_protocol e s
               | Inr settings \<Rightarrow>
                   (s\<lparr>sv_decoder := apply_settings settings (sv_decoder s)\<rparr>,
                    r_bind (settings_frame True) (\<lambda>out. Inr (no_result\<lparr>sr_output := out\<rparr>))))
            else (s, Inr no_result)
        | Some FT_ping \<Rightarrow>
            if fr_flags f AND 0x1 = 0 then
              (s, r_bind (ping_frame (fr_payload f) True) (\<lambda>out. Inr (no_result\<lparr>sr_output := out\<rparr>)))
            else (s, Inr no_result)
        | Some FT_goaway \<Rightarrow> (s, Inr (no_result\<lparr>sr_keep_connection := False, sr_close_now := True\<rparr>))
        | Some FT_rst_stream \<Rightarrow>
            (let s = reset_stream (fr_stream_id f) s in
             ((case sv_pending_headers s of
                 None \<Rightarrow> s
               | Some p \<Rightarrow> if pb_stream_id p = fr_stream_id f then s\<lparr>sv_pending_headers := None\<rparr> else s),
              Inr no_result))
        | Some FT_window_update \<Rightarrow> (s, Inr no_result)
        | Some FT_priority \<Rightarrow> (s, Inr no_result)
        | Some FT_headers \<Rightarrow> handle_headers_frame it f max_request_bytes s
        | Some FT_data \<Rightarrow> handle_data_frame it f max_request_bytes s
        | Some FT_continuation \<Rightarrow> handle_continuation_frame it f max_request_bytes s
        | Some FT_push_promise \<Rightarrow> fail_connection error_protocol ''HTTP/2 clients must not send PUSH_PROMISE'' s
        | None \<Rightarrow> (s, Inr no_result))"

section \<open>Input\<close>

definition returns_now :: "session_result \<Rightarrow> bool" where
  "returns_now r \<longleftrightarrow> sr_output r \<noteq> [] \<or> sr_close_now r \<or> sr_completed_stream r \<noteq> None \<or> sr_error_response r \<noteq> None"

text \<open>The loop of \<open>process_input\<close>; it returns the session, the rest of the buffer and the result.\<close>

function process_input ::
    "(headers \<Rightarrow> headers) \<Rightarrow> string \<Rightarrow> nat \<Rightarrow> server_session \<Rightarrow> server_session \<times> string \<times> session_result result" where
  "process_input it buf max_request_bytes s =
     (if \<not> (sv_active s \<and> buf \<noteq> []) then (s, buf, Inr no_result)
      else if length buf > max_request_bytes then
        (case fail_connection error_enhance_your_calm ''HTTP/2 frame buffer exceeded Rimau request limit'' s of
           (s', r) \<Rightarrow> (s', [], r))
      else
        let parsed = parse_frame buf default_max_frame_size in
        if fp_incomplete parsed then (s, buf, Inr no_result)
        else if \<not> fp_ok parsed then
          (case fail_connection error_protocol
                  (if fp_error parsed = [] then ''invalid HTTP/2 frame'' else fp_error parsed) s of
             (s', r) \<Rightarrow> (s', [], r))
        else
          let buf' = drop (fp_consumed parsed) buf in
          case handle_frame it (fp_frame parsed) max_request_bytes s of
            (s', Inl e) \<Rightarrow> (s', buf', Inl e)
          | (s', Inr r) \<Rightarrow> if returns_now r then (s', buf', Inr r) else process_input it buf' max_request_bytes s')"
  by pat_completeness auto
termination
  by (relation "measure (\<lambda>(it, buf, m, s). length buf)") (auto dest!: parse_frame_okD)

declare process_input.simps [simp del]

datatype preface_status = preface_not_http2 | preface_need_more | preface_accepted | preface_rejected

record preface_result =
  pf_status :: preface_status
  pf_output :: string
  pf_keep_connection :: bool

definition no_preface :: preface_result where
  "no_preface = \<lparr>pf_status = preface_not_http2, pf_output = [], pf_keep_connection = True\<rparr>"

definition need_more_preface :: preface_result where
  "need_more_preface = \<lparr>pf_status = preface_need_more, pf_output = [], pf_keep_connection = True\<rparr>"

definition rejected_preface :: "u32 \<Rightarrow> string \<Rightarrow> preface_result result" where
  "rejected_preface error_code message =
     r_bind (goaway_frame error_code message) (\<lambda>out.
       Inr \<lparr>pf_status = preface_rejected, pf_output = out, pf_keep_connection = False\<rparr>)"

definition accept_preface ::
    "string \<Rightarrow> nat \<Rightarrow> bool \<Rightarrow> bool \<Rightarrow> server_session \<Rightarrow> server_session \<times> string \<times> preface_result result" where
  "accept_preface buf max_request_bytes http2_enabled request_allowed s =
     (let preface = client_connection_preface;
          comparable = min (length buf) (length preface)
      in if buf = [] \<or> take comparable buf \<noteq> take comparable preface then (s, buf, Inr no_preface)
         else if length buf < length preface then (s, buf, Inr need_more_preface)
         else if length buf > max_request_bytes then
           (s, [], rejected_preface error_protocol ''HTTP/2 preface exceeded Rimau request limit'')
         else if length buf < length preface + 9 then (s, buf, Inr need_more_preface)
         else
           let parsed = parse_frame (drop (length preface) buf) default_max_frame_size in
           if fp_incomplete parsed then (s, buf, Inr need_more_preface)
           else if \<not> fp_ok parsed \<or> fr_type (fp_frame parsed) \<noteq> frame_type_value FT_settings \<or>
                   fr_stream_id (fp_frame parsed) \<noteq> 0 then
             (s, [], rejected_preface error_protocol ''Rimau expected an HTTP/2 SETTINGS frame after the preface'')
           else
             case parse_settings_payload (fr_payload (fp_frame parsed)) of
               Inl e \<Rightarrow> (s, [], rejected_preface error_protocol e)
             | Inr _ \<Rightarrow>
                 let buf = drop (length preface + fp_consumed parsed) buf in
                 if \<not> http2_enabled then
                   (s, buf, rejected_preface error_http_1_1_required ''HTTP/2 is disabled in Rimau SQLite config'')
                 else if \<not> request_allowed then
                   (s, buf, rejected_preface error_enhance_your_calm ''Rimau HTTP/2 rate limit exceeded'')
                 else
                   (s\<lparr>sv_active := True\<rparr>, buf,
                    r_bind (settings_frame False) (\<lambda>a. r_bind (settings_frame True) (\<lambda>b.
                      Inr \<lparr>pf_status = preface_accepted, pf_output = a @ b, pf_keep_connection = True\<rparr>))))"

end
