(* ===== verification/Http2_Invariant.thy ===== *)
theory Http2_Invariant
  imports Http2_Session
begin

text \<open>
  What holds of the HTTP/2 sessions of \<open>Http2_Session\<close>: an invariant of every session the server can
  reach, that no input makes a handler throw and that every output is a sequence of valid frames, and that
  a stream is answered at most once.
\<close>

section \<open>Frames the session writes\<close>

declare frame_type_value.simps [simp del]

lemma unat_default_max: "unat default_max_frame_size = 16384"
  by (simp add: default_max_frame_size_def)

lemma default_max_allowed: "\<not> max_allowed_frame_size < default_max_frame_size"
  by (simp add: default_max_frame_size_def max_allowed_frame_size_def)

text \<open>A text that reads back as a list of valid frames.\<close>

definition frames_of :: "string \<Rightarrow> frame list \<Rightarrow> bool" where
  "frames_of s fs \<longleftrightarrow>
     (\<exists>bs. enc_all (\<lambda>f. serialize_frame f default_max_frame_size) fs = Inr bs \<and> s = bytes_to_string bs)"

lemma frames_of_parse:
  "frames_of s fs \<Longrightarrow> parse_all (\<lambda>s. frame_outcome (parse_frame s default_max_frame_size)) s = (fs, [])"
  using h2.parse_all_enc_all [where rest = "[]"] by (auto simp: frames_of_def list_all_iff)

lemma frames_of_Nil [simp]: "frames_of [] []"
  by (simp add: frames_of_def)

lemma Ex_frames_of_Nil [simp]: "Ex (frames_of [])"
  using frames_of_Nil by blast

lemma enc_all_append:
  "enc_all enc fs = Inr bs \<Longrightarrow> enc_all enc gs = Inr cs \<Longrightarrow> enc_all enc (fs @ gs) = Inr (bs @ cs)"
  by (induction fs arbitrary: bs) (auto simp: r_bind_Inr_iff)

lemma frames_of_append: "frames_of s fs \<Longrightarrow> frames_of t gs \<Longrightarrow> frames_of (s @ t) (fs @ gs)"
  unfolding frames_of_def by (metis enc_all_append string_bytes_append(1))

lemma frame_string_frames:
  "frame_string f = Inr s \<Longrightarrow> frames_of s [f]"
  by (auto simp: frame_string_def frames_of_def r_bind_Inr_iff)

lemma frame_string_ok:
  assumes "fr_stream_id f \<le> 0x7fffffff" and "validate_frame f default_max_frame_size = []"
  shows "\<exists>s. frame_string f = Inr s"
  using assms by (simp add: frame_string_def serialize_frame_def)

definition valid_id :: "u32 \<Rightarrow> bool" where
  "valid_id i \<longleftrightarrow> i \<noteq> 0 \<and> i \<le> 0x7fffffff"

lemmas frame_eval = validate_frame_def default_max_allowed unat_default_max empty_frame_def u32_payload_def

lemma settings_frame_ok: "\<exists>s. settings_frame ack = Inr s"
  unfolding settings_frame_def by (rule frame_string_ok) (simp_all add: frame_eval)

lemma rst_stream_frame_ok: "valid_id i \<Longrightarrow> \<exists>s. rst_stream_frame i e = Inr s"
  unfolding rst_stream_frame_def by (rule frame_string_ok) (auto simp add: frame_eval valid_id_def)

lemma ping_frame_ok: "length p = 8 \<Longrightarrow> \<exists>s. ping_frame p ack = Inr s"
  unfolding ping_frame_def by (rule frame_string_ok) (auto simp add: frame_eval)

lemma goaway_frame_ok: "length d \<le> 16376 \<Longrightarrow> \<exists>s. goaway_frame e d = Inr s"
  unfolding goaway_frame_def by (rule frame_string_ok) (auto simp add: frame_eval)

lemma u32_payload_write: "u32_payload v = write_u32 v"
  by (simp add: u32_payload_def write_u32_def)

lemma window_update_frame_ok:
  assumes "i \<le> 0x7fffffff" and "0 < n" "n \<le> 16384"
  shows "\<exists>s. window_update_frame i (of_nat n) = Inr s"
proof -
  have n: "(of_nat n :: u32) \<le> 0x7fffffff" "(of_nat n :: u32) \<noteq> 0"
    using assms(2,3) by (simp_all add: word_le_nat_alt unat_of_nat of_nat_eq_0_iff word_of_nat_eq_0_iff nat_dvd_not_less)
  have "read_u32 (write_u32 (of_nat n)) 0 = of_nat n" using read_u32_write_u32 [of "of_nat n" "[]"] by simp
  then show ?thesis
    unfolding window_update_frame_def using assms(1) n
    by (intro frame_string_ok)
      (simp_all add: validate_frame_def default_max_allowed unat_default_max empty_frame_def u32_payload_write and_0x7fffffff_id)
qed

section \<open>The invariant\<close>

text \<open>An open stream of a session whose highest stream id is \<open>last\<close>. \<open>M\<close> bounds the request limit.\<close>

definition stream_inv :: "nat \<Rightarrow> u32 \<Rightarrow> u32 \<Rightarrow> stream_state \<Rightarrow> bool" where
  "stream_inv M last_id i st \<longleftrightarrow> ss_id st = i \<and> i mod 2 \<noteq> 0 \<and> i \<le> last_id \<and> ss_headers_received st \<and>
     ss_lifecycle st = stream_open \<and> ss_inbound_window st = 65535 \<and> length (ss_body st) \<le> M"

definition pending_inv :: "nat \<Rightarrow> server_session \<Rightarrow> pending_header_block \<Rightarrow> bool" where
  "pending_inv M s p \<longleftrightarrow> pb_stream_id p mod 2 \<noteq> 0 \<and> length (pb_block p) \<le> M \<and>
     (pb_stream_id p \<in> dom (sv_streams s) \<or> sv_last_client_stream_id s < pb_stream_id p)"

definition session_inv :: "nat \<Rightarrow> server_session \<Rightarrow> bool" where
  "session_inv M s \<longleftrightarrow>
     sv_connection_inbound_window s = 65535 \<and> table_inv (sv_decoder s) \<and>
     (\<forall>i st. sv_streams s i = Some st \<longrightarrow> stream_inv M (sv_last_client_stream_id s) i st) \<and>
     (\<forall>p. sv_pending_headers s = Some p \<longrightarrow> pending_inv M s p) \<and>
     (\<not> sv_active s \<longrightarrow> sv_streams s = Map.empty \<and> sv_pending_headers s = None)"

text \<open>The streams a result answers: with a request for the application or with an error response.\<close>

definition answers :: "session_result \<Rightarrow> u32 list" where
  "answers r = (case sr_completed_stream r of Some c \<Rightarrow> [cs_stream_id c] | None \<Rightarrow> []) @
     (if sr_error_response r = None then [] else [sr_error_stream_id r])"

text \<open>A step from \<open>s\<close> keeps the invariant, does not throw, writes whole frames, opens only streams with
  new ids and answers only streams that were open or are new, which it closes.\<close>

definition good_step :: "nat \<Rightarrow> server_session \<Rightarrow> session_step \<Rightarrow> bool" where
  "good_step M s step \<longleftrightarrow>
     session_inv M (fst step) \<and> sv_last_client_stream_id s \<le> sv_last_client_stream_id (fst step) \<and>
     (\<forall>i \<in> dom (sv_streams (fst step)). i \<in> dom (sv_streams s) \<or> sv_last_client_stream_id s < i) \<and>
     (\<exists>r fs. snd step = Inr r \<and> frames_of (sr_output r) fs \<and> distinct (answers r) \<and>
        (\<forall>i \<in> set (answers r). i \<notin> dom (sv_streams (fst step)) \<and> i \<le> sv_last_client_stream_id (fst step) \<and>
           (i \<in> dom (sv_streams s) \<or> sv_last_client_stream_id s < i)))"

lemma good_step_cong:
  "good_step M s step \<Longrightarrow> sv_streams s = sv_streams t \<Longrightarrow>
    sv_last_client_stream_id s = sv_last_client_stream_id t \<Longrightarrow> good_step M t step"
  by (simp add: good_step_def)

lemma answers_simps [simp]:
  "answers no_result = []" "answers (r\<lparr>sr_output := out\<rparr>) = answers r"
  "answers (r\<lparr>sr_keep_connection := k\<rparr>) = answers r" "answers (r\<lparr>sr_close_now := k\<rparr>) = answers r"
  "answers (r\<lparr>sr_warning := w\<rparr>) = answers r"
  by (simp_all add: answers_def no_result_def)

lemma no_result_output [simp]: "sr_output no_result = []"
  by (simp add: no_result_def)

lemma session_inv_new: "session_inv M new_session"
  by (simp add: session_inv_def new_session_def)

lemma session_inv_session_reset: "session_inv M s \<Longrightarrow> session_inv M (session_reset s)"
  by (simp add: session_inv_def session_reset_def)

lemma session_inv_reset_stream:
  "session_inv M s \<Longrightarrow> sv_pending_headers s = None \<Longrightarrow> session_inv M (reset_stream i s)"
  by (auto simp: session_inv_def reset_stream_def)

lemma session_inv_clear_pending: "session_inv M s \<Longrightarrow> session_inv M (s\<lparr>sv_pending_headers := None\<rparr>)"
  by (simp add: session_inv_def)

lemma session_inv_decoder: "session_inv M s \<Longrightarrow> table_inv d \<Longrightarrow> session_inv M (s\<lparr>sv_decoder := d\<rparr>)"
  by (simp add: session_inv_def pending_inv_def)

lemma good_quiet:
  "session_inv M s' \<Longrightarrow> sv_last_client_stream_id s' = sv_last_client_stream_id s \<Longrightarrow>
   sv_streams s' \<subseteq>\<^sub>m sv_streams s \<Longrightarrow> frames_of (sr_output r) fs \<Longrightarrow> answers r = [] \<Longrightarrow> good_step M s (s', Inr r)"
  unfolding good_step_def using map_le_implies_dom_le by fastforce

lemma good_fail:
  assumes "session_inv M s" "length d \<le> 16376"
  shows "good_step M s (fail_connection e d s)"
proof -
  obtain out where out: "goaway_frame e d = Inr out" using goaway_frame_ok [OF assms(2)] by blast
  then have "frames_of out [empty_frame\<lparr>fr_type := frame_type_value FT_goaway, fr_stream_id := 0,
      fr_payload := u32_payload 0 @ u32_payload e @ string_to_bytes d\<rparr>]"
    unfolding goaway_frame_def by (rule frame_string_frames)
  with assms(1) out show ?thesis
    unfolding fail_connection_def by (auto simp: session_inv_def intro!: good_quiet)
qed

lemma good_reset:
  assumes "session_inv M s" "valid_id i" "sv_pending_headers s = None"
  shows "good_step M s (reset_stream_result i e s)"
proof -
  obtain out where out: "rst_stream_frame i e = Inr out" using rst_stream_frame_ok [OF assms(2)] by blast
  from out have "frames_of out [empty_frame\<lparr>fr_type := frame_type_value FT_rst_stream, fr_stream_id := i,
      fr_payload := u32_payload e\<rparr>]"
    unfolding rst_stream_frame_def by (rule frame_string_frames)
  moreover have "sv_streams (reset_stream i s) \<subseteq>\<^sub>m sv_streams s"
    by (auto simp: reset_stream_def map_le_def)
  ultimately show ?thesis
    unfolding reset_stream_result_def using out session_inv_reset_stream [OF assms(1,3)]
    by (auto simp: reset_stream_def intro!: good_quiet)
qed

lemma complete_stream_cases:
  assumes "sv_streams s i = Some st"
  obtains r where "complete_stream it i s = (reset_stream i s, Inr r)" "answers r = [i]" "sr_output r = []"
  using assms by (cases "build_request it st") (auto simp: complete_stream_def answers_def no_result_def)

section \<open>Every handler is a good step\<close>

definition wf_frame :: "frame \<Rightarrow> bool" where
  "wf_frame f \<longleftrightarrow> fr_stream_id f \<le> 0x7fffffff \<and> validate_frame f default_max_frame_size = []"

lemma wf_frame_parsed: "fp_ok (parse_frame s default_max_frame_size) \<Longrightarrow>
    wf_frame (fp_frame (parse_frame s default_max_frame_size))"
  using parse_frame_okD [of s default_max_frame_size] read_u31_le [of "substr s 5 4"]
  by (simp add: wf_frame_def) (simp add: parse_frame_def Let_def empty_parse_result_def split: if_splits)

lemma wf_frame_length: "wf_frame f \<Longrightarrow> length (fr_payload f) \<le> 16384"
  using validate_frame_size [of f default_max_frame_size] by (simp add: wf_frame_def unat_default_max)

lemma wf_frame_valid_id:
  "wf_frame f \<Longrightarrow> as_frame_type (fr_type f) \<in> Some ` {FT_data, FT_headers, FT_rst_stream, FT_continuation} \<Longrightarrow>
    valid_id (fr_stream_id f)"
  by (auto simp: wf_frame_def valid_id_def validate_frame_def split: if_splits)

lemma wf_frame_ping: "wf_frame f \<Longrightarrow> as_frame_type (fr_type f) = Some FT_ping \<Longrightarrow> length (fr_payload f) = 8"
  by (auto simp: wf_frame_def validate_frame_def split: if_splits)

lemma session_invD:
  assumes "session_inv M s"
  shows "sv_connection_inbound_window s = 65535" "table_inv (sv_decoder s)"
    "sv_streams s i = Some st \<Longrightarrow> stream_inv M (sv_last_client_stream_id s) i st"
    "sv_pending_headers s = Some p \<Longrightarrow> pending_inv M s p"
  using assms by (auto simp: session_inv_def)

lemma good_warning:
  "good_step M s (s', r) \<Longrightarrow> good_step M s (s', r_bind r (\<lambda>res. Inr (res\<lparr>sr_warning := w\<rparr>)))"
  by (auto simp: good_step_def)

text \<open>A stream that is put into the table and completed at once leaves no trace but its id.\<close>

lemma good_complete:
  assumes inv: "session_inv M s" and new: "i \<in> dom (sv_streams s) \<or> sv_last_client_stream_id s < i"
    and t: "reset_stream i t = reset_stream i (s\<lparr>sv_last_client_stream_id := max (sv_last_client_stream_id s) i\<rparr>)"
    and st: "sv_streams t i = Some st" and pend: "sv_pending_headers s = None"
  shows "\<exists>r. complete_stream it i t = (reset_stream i t, Inr r) \<and> sr_output r = [] \<and>
    good_step M s (reset_stream i t, Inr r)"
proof -
  obtain r where r: "complete_stream it i t = (reset_stream i t, Inr r)" "answers r = [i]" "sr_output r = []"
    using complete_stream_cases [OF st] .
  have "session_inv M (reset_stream i t)"
    using inv pend unfolding t by (fastforce simp: session_inv_def reset_stream_def stream_inv_def le_max_iff_disj)
  then have "good_step M s (reset_stream i t, Inr r)"
    using new r(2,3) unfolding good_step_def t
    by (auto simp: reset_stream_def split: if_splits)
  with r show ?thesis by blast
qed

lemma word_max_if: "(if a < i then i else a) = max a (i :: u32)"
  by (auto simp: max_def)

lemma good_decode_headers:
  assumes inv: "session_inv M s" and i: "valid_id i" "i mod 2 \<noteq> 0"
    and new: "i \<in> dom (sv_streams s) \<or> sv_last_client_stream_id s < i" and act: "sv_active s"
    and pend: "sv_pending_headers s = None"
  shows "good_step M s (decode_headers it i end_stream block s)"
proof -
  obtain d res where dec: "decode_header_block (sv_decoder s) block = (d, res)" by fastforce
  have "table_inv d"
    using decode_fields_inv [OF session_invD(2) [OF inv]] dec unfolding decode_header_block_def by (metis fst_conv)
  then have inv': "session_inv M (s\<lparr>sv_decoder := d\<rparr>)" using session_inv_decoder inv by blast
  have rst: "good_step M s (reset_stream_result i e (s\<lparr>sv_decoder := d\<rparr>))" for e
    using pend by (intro good_step_cong [OF good_reset [OF inv' i(1)]]) simp_all
  show ?thesis
  proof (cases res)
    case (Inl e)
    moreover obtain s' r where eq: "reset_stream_result i error_compression (s\<lparr>sv_decoder := d\<rparr>) = (s', r)" by fastforce
    moreover have "good_step M s (s', r)" using rst [of error_compression] unfolding eq .
    ultimately show ?thesis by (simp add: decode_headers_def dec good_warning)
  next
    case (Inr headers)
    show ?thesis
    proof (cases "sv_streams s i")
      case (Some st)
      then have "ss_headers_received st" using session_invD(3) [OF inv] by (simp add: stream_inv_def)
      then show ?thesis using rst by (simp add: decode_headers_def dec Inr Some)
    next
      case None
      let ?st = "new_stream\<lparr>ss_id := i, ss_headers_received := True, ss_headers := headers,
        ss_lifecycle := (if end_stream then stream_half_closed_remote else stream_open)\<rparr>"
      let ?t = "s\<lparr>sv_decoder := d, sv_streams := (sv_streams s)(i \<mapsto> ?st),
        sv_last_client_stream_id := max (sv_last_client_stream_id s) i\<rparr>"
      have eq: "decode_headers it i end_stream block s = (if end_stream then complete_stream it i ?t else (?t, Inr no_result))"
        by (simp add: decode_headers_def dec Inr None put_stream_def Let_def flip: word_max_if)
      show ?thesis
      proof (cases end_stream)
        case True
        obtain r where "complete_stream it i ?t = (reset_stream i ?t, Inr r)"
            "good_step M (s\<lparr>sv_decoder := d\<rparr>) (reset_stream i ?t, Inr r)"
          using good_complete [OF inv', of i ?t ?st it] new pend by (auto simp: reset_stream_def)
        with True eq show ?thesis by (auto intro: good_step_cong)
      next
        case False
        have "stream_inv M (max (sv_last_client_stream_id s) i) i ?st"
          using i False by (simp add: stream_inv_def new_stream_def)
        then have "session_inv M ?t" using inv' act pend by (auto simp: session_inv_def stream_inv_def le_max_iff_disj)
        then show ?thesis using False eq None new unfolding good_step_def by (auto split: if_splits)
      qed
    qed
  qed
qed

lemma good_handle_headers:
  assumes inv: "session_inv M s" and f: "wf_frame f" "as_frame_type (fr_type f) = Some FT_headers"
    and act: "sv_active s" and m: "m \<le> M"
  shows "good_step M s (handle_headers_frame it f m s)"
proof -
  have i: "valid_id (fr_stream_id f)" using wf_frame_valid_id [OF f(1)] f(2) by simp
  have fail: "good_step M s (fail_connection error_protocol ''HTTP/2 HEADERS received before pending CONTINUATION sequence ended'' s)"
    "good_step M s (fail_connection error_protocol ''HTTP/2 client stream id must be odd'' s)"
    by (rule good_fail [OF inv]; simp)+
  have new: "fr_stream_id f \<in> dom (sv_streams s) \<or> sv_last_client_stream_id s < fr_stream_id f"
    if "\<not> (sv_streams s (fr_stream_id f) = None \<and> fr_stream_id f \<le> sv_last_client_stream_id s)"
    using that by auto
  have quiet: "good_step M s (s\<lparr>sv_pending_headers := Some \<lparr>pb_stream_id = fr_stream_id f,
      pb_end_stream = e, pb_block = b\<rparr>\<rparr>, Inr no_result)" if "fr_stream_id f mod 2 \<noteq> 0" "length b \<le> M"
      "\<not> (sv_streams s (fr_stream_id f) = None \<and> fr_stream_id f \<le> sv_last_client_stream_id s)" for e b
    by (rule good_quiet [where fs = "[]"])
      (use that new [OF that(3)] inv act in \<open>simp_all add: session_inv_def pending_inv_def\<close>)
  show ?thesis
    unfolding handle_headers_frame_def
    using fail good_reset [OF inv i] quiet m good_decode_headers [OF inv i _ new act]
    by (simp split: option.splits)
qed

lemma good_handle_continuation:
  assumes inv: "session_inv M s" and f: "wf_frame f" "as_frame_type (fr_type f) = Some FT_continuation"
    and act: "sv_active s" and m: "m \<le> M"
  shows "good_step M s (handle_continuation_frame it f m s)"
proof (cases "sv_pending_headers s")
  case None
  have "good_step M s (fail_connection error_protocol ''HTTP/2 CONTINUATION received without matching HEADERS'' s)"
    by (rule good_fail [OF inv]) simp
  with None show ?thesis by (simp add: handle_continuation_frame_def)
next
  case (Some p)
  have i: "valid_id (fr_stream_id f)" using wf_frame_valid_id [OF f(1)] f(2) by simp
  have fail: "good_step M s (fail_connection error_protocol ''HTTP/2 CONTINUATION received without matching HEADERS'' s)"
    by (rule good_fail [OF inv]) simp
  have inv': "session_inv M (s\<lparr>sv_pending_headers := None\<rparr>)" using session_inv_clear_pending [OF inv] .
  have odd: "pb_stream_id p mod 2 \<noteq> 0" and new: "pb_stream_id p \<in> dom (sv_streams s) \<or> sv_last_client_stream_id s < pb_stream_id p"
    using session_invD(4) [OF inv Some] by (simp_all add: pending_inv_def)
  have rst: "good_step M s (reset_stream_result (fr_stream_id f) e (s\<lparr>sv_pending_headers := None\<rparr>))" for e
    by (rule good_step_cong [OF good_reset [OF inv' i]]) simp_all
  have dec: "good_step M s (decode_headers it (fr_stream_id f) e b (s\<lparr>sv_pending_headers := None\<rparr>))"
    if "pb_stream_id p = fr_stream_id f" for e b
    by (rule good_step_cong [OF good_decode_headers [OF inv' i]]) (use odd new act that in simp_all)
  have quiet: "good_step M s (s\<lparr>sv_pending_headers := Some (p\<lparr>pb_block := b\<rparr>)\<rparr>, Inr no_result)" if "length b \<le> M" for b
    by (rule good_quiet [where fs = "[]"]) (use inv odd new act that in \<open>simp_all add: session_inv_def pending_inv_def\<close>)
  show ?thesis
    using fail rst dec quiet [of "pb_block p @ fr_payload f"] m by (simp add: handle_continuation_frame_def Some Let_def)
qed

lemma data_payload_length: "data_payload f = Some p \<Longrightarrow> length p \<le> length (fr_payload f)"
  by (auto simp: data_payload_def unpadded_bounds_def substr_def Let_def split: option.splits if_splits)

definition window_update :: "u32 \<Rightarrow> u32 \<Rightarrow> frame" where
  "window_update i n = empty_frame\<lparr>fr_type := frame_type_value FT_window_update, fr_stream_id := i,
     fr_payload := u32_payload (n AND 0x7fffffff)\<rparr>"

lemma window_updates_ok:
  assumes "valid_id i" "0 < n" "n \<le> 16384"
  obtains a b where "window_update_frame 0 (of_nat n) = Inr a" "window_update_frame i (of_nat n) = Inr b"
    "frames_of (a @ b) [window_update 0 (of_nat n), window_update i (of_nat n)]"
proof -
  obtain a b where ab: "window_update_frame 0 (of_nat n) = Inr a" "window_update_frame i (of_nat n) = Inr b"
    using window_update_frame_ok [of 0 n] window_update_frame_ok [of i n] assms by (auto simp: valid_id_def)
  then show thesis
    using frames_of_append [OF frame_string_frames frame_string_frames] that
    unfolding window_update_frame_def window_update_def by fastforce
qed

lemma good_output:
  "good_step M s (s', Inr r) \<Longrightarrow> sr_output r = [] \<Longrightarrow> frames_of out fs \<Longrightarrow> good_step M s (s', Inr (r\<lparr>sr_output := out\<rparr>))"
  by (auto simp: good_step_def)

text \<open>Both windows are back at 65535 when the handler returns, so the flow control error is never raised.\<close>

lemma handle_data_frame_open:
  assumes inv: "session_inv M s" and f: "wf_frame f" and id: "valid_id (fr_stream_id f)"
    and st: "sv_streams s (fr_stream_id f) = Some st" and p: "data_payload f = Some p"
    and fits: "length (ss_body st) + length p \<le> m"
  defines "st' \<equiv> st\<lparr>ss_body := ss_body st @ bytes_to_string p\<rparr>"
  shows "\<exists>out. frames_of out (if p = [] then []
      else [window_update 0 (of_nat (length p)), window_update (fr_stream_id f) (of_nat (length p))]) \<and> handle_data_frame it f m s =
    (if fr_flags f AND flag_end_stream \<noteq> 0
     then (case complete_stream it (fr_stream_id f)
             (put_stream (fr_stream_id f) (st'\<lparr>ss_lifecycle := stream_half_closed_remote\<rparr>) s) of
             (s', r) \<Rightarrow> (s', r_bind r (\<lambda>res. Inr (res\<lparr>sr_output := out @ sr_output res\<rparr>))))
     else (put_stream (fr_stream_id f) st' s, Inr (no_result\<lparr>sr_output := out\<rparr>)))"
proof -
  have w: "sv_connection_inbound_window s = 65535" and st_inv: "stream_inv M (sv_last_client_stream_id s) (fr_stream_id f) st"
    using session_invD(1,3) [OF inv] st by auto
  have len: "length p \<le> 16384" using data_payload_length [OF p] wf_frame_length [OF f] by simp
  have same: "s\<lparr>sv_connection_inbound_window := 65535\<rparr> = s" using w by simp
  obtain hs b where st_eq: "st = \<lparr>ss_id = fr_stream_id f, ss_headers_received = True, ss_lifecycle = stream_open,
      ss_inbound_window = 65535, ss_headers = hs, ss_body = b\<rparr>"
    using st_inv by (cases st) (simp add: stream_inv_def)
  have ws: "window_size 65535 = 65535" by (simp add: window_size_def)
  let ?fs = "if p = [] then []
      else [window_update 0 (of_nat (length p)), window_update (fr_stream_id f) (of_nat (length p))]"
  obtain out where out: "frames_of out ?fs"
      "(if p = [] then Inr [] else r_bind (window_update_frame 0 (of_nat (length p))) (\<lambda>a.
          r_bind (window_update_frame (fr_stream_id f) (of_nat (length p))) (\<lambda>b. Inr (a @ b)))) = Inr out"
  proof (cases "p = []")
    case False
    then obtain a b where "window_update_frame 0 (of_nat (length p)) = Inr a"
        "window_update_frame (fr_stream_id f) (of_nat (length p)) = Inr b" "frames_of (a @ b) ?fs"
      using window_updates_ok [OF id, of "length p"] len by auto
    with False that show thesis by simp
  next
    case True
    then show thesis using that [of "[]"] by simp
  qed
  show ?thesis
  proof (intro exI conjI)
    show "frames_of out ?fs" by (fact out)
    show "handle_data_frame it f m s = (if fr_flags f AND flag_end_stream \<noteq> 0
       then (case complete_stream it (fr_stream_id f)
             (put_stream (fr_stream_id f) (st'\<lparr>ss_lifecycle := stream_half_closed_remote\<rparr>) s) of
             (s', r) \<Rightarrow> (s', r_bind r (\<lambda>res. Inr (res\<lparr>sr_output := out @ sr_output res\<rparr>))))
       else (put_stream (fr_stream_id f) st' s, Inr (no_result\<lparr>sr_output := out\<rparr>)))"
      using w len fits out(2)
      by (cases "p = []") (simp_all add: handle_data_frame_def st p Let_def ws st'_def same st_eq)
  qed
qed

lemma good_handle_data:
  assumes inv: "session_inv M s" and f: "wf_frame f" "as_frame_type (fr_type f) = Some FT_data"
    and act: "sv_active s" and m: "m \<le> M" and pend: "sv_pending_headers s = None"
  shows "good_step M s (handle_data_frame it f m s)"
proof -
  let ?i = "fr_stream_id f"
  have i: "valid_id ?i" using wf_frame_valid_id [OF f(1)] f(2) by simp
  note rst = good_reset [OF inv i pend]
  show ?thesis
  proof (cases "sv_streams s ?i")
    case None
    then show ?thesis using rst by (simp add: handle_data_frame_def Let_def)
  next
    case (Some st)
    note st_inv = session_invD(3) [OF inv Some]
    show ?thesis
    proof (cases "data_payload f")
      case None
      then show ?thesis using rst by (simp add: handle_data_frame_def Let_def Some)
    next
      case p: (Some p)
      show ?thesis
      proof (cases "length (ss_body st) + length p \<le> m")
        case False
        have "length p \<le> 65535" using data_payload_length [OF p] wf_frame_length [OF f(1)] by simp
        then show ?thesis
          using False rst st_inv session_invD(1) [OF inv]
          by (simp add: handle_data_frame_def Let_def Some p stream_inv_def window_size_def)
      next
        case True
        define st' where "st' = st\<lparr>ss_body := ss_body st @ bytes_to_string p\<rparr>"
        obtain out fs where out: "frames_of out fs" and eq: "handle_data_frame it f m s =
            (if fr_flags f AND flag_end_stream \<noteq> 0
             then (case complete_stream it ?i (put_stream ?i (st'\<lparr>ss_lifecycle := stream_half_closed_remote\<rparr>) s) of
                     (s', r) \<Rightarrow> (s', r_bind r (\<lambda>res. Inr (res\<lparr>sr_output := out @ sr_output res\<rparr>))))
             else (put_stream ?i st' s, Inr (no_result\<lparr>sr_output := out\<rparr>)))"
          using handle_data_frame_open [OF inv f(1) i Some p True] unfolding st'_def by blast
        let ?t = "put_stream ?i (st'\<lparr>ss_lifecycle := stream_half_closed_remote\<rparr>) s"
        have le: "?i \<le> sv_last_client_stream_id s" using st_inv by (simp add: stream_inv_def)
        have "reset_stream ?i ?t = reset_stream ?i (s\<lparr>sv_last_client_stream_id := max (sv_last_client_stream_id s) ?i\<rparr>)"
          using le by (simp add: reset_stream_def put_stream_def max_absorb1)
        then obtain r where r: "complete_stream it ?i ?t = (reset_stream ?i ?t, Inr r)" "sr_output r = []"
            "good_step M s (reset_stream ?i ?t, Inr r)"
          using good_complete [OF inv, of ?i ?t _ it] Some pend by (fastforce simp: put_stream_def)
        have "stream_inv M (sv_last_client_stream_id s) ?i st'"
          using st_inv True m by (simp add: stream_inv_def st'_def)
        then have "session_inv M (put_stream ?i st' s)"
          using inv act pend by (auto simp: session_inv_def put_stream_def)
        moreover have "dom (sv_streams (put_stream ?i st' s)) = dom (sv_streams s)"
          "sv_last_client_stream_id (put_stream ?i st' s) = sv_last_client_stream_id s"
          using Some by (auto simp: put_stream_def)
        ultimately have "good_step M s (put_stream ?i st' s, Inr (no_result\<lparr>sr_output := out\<rparr>))"
          using out by (auto simp: good_step_def)
        with good_output [OF r(3,2) out] r(1,2) show ?thesis unfolding eq by simp
      qed
    qed
  qed
qed

lemma table_inv_apply_settings: "table_inv d \<Longrightarrow> table_inv (apply_settings settings d)"
  unfolding apply_settings_def by (induction settings arbitrary: d) auto

lemma good_handle_frame:
  assumes inv: "session_inv M s" and f: "wf_frame f" and act: "sv_active s" and m: "m \<le> M"
  shows "good_step M s (handle_frame it f m s)"
proof (cases "sv_pending_headers s \<noteq> None \<and> as_frame_type (fr_type f) \<noteq> Some FT_continuation")
  case True
  have "good_step M s (fail_connection error_protocol ''HTTP/2 expected CONTINUATION before any other frame'' s)"
    by (rule good_fail [OF inv]) simp
  with True show ?thesis by (simp add: handle_frame_def Let_def)
next
  case False
  have quiet: "good_step M s (s, Inr no_result)" by (rule good_quiet [where fs = "[]"]) (simp_all add: inv)
  show ?thesis
  proof (cases "as_frame_type (fr_type f)")
    case None
    with False quiet show ?thesis by (simp add: handle_frame_def)
  next
    case (Some t)
    show ?thesis
    proof (cases t)
      case FT_settings
      have len: "parse_settings_payload (fr_payload f) = Inl e \<Longrightarrow> length e \<le> 16376" for e
        by (auto simp: parse_settings_payload_def split: if_splits)
      obtain out where out: "settings_frame True = Inr out" using settings_frame_ok by blast
      then have "frames_of out [empty_frame\<lparr>fr_type := frame_type_value FT_settings,
          fr_flags := (if True then 0x1 else 0x0), fr_stream_id := 0\<rparr>]"
        unfolding settings_frame_def by (rule frame_string_frames)
      then have "good_step M s (s\<lparr>sv_decoder := apply_settings ss (sv_decoder s)\<rparr>, Inr (no_result\<lparr>sr_output := out\<rparr>))" for ss
        using session_inv_decoder [OF inv table_inv_apply_settings [OF session_invD(2) [OF inv]]]
        by (intro good_quiet) simp_all
      with FT_settings Some False quiet out good_fail [OF inv len] show ?thesis
        by (simp add: handle_frame_def split: sum.splits)
    next
      case FT_ping
      obtain out where out: "ping_frame (fr_payload f) True = Inr out"
        using ping_frame_ok wf_frame_ping [OF f] Some FT_ping by blast
      then have "frames_of out [empty_frame\<lparr>fr_type := frame_type_value FT_ping, fr_flags := (if True then 0x1 else 0x0),
          fr_stream_id := 0, fr_payload := fr_payload f\<rparr>]"
        unfolding ping_frame_def by (rule frame_string_frames)
      then have "good_step M s (s, Inr (no_result\<lparr>sr_output := out\<rparr>))" using inv by (intro good_quiet) simp_all
      with FT_ping Some False quiet out show ?thesis by (simp add: handle_frame_def)
    next
      case FT_goaway
      have "good_step M s (s, Inr (no_result\<lparr>sr_keep_connection := False, sr_close_now := True\<rparr>))"
        by (rule good_quiet [where fs = "[]"]) (simp_all add: inv)
      with FT_goaway Some False show ?thesis by (simp add: handle_frame_def)
    next
      case FT_rst_stream
      have "good_step M s (reset_stream (fr_stream_id f) s, Inr no_result)"
        using False Some FT_rst_stream session_inv_reset_stream [OF inv]
        by (intro good_quiet [where fs = "[]"]) (auto simp: reset_stream_def map_le_def)
      moreover have "sv_pending_headers (reset_stream (fr_stream_id f) s) = None"
        using False Some FT_rst_stream by (simp add: reset_stream_def)
      ultimately show ?thesis using FT_rst_stream Some False by (simp add: handle_frame_def)
    next
      case FT_push_promise
      have "good_step M s (fail_connection error_protocol ''HTTP/2 clients must not send PUSH_PROMISE'' s)"
        by (rule good_fail [OF inv]) simp
      with FT_push_promise Some False show ?thesis by (simp add: handle_frame_def)
    next
      case FT_headers
      with Some False good_handle_headers [OF inv f _ act m] show ?thesis by (simp add: handle_frame_def)
    next
      case FT_data
      with Some False good_handle_data [OF inv f _ act m] show ?thesis by (simp add: handle_frame_def)
    next
      case FT_continuation
      with Some False good_handle_continuation [OF inv f _ act m] show ?thesis by (simp add: handle_frame_def)
    qed (use Some False quiet in \<open>simp_all add: handle_frame_def\<close>)
  qed
qed

lemma good_trans:
  assumes "good_step M s (s', Inr r)" "\<not> returns_now r" "good_step M s' step"
  shows "good_step M s step"
proof -
  have le: "sv_last_client_stream_id s \<le> sv_last_client_stream_id s'"
    and new: "i \<in> dom (sv_streams s') \<or> sv_last_client_stream_id s' < i \<Longrightarrow>
      i \<in> dom (sv_streams s) \<or> sv_last_client_stream_id s < i" for i
    using assms(1) unfolding good_step_def by (auto intro: le_less_trans)
  with assms(3) show ?thesis unfolding good_step_def by (meson order_trans)
qed

lemma length_if_le: "length x \<le> n \<Longrightarrow> length y \<le> n \<Longrightarrow> length (if b then x else y) \<le> n"
  by simp

lemma validate_frame_length: "length (validate_frame f m) \<le> 16376"
  unfolding validate_frame_def by (intro length_if_le) simp_all

lemma parse_frame_error_length: "length (fp_error (parse_frame s m)) \<le> 16376"
  using validate_frame_length by (auto simp: parse_frame_def empty_parse_result_def Let_def)

lemma good_process_input:
  "session_inv M s \<Longrightarrow> m \<le> M \<Longrightarrow>
    good_step M s (fst (process_input it buf m s), snd (snd (process_input it buf m s)))"
proof (induction it buf m s rule: process_input.induct)
  case (1 it buf m s)
  let ?p = "parse_frame buf default_max_frame_size"
  note inv = "1.prems"(1)
  have idle: "good_step M s (s, Inr no_result)" by (rule good_quiet [where fs = "[]"]) (simp_all add: inv)
  have err: "length (if fp_error ?p = [] then ''invalid HTTP/2 frame'' else fp_error ?p) \<le> 16376"
    using parse_frame_error_length by simp
  have big: "good_step M s (fail_connection error_enhance_your_calm ''HTTP/2 frame buffer exceeded Rimau request limit'' s)"
    by (rule good_fail [OF inv]) simp
  show ?case
  proof (cases "sv_active s \<and> buf \<noteq> [] \<and> length buf \<le> m \<and> \<not> fp_incomplete ?p \<and> fp_ok ?p")
    case False
    then show ?thesis
      using idle big good_fail [OF inv err, of error_protocol]
      by (auto simp: process_input.simps [of it buf m s] Let_def split: prod.splits)
  next
    case True
    obtain s' r where h: "handle_frame it (fp_frame ?p) m s = (s', r)" by fastforce
    have good: "good_step M s (s', r)"
      using good_handle_frame [OF inv wf_frame_parsed _ "1.prems"(2)] True h by metis
    then obtain r' where r: "r = Inr r'" by (auto simp: good_step_def)
    show ?thesis
    proof (cases "returns_now r'")
      case True
      with \<open>sv_active s \<and> _\<close> h r good show ?thesis by (simp add: process_input.simps [of it buf m s] Let_def)
    next
      case False
      have "session_inv M s'" using good by (simp add: good_step_def)
      then have "good_step M s' (fst (process_input it (drop (fp_consumed ?p) buf) m s'),
          snd (snd (process_input it (drop (fp_consumed ?p) buf) m s')))"
        using "1.IH" [OF _ _ refl _ _ refl h [symmetric]] True False r "1.prems"(2) by simp
      from good_trans [OF good [unfolded r] False this] True False h r show ?thesis
        by (simp add: process_input.simps [of it buf m s] Let_def)
    qed
  qed
qed

section \<open>Reachable sessions\<close>

text \<open>What the server does with the session of a connection, under request limits of at most \<open>M\<close> bytes. The
  server never calls \<open>reset_stream\<close> itself.\<close>

inductive h2_reachable :: "(headers \<Rightarrow> headers) \<Rightarrow> nat \<Rightarrow> server_session \<Rightarrow> bool" for it M where
  reach_new: "h2_reachable it M new_session"
| reach_preface: "h2_reachable it M s \<Longrightarrow> h2_reachable it M (fst (accept_preface buf m enabled allowed s))"
| reach_input: "h2_reachable it M s \<Longrightarrow> m \<le> M \<Longrightarrow> h2_reachable it M (fst (process_input it buf m s))"
| reach_reset: "h2_reachable it M s \<Longrightarrow> h2_reachable it M (session_reset s)"

lemma accept_preface_session:
  "fst (accept_preface buf m enabled allowed s) = s \<or> fst (accept_preface buf m enabled allowed s) = s\<lparr>sv_active := True\<rparr>"
  by (auto simp: accept_preface_def Let_def split: sum.splits)

lemma session_inv_active: "session_inv M s \<Longrightarrow> session_inv M (s\<lparr>sv_active := True\<rparr>)"
  by (simp add: session_inv_def pending_inv_def)

lemma reachable_inv: "h2_reachable it M s \<Longrightarrow> session_inv M s"
proof (induction rule: h2_reachable.induct)
  case (reach_preface s buf m enabled allowed)
  then show ?case using accept_preface_session [of buf m enabled allowed s] session_inv_active by auto
next
  case (reach_input s m buf)
  then show ?case using good_process_input by (fastforce simp: good_step_def)
qed (simp_all add: session_inv_new session_inv_session_reset)

text \<open>A sequence of calls of \<open>process_input\<close>, each with its buffer and limit, and the streams it answers.\<close>

fun session_run :: "(headers \<Rightarrow> headers) \<Rightarrow> (string \<times> nat) list \<Rightarrow> server_session \<Rightarrow> server_session \<times> u32 list" where
  "session_run it [] s = (s, [])"
| "session_run it ((buf, m) # calls) s =
     (case process_input it buf m s of (s', _, r) \<Rightarrow>
        (case session_run it calls s' of (s'', ids) \<Rightarrow>
           (s'', (case r of Inl e \<Rightarrow> [] | Inr res \<Rightarrow> answers res) @ ids)))"

lemma session_run_answers:
  "session_inv M s \<Longrightarrow> list_all (\<lambda>c. snd c \<le> M) calls \<Longrightarrow>
    distinct (snd (session_run it calls s)) \<and>
    (\<forall>i \<in> set (snd (session_run it calls s)). i \<in> dom (sv_streams s) \<or> sv_last_client_stream_id s < i)"
proof (induction it calls s rule: session_run.induct)
  case (2 it buf m calls s)
  obtain s' rest r where p: "process_input it buf m s = (s', rest, r)" by (cases "process_input it buf m s") auto
  obtain s'' ids where q: "session_run it calls s' = (s'', ids)" by fastforce
  have good: "good_step M s (s', r)" using good_process_input [OF "2.prems"(1), of m it buf] "2.prems"(2) p by simp
  then obtain res where r: "r = Inr res" by (auto simp: good_step_def)
  have "distinct ids" and ids: "\<forall>i \<in> set ids. i \<in> dom (sv_streams s') \<or> sv_last_client_stream_id s' < i"
    using "2.IH" [OF p [symmetric] refl] good "2.prems"(2) q by (auto simp: good_step_def)
  moreover have new: "\<forall>i \<in> set (answers res). i \<notin> dom (sv_streams s') \<and> i \<le> sv_last_client_stream_id s' \<and>
      (i \<in> dom (sv_streams s) \<or> sv_last_client_stream_id s < i)" and "distinct (answers res)"
    using good r by (auto simp: good_step_def)
  moreover have "i \<in> dom (sv_streams s) \<or> sv_last_client_stream_id s < i"
    if "i \<in> dom (sv_streams s') \<or> sv_last_client_stream_id s' < i" for i
    using good that unfolding good_step_def by (auto intro: le_less_trans)
  ultimately have "\<forall>i \<in> set (answers res @ ids). i \<in> dom (sv_streams s) \<or> sv_last_client_stream_id s < i"
    using ids unfolding set_append by blast
  moreover have "set (answers res) \<inter> set ids = {}" using ids new by fastforce
  ultimately show ?case using p q r \<open>distinct ids\<close> \<open>distinct (answers res)\<close> by simp
qed simp

lemma process_input_rest:
  "suffix (fst (snd (process_input it buf m s))) buf"
proof (induction it buf m s rule: process_input.induct)
  case (1 it buf m s)
  let ?p = "parse_frame buf default_max_frame_size"
  show ?case
  proof (cases "sv_active s \<and> buf \<noteq> [] \<and> length buf \<le> m \<and> \<not> fp_incomplete ?p \<and> fp_ok ?p")
    case True
    obtain s' r where h: "handle_frame it (fp_frame ?p) m s = (s', r)" by fastforce
    have "suffix (fst (snd (process_input it (drop (fp_consumed ?p) buf) m s'))) (drop (fp_consumed ?p) buf)"
      if "r = Inr r'" "\<not> returns_now r'" for r'
      using "1" [OF _ _ refl _ _ refl h [symmetric]] True that by simp
    with True h show ?thesis
      by (auto simp: process_input.simps [of it buf m s] Let_def suffix_drop split: sum.splits
          intro: suffix_order.trans)
  qed (auto simp: process_input.simps [of it buf m s] Let_def split: prod.splits)
qed

lemma process_input_waits:
  "snd (snd (process_input it buf m s)) = Inr r \<Longrightarrow> \<not> returns_now r \<Longrightarrow>
    \<not> sv_active (fst (process_input it buf m s)) \<or> fst (snd (process_input it buf m s)) = [] \<or>
    fp_incomplete (parse_frame (fst (snd (process_input it buf m s))) default_max_frame_size)"
proof (induction it buf m s rule: process_input.induct)
  case (1 it buf m s)
  let ?p = "parse_frame buf default_max_frame_size"
  show ?case
  proof (cases "sv_active s \<and> buf \<noteq> [] \<and> length buf \<le> m \<and> \<not> fp_incomplete ?p \<and> fp_ok ?p")
    case True
    obtain s' r' where h: "handle_frame it (fp_frame ?p) m s = (s', r')" by fastforce
    note IH = "1.IH" [OF _ _ refl _ _ refl h [symmetric]]
    show ?thesis
      using True h "1.prems" IH
      by (cases r') (auto simp: process_input.simps [of it buf m s] Let_def split: if_splits)
  qed (use "1.prems" in \<open>auto simp: process_input.simps [of it buf m s] Let_def fail_connection_def split: prod.splits if_splits\<close>)
qed

text \<open>C2: in every session the server can reach the receive windows are 65535, every open stream has an odd
  id not above the highest id seen, has received its headers, is open and holds a body within the request
  limit, an unfinished header block is within the limit and belongs to an open or a new stream, the HPACK
  table respects its bound, and an inactive session holds no streams.\<close>

theorem h2_session_invariant:
  assumes "h2_reachable it M s"
  shows "session_inv M s"
  using assms by (rule reachable_inv)

text \<open>C3: whatever bytes arrive, \<open>process_input\<close> returns without an exception, writes a sequence of complete
  valid frames, and leaves a rest of the input; when it returns empty-handed on an open connection, the rest
  is empty or an incomplete frame.\<close>

theorem h2_input_total:
  assumes "h2_reachable it M s" and "m \<le> M"
  shows "\<exists>s' rest r fs. process_input it buf m s = (s', rest, Inr r) \<and>
    parse_all (\<lambda>s. frame_outcome (parse_frame s default_max_frame_size)) (sr_output r) = (fs, []) \<and>
    suffix rest buf \<and>
    (\<not> returns_now r \<and> sv_active s' \<longrightarrow> rest = [] \<or> fp_incomplete (parse_frame rest default_max_frame_size))"
proof -
  obtain s' rest r where p: "process_input it buf m s = (s', rest, r)" by (cases "process_input it buf m s") auto
  with good_process_input [OF reachable_inv [OF assms(1)] assms(2), of it buf]
  obtain res fs where r: "r = Inr res" and "frames_of (sr_output res) fs" by (auto simp: good_step_def)
  moreover have "suffix rest buf" using process_input_rest [of it buf m s] p by simp
  moreover have "\<not> returns_now res \<and> sv_active s' \<longrightarrow> rest = [] \<or> fp_incomplete (parse_frame rest default_max_frame_size)"
    using process_input_waits [of it buf m s res] p r by auto
  ultimately show ?thesis using p frames_of_parse by blast
qed

text \<open>C4: over any sequence of calls of \<open>process_input\<close> no stream is answered twice: neither two requests, nor
  two error responses, nor one of each carry the same stream id.\<close>

theorem h2_stream_answered_once:
  assumes "h2_reachable it M s" and "list_all (\<lambda>c. snd c \<le> M) calls"
  shows "distinct (snd (session_run it calls s))"
  using session_run_answers [OF reachable_inv [OF assms(1)] assms(2)] by blast


definition preface_sample :: string where
  "preface_sample = client_connection_preface @ bytes_to_string [0, 0, 0, 4, 0, 0, 0, 0, 0]"

definition session_sample :: server_session where
  "session_sample = fst (accept_preface preface_sample 100 True True new_session)"

definition get_sample :: "u8 \<Rightarrow> string" where
  "get_sample i = bytes_to_string [0, 0, 3, 1, 5, 0, 0, 0, i, 0x82, 0x84, 0x86]"

lemma session_sample_reachable: "h2_reachable it M session_sample"
  unfolding session_sample_def by (intro h2_reachable.intros)

theorem h2_session_invariant_witness: "session_inv 100 (fst (process_input id (get_sample 1) 100 session_sample))"
  by (rule h2_session_invariant, rule h2_reachable.intros(3), rule session_sample_reachable) simp

theorem h2_stream_answered_once_witness:
  "distinct (snd (session_run id [(get_sample 1, 100), (get_sample 3, 100), (get_sample 1, 100)] session_sample)) \<and>
   snd (session_run id [(get_sample 1, 100), (get_sample 3, 100), (get_sample 1, 100)] session_sample) = [1, 3]"
proof
  show "distinct (snd (session_run id [(get_sample 1, 100), (get_sample 3, 100), (get_sample 1, 100)] session_sample))"
    by (rule h2_stream_answered_once [OF session_sample_reachable, of 100]) simp
  show "snd (session_run id [(get_sample 1, 100), (get_sample 3, 100), (get_sample 1, 100)] session_sample) = [1, 3]"
    by code_simp
qed

theorem h2_input_total_witness:
  "\<exists>s' rest r fs. process_input id (get_sample 1 @ ''xy'') 100 session_sample = (s', rest, Inr r) \<and>
    parse_all (\<lambda>s. frame_outcome (parse_frame s default_max_frame_size)) (sr_output r) = (fs, []) \<and>
    suffix rest (get_sample 1 @ ''xy'')"
  using h2_input_total [OF session_sample_reachable order_refl, where M = 100 and it = id and buf = "get_sample 1 @ ''xy''"] by blast

definition post_sample :: server_session where
  "post_sample = fst (process_input id (bytes_to_string [0, 0, 3, 1, 4, 0, 0, 0, 1, 0x83, 0x84, 0x86]) 100 session_sample)"

definition padded_sample :: string where
  "padded_sample = bytes_to_string [0, 0, 5, 0, 8, 0, 0, 0, 1, 2, 104, 105, 0, 0]"

lemma post_sample_reachable: "h2_reachable id 100 post_sample"
  unfolding post_sample_def by (intro h2_reachable.intros session_sample_reachable) simp


end
