(* ===== verification/Http2_Messages.thy ===== *)
theory Http2_Messages
  imports Http2_Invariant
begin

text \<open>
  The messages of the HTTP/2 session: what \<open>serialize_response\<close> writes, and the requests \<open>build_request\<close>
  makes of the header fields and the body of a stream.
\<close>

section \<open>Responses\<close>

text \<open>A list of DATA frames of one stream that ends the stream with its last frame.\<close>

definition data_run :: "u32 \<Rightarrow> frame list \<Rightarrow> bool" where
  "data_run i fs \<longleftrightarrow>
     (\<forall>f \<in> set fs. fr_type f = frame_type_value FT_data \<and> fr_stream_id f = i \<and>
        0 < length (fr_payload f) \<and> length (fr_payload f) \<le> 16384) \<and>
     (\<forall>f \<in> set (butlast fs). fr_flags f = 0) \<and> (fs \<noteq> [] \<longrightarrow> fr_flags (last fs) = flag_end_stream)"

lemma data_frame_ok:
  assumes "valid_id i" "length p \<le> 16384"
  shows "\<exists>s. data_frame i p e = Inr s"
  unfolding data_frame_def using assms
  by (intro frame_string_ok) (auto simp: validate_frame_def default_max_allowed unat_default_max empty_frame_def valid_id_def)

lemma substr_append_drop: "substr s a n @ drop (a + n) s = drop a s"
  using append_take_drop_id [of n "drop a s"] by (simp add: substr_def add.commute)

lemma data_frames_run:
  "valid_id i \<Longrightarrow> off \<le> length b \<Longrightarrow> \<exists>out fs. data_frames i b off = Inr out \<and> frames_of out fs \<and> data_run i fs \<and>
    concat (map fr_payload fs) = string_to_bytes (drop off b) \<and> (fs = [] \<longleftrightarrow> off = length b)"
proof (induction i b off rule: data_frames.induct)
  case (1 i b off)
  show ?case
  proof (cases "off < length b")
    case False
    then have "data_frames i b off = Inr []" by (simp add: data_frames.simps [of i b off])
    with False "1.prems" show ?thesis
      by (intro exI [of _ "[]"]) (simp add: data_run_def)
  next
    case True
    let ?n = "min (length b - off) (unat default_max_frame_size)"
    let ?e = "off + ?n = length b"
    define f where "f = empty_frame\<lparr>fr_type := frame_type_value FT_data,
      fr_flags := (if ?e then flag_end_stream else 0), fr_stream_id := i, fr_payload := string_to_bytes (substr b off ?n)\<rparr>"
    have n: "0 < ?n" "off + ?n \<le> length b" "?n \<le> 16384" using True by (auto simp: unat_default_max)
    obtain d where d: "data_frame i (substr b off ?n) ?e = Inr d"
      using data_frame_ok [OF "1.prems"(1), of "substr b off ?n"] n by (fastforce simp: substr_def)
    then have fd: "frames_of d [f]" unfolding data_frame_def f_def by (rule frame_string_frames)
    obtain out fs where IH: "data_frames i b (off + ?n) = Inr out" "frames_of out fs" "data_run i fs"
        "concat (map fr_payload fs) = string_to_bytes (drop (off + ?n) b)" "fs = [] \<longleftrightarrow> off + ?n = length b"
      using "1.IH" [OF True refl refl refl "1.prems"(1) n(2)] by blast
    have "data_frames i b off = Inr (d @ out)" using True d IH(1) by (simp add: data_frames.simps [of i b off] Let_def)
    moreover have "frames_of (d @ out) (f # fs)" using frames_of_append [OF fd IH(2)] by simp
    moreover have "data_run i (f # fs)"
    proof -
      have "length (fr_payload f) = ?n" using n(2) by (simp add: f_def substr_def)
      with n(1,3) have len: "0 < length (fr_payload f)" "length (fr_payload f) \<le> 16384" by linarith+
      have "fr_type f = frame_type_value FT_data" "fr_stream_id f = i" "fr_flags f = (if fs = [] then flag_end_stream else 0)"
        using IH(5) by (simp_all add: f_def)
      with IH(3) len show ?thesis by (simp add: data_run_def)
    qed
    moreover have "concat (map fr_payload (f # fs)) = string_to_bytes (drop off b)"
    proof -
      have "concat (map fr_payload (f # fs)) = string_to_bytes (substr b off ?n @ drop (off + ?n) b)"
        using IH(4) by (simp add: f_def)
      then show ?thesis by (simp only: substr_append_drop)
    qed
    ultimately show ?thesis using True by fastforce
  qed
qed


text \<open>a header block of more than 16384 bytes is not split into CONTINUATION frames: \<open>serialize_response\<close>
  throws the exception of \<open>serialize_frame\<close> and the stream gets no response.\<close>

theorem h2_large_header_throws:
  assumes "valid_id i"
    and "hpack_encode_header_block (response_fields it (apply_response_defaults input options)) = Inr block"
    and "16384 < length block"
  shows "serialize_response it i input mode options = Inl ''HTTP/2 frame payload exceeds configured maximum frame size''"
  using assms by (simp add: serialize_response_def headers_frame_def Let_def frame_string_def serialize_frame_def
      validate_frame_def default_max_allowed unat_default_max empty_frame_def valid_id_def not_less)


lemma find_static_none: "\<forall>e \<in> set es. \<not> P e \<Longrightarrow> find_static P index es = 0"
  by (induction es arbitrary: index) auto

lemma encode_block_length:
  "hpack_encode_header_block hs = Inr bs \<Longrightarrow> h \<in> set hs \<Longrightarrow> find_exact_static_index h = 0 \<Longrightarrow>
    length (hf_value h) \<le> length bs"
proof (induction hs arbitrary: bs)
  case (Cons g hs)
  then show ?case
    by (fastforce simp: r_bind_Inr_iff hpack_encode_string_def Let_def split: if_splits)
qed simp

theorem h2_large_header_throws_witness:
  "serialize_response id 1 (new_response\<lparr>rs_headers := [(''x-a'', replicate 16385 (CHR ''a''))]\<rparr>) headers_only
     default_serialization_options = Inl ''HTTP/2 frame payload exceeds configured maximum frame size''"
proof -
  let ?v = "replicate 16385 (CHR ''a'')"
  let ?r = "apply_response_defaults (new_response\<lparr>rs_headers := [(''x-a'', ?v)]\<rparr>) default_serialization_options"
  have v: "sanitize_header_value ?v = ?v" by (rule sanitize_id) (simp add: list_all_iff)
  have zero: "to_string 0 = ''0''" by code_simp
  have "rs_headers ?r = [(''x-a'', ?v), (''content-length'', ''0''), (''server'', ''Rimau Web Server'')]"
    by (simp add: apply_response_defaults_def default_serialization_options_def new_response_def add_defaults_def Let_def zero)
  moreover have "is_valid_header_name n \<and> \<not> forbidden_response_header n \<and> lowercase n = n"
    if "n \<in> {''x-a'', ''content-length'', ''server''}" for n
    using that by (elim insertE emptyE; hypsubst; code_simp)
  moreover have "sanitize_header_value ''0'' = ''0''" "sanitize_header_value ''Rimau Web Server'' = ''Rimau Web Server''"
    "int_to_string 200 = ''200''" by code_simp+
  moreover have "rs_status ?r = 200" by (simp add: apply_response_defaults_def new_response_def Let_def)
  ultimately have fields: "response_fields id ?r = [\<lparr>hf_name = '':status'', hf_value = ''200''\<rparr>,
      \<lparr>hf_name = ''x-a'', hf_value = ?v\<rparr>, \<lparr>hf_name = ''content-length'', hf_value = ''0''\<rparr>,
      \<lparr>hf_name = ''server'', hf_value = ''Rimau Web Server''\<rparr>]"
    using v by (simp add: response_fields_def Let_def)
  have "list_all encodable (response_fields id ?r)"
    unfolding fields by (simp add: encodable_def fits_string_def)
  then obtain b where b: "hpack_encode_header_block (response_fields id ?r) = Inr b"
    using decode_encode_block [of _ new_decoder] by blast
  have "list_all (\<lambda>e. hf_name e \<noteq> ''x-a'') static_table" by code_simp
  then have "find_exact_static_index \<lparr>hf_name = ''x-a'', hf_value = ?v\<rparr> = 0"
    unfolding find_exact_static_index_def by (intro find_static_none) (auto simp: list_all_iff)
  from encode_block_length [OF b _ this] have "16384 < length b" unfolding fields by simp
  with b show ?thesis by (intro h2_large_header_throws) (simp_all add: valid_id_def)
qed

section \<open>Requests\<close>

text \<open>The values of a field in the order they arrive, and how repeated headers are joined.\<close>

definition field_values :: "header_field list \<Rightarrow> string \<Rightarrow> string list" where
  "field_values fs n = map hf_value (filter (\<lambda>f. hf_name f = n) fs)"

fun join_values :: "string \<Rightarrow> string option \<Rightarrow> string list \<Rightarrow> string option" where
  "join_values sep old [] = old"
| "join_values sep None (v # vs) = join_values sep (Some v) vs"
| "join_values sep (Some a) (v # vs) = join_values sep (Some (a @ sep @ v)) vs"

lemma field_values_simps [simp]:
  "field_values [] n = []"
  "field_values (f # fs) n = (if hf_name f = n then hf_value f # field_values fs n else field_values fs n)"
  by (simp_all add: field_values_def)

definition separator :: "string \<Rightarrow> string" where
  "separator n = (if n = ''cookie'' then ''; '' else '', '')"

lemma merge_header_map_of:
  "map_of (merge_header n v hs) k = (if k = n then join_values (separator n) (map_of hs n) [v] else map_of hs k)"
  by (auto simp: merge_header_def separator_def update_conv' split: option.splits)

lemma lowercase_plain: "\<not> header_name_has_uppercase n \<Longrightarrow> lowercase n = n"
  by (auto simp: header_name_has_uppercase_def list_ex_iff lowercase_def tolower_def intro!: map_idI)

definition no_lf :: "string \<Rightarrow> bool" where
  "no_lf v \<longleftrightarrow> LF \<notin> set v"

lemma no_control_no_lf: "\<not> header_value_has_invalid_control v \<Longrightarrow> no_lf v"
proof -
  have "LF \<noteq> TAB \<and> (code LF < 32 \<or> code LF = 127)" by simp
  then show "\<not> header_value_has_invalid_control v \<Longrightarrow> no_lf v"
    unfolding header_value_has_invalid_control_def list_ex_iff no_lf_def by blast
qed

text \<open>What the scan keeps of the fields it has read.\<close>

definition scan_inv :: "field_scan \<Rightarrow> bool" where
  "scan_inv sc \<longleftrightarrow> distinct (map fst (fs_headers sc)) \<and>
     (\<forall>(n, v) \<in> set (fs_headers sc). is_valid_header_name n \<and> lowercase n = n \<and> no_lf v \<and>
        n \<notin> {''connection'', ''keep-alive'', ''proxy-connection'', ''transfer-encoding'', ''upgrade''}) \<and>
     (\<forall>(n, v) \<in> set (fs_pseudo sc). no_lf v) \<and>
     (fs_content_length sc = None \<longleftrightarrow> map_of (fs_headers sc) ''content-length'' = None)"

lemma merge_header_set:
  "(n', v') \<in> set (merge_header n v hs) \<Longrightarrow> (n', v') \<in> set hs \<or>
     n' = n \<and> (v' = v \<or> (\<exists>old. (n, old) \<in> set hs \<and> v' = old @ separator n @ v))"
  using set_update [of n _ hs]
  by (auto simp: merge_header_def separator_def split: option.splits if_splits dest!: map_of_SomeD)

lemma no_lf_join: "no_lf a \<Longrightarrow> no_lf b \<Longrightarrow> no_lf (a @ separator n @ b)"
  by (auto simp: no_lf_def separator_def)

lemma distinct_merge: "distinct (map fst hs) \<Longrightarrow> distinct (map fst (merge_header n v hs))"
  by (simp add: merge_header_def distinct_update split: option.split)

lemma scan_field_inv:
  assumes "scan_inv sc" "scan_field f sc = Some sc'"
  shows "scan_inv sc'"
proof -
  let ?n = "lowercase (hf_name f)"
  have f: "?n \<noteq> []" "?n = hf_name f" "no_lf (hf_value f)"
    using assms(2) lowercase_plain no_control_no_lf by (auto simp: scan_field_def Let_def split: if_splits)
  show ?thesis
  proof (cases "hd ?n = CHR '':''")
    case True
    then have "sc' = sc\<lparr>fs_pseudo := AList.update ?n (hf_value f) (fs_pseudo sc)\<rparr>"
      using assms(2) by (auto simp: scan_field_def Let_def split: if_splits)
    with assms(1) f set_update [of ?n "hf_value f" "fs_pseudo sc"] show ?thesis by (auto simp: scan_inv_def)
  next
    case False
    have ok: "is_valid_header_name ?n"
        "?n \<notin> {''connection'', ''keep-alive'', ''proxy-connection'', ''transfer-encoding'', ''upgrade''}"
      using False assms(2) by (auto simp: scan_field_def Let_def forbidden_request_header_def split: if_splits)
    have hs: "fs_headers sc' = merge_header ?n (hf_value f) (fs_headers sc)" "fs_pseudo sc' = fs_pseudo sc"
      "fs_content_length sc' \<noteq> None \<longleftrightarrow> fs_content_length sc \<noteq> None \<or> ?n = ''content-length''"
      using False assms(2) by (auto simp: scan_field_def Let_def split: if_splits)
    have hdr: "is_valid_header_name n \<and> lowercase n = n \<and> no_lf v \<and>
        n \<notin> {''connection'', ''keep-alive'', ''proxy-connection'', ''transfer-encoding'', ''upgrade''}"
      if "(n, v) \<in> set (fs_headers sc')" for n v
      using merge_header_set [OF that [unfolded hs(1)]] assms(1) ok f no_lf_join unfolding scan_inv_def by fastforce
    have "fs_content_length sc' = None \<longleftrightarrow> map_of (fs_headers sc') ''content-length'' = None"
    proof (cases "?n = ''content-length''")
      case True
      then show ?thesis using hs(3) unfolding hs(1)
        by (cases "map_of (fs_headers sc) ?n") (simp_all add: merge_header_map_of)
    next
      case False
      then have "map_of (fs_headers sc') ''content-length'' = map_of (fs_headers sc) ''content-length''"
        unfolding hs(1) merge_header_map_of by metis
      with False hs(3) assms(1) show ?thesis by (simp add: scan_inv_def del: not_None_eq)
    qed
    moreover have "distinct (map fst (fs_headers sc'))"
      unfolding hs(1) using assms(1) distinct_merge by (simp add: scan_inv_def)
    moreover have "\<forall>(n, v) \<in> set (fs_pseudo sc'). no_lf v" unfolding hs(2) using assms(1) by (simp add: scan_inv_def)
    moreover have "\<forall>(n, v) \<in> set (fs_headers sc'). is_valid_header_name n \<and> lowercase n = n \<and> no_lf v \<and>
        n \<notin> {''connection'', ''keep-alive'', ''proxy-connection'', ''transfer-encoding'', ''upgrade''}"
      using hdr by fast
    ultimately show ?thesis unfolding scan_inv_def by (intro conjI)
  qed
qed

lemma scan_fields_inv: "scan_fields fs sc = Some sc' \<Longrightarrow> scan_inv sc \<Longrightarrow> scan_inv sc'"
  by (induction fs arbitrary: sc) (auto split: option.splits dest: scan_field_inv)

text \<open>The scan joins the values of every header and takes each pseudo header once.\<close>

lemma scan_field_values:
  assumes "scan_field f sc = Some sc'"
  shows "(n = [] \<or> hd n \<noteq> CHR '':'') \<Longrightarrow> map_of (fs_headers sc') n =
      join_values (separator n) (map_of (fs_headers sc) n) (field_values [f] n)"
    and "n \<noteq> [] \<and> hd n = CHR '':'' \<Longrightarrow> map_of (fs_pseudo sc') n =
      (if hf_name f = n then Some (hf_value f) else map_of (fs_pseudo sc) n) \<and>
      (hf_name f = n \<longrightarrow> map_of (fs_pseudo sc) n = None)"
proof -
  have f: "hf_name f \<noteq> []" "lowercase (hf_name f) = hf_name f"
    using assms lowercase_plain by (auto simp: scan_field_def Let_def split: if_splits)
  have "if hd (hf_name f) = CHR '':''
      then fs_headers sc' = fs_headers sc \<and> fs_pseudo sc' = AList.update (hf_name f) (hf_value f) (fs_pseudo sc) \<and>
        map_of (fs_pseudo sc) (hf_name f) = None
      else fs_pseudo sc' = fs_pseudo sc \<and> fs_headers sc' = merge_header (hf_name f) (hf_value f) (fs_headers sc)"
    using assms by (auto simp: scan_field_def f(2) Let_def split: if_splits)
  then show "(n = [] \<or> hd n \<noteq> CHR '':'') \<Longrightarrow> map_of (fs_headers sc') n =
      join_values (separator n) (map_of (fs_headers sc) n) (field_values [f] n)"
    and "n \<noteq> [] \<and> hd n = CHR '':'' \<Longrightarrow> map_of (fs_pseudo sc') n =
      (if hf_name f = n then Some (hf_value f) else map_of (fs_pseudo sc) n) \<and>
      (hf_name f = n \<longrightarrow> map_of (fs_pseudo sc) n = None)"
    using f by (auto simp: merge_header_map_of update_conv' split: if_splits)
qed

lemma scan_fields_headers:
  "scan_fields fs sc = Some sc' \<Longrightarrow> (n = [] \<or> hd n \<noteq> CHR '':'') \<Longrightarrow>
    map_of (fs_headers sc') n = join_values (separator n) (map_of (fs_headers sc) n) (field_values fs n)"
proof (induction fs arbitrary: sc)
  case (Cons f fs)
  then obtain sc1 where sc1: "scan_field f sc = Some sc1" "scan_fields fs sc1 = Some sc'" by (auto split: option.splits)
  from Cons.IH [OF sc1(2) Cons.prems(2)] scan_field_values(1) [OF sc1(1) Cons.prems(2)] show ?case
    by (cases "map_of (fs_headers sc) n") simp_all
qed simp

lemma scan_fields_pseudo:
  "scan_fields fs sc = Some sc' \<Longrightarrow> n \<noteq> [] \<and> hd n = CHR '':'' \<Longrightarrow>
    (case map_of (fs_pseudo sc) n of
       None \<Rightarrow> (case map_of (fs_pseudo sc') n of None \<Rightarrow> field_values fs n = [] | Some v \<Rightarrow> field_values fs n = [v])
     | Some v \<Rightarrow> map_of (fs_pseudo sc') n = Some v \<and> field_values fs n = [])"
proof (induction fs arbitrary: sc)
  case (Cons f fs)
  then obtain sc1 where sc1: "scan_field f sc = Some sc1" "scan_fields fs sc1 = Some sc'" by (auto split: option.splits)
  from Cons.IH [OF sc1(2) Cons.prems(2)] scan_field_values(2) [OF sc1(1) Cons.prems(2)] show ?case
    by (cases "map_of (fs_pseudo sc) n"; cases "map_of (fs_pseudo sc1) n"; cases "map_of (fs_pseudo sc') n";
        cases "hf_name f = n") simp_all
next
  case Nil
  then show ?case by (cases "map_of (fs_pseudo sc) n") simp_all
qed

lemma stream_words_snoc:
  assumes "no_space w" "w \<noteq> []" "isspace c"
  shows "stream_words (s @ c # w) = stream_words s @ [w]"
proof (induction s rule: length_induct)
  case (1 s)
  have w: "stream_words (c # w) = [w]"
    using stream_words_word [OF assms(1,2), of "[]"] stream_words_space [OF assms(3), of w] by simp
  show ?case
  proof (cases s)
    case Nil
    then show ?thesis using w by simp
  next
    case (Cons a r)
    show ?thesis
    proof (cases "isspace a")
      case True
      then show ?thesis using "1" Cons by (simp add: stream_words_space)
    next
      case False
      let ?u = "takeWhile (\<lambda>x. \<not> isspace x) s" and ?r = "dropWhile (\<lambda>x. \<not> isspace x) s"
      have u: "no_space ?u" "?u \<noteq> []"
        using False Cons by (auto simp: no_space_def list_all_iff dest: set_takeWhileD)
      have len: "length ?r < length s" using u(2) length_append [of ?u ?r]
        by (metis takeWhile_dropWhile_id length_greater_0_conv less_add_same_cancel2)
      have "stream_words s = ?u # stream_words ?r" using stream_words_word [OF u, of ?r] by (simp only: takeWhile_dropWhile_id)
        (metis append_Nil dropWhile_eq_Nil_conv hd_dropWhile list.sel(1) neq_Nil_conv)
      moreover have "stream_words (?u @ ?r @ c # w) = ?u # stream_words (?r @ c # w)"
        by (rule stream_words_word [OF u]) (metis assms(3) append_Cons append_Nil hd_dropWhile list.sel(1) neq_Nil_conv)
      ultimately show ?thesis using "1" len by (simp flip: append_assoc)
    qed
  qed
qed

lemma parse_target_parts [simp]:
  "rq_method (parse_target r) = rq_method r" "rq_target (parse_target r) = rq_target r"
  "rq_version (parse_target r) = rq_version r" "rq_headers (parse_target r) = rq_headers r"
  "rq_body (parse_target r) = rq_body r" "rq_body_file (parse_target r) = rq_body_file r"
  "rq_body_size_bytes (parse_target r) = rq_body_size_bytes r"
  by (simp_all add: parse_target_def Let_def split: option.split)

text \<open>The HTTP/1 parser on the text of a request line, rendered headers and a body.\<close>

lemma parse_request_text:
  assumes "no_lf l" "list_all (\<lambda>(n, v). name_ok n \<and> LF \<notin> set v) hs" "distinct (map fst hs)"
    and r: "pr_request (parse_request (l @ '' HTTP/1.1'' @ CRLF @ render_headers hs @ CRLF @ body)) = Some r"
  shows "stream_words l = [rq_method r, rq_target r]" "rq_headers r = map (\<lambda>(n, v). (n, trim v)) hs" "rq_body r = body"
    "body_size r = length body"
proof -
  let ?line = "l @ '' HTTP/1.1''" and ?rest = "render_headers hs @ CRLF @ body"
  have "getline ((?line @ [CR]) @ LF # ?rest) = Some (?line @ [CR], ?rest)"
    by (rule getline_append) (use assms(1) in \<open>auto simp: no_lf_def\<close>)
  then have g: "getline (l @ '' HTTP/1.1'' @ CRLF @ ?rest) = Some (?line @ [CR], ?rest)" by simp
  have s: "strip_cr (?line @ [CR]) = ?line" using strip_cr_append [of ?line] by simp
  have "stream_words ?line = stream_words l @ [''HTTP/1.1'']"
    using stream_words_snoc [of "''HTTP/1.1''" "CHR '' ''" l] by (simp add: no_space_def isspace_def)
  moreover have "parse_headers [] ?rest = Inr (map (\<lambda>(n, v). (n, trim v)) hs, body)"
    using parse_headers_render_trim [of hs "[]" body] assms(2,3) by simp
  ultimately obtain m t where w: "stream_words l = [m, t]" and "r = parse_target (new_request\<lparr>rq_method := m, rq_target := t,
      rq_version := ''HTTP/1.1'', rq_headers := map (\<lambda>(n, v). (n, trim v)) hs, rq_body := body,
      rq_body_size_bytes := length body\<rparr>)"
    using r g s by (cases "stream_words l" rule: remdups_adj.cases)
      (auto simp: parse_request_def parse_error_result_def split: list.splits)
  then show "stream_words l = [rq_method r, rq_target r]" "rq_headers r = map (\<lambda>(n, v). (n, trim v)) hs" "rq_body r = body"
    "body_size r = length body"
    by (simp_all add: body_size_def body_spooled_to_file_def new_request_def)
qed

lemma dropWhile_none: "\<forall>c \<in> set xs. \<not> P c \<Longrightarrow> dropWhile P xs = xs"
  by (cases xs) auto

lemma name_ok_token: "is_valid_header_name n \<Longrightarrow> lowercase n = n \<Longrightarrow> name_ok n"
proof -
  assume n: "is_valid_header_name n" "lowercase n = n"
  have "\<not> isspace c \<and> c \<noteq> LF \<and> c \<noteq> CHR '':''" if "is_token_char c" for c
    using that by (auto simp: is_token_char_def isalnum_def isalpha_def isupper_def isdigit_def isspace_def)
  with n(1) have "\<forall>c \<in> set n. \<not> isspace c" "LF \<notin> set n" "CHR '':'' \<notin> set n"
    by (auto simp: is_valid_header_name_def list_all_iff)
  moreover from this(1) have "trim n = n" by (simp add: trim_def dropWhile_none)
  ultimately show ?thesis using n by (simp add: name_ok_def is_valid_header_name_def)
qed

text \<open>The headers handed to the HTTP/1 parser: the joined headers, \<open>host\<close> from \<open>:authority\<close>, and a
  \<open>content-length\<close> for a body without one.\<close>

definition request_headers :: "(headers \<Rightarrow> headers) \<Rightarrow> field_scan \<Rightarrow> string \<Rightarrow> headers" where
  "request_headers it sc body =
     it (case map_of (fs_pseudo sc) '':authority'' of None \<Rightarrow> fs_headers sc
         | Some a \<Rightarrow> AList.update ''host'' a (fs_headers sc)) @
     (if body \<noteq> [] \<and> fs_content_length sc = None then [(''content-length'', to_string (length body))] else [])"

lemma request_headers_ok:
  assumes it: "iterates it" and inv: "scan_inv sc"
  shows "list_all (\<lambda>(n, v). name_ok n \<and> LF \<notin> set v) (request_headers it sc body)"
    and "distinct (map fst (request_headers it sc body))"
    and "map_of (request_headers it sc body) n =
      (if n = ''content-length'' \<and> body \<noteq> [] \<and> fs_content_length sc = None then Some (to_string (length body))
       else if n = ''host'' \<and> map_of (fs_pseudo sc) '':authority'' \<noteq> None then map_of (fs_pseudo sc) '':authority''
       else map_of (fs_headers sc) n)"
    and "map_of (request_headers it sc body) n \<noteq> None \<Longrightarrow>
      n \<notin> {''connection'', ''keep-alive'', ''proxy-connection'', ''transfer-encoding'', ''upgrade''}"
proof -
  define hs where "hs = (case map_of (fs_pseudo sc) '':authority'' of None \<Rightarrow> fs_headers sc
    | Some a \<Rightarrow> AList.update ''host'' a (fs_headers sc))"
  let ?cl = "if body \<noteq> [] \<and> fs_content_length sc = None then [(''content-length'', to_string (length body))] else []"
  have eq: "request_headers it sc body = it hs @ ?cl" by (simp add: request_headers_def hs_def)
  have d: "distinct (map fst hs)"
    using inv by (auto simp: hs_def scan_inv_def distinct_update split: option.splits)
  have di: "distinct (map fst (it hs))" "set (it hs) = set hs" using it d by (simp_all add: iterates_distinct iterates_set)
  have m: "map_of hs n = (if n = ''host'' \<and> map_of (fs_pseudo sc) '':authority'' \<noteq> None
      then map_of (fs_pseudo sc) '':authority'' else map_of (fs_headers sc) n)" for n
    by (simp add: hs_def update_conv' split: option.split)
  have none: "map_of hs ''content-length'' = None" if "fs_content_length sc = None"
    using that inv m [of "''content-length''"] by (simp add: scan_inv_def)
  have tokens: "name_ok ''host''" "name_ok ''content-length''" by code_simp+
  have digits: "LF \<notin> set (to_string k)" for k
    using to_string_digits [of k] by (auto simp: list_all_iff isdigit_def)
  have hs_ok: "name_ok n \<and> LF \<notin> set v \<and>
      n \<notin> {''connection'', ''keep-alive'', ''proxy-connection'', ''transfer-encoding'', ''upgrade''}"
    if "(n, v) \<in> set hs" for n v
  proof -
    from that have "(n, v) \<in> set (fs_headers sc) \<or> n = ''host'' \<and> map_of (fs_pseudo sc) '':authority'' = Some v"
      using set_update [of "''host''" _ "fs_headers sc"] by (auto simp: hs_def split: option.splits)
    then show ?thesis
    proof
      assume "(n, v) \<in> set (fs_headers sc)"
      with inv show ?thesis unfolding scan_inv_def no_lf_def using name_ok_token by blast
    next
      assume "n = ''host'' \<and> map_of (fs_pseudo sc) '':authority'' = Some v"
      with inv show ?thesis using tokens unfolding scan_inv_def no_lf_def by (auto dest: map_of_SomeD)
    qed
  qed
  show "list_all (\<lambda>(n, v). name_ok n \<and> LF \<notin> set v) (request_headers it sc body)"
    using hs_ok di(2) tokens digits by (fastforce simp: eq list_all_iff)
  show "distinct (map fst (request_headers it sc body))"
    using di none by (auto simp: eq map_of_eq_None_iff)
  show map: "map_of (request_headers it sc body) n =
      (if n = ''content-length'' \<and> body \<noteq> [] \<and> fs_content_length sc = None then Some (to_string (length body))
       else if n = ''host'' \<and> map_of (fs_pseudo sc) '':authority'' \<noteq> None then map_of (fs_pseudo sc) '':authority''
       else map_of (fs_headers sc) n)" for n
  proof (cases "body \<noteq> [] \<and> fs_content_length sc = None")
    case True
    have snoc: "map_of (it hs @ [(k, x)]) n = (if n = k then Some x else map_of hs n)" if "map_of hs k = None" for k x
      using that by (cases "map_of hs n") (auto simp: map_add_def iterates_map_of [OF it d])
    have eq': "request_headers it sc body = it hs @ [(''content-length'', to_string (length body))]"
      unfolding eq if_P [OF True] ..
    show ?thesis unfolding eq' snoc [OF none [OF True [THEN conjunct2]]] m [of n] using True
      by (simp only: simp_thms not_False_eq_True)
  next
    case False
    have eq': "request_headers it sc body = it hs" unfolding eq if_not_P [OF False] by (rule append_Nil2)
    show ?thesis unfolding eq' iterates_map_of [OF it d] m [of n] using False by (simp only: simp_thms if_False)
  qed
  show "n \<notin> {''connection'', ''keep-alive'', ''proxy-connection'', ''transfer-encoding'', ''upgrade''}"
    if some: "map_of (request_headers it sc body) n \<noteq> None" for n
  proof -
    obtain v where v: "(n, v) \<in> set (request_headers it sc body)" using some by (auto dest: map_of_SomeD)
    then have "(n, v) \<in> set hs \<or> n = ''content-length''"
      unfolding eq by (cases "body \<noteq> [] \<and> fs_content_length sc = None") (simp_all add: di(2), blast)
    then show ?thesis using hs_ok by (elim disjE) simp_all
  qed
qed

lemma raw_request_text_render:
  assumes "hs = (case map_of (fs_pseudo sc) '':authority'' of None \<Rightarrow> fs_headers sc
      | Some a \<Rightarrow> AList.update ''host'' a (fs_headers sc))"
  shows "raw_request_text it m p hs (fs_content_length sc) body =
    (m @ '' '' @ p) @ '' HTTP/1.1'' @ CRLF @ render_headers (request_headers it sc body) @ CRLF @ body"
  by (simp add: raw_request_text_def request_headers_def render_headers_def flip: assms)

lemma build_request_Inr:
  assumes "build_request it st = Inr r"
  obtains sc m p scheme r0 where "scan_fields (ss_headers st) new_scan = Some sc"
    "map_of (fs_pseudo sc) '':method'' = Some m" "map_of (fs_pseudo sc) '':path'' = Some p"
    "map_of (fs_pseudo sc) '':scheme'' = Some scheme" "scheme = ''http'' \<or> scheme = ''https''"
    "fs_content_length sc = None \<or> fs_content_length sc = Some (length (ss_body st))"
    "pr_request (parse_request ((m @ '' '' @ p) @ '' HTTP/1.1'' @ CRLF @
       render_headers (request_headers it sc (ss_body st)) @ CRLF @ ss_body st)) = Some r0"
    "r = r0\<lparr>rq_version := ''HTTP/2''\<rparr>"
proof -
  obtain sc where sc: "scan_fields (ss_headers st) new_scan = Some sc"
    using assms by (cases "scan_fields (ss_headers st) new_scan") (simp_all add: build_request_def)
  obtain m p scheme where ps: "map_of (fs_pseudo sc) '':method'' = Some m" "map_of (fs_pseudo sc) '':path'' = Some p"
      "map_of (fs_pseudo sc) '':scheme'' = Some scheme"
    using assms sc by (cases "map_of (fs_pseudo sc) '':method''"; cases "map_of (fs_pseudo sc) '':path''";
        cases "map_of (fs_pseudo sc) '':scheme''") (simp_all add: build_request_def)
  define hs where "hs = (case map_of (fs_pseudo sc) '':authority'' of None \<Rightarrow> fs_headers sc
      | Some a \<Rightarrow> AList.update ''host'' a (fs_headers sc))"
  have scheme: "scheme = ''http'' \<or> scheme = ''https''"
    using assms by (cases "scheme = ''http'' \<or> scheme = ''https''") (simp_all add: build_request_def sc ps)
  then have ns: "\<not> (scheme \<noteq> ''http'' \<and> scheme \<noteq> ''https'')" by blast
  have cl: "\<not> (case fs_content_length sc of None \<Rightarrow> False | Some n \<Rightarrow> n \<noteq> length (ss_body st))"
    using assms ns unfolding build_request_def sc ps option.case prod.case by (metis Inl_Inr_False)
  have "\<not> (map_of (fs_pseudo sc) '':authority'' \<noteq> None \<and> map_of (fs_headers sc) ''host'' \<noteq> None \<and>
      map_of (fs_headers sc) ''host'' \<noteq> map_of (fs_pseudo sc) '':authority'')"
    using assms ns cl unfolding build_request_def sc ps option.case prod.case Let_def by (metis Inl_Inr_False)
  then obtain r0 where "pr_request (parse_request (raw_request_text it m p hs (fs_content_length sc) (ss_body st))) = Some r0"
      "r = r0\<lparr>rq_version := ''HTTP/2''\<rparr>"
    using assms unfolding build_request_def sc ps option.case prod.case Let_def if_not_P [OF ns] if_not_P [OF cl]
    by (simp only: if_not_P hs_def [symmetric] split: option.splits) auto
  moreover have "fs_content_length sc = None \<or> fs_content_length sc = Some (length (ss_body st))"
    using cl by (cases "fs_content_length sc") simp_all
  ultimately show thesis using that [OF sc ps scheme] unfolding raw_request_text_render [OF hs_def] by blast
qed


definition stream_sample :: stream_state where
  "stream_sample = new_stream\<lparr>ss_headers := [\<lparr>hf_name = '':method'', hf_value = ''POST''\<rparr>,
     \<lparr>hf_name = '':path'', hf_value = ''/a?b''\<rparr>, \<lparr>hf_name = '':scheme'', hf_value = ''https''\<rparr>,
     \<lparr>hf_name = '':authority'', hf_value = ''h''\<rparr>, \<lparr>hf_name = ''cookie'', hf_value = ''x=1''\<rparr>,
     \<lparr>hf_name = ''cookie'', hf_value = ''y=2''\<rparr>], ss_body := ''xy''\<rparr>"


end
