(* ===== verification/Rimau_Numbers.thy ===== *)
theory Rimau_Numbers
  imports Rimau_Prelude
begin

text \<open>
  Reading signed decimal numbers the way \<open>std::stoi\<close>, \<open>std::stoull\<close> and the extraction of an \<open>int\<close> from a stream
  do: white space, a sign and digits at the front of the text, the rest is left alone. Also the loop over a
  list whose steps may throw.
\<close>

datatype number_error = invalid_argument | out_of_range

text \<open>The sign, the digits and the number of characters up to the end of the digits.\<close>

definition scan_number :: "string \<Rightarrow> (bool \<times> string \<times> nat) option" where
  "scan_number s =
     (let blanks = takeWhile isspace s; t = dropWhile isspace s;
          signed = (t \<noteq> [] \<and> (hd t = CHR ''+'' \<or> hd t = CHR ''-''));
          ds = takeWhile isdigit (if signed then tl t else t)
      in if ds = [] then None
         else Some (signed \<and> hd t = CHR ''-'', ds, length blanks + (if signed then 1 else 0) + length ds))"

definition int_max :: int where "int_max = 2147483647"

definition stoi :: "string \<Rightarrow> number_error + (int \<times> nat)" where
  "stoi s =
     (case scan_number s of
        None \<Rightarrow> Inl invalid_argument
      | Some (negative, ds, consumed) \<Rightarrow>
          let v = (if negative then - int (digits_value dec_value 10 0 ds) else int (digits_value dec_value 10 0 ds))
          in if v < - int_max - 1 \<or> int_max < v then Inl out_of_range else Inr (v, consumed))"

text \<open>A minus sign negates modulo \<open>2^64\<close>.\<close>

definition stoull :: "string \<Rightarrow> number_error + (nat \<times> nat)" where
  "stoull s =
     (case scan_number s of
        None \<Rightarrow> Inl invalid_argument
      | Some (negative, ds, consumed) \<Rightarrow>
          let v = digits_value dec_value 10 0 ds
          in if size_max < v then Inl out_of_range
             else Inr (if negative then (size_max + 1 - v) mod (size_max + 1) else v, consumed))"

fun map_result :: "('a \<Rightarrow> 'b result) \<Rightarrow> 'a list \<Rightarrow> 'b list result" where
  "map_result f [] = Inr []"
| "map_result f (x # xs) = r_bind (f x) (\<lambda>y. r_bind (map_result f xs) (\<lambda>ys. Inr (y # ys)))"

lemma map_result_Inr:
  "map_result f xs = Inr ys \<longleftrightarrow> list_all2 (\<lambda>x y. f x = Inr y) xs ys"
  by (induction xs arbitrary: ys) (auto simp: r_bind_Inr_iff list_all2_Cons1)

lemma scan_number_digits:
  assumes "list_all isdigit s" "s \<noteq> []"
  shows "scan_number s = Some (False, s, length s)"
proof -
  obtain c t where s: "s = c # t" using assms(2) by (cases s) auto
  have c: "\<not> isspace c" "c \<noteq> CHR ''+''" "c \<noteq> CHR ''-''" using assms(1) by (auto simp: s isdigit_def isspace_def)
  have "takeWhile isdigit s = s" using assms(1) by (simp add: takeWhile_eq_all_conv list_all_iff)
  with c show ?thesis by (simp add: scan_number_def s)
qed

lemma to_string_isdigit: "list_all isdigit (to_string n)"
  using to_base_digits [of 10 dec_value n, OF dec_value_digit_char]
  by (auto simp: to_string_def list_all_iff dec_value_def split: if_splits)

lemma to_string_value: "digits_value dec_value 10 0 (to_string n) = n"
  using to_base_digits [of 10 dec_value n, OF dec_value_digit_char] by (simp add: to_string_def)

lemma scan_number_to_string: "scan_number (to_string n) = Some (False, to_string n, length (to_string n))"
  by (rule scan_number_digits [OF to_string_isdigit]) (simp add: to_string_def)

lemma stoull_to_string: "n \<le> size_max \<Longrightarrow> stoull (to_string n) = Inr (n, length (to_string n))"
  by (simp add: stoull_def scan_number_to_string to_string_value not_less)

lemma stoi_to_string: "int n \<le> int_max \<Longrightarrow> stoi (to_string n) = Inr (int n, length (to_string n))"
  by (simp add: stoi_def scan_number_to_string to_string_value not_less int_max_def)

lemma stoi_range: "stoi s = Inr (v, n) \<Longrightarrow> - int_max - 1 \<le> v \<and> v \<le> int_max"
  by (auto simp: stoi_def Let_def split: option.splits if_splits)

lemma stoull_range: "stoull s = Inr (v, n) \<Longrightarrow> v \<le> size_max"
  by (auto simp: stoull_def Let_def less_Suc_eq_le split: option.splits if_splits)

end
