(* ===== verification/Waf.thy ===== *)
theory Waf
  imports Http_Response
begin

text \<open>
  \<open>src/src/http/waf.cpp\<close>: the request inspection. The orders in which the header map and the query
  parameter map are iterated are the parameters \<open>it\<close> and \<open>itq\<close>, the contents of spooled bodies \<open>fs\<close>.
  Shown: which rules match and when a request is refused, independently of the iteration orders, and
  that two layers of percent encoding and the case of letters hide nothing from the rules.
\<close>

section \<open>Data\<close>

record waf_settings =
  ws_enabled :: bool
  ws_owasp_crs_enabled :: bool
  ws_blocking_enabled :: bool
  ws_anomaly_threshold :: nat
  ws_max_inspection_bytes :: nat
  ws_disabled_rule_ids :: "int list"

definition default_waf_settings :: waf_settings where
  "default_waf_settings = \<lparr>ws_enabled = False, ws_owasp_crs_enabled = True, ws_blocking_enabled = True,
     ws_anomaly_threshold = 5, ws_max_inspection_bytes = 128 * 1024, ws_disabled_rule_ids = []\<rparr>"

record waf_match =
  wm_rule_id :: int
  wm_severity :: string
  wm_score :: nat
  wm_tag :: string
  wm_message :: string
  wm_variable :: string
  wm_evidence :: string

record waf_result =
  wr_inspected :: bool
  wr_allowed :: bool
  wr_anomaly_score :: nat
  wr_matches :: "waf_match list"
  wr_engine :: string
  wr_ruleset :: string

definition new_waf_result :: waf_result where
  "new_waf_result = \<lparr>wr_inspected = False, wr_allowed = True, wr_anomaly_score = 0, wr_matches = [],
     wr_engine = ''rimau-modsecurity-compatible'', wr_ruleset = ''builtin-owasp-crs-subset''\<rparr>"

record waf_rule =
  wl_id :: int
  wl_severity :: string
  wl_score :: nat
  wl_tag :: string
  wl_message :: string

type_synonym inspection_target = "string \<times> string"

section \<open>Inspection\<close>

definition percent_decode_once :: "string \<Rightarrow> string" where
  "percent_decode_once v = percent_decode True v"

definition inspection_value :: "string \<Rightarrow> nat \<Rightarrow> string" where
  "inspection_value v limit =
     (if limit = 0 then []
      else lowercase (percent_decode_once (percent_decode_once (substr v 0 (min (length v) limit)))))"

definition collect_targets ::
    "(headers \<Rightarrow> headers) \<Rightarrow> (query_params \<Rightarrow> query_params) \<Rightarrow> (string \<Rightarrow> string option) \<Rightarrow> request \<Rightarrow> nat \<Rightarrow>
     inspection_target list" where
  "collect_targets it itq fs r limit =
     [(''REQUEST_METHOD'', inspection_value (rq_method r) limit),
      (''REQUEST_TARGET'', inspection_value (rq_target r) limit),
      (''REQUEST_PATH'', inspection_value (rq_path r) limit),
      (''QUERY_STRING'', inspection_value (rq_query_string r) limit),
      (''REQUEST_BODY'', inspection_value (body_text fs r limit) limit)] @
     concat (map (\<lambda>(name, vs). map (\<lambda>v. (''ARGS'', inspection_value (name @ ''='' @ v) limit)) vs) (itq (rq_query_params r))) @
     map (\<lambda>(name, v). (''REQUEST_HEADERS'', inspection_value (name @ '': '' @ v) limit)) (it (rq_headers r))"

definition add_match :: "waf_rule \<Rightarrow> string \<Rightarrow> string \<Rightarrow> waf_result \<Rightarrow> waf_result" where
  "add_match rule variable evidence res =
     res\<lparr>wr_anomaly_score := wr_anomaly_score res + wl_score rule,
         wr_matches := wr_matches res @ [\<lparr>wm_rule_id = wl_id rule, wm_severity = wl_severity rule,
           wm_score = wl_score rule, wm_tag = wl_tag rule, wm_message = wl_message rule,
           wm_variable = variable, wm_evidence = evidence\<rparr>]\<rparr>"

definition rule_disabled :: "waf_settings \<Rightarrow> int \<Rightarrow> bool" where
  "rule_disabled settings rule_id \<longleftrightarrow> rule_id \<in> set (ws_disabled_rule_ids settings)"

definition needle_in :: "string \<Rightarrow> string \<Rightarrow> bool" where
  "needle_in v needle \<longleftrightarrow> needle \<noteq> [] \<and> contains v needle"

text \<open>The loops over targets and needles stop at the first hit.\<close>

fun match_rule :: "waf_rule \<Rightarrow> inspection_target list \<Rightarrow> string list \<Rightarrow> waf_result \<Rightarrow> waf_result" where
  "match_rule rule [] needles res = res"
| "match_rule rule ((variable, v) # targets) needles res =
     (case find (needle_in v) needles of
        Some needle \<Rightarrow> add_match rule variable needle res
      | None \<Rightarrow> match_rule rule targets needles res)"

definition match_header_rule :: "request \<Rightarrow> waf_rule \<Rightarrow> string \<Rightarrow> nat \<Rightarrow> string list \<Rightarrow> waf_result \<Rightarrow> waf_result" where
  "match_header_rule r rule header_name limit needles res =
     (case request_header r header_name of
        None \<Rightarrow> res
      | Some h \<Rightarrow>
          (case find (needle_in (inspection_value h limit)) needles of
             Some needle \<Rightarrow> add_match rule ''REQUEST_HEADERS'' needle res
           | None \<Rightarrow> res))"

section \<open>The rules\<close>

definition scanner_rule :: waf_rule where
  "scanner_rule = \<lparr>wl_id = 913100, wl_severity = ''critical'', wl_score = 5, wl_tag = ''application-multi/scanner'',
     wl_message = ''Scanner or vulnerability tool user agent detected''\<rparr>"

definition scanner_needles :: "string list" where
  "scanner_needles = [''sqlmap'', ''nikto'', ''nmap'', ''masscan'', ''acunetix'', ''nessus'', ''wpscan'', ''zgrab'', ''dirbuster'']"

definition splitting_rule :: waf_rule where
  "splitting_rule = \<lparr>wl_id = 920271, wl_severity = ''critical'', wl_score = 5, wl_tag = ''protocol/request-splitting'',
     wl_message = ''Encoded CRLF sequence or newline in request data''\<rparr>"

definition splitting_needles :: "string list" where
  "splitting_needles = [''%0d'', ''%0a'', [CR], [LF]]"

definition path_rule :: waf_rule where
  "path_rule = \<lparr>wl_id = 930100, wl_severity = ''critical'', wl_score = 5, wl_tag = ''application-multi/path-traversal'',
     wl_message = ''Path traversal or local file probing pattern detected''\<rparr>"

definition path_needles :: "string list" where
  "path_needles = [''../'', ''..'' @ [CHR 0x5C], ''%2e%2e'', ''%252e%252e'', ''/etc/passwd'', ''boot.ini'', ''win.ini'', ''/proc/self'']"

definition xss_rule :: waf_rule where
  "xss_rule = \<lparr>wl_id = 941100, wl_severity = ''critical'', wl_score = 5, wl_tag = ''application-multi/xss'',
     wl_message = ''Cross-site scripting pattern detected''\<rparr>"

definition xss_needles :: "string list" where
  "xss_needles = [''<script'', ''javascript:'', ''onerror='', ''onload='', ''document.cookie'', ''<svg'', ''<iframe'', ''srcdoc='']"

definition sqli_rule :: waf_rule where
  "sqli_rule = \<lparr>wl_id = 942100, wl_severity = ''critical'', wl_score = 5, wl_tag = ''application-multi/sqli'',
     wl_message = ''SQL injection pattern detected''\<rparr>"

definition sqli_needles :: "string list" where
  "sqli_needles = [''union select'', '' or 1=1'',
     [CHR 0x27] @ '' or '' @ [CHR 0x27] @ ''1'' @ [CHR 0x27] @ ''='' @ [CHR 0x27] @ ''1'',
     [CHR 0x22] @ '' or '' @ [CHR 0x22] @ ''1'' @ [CHR 0x22] @ ''='' @ [CHR 0x22] @ ''1'',
     ''information_schema'', ''sleep('', ''benchmark('', ''xp_cmdshell'']"

definition rce_rule :: waf_rule where
  "rce_rule = \<lparr>wl_id = 932100, wl_severity = ''critical'', wl_score = 5, wl_tag = ''application-multi/rce'',
     wl_message = ''Remote command execution pattern detected''\<rparr>"

definition rce_needles :: "string list" where
  "rce_needles = ['';cat '', ''|id'', ''&&'', ''$('', [CHR 0x60], ''/bin/sh'', ''/bin/bash'', ''curl http'', ''wget http'', ''powershell'']"

definition php_rule :: waf_rule where
  "php_rule = \<lparr>wl_id = 933100, wl_severity = ''critical'', wl_score = 5, wl_tag = ''application-multi/php-injection'',
     wl_message = ''PHP injection or stream wrapper pattern detected''\<rparr>"

definition php_needles :: "string list" where
  "php_needles = [''<?php'', ''php://'', ''data://'', ''expect://'', ''auto_prepend_file'', ''allow_url_include'', ''phar://'']"

definition jndi_rule :: waf_rule where
  "jndi_rule = \<lparr>wl_id = 944100, wl_severity = ''critical'', wl_score = 5, wl_tag = ''application-multi/java-jndi'',
     wl_message = ''Java/JNDI exploitation pattern detected''\<rparr>"

definition jndi_needles :: "string list" where
  "jndi_needles = [''${jndi:'', ''jndi:ldap'', ''jndi:rmi'', ''class.module.classloader'', ''ldap://'']"

definition first_rule_id :: "waf_result \<Rightarrow> int option" where
  "first_rule_id res = (if wr_matches res = [] then None else Some (wm_rule_id (hd (wr_matches res))))"

definition guarded :: "waf_settings \<Rightarrow> waf_rule \<Rightarrow> (waf_result \<Rightarrow> waf_result) \<Rightarrow> waf_result \<Rightarrow> waf_result" where
  "guarded settings rule step res = (if \<not> rule_disabled settings (wl_id rule) then step res else res)"

definition inspect_request ::
    "(headers \<Rightarrow> headers) \<Rightarrow> (query_params \<Rightarrow> query_params) \<Rightarrow> (string \<Rightarrow> string option) \<Rightarrow> request \<Rightarrow>
     waf_settings \<Rightarrow> waf_result" where
  "inspect_request it itq fs r settings =
     (let res = new_waf_result in
      if \<not> ws_enabled settings then res
      else
        let res = res\<lparr>wr_inspected := True\<rparr> in
        if \<not> ws_owasp_crs_enabled settings then res
        else
          let limit = (if ws_max_inspection_bytes settings = 0 then 1 else ws_max_inspection_bytes settings);
              targets = collect_targets it itq fs r limit;
              res = guarded settings scanner_rule (match_header_rule r scanner_rule ''user-agent'' limit scanner_needles) res;
              res = guarded settings splitting_rule (match_rule splitting_rule targets splitting_needles) res;
              res = guarded settings path_rule (match_rule path_rule targets path_needles) res;
              res = guarded settings xss_rule (match_rule xss_rule targets xss_needles) res;
              res = guarded settings sqli_rule (match_rule sqli_rule targets sqli_needles) res;
              res = guarded settings rce_rule (match_rule rce_rule targets rce_needles) res;
              res = guarded settings php_rule (match_rule php_rule targets php_needles) res;
              res = guarded settings jndi_rule (match_rule jndi_rule targets jndi_needles) res
          in if ws_blocking_enabled settings \<and> wr_anomaly_score res \<ge> ws_anomaly_threshold settings
             then res\<lparr>wr_allowed := False\<rparr> else res)"

definition waf_block_response :: "waf_result \<Rightarrow> response" where
  "waf_block_response res =
     (let r = text_response 403 (''Forbidden by Rimau ModSecurity compatible WAF'' @ [LF]) plain_text;
          r = set_header ''x-rimau-waf'' ''blocked'' r;
          r = set_header ''x-rimau-waf-engine'' (wr_engine res) r;
          r = set_header ''x-rimau-waf-ruleset'' (wr_ruleset res) r;
          r = set_header ''x-rimau-waf-score'' (to_string (wr_anomaly_score res)) r
      in case first_rule_id res of
           None \<Rightarrow> r
         | Some rule_id \<Rightarrow> set_header ''x-rimau-waf-rule-id'' (int_to_string rule_id) r)"

section \<open>What the inspection decides\<close>

text \<open>The specification: a rule fires when one of its patterns occurs in an inspected text.\<close>

definition hit :: "string \<Rightarrow> string list \<Rightarrow> bool" where
  "hit v needles \<longleftrightarrow> (\<exists>n \<in> set needles. n \<noteq> [] \<and> sublist n v)"

definition target_rules :: "(int \<times> string list) list" where
  "target_rules = [(920271, splitting_needles), (930100, path_needles), (941100, xss_needles), (942100, sqli_needles),
     (932100, rce_needles), (933100, php_needles), (944100, jndi_needles)]"

definition fired :: "string set \<Rightarrow> string option \<Rightarrow> int list" where
  "fired texts user_agent =
     (if \<exists>v. user_agent = Some v \<and> hit v scanner_needles then [913100] else []) @
     map fst (filter (\<lambda>(id, needles). \<exists>v \<in> texts. hit v needles) target_rules)"

text \<open>The texts that are inspected.\<close>

definition inspected_texts :: "(string \<Rightarrow> string option) \<Rightarrow> request \<Rightarrow> nat \<Rightarrow> string set" where
  "inspected_texts fs r limit = (\<lambda>t. inspection_value t limit) `
     ({rq_method r, rq_target r, rq_path r, rq_query_string r, body_text fs r limit} \<union>
      {name @ ''='' @ v |name vs v. (name, vs) \<in> set (rq_query_params r) \<and> v \<in> set vs} \<union>
      {name @ '': '' @ v |name v. (name, v) \<in> set (rq_headers r)})"

lemma find_needle: "find (needle_in v) needles = None \<longleftrightarrow> \<not> hit v needles"
  by (auto simp: find_None_iff hit_def needle_in_def contains_iff_sublist)

definition texts_of :: "inspection_target list \<Rightarrow> string set" where
  "texts_of targets = snd ` set targets"

lemma match_rule_spec:
  "if \<exists>v \<in> texts_of targets. hit v needles
   then \<exists>variable evidence. match_rule rule targets needles res = add_match rule variable evidence res
   else match_rule rule targets needles res = res"
proof (induction rule targets needles res rule: match_rule.induct)
  case (2 rule variable v targets needles res)
  then show ?case
    using find_needle [of v needles]
    by (cases "find (needle_in v) needles") (auto simp: texts_of_def split: if_splits)
qed (simp add: texts_of_def)

lemma texts_of_collect:
  assumes "iterates it" "\<forall>q. mset (itq q) = mset q"
  shows "texts_of (collect_targets it itq fs r limit) = inspected_texts fs r limit"
proof -
  have "set (it (rq_headers r)) = set (rq_headers r)" using assms(1) by (rule iterates_set)
  moreover have "set (itq (rq_query_params r)) = set (rq_query_params r)" using assms(2) by (metis set_mset_mset)
  ultimately show ?thesis
    by (auto simp: texts_of_def collect_targets_def inspected_texts_def image_iff)
      (force | blast)+
qed

text \<open>The effect of one guarded rule on the result.\<close>

definition rule_effect :: "waf_settings \<Rightarrow> waf_rule \<Rightarrow> bool \<Rightarrow> waf_result \<Rightarrow> waf_result \<Rightarrow> bool" where
  "rule_effect settings rule fires res res' \<longleftrightarrow>
     map wm_rule_id (wr_matches res') = map wm_rule_id (wr_matches res) @
       (if fires \<and> wl_id rule \<notin> set (ws_disabled_rule_ids settings) then [wl_id rule] else []) \<and>
     wr_anomaly_score res' = wr_anomaly_score res +
       (if fires \<and> wl_id rule \<notin> set (ws_disabled_rule_ids settings) then wl_score rule else 0) \<and>
     wr_allowed res' = wr_allowed res \<and> wr_inspected res' = wr_inspected res"

lemma guarded_rule:
  "rule_effect settings rule (\<exists>v \<in> texts_of targets. hit v needles) res
     (guarded settings rule (match_rule rule targets needles) res)"
  using match_rule_spec [of targets needles rule res]
  by (auto simp: rule_effect_def guarded_def rule_disabled_def add_match_def split: if_splits)

lemma guarded_header:
  "rule_effect settings rule (\<exists>v. map_option (\<lambda>h. inspection_value h limit) (request_header r name) = Some v \<and> hit v needles) res
     (guarded settings rule (match_header_rule r rule name limit needles) res)"
  using find_needle [of "inspection_value (the (request_header r name)) limit" needles]
  by (cases "request_header r name"; cases "find (needle_in (inspection_value (the (request_header r name)) limit)) needles")
    (auto simp: rule_effect_def guarded_def rule_disabled_def add_match_def match_header_rule_def)

text \<open>The result after a part of the rule set: the enabled ones of the rules \<open>ids\<close> have matched.\<close>

definition waf_state :: "waf_settings \<Rightarrow> int list \<Rightarrow> waf_result \<Rightarrow> bool" where
  "waf_state settings ids res \<longleftrightarrow> wr_anomaly_score res = 5 * length (wr_matches res) \<and> wr_allowed res \<and>
     map wm_rule_id (wr_matches res) = filter (\<lambda>i. i \<notin> set (ws_disabled_rule_ids settings)) ids"

lemma rule_effect_step:
  assumes "rule_effect settings rule fires res res'" "wl_score rule = 5" "waf_state settings ids res"
  shows "waf_state settings (ids @ (if fires then [wl_id rule] else [])) res'"
proof -
  let ?c = "fires \<and> wl_id rule \<notin> set (ws_disabled_rule_ids settings)"
  have m: "map wm_rule_id (wr_matches res') = map wm_rule_id (wr_matches res) @ (if ?c then [wl_id rule] else [])"
    using assms(1) by (simp add: rule_effect_def)
  have "length (wr_matches res') = length (wr_matches res) + (if ?c then 1 else 0)"
    using arg_cong [OF m, of length] by (simp split: if_splits)
  with assms m show ?thesis by (auto simp: waf_state_def rule_effect_def)
qed

lemma waf_state_rule:
  assumes "waf_state settings ids res" "wl_score rule = 5"
  shows "waf_state settings (ids @ (if \<exists>v \<in> texts_of targets. hit v needles then [wl_id rule] else []))
    (guarded settings rule (match_rule rule targets needles) res)"
  using rule_effect_step [OF guarded_rule assms(2,1)] .

lemmas waf_rules = scanner_rule_def splitting_rule_def path_rule_def xss_rule_def sqli_rule_def rce_rule_def
  php_rule_def jndi_rule_def

lemma waf_spec:
  assumes it: "iterates it" "\<forall>q. mset (itq q) = mset q"
    and on: "ws_enabled settings" "ws_owasp_crs_enabled settings"
    and limit: "limit = max 1 (ws_max_inspection_bytes settings)"
    and res: "res = inspect_request it itq fs r settings"
  shows "map wm_rule_id (wr_matches res) = filter (\<lambda>i. i \<notin> set (ws_disabled_rule_ids settings))
      (fired (inspected_texts fs r limit) (map_option (\<lambda>h. inspection_value h limit) (request_header r ''user-agent''))) \<and>
    wr_anomaly_score res = 5 * length (wr_matches res) \<and>
    (wr_allowed res \<longleftrightarrow> \<not> (ws_blocking_enabled settings \<and> ws_anomaly_threshold settings \<le> wr_anomaly_score res))"
proof -
  let ?T = "inspected_texts fs r limit"
  let ?ua = "\<exists>v. map_option (\<lambda>h. inspection_value h limit) (request_header r ''user-agent'') = Some v \<and> hit v scanner_needles"
  have lim: "(if ws_max_inspection_bytes settings = 0 then 1 else ws_max_inspection_bytes settings) = limit"
    unfolding limit by simp
  define ts where "ts = collect_targets it itq fs r limit"
  have T: "texts_of ts = ?T" unfolding ts_def by (rule texts_of_collect [OF it])
  define res0 where "res0 = guarded settings scanner_rule
      (match_header_rule r scanner_rule ''user-agent'' limit scanner_needles) (new_waf_result\<lparr>wr_inspected := True\<rparr>)"
  have "waf_state settings [] (new_waf_result\<lparr>wr_inspected := True\<rparr>)" by (simp add: waf_state_def new_waf_result_def)
  then have s0: "waf_state settings ([] @ (if ?ua then [wl_id scanner_rule] else [])) res0"
    unfolding res0_def by (intro rule_effect_step [OF guarded_header]) (simp_all add: scanner_rule_def)
  define run where "run rule needles = guarded settings rule (match_rule rule ts needles)" for rule needles
  have step: "waf_state settings (ids @ (if \<exists>v \<in> ?T. hit v needles then [wl_id rule] else [])) (run rule needles x)"
    if "waf_state settings ids x" "wl_score rule = 5" for ids x rule needles
    using waf_state_rule [OF that, of ts needles] unfolding T run_def .
  define res7 where "res7 = run jndi_rule jndi_needles (run php_rule php_needles (run rce_rule rce_needles
      (run sqli_rule sqli_needles (run xss_rule xss_needles (run path_rule path_needles
      (run splitting_rule splitting_needles res0))))))"
  have "waf_state settings (((((((
      ([] @ (if ?ua then [wl_id scanner_rule] else [])) @ (if \<exists>v \<in> ?T. hit v splitting_needles then [wl_id splitting_rule] else [])) @
      (if \<exists>v \<in> ?T. hit v path_needles then [wl_id path_rule] else [])) @
      (if \<exists>v \<in> ?T. hit v xss_needles then [wl_id xss_rule] else [])) @
      (if \<exists>v \<in> ?T. hit v sqli_needles then [wl_id sqli_rule] else [])) @
      (if \<exists>v \<in> ?T. hit v rce_needles then [wl_id rce_rule] else [])) @
      (if \<exists>v \<in> ?T. hit v php_needles then [wl_id php_rule] else [])) @
      (if \<exists>v \<in> ?T. hit v jndi_needles then [wl_id jndi_rule] else [])) res7"
    unfolding res7_def by (intro step s0) (simp_all add: waf_rules)
  also have "(((((((([] @ (if ?ua then [wl_id scanner_rule] else [])) @ (if \<exists>v \<in> ?T. hit v splitting_needles then [wl_id splitting_rule] else [])) @
      (if \<exists>v \<in> ?T. hit v path_needles then [wl_id path_rule] else [])) @
      (if \<exists>v \<in> ?T. hit v xss_needles then [wl_id xss_rule] else [])) @
      (if \<exists>v \<in> ?T. hit v sqli_needles then [wl_id sqli_rule] else [])) @
      (if \<exists>v \<in> ?T. hit v rce_needles then [wl_id rce_rule] else [])) @
      (if \<exists>v \<in> ?T. hit v php_needles then [wl_id php_rule] else [])) @
      (if \<exists>v \<in> ?T. hit v jndi_needles then [wl_id jndi_rule] else [])) =
    fired ?T (map_option (\<lambda>h. inspection_value h limit) (request_header r ''user-agent''))"
    unfolding fired_def target_rules_def waf_rules by simp
  finally have final: "waf_state settings
    (fired ?T (map_option (\<lambda>h. inspection_value h limit) (request_header r ''user-agent''))) res7" .
  have "res = (if ws_blocking_enabled settings \<and> wr_anomaly_score res7 \<ge> ws_anomaly_threshold settings
      then res7\<lparr>wr_allowed := False\<rparr> else res7)"
    unfolding res res7_def run_def res0_def ts_def inspect_request_def Let_def lim using on by (simp only: simp_thms if_False)
  with final show ?thesis by (auto simp: waf_state_def)
qed


text \<open>neither letter case nor up to two layers of percent encoding hide an attack: when the method, the target,
  the path, the query string or the body is a doubly encoded text whose lower case form contains a pattern of an
  enabled rule, and fits the inspection limit, the rule is among the matches.\<close>

theorem waf_sees_through_encoding:
  assumes it: "iterates it" "\<forall>q. mset (itq q) = mset q"
    and on: "ws_enabled settings" "ws_owasp_crs_enabled settings"
    and limit: "limit = max 1 (ws_max_inspection_bytes settings)"
    and t: "t \<in> {rq_method r, rq_target r, rq_path r, rq_query_string r, body_text fs r limit}" "length t \<le> limit"
    and enc: "t = percent_encode keep (percent_encode keep' s)"
    and keeps: "\<not> keep (CHR ''%'')" "\<not> keep (CHR ''+'')" "\<not> keep' (CHR ''%'')" "\<not> keep' (CHR ''+'')"
    and rule: "(i, needles) \<in> set target_rules" "i \<notin> set (ws_disabled_rule_ids settings)"
    and n: "n \<in> set needles" "n \<noteq> []" "sublist n (lowercase s)"
  shows "i \<in> wm_rule_id ` set (wr_matches (inspect_request it itq fs r settings))"
proof -
  have "limit \<noteq> 0" unfolding limit by simp
  then have "inspection_value t limit = lowercase s"
    using t(2) keeps by (simp add: inspection_value_def substr_def percent_decode_once_def enc percent_decode_inverse)
  then have "lowercase s \<in> inspected_texts fs r limit" using t(1) unfolding inspected_texts_def by force
  moreover have "hit (lowercase s) needles" using n by (auto simp: hit_def)
  ultimately have "i \<in> set (fired (inspected_texts fs r limit) ua)" for ua
    using rule(1) by (force simp: fired_def)
  with rule(2) have "i \<in> set (map wm_rule_id (wr_matches (inspect_request it itq fs r settings)))"
    using waf_spec [OF it on limit refl, of fs r] by simp
  then show ?thesis by simp
qed

definition waf_sample :: waf_settings where
  "waf_sample = default_waf_settings\<lparr>ws_enabled := True, ws_max_inspection_bytes := 20, ws_disabled_rule_ids := [944100]\<rparr>"

definition waf_request_sample :: request where
  "waf_request_sample = new_request\<lparr>rq_method := ''GET'', rq_target := percent_encode isalnum (percent_encode isalnum ''<SCRIPT''),
     rq_headers := [(''user-agent'', ''sqlMap'')]\<rparr>"


theorem waf_sees_through_encoding_witness:
  "941100 \<in> wm_rule_id ` set (wr_matches (inspect_request (\<lambda>h. h) (\<lambda>q. q) (\<lambda>_. None) waf_request_sample waf_sample))"
proof (rule waf_sees_through_encoding [OF iterates_id(1), where limit = 20 and t = "rq_target waf_request_sample"
      and keep = isalnum and keep' = isalnum and s = "''<SCRIPT''" and needles = xss_needles and n = "''<script''"])
  show "length (rq_target waf_request_sample) \<le> 20" by code_simp
  show "sublist ''<script'' (lowercase ''<SCRIPT'')" by code_simp
qed (simp_all add: waf_sample_def default_waf_settings_def waf_request_sample_def isalnum_def isalpha_def isupper_def
    isdigit_def target_rules_def xss_needles_def)

end
