(* ===== verification/Virtual_Host.thy ===== *)
theory Virtual_Host
  imports Rimau_Numbers Waf
begin

text \<open>
  The part of \<open>src/src/http/virtual_host.cpp\<close> that reads the virtual host configuration and selects rules: host
  patterns, reverse proxy targets, the rule list, the WAF overrides, \<open>normalize_host\<close> and the two selection
  functions. Exceptions are \<open>Inl\<close> with the message of the \<open>std::runtime_error\<close>.
\<close>

section \<open>Data\<close>

datatype virtual_host_action = static_files | reverse_proxy | server_side_script

datatype load_balancing_policy = round_robin | failover | stable_hash

record reverse_proxy_target =
  pt_scheme :: string
  pt_host :: string
  pt_port :: nat
  pt_base_path :: string
  pt_authority :: string

record reverse_proxy_settings =
  px_connect_timeout_seconds :: int
  px_read_timeout_seconds :: int
  px_max_response_bytes :: nat
  px_retry_count :: nat
  px_verify_tls_upstream :: bool
  px_circuit_breaker_enabled :: bool
  px_circuit_breaker_failure_threshold :: nat
  px_circuit_breaker_cooldown_seconds :: int
  px_load_balancing_policy :: load_balancing_policy

definition default_reverse_proxy_settings :: reverse_proxy_settings where
  "default_reverse_proxy_settings = \<lparr>px_connect_timeout_seconds = 5, px_read_timeout_seconds = 30,
     px_max_response_bytes = 1024 * 1024, px_retry_count = 1, px_verify_tls_upstream = False,
     px_circuit_breaker_enabled = True, px_circuit_breaker_failure_threshold = 3,
     px_circuit_breaker_cooldown_seconds = 10, px_load_balancing_policy = round_robin\<rparr>"

record virtual_host_rule =
  vr_host_pattern :: string
  vr_action :: virtual_host_action
  vr_document_root :: string
  vr_upstreams :: "reverse_proxy_target list"
  vr_script_runtime :: string
  vr_script_root :: string

definition new_virtual_host_rule :: virtual_host_rule where
  "new_virtual_host_rule = \<lparr>vr_host_pattern = [], vr_action = static_files, vr_document_root = [], vr_upstreams = [],
     vr_script_runtime = [], vr_script_root = []\<rparr>"

record virtual_host_waf_override =
  wo_host_pattern :: string
  wo_enabled :: "bool option"
  wo_owasp_crs_enabled :: "bool option"
  wo_blocking_enabled :: "bool option"
  wo_anomaly_threshold :: "nat option"
  wo_rule_exceptions :: "int list"

definition new_waf_override :: virtual_host_waf_override where
  "new_waf_override = \<lparr>wo_host_pattern = [], wo_enabled = None, wo_owasp_crs_enabled = None, wo_blocking_enabled = None,
     wo_anomaly_threshold = None, wo_rule_exceptions = []\<rparr>"

section \<open>Validation\<close>

definition contains_control_character :: "string \<Rightarrow> bool" where
  "contains_control_character v \<longleftrightarrow> list_ex (\<lambda>ch. code ch < 0x20 \<or> code ch = 0x7f) v"

definition valid_runtime_name :: "string \<Rightarrow> bool" where
  "valid_runtime_name v \<longleftrightarrow> v \<noteq> [] \<and> list_all (\<lambda>ch. isalnum ch \<or> ch \<in> set ''_-+.'') v"

definition valid_host_pattern :: "string \<Rightarrow> bool" where
  "valid_host_pattern v =
     (if v = [] \<or> contains_control_character v then False
      else if starts_with v ''*.'' \<and> drop 2 v = [] then False
      else list_all (\<lambda>ch. isalnum ch \<or> ch \<in> set ''-._[]:'') (if starts_with v ''*.'' then drop 2 v else v))"

text \<open>The running value stays below \<open>2^16 * 10\<close>, so the \<open>std::uint32_t\<close> never wraps.\<close>

fun upstream_port_digits :: "nat \<Rightarrow> string \<Rightarrow> nat result" where
  "upstream_port_digits parsed [] = Inr parsed"
| "upstream_port_digits parsed (ch # rest) =
     (if \<not> isdigit ch then Inl ''reverse proxy upstream port is invalid''
      else if parsed * 10 + (code ch - 48) > 65535 then Inl ''reverse proxy upstream port is out of range''
      else upstream_port_digits (parsed * 10 + (code ch - 48)) rest)"

definition parse_upstream_port :: "string \<Rightarrow> nat result" where
  "parse_upstream_port v =
     (if v = [] then Inl ''reverse proxy upstream port is invalid''
      else r_bind (upstream_port_digits 0 v) (\<lambda>parsed.
        if parsed = 0 then Inl ''reverse proxy upstream port is invalid'' else Inr parsed))"

definition hostname_matches_pattern :: "string \<Rightarrow> string \<Rightarrow> bool" where
  "hostname_matches_pattern hostname pattern =
     (let hostname = lowercase hostname; pattern = lowercase pattern in
      if starts_with pattern ''*.'' then
        let suffix' = drop 1 pattern in length hostname > length suffix' \<and> ends_with hostname suffix'
      else hostname = pattern)"

section \<open>Reverse proxy targets\<close>

text \<open>The authority of an upstream: host and port.\<close>

definition parse_authority :: "string \<Rightarrow> nat \<Rightarrow> (string \<times> nat) result" where
  "parse_authority authority default_port =
     (if hd authority = CHR ''['' then
        (case find_char (CHR '']'') authority of
           None \<Rightarrow> Inl ''reverse proxy IPv6 upstream host is invalid''
         | Some close \<Rightarrow>
             let host = substr authority 1 (close - 1) in
             if close + 1 < length authority then
               if authority ! (close + 1) \<noteq> CHR '':'' then Inl ''reverse proxy upstream authority is invalid''
               else r_bind (parse_upstream_port (drop (close + 2) authority)) (\<lambda>port. Inr (host, port))
             else Inr (host, default_port))
      else
        (case rfind_char (CHR '':'') authority of
           None \<Rightarrow> Inr (authority, default_port)
         | Some colon \<Rightarrow>
             r_bind (parse_upstream_port (drop (colon + 1) authority)) (\<lambda>port. Inr (take colon authority, port))))"

definition parse_reverse_proxy_target :: "string \<Rightarrow> reverse_proxy_target result" where
  "parse_reverse_proxy_target v =
     (let text = trim v in
      if contains_control_character text then Inl ''reverse proxy upstream cannot contain control characters''
      else if \<not> starts_with text ''http://'' \<and> \<not> starts_with text ''https://'' then
        Inl ''reverse proxy upstream must start with http:// or https://''
      else
        let plain = starts_with text ''http://'';
            scheme = (if plain then ''http'' else ''https'');
            default_port = (if plain then 80 else 443);
            text = drop (if plain then 7 else 8) text;
            path_start = find_char (CHR ''/'') text;
            authority = (case path_start of None \<Rightarrow> text | Some i \<Rightarrow> take i text);
            base_path = (case path_start of None \<Rightarrow> ''/'' | Some i \<Rightarrow> drop i text)
        in if authority = [] \<or> find_char (CHR ''@'') authority \<noteq> None then
             Inl ''reverse proxy upstream authority is invalid''
           else
             r_bind (parse_authority authority default_port) (\<lambda>(host, port).
               if host = [] \<or> port = 0 then Inl ''reverse proxy upstream host or port is invalid''
               else if base_path = [] \<or> hd base_path \<noteq> CHR ''/'' then Inl ''reverse proxy upstream path must start with /''
               else Inr \<lparr>pt_scheme = scheme, pt_host = host, pt_port = port, pt_base_path = base_path,
                         pt_authority = authority\<rparr>))"

definition parse_reverse_proxy_targets :: "string \<Rightarrow> reverse_proxy_target list result" where
  "parse_reverse_proxy_targets v =
     r_bind (map_result parse_reverse_proxy_target (split_delimited v (CHR '',''))) (\<lambda>targets.
       if targets = [] then Inl ''proxy virtual host must include at least one upstream'' else Inr targets)"

definition parse_reverse_proxy_load_balancing_policy :: "string \<Rightarrow> load_balancing_policy result" where
  "parse_reverse_proxy_load_balancing_policy v =
     (let normalized = lowercase (trim v) in
      if normalized = ''round_robin'' \<or> normalized = ''round-robin'' then Inr round_robin
      else if normalized = ''failover'' then Inr failover
      else if normalized = ''stable_hash'' \<or> normalized = ''stable-hash'' then Inr stable_hash
      else Inl ''reverse_proxy_load_balancing_policy must be round_robin, failover, or stable_hash'')"

fun reverse_proxy_load_balancing_policy_name :: "load_balancing_policy \<Rightarrow> string" where
  "reverse_proxy_load_balancing_policy_name round_robin = ''round_robin''"
| "reverse_proxy_load_balancing_policy_name failover = ''failover''"
| "reverse_proxy_load_balancing_policy_name stable_hash = ''stable_hash''"

section \<open>Rules\<close>

definition parse_virtual_host_rule :: "string \<Rightarrow> virtual_host_rule result" where
  "parse_virtual_host_rule entry =
     (case find_char (CHR ''='') entry of
        None \<Rightarrow> Inl ''virtual_hosts entries must use host=action:target''
      | Some equals \<Rightarrow>
          let rule = new_virtual_host_rule\<lparr>vr_host_pattern := lowercase (trim (take equals entry))\<rparr> in
          if \<not> valid_host_pattern (vr_host_pattern rule) then
            Inl (''virtual host pattern is invalid: '' @ vr_host_pattern rule)
          else
            let action = trim (drop (equals + 1) entry) in
            if starts_with action ''static:'' then
              (let rule = rule\<lparr>vr_action := static_files, vr_document_root := trim (drop 7 action)\<rparr> in
               if vr_document_root rule = [] then Inl ''static virtual host document root cannot be empty''
               else Inr rule)
            else if starts_with action ''proxy:'' then
              r_bind (parse_reverse_proxy_targets (drop 6 action)) (\<lambda>upstreams.
                Inr (rule\<lparr>vr_action := reverse_proxy, vr_upstreams := upstreams\<rparr>))
            else if starts_with action ''script:'' then
              (let rest = drop 7 action in
               case find_char (CHR '':'') rest of
                 None \<Rightarrow> Inl ''script virtual host must use script:runtime:script-root''
               | Some separator \<Rightarrow>
                   let rule = rule\<lparr>vr_action := server_side_script,
                         vr_script_runtime := lowercase (trim (take separator rest)),
                         vr_script_root := trim (drop (separator + 1) rest)\<rparr>
                   in if \<not> valid_runtime_name (vr_script_runtime rule) \<or> vr_script_root rule = [] then
                        Inl ''script virtual host runtime or root is invalid''
                      else Inr rule)
            else Inl ''virtual host action must be static, proxy, or script'')"

definition parse_virtual_host_rules :: "string \<Rightarrow> virtual_host_rule list result" where
  "parse_virtual_host_rules v = map_result parse_virtual_host_rule (split_delimited v (CHR '';''))"

section \<open>WAF overrides\<close>

definition parse_flag :: "string \<Rightarrow> bool option" where
  "parse_flag normalized =
     (if normalized \<in> {''1'', ''true'', ''yes'', ''on''} then Some True
      else if normalized \<in> {''0'', ''false'', ''no'', ''off''} then Some False else None)"

definition parse_waf_override_bool :: "string \<Rightarrow> string \<Rightarrow> bool result" where
  "parse_waf_override_bool v key =
     (case parse_flag (lowercase (trim v)) of
        Some b \<Rightarrow> Inr b
      | None \<Rightarrow> Inl (''virtual_host_waf_overrides '' @ key @ '' must be a boolean''))"

definition parse_waf_override_size :: "string \<Rightarrow> string \<Rightarrow> nat result" where
  "parse_waf_override_size v key =
     (case stoull v of
        Inr (parsed, consumed) \<Rightarrow>
          if consumed \<noteq> length v \<or> parsed = 0 then
            Inl (''virtual_host_waf_overrides '' @ key @ '' must be greater than zero'')
          else Inr parsed
      | Inl invalid_argument \<Rightarrow> Inl (''virtual_host_waf_overrides '' @ key @ '' must be a number'')
      | Inl out_of_range \<Rightarrow> Inl (''virtual_host_waf_overrides '' @ key @ '' is out of range''))"

definition parse_waf_rule_id :: "string \<Rightarrow> int result" where
  "parse_waf_rule_id v =
     (case stoi v of
        Inr (parsed, consumed) \<Rightarrow>
          if consumed \<noteq> length v \<or> parsed \<le> 0 then
            Inl ''virtual_host_waf_overrides rule_exceptions must contain positive rule ids''
          else Inr parsed
      | Inl invalid_argument \<Rightarrow> Inl ''virtual_host_waf_overrides rule_exceptions must contain numeric rule ids''
      | Inl out_of_range \<Rightarrow> Inl ''virtual_host_waf_overrides rule_exceptions rule id is out of range'')"

definition parse_waf_option :: "string \<Rightarrow> virtual_host_waf_override \<Rightarrow> virtual_host_waf_override result" where
  "parse_waf_option opt ov =
     (case find_char (CHR '':'') opt of
        None \<Rightarrow> Inl ''virtual_host_waf_overrides options must use key:value''
      | Some separator \<Rightarrow>
          let key = lowercase (trim (take separator opt)); v = trim (drop (separator + 1) opt) in
          if v = [] then Inl ''virtual_host_waf_overrides option value cannot be empty''
          else if key = ''enabled'' then
            r_bind (parse_waf_override_bool v key) (\<lambda>b. Inr (ov\<lparr>wo_enabled := Some b\<rparr>))
          else if key = ''owasp_crs'' then
            r_bind (parse_waf_override_bool v key) (\<lambda>b. Inr (ov\<lparr>wo_owasp_crs_enabled := Some b\<rparr>))
          else if key = ''blocking'' then
            r_bind (parse_waf_override_bool v key) (\<lambda>b. Inr (ov\<lparr>wo_blocking_enabled := Some b\<rparr>))
          else if key = ''threshold'' then
            r_bind (parse_waf_override_size v key) (\<lambda>n. Inr (ov\<lparr>wo_anomaly_threshold := Some n\<rparr>))
          else if key = ''rule_exceptions'' then
            r_bind (map_result parse_waf_rule_id (split_delimited v (CHR ''|''))) (\<lambda>ids.
              if ids = [] then Inl ''virtual_host_waf_overrides rule_exceptions cannot be empty''
              else Inr (ov\<lparr>wo_rule_exceptions := ids\<rparr>))
          else Inl (''virtual_host_waf_overrides unknown option: '' @ key))"

fun parse_waf_options :: "string list \<Rightarrow> virtual_host_waf_override \<Rightarrow> virtual_host_waf_override result" where
  "parse_waf_options [] ov = Inr ov"
| "parse_waf_options (opt # opts) ov = r_bind (parse_waf_option opt ov) (parse_waf_options opts)"

definition parse_waf_override :: "string \<Rightarrow> virtual_host_waf_override result" where
  "parse_waf_override entry =
     (case find_char (CHR ''='') entry of
        None \<Rightarrow> Inl ''virtual_host_waf_overrides entries must use host=option:value''
      | Some equals \<Rightarrow>
          let ov = new_waf_override\<lparr>wo_host_pattern := lowercase (trim (take equals entry))\<rparr> in
          if \<not> valid_host_pattern (wo_host_pattern ov) then
            Inl (''virtual_host_waf_overrides host pattern is invalid: '' @ wo_host_pattern ov)
          else
            let options = split_delimited (drop (equals + 1) entry) (CHR '','') in
            if options = [] then Inl ''virtual_host_waf_overrides entry must include at least one option''
            else parse_waf_options options ov)"

definition parse_virtual_host_waf_overrides :: "string \<Rightarrow> virtual_host_waf_override list result" where
  "parse_virtual_host_waf_overrides v = map_result parse_waf_override (split_delimited v (CHR '';''))"

section \<open>Selection\<close>

definition normalize_host :: "string \<Rightarrow> string" where
  "normalize_host host_header =
     (let host = trim host_header in
      if host = [] then []
      else
        case (if hd host = CHR ''['' then find_char (CHR '']'') host else None) of
          Some close \<Rightarrow> lowercase (take (close + 1) host)
        | None \<Rightarrow>
            (case rfind_char (CHR '':'') host of
               None \<Rightarrow> lowercase host
             | Some colon \<Rightarrow>
                 if find_char (CHR '':'') host = Some colon then lowercase (take colon host) else lowercase host))"

text \<open>The loops of the two selection functions, which differ only in the type of the entries.\<close>

definition select_by_host :: "('a \<Rightarrow> string) \<Rightarrow> request \<Rightarrow> 'a list \<Rightarrow> 'a option" where
  "select_by_host pattern r entries =
     (case request_header r ''host'' of
        None \<Rightarrow> None
      | Some host_header \<Rightarrow>
          let host = normalize_host host_header in
          if host = [] then None
          else
            case find (\<lambda>e. \<not> starts_with (pattern e) ''*.'' \<and> hostname_matches_pattern host (pattern e)) entries of
              Some e \<Rightarrow> Some e
            | None \<Rightarrow> find (\<lambda>e. starts_with (pattern e) ''*.'' \<and> hostname_matches_pattern host (pattern e)) entries)"

definition select_virtual_host_rule :: "request \<Rightarrow> virtual_host_rule list \<Rightarrow> virtual_host_rule option" where
  "select_virtual_host_rule r rules = select_by_host vr_host_pattern r rules"

definition select_virtual_host_waf_override ::
    "request \<Rightarrow> virtual_host_waf_override list \<Rightarrow> virtual_host_waf_override option" where
  "select_virtual_host_waf_override r overrides = select_by_host wo_host_pattern r overrides"

definition apply_virtual_host_waf_override :: "waf_settings \<Rightarrow> virtual_host_waf_override option \<Rightarrow> waf_settings" where
  "apply_virtual_host_waf_override settings ov =
     (case ov of
        None \<Rightarrow> settings
      | Some o' \<Rightarrow>
          let settings = (case wo_enabled o' of None \<Rightarrow> settings | Some b \<Rightarrow> settings\<lparr>ws_enabled := b\<rparr>);
              settings = (case wo_owasp_crs_enabled o' of None \<Rightarrow> settings | Some b \<Rightarrow> settings\<lparr>ws_owasp_crs_enabled := b\<rparr>);
              settings = (case wo_blocking_enabled o' of None \<Rightarrow> settings | Some b \<Rightarrow> settings\<lparr>ws_blocking_enabled := b\<rparr>);
              settings = (case wo_anomaly_threshold o' of None \<Rightarrow> settings | Some n \<Rightarrow> settings\<lparr>ws_anomaly_threshold := n\<rparr>)
          in settings\<lparr>ws_disabled_rule_ids := ws_disabled_rule_ids settings @ wo_rule_exceptions o'\<rparr>)"

section \<open>What the configuration reader accepts\<close>

lemma upstream_port_digits_eq:
  assumes "acc \<le> 65535"
  shows "upstream_port_digits acc v = Inr n \<longleftrightarrow>
    list_all isdigit v \<and> n = digits_value dec_value 10 acc v \<and> n \<le> 65535"
  using assms
proof (induction v arbitrary: acc)
  case (Cons c v)
  show ?case
  proof (cases "isdigit c")
    case True
    let ?acc = "acc * 10 + (code c - 48)"
    have d: "the (dec_value c) = code c - 48" using True by (simp add: dec_value_def)
    have "?acc \<le> digits_value dec_value 10 ?acc v" by (rule digits_value_ge) simp
    with True d Cons.IH [of ?acc] show ?thesis by auto
  qed simp
qed auto

lemma parse_upstream_port_iff:
  "parse_upstream_port v = Inr n \<longleftrightarrow>
    v \<noteq> [] \<and> list_all isdigit v \<and> n = digits_value dec_value 10 0 v \<and> 1 \<le> n \<and> n \<le> 65535"
  by (auto simp: parse_upstream_port_def r_bind_Inr_iff upstream_port_digits_eq)

text \<open>What the proxy relies on in a target, and the server in a rule.\<close>

definition wf_target :: "reverse_proxy_target \<Rightarrow> bool" where
  "wf_target u \<longleftrightarrow> pt_scheme u \<in> {''http'', ''https''} \<and> pt_host u \<noteq> [] \<and> 1 \<le> pt_port u \<and> pt_port u \<le> 65535 \<and>
     pt_base_path u \<noteq> [] \<and> hd (pt_base_path u) = CHR ''/'' \<and> pt_authority u \<noteq> [] \<and>
     CHR ''/'' \<notin> set (pt_authority u) \<and> CHR ''@'' \<notin> set (pt_authority u) \<and>
     \<not> contains_control_character (pt_authority u) \<and> \<not> contains_control_character (pt_base_path u)"

definition wf_rule :: "virtual_host_rule \<Rightarrow> bool" where
  "wf_rule rule \<longleftrightarrow> valid_host_pattern (vr_host_pattern rule) \<and>
     lowercase (vr_host_pattern rule) = vr_host_pattern rule \<and>
     (case vr_action rule of
        static_files \<Rightarrow> vr_document_root rule \<noteq> [] \<and> vr_upstreams rule = []
      | reverse_proxy \<Rightarrow> vr_upstreams rule \<noteq> [] \<and> list_all wf_target (vr_upstreams rule)
      | server_side_script \<Rightarrow> valid_runtime_name (vr_script_runtime rule) \<and> vr_script_root rule \<noteq> [] \<and>
          vr_upstreams rule = [])"

lemma contains_control_character_subset:
  "set s \<subseteq> set t \<Longrightarrow> \<not> contains_control_character t \<Longrightarrow> \<not> contains_control_character s"
  by (auto simp: contains_control_character_def list_ex_iff)

lemma parse_authority_range:
  assumes "parse_authority a d = Inr (host, port)" "1 \<le> d" "d \<le> 65535"
  shows "1 \<le> port \<and> port \<le> 65535"
  using assms
  by (auto simp: parse_authority_def Let_def r_bind_Inr_iff parse_upstream_port_iff split: if_splits option.splits)

lemma parse_reverse_proxy_target_wf:
  assumes "parse_reverse_proxy_target v = Inr u"
  shows "wf_target u"
proof -
  let ?text = "trim v"
  let ?plain = "starts_with ?text ''http://''"
  let ?t = "drop (if ?plain then 7 else 8) ?text"
  let ?i = "find_char (CHR ''/'') ?t"
  let ?a = "case ?i of None \<Rightarrow> ?t | Some i \<Rightarrow> take i ?t"
  let ?b = "case ?i of None \<Rightarrow> ''/'' | Some i \<Rightarrow> drop i ?t"
  let ?d = "if ?plain then 80 else 443 :: nat"
  obtain host port where h: "parse_authority ?a ?d = Inr (host, port)" "host \<noteq> []" "?b \<noteq> []" "hd ?b = CHR ''/''"
    and ctl: "\<not> contains_control_character ?text" and a: "?a \<noteq> []" "find_char (CHR ''@'') ?a = None"
    and u: "u = \<lparr>pt_scheme = if ?plain then ''http'' else ''https'', pt_host = host, pt_port = port,
      pt_base_path = ?b, pt_authority = ?a\<rparr>"
    using assms unfolding parse_reverse_proxy_target_def Let_def
    by (auto simp: r_bind_Inr_iff split: if_splits)
  have t: "set ?t \<subseteq> set ?text" by (rule set_drop_subset)
  have "set ?a \<subseteq> set ?t" "?i \<noteq> None \<Longrightarrow> set ?b \<subseteq> set ?t"
    by (cases ?i; auto simp del: drop_drop dest: in_set_takeD in_set_dropD)+
  with t have sub: "set ?a \<subseteq> set ?text" "?i \<noteq> None \<Longrightarrow> set ?b \<subseteq> set ?text" by blast+
  have "\<not> contains_control_character ?b"
    using sub(2) contains_control_character_subset [OF _ ctl, of ?b]
    by (cases ?i) (simp_all add: contains_control_character_def)
  moreover have "CHR ''/'' \<notin> set ?a"
    by (auto split: option.splits simp: find_char_None_iff dest: find_char_Some)
  moreover have "1 \<le> port \<and> port \<le> 65535" by (rule parse_authority_range [OF h(1)]) simp_all
  moreover have "CHR ''@'' \<notin> set ?a" using a(2) unfolding find_char_None_iff .
  ultimately show ?thesis
    using h(2-4) a(1) contains_control_character_subset [OF sub(1) ctl]
    unfolding wf_target_def u by simp
qed

lemma parse_virtual_host_rule_wf:
  assumes "parse_virtual_host_rule entry = Inr rule"
  shows "wf_rule rule"
proof -
  have targets: "ts \<noteq> [] \<and> list_all wf_target ts" if "parse_reverse_proxy_targets v = Inr ts" for v ts
  proof -
    have "list_all2 (\<lambda>x y. parse_reverse_proxy_target x = Inr y) (split_delimited v (CHR '','')) ts" "ts \<noteq> []"
      using that by (auto simp: parse_reverse_proxy_targets_def r_bind_Inr_iff map_result_Inr split: if_splits)
    then show ?thesis
      by (auto simp: list_all_length list_all2_conv_all_nth intro: parse_reverse_proxy_target_wf)
  qed
  show ?thesis
    using assms targets
    by (auto simp: parse_virtual_host_rule_def wf_rule_def new_virtual_host_rule_def Let_def r_bind_Inr_iff
      split: option.splits if_splits)
qed

lemma parsed_rules_wf:
  assumes "parse_virtual_host_rules cfg = Inr rules"
  shows "list_all wf_rule rules"
  using assms
  by (auto simp: parse_virtual_host_rules_def map_result_Inr list_all_length list_all2_conv_all_nth
    intro: parse_virtual_host_rule_wf)

text \<open>C25: The virtual host configuration is either refused or well formed: every pattern is valid and in lower
  case; a static host has a document root; a proxy host has at least one upstream, and each upstream has a
  scheme http or https, a non-empty host, a port from 1 to 65535, a path that starts with a slash and no
  control character, so that nothing in it can end a header line; a script host has a valid runtime name and
  a root.\<close>

theorem virtual_host_rules_wf:
  assumes "parse_virtual_host_rules cfg = Inr rules"
  shows "list_all wf_rule rules"
  using assms by (rule parsed_rules_wf)

section \<open>Routing\<close>

text \<open>A wildcard pattern covers the host names with at least one more character in front of its suffix.\<close>

definition covers :: "string \<Rightarrow> string \<Rightarrow> bool" where
  "covers pattern host \<longleftrightarrow> (\<exists>x s. pattern = ''*.'' @ s \<and> x \<noteq> [] \<and> host = x @ ''.'' @ s)"

lemma hostname_matches_wildcard:
  assumes "lowercase pattern = pattern" "lowercase host = host" "starts_with pattern ''*.''"
  shows "hostname_matches_pattern host pattern \<longleftrightarrow> covers pattern host"
proof -
  obtain s where p: "pattern = ''*.'' @ s" using assms(3) by (auto simp: starts_with_def prefix_def)
  have "hostname_matches_pattern host pattern \<longleftrightarrow> length (CHR ''.'' # s) < length host \<and> suffix (CHR ''.'' # s) host"
    unfolding hostname_matches_pattern_def Let_def assms(1,2) by (simp add: p starts_with_def ends_with_def)
  also have "\<dots> \<longleftrightarrow> covers pattern host" by (auto simp: covers_def p suffix_def)
  finally show ?thesis .
qed

lemma select_by_host_spec:
  assumes "request_header r ''host'' = Some h" "normalize_host h \<noteq> []" "CHR ''*'' \<notin> set (normalize_host h)"
    and low: "lowercase (normalize_host h) = normalize_host h" "\<And>e. e \<in> set es \<Longrightarrow> lowercase (pattern e) = pattern e"
  shows "select_by_host pattern r es =
    (case find (\<lambda>e. pattern e = normalize_host h) es of
       Some e \<Rightarrow> Some e | None \<Rightarrow> find (\<lambda>e. covers (pattern e) (normalize_host h)) es)"
proof -
  let ?h = "normalize_host h"
  have exact: "\<not> starts_with (pattern e) ''*.'' \<and> hostname_matches_pattern ?h (pattern e) \<longleftrightarrow> pattern e = ?h"
    if "e \<in> set es" for e
    using low(2) [OF that] low(1) assms(3)
    by (auto simp: hostname_matches_pattern_def Let_def starts_with_def prefix_def)
  have wild: "starts_with (pattern e) ''*.'' \<and> hostname_matches_pattern ?h (pattern e) \<longleftrightarrow> covers (pattern e) ?h"
    if "e \<in> set es" for e
    using hostname_matches_wildcard [OF low(2) [OF that] low(1)]
    by (auto simp: starts_with_def covers_def)
  have "find (\<lambda>e. \<not> starts_with (pattern e) ''*.'' \<and> hostname_matches_pattern ?h (pattern e)) es =
      find (\<lambda>e. pattern e = ?h) es"
    by (rule find_cong [OF refl]) (rule exact)
  moreover have "find (\<lambda>e. starts_with (pattern e) ''*.'' \<and> hostname_matches_pattern ?h (pattern e)) es =
      find (\<lambda>e. covers (pattern e) ?h) es"
    by (rule find_cong [OF refl]) (rule wild)
  ultimately show ?thesis using assms(1,2) by (simp add: select_by_host_def Let_def split: option.split)
qed

text \<open>The host part of a Host header: a name and possibly a port.\<close>

definition port_suffix :: "string \<Rightarrow> bool" where
  "port_suffix p \<longleftrightarrow> p = [] \<or> hd p = CHR '':'' \<and> CHR '':'' \<notin> set (tl p) \<and> no_space p"

lemma rfind_char_append: "c \<notin> set t \<Longrightarrow> rfind_char c (s @ c # t) = Some (length s)"
  using find_char_append [of c "rev t" "rev s"] by (simp add: rfind_char_def)

lemma trim_no_space: "no_space s \<Longrightarrow> trim s = s"
  by (rule trim_id) (cases s, simp_all add: no_space_def list_all_iff)

lemma normalize_host_name:
  assumes "no_space name" "CHR '':'' \<notin> set name" "CHR ''['' \<notin> set name" "name \<noteq> []" "port_suffix port"
  shows "normalize_host (name @ port) = lowercase name"
proof -
  have ns: "no_space (name @ port)" using assms(1,5) by (auto simp: port_suffix_def no_space_def)
  have hd: "hd (name @ port) \<noteq> CHR ''[''" using assms(3,4) by (cases name) auto
  show ?thesis
  proof (cases port)
    case Nil
    then have "rfind_char (CHR '':'') name = None" using assms(2) by (simp add: rfind_char_def find_char_None_iff)
    with Nil hd assms(4) ns show ?thesis by (simp add: normalize_host_def trim_no_space Let_def)
  next
    case (Cons c p)
    with assms(5) have p: "port = CHR '':'' # p" "CHR '':'' \<notin> set p" by (auto simp: port_suffix_def)
    have "find_char (CHR '':'') (name @ port) = Some (length name)"
      "rfind_char (CHR '':'') (name @ port) = Some (length name)"
      using find_char_append [OF assms(2)] rfind_char_append [OF p(2)] by (simp_all add: p(1))
    with hd assms(4) ns show ?thesis by (simp add: normalize_host_def trim_no_space Let_def)
  qed
qed

text \<open>C22: Requests are routed to the rule of their host: whatever the letter case of the Host header and whether
  or not it carries a port, the first rule whose pattern is the host name is chosen; only when there is none,
  the first wildcard rule whose suffix the name ends with, at least one character before it.\<close>

theorem virtual_host_routing:
  assumes "parse_virtual_host_rules cfg = Inr rules" "request_header r ''host'' = Some (name @ port)"
    and "name \<noteq> []" "no_space name" "set name \<inter> set '':[*'' = {}" "port_suffix port"
  shows "select_virtual_host_rule r rules =
    (case find (\<lambda>rule. vr_host_pattern rule = lowercase name) rules of
       Some rule \<Rightarrow> Some rule
     | None \<Rightarrow> find (\<lambda>rule. covers (vr_host_pattern rule) (lowercase name)) rules)"
proof -
  have n: "normalize_host (name @ port) = lowercase name"
    using assms(3-6) by (intro normalize_host_name) auto
  have "CHR ''*'' \<notin> set (lowercase name)"
  proof
    assume "CHR ''*'' \<in> set (lowercase name)"
    then obtain c where "c \<in> set name" "tolower c = CHR ''*''" by (auto simp: lowercase_def)
    moreover from this have "code c = 42" using code_tolower [of c] by (auto simp: isupper_def split: if_splits)
    ultimately show False
      using assms(5) of_char_eq_iff [of c "CHR ''*''", where ?'a = nat] by auto
  qed
  moreover have "lowercase (vr_host_pattern e) = vr_host_pattern e" if "e \<in> set rules" for e
    using assms(1) that parse_virtual_host_rule_wf
    by (fastforce simp: parse_virtual_host_rules_def map_result_Inr in_set_conv_nth list_all2_conv_all_nth wf_rule_def)
  ultimately show ?thesis
    using select_by_host_spec [OF assms(2), where es = rules and pattern = vr_host_pattern] n assms(3)
    by (simp add: select_virtual_host_rule_def split: option.split)
qed

text \<open>Targets round trip: a target written as scheme, host, port and path is read back with exactly these
  parts, for every host without white space, slash, colon, at sign or opening bracket, every port from 1 to 65535 and every
  path that starts with a slash.\<close>

theorem proxy_target_roundtrip:
  assumes "scheme = ''http'' \<or> scheme = ''https''" "host \<noteq> []" "set host \<inter> set ''/:@['' = {}" "1 \<le> port" "port \<le> 65535"
    and "no_space (host @ path)" "\<not> contains_control_character (host @ path)" "path \<noteq> []" "hd path = CHR ''/''"
  shows "parse_reverse_proxy_target (scheme @ ''://'' @ host @ '':'' @ to_string port @ path) =
    Inr \<lparr>pt_scheme = scheme, pt_host = host, pt_port = port, pt_base_path = path,
         pt_authority = host @ '':'' @ to_string port\<rparr>"
proof -
  let ?auth = "host @ '':'' @ to_string port"
  let ?text = "scheme @ ''://'' @ ?auth @ path"
  have digits: "list_all isdigit (to_string port)" by (rule to_string_isdigit)
  then have dig: "c \<noteq> CHR ''/'' \<and> c \<noteq> CHR '':'' \<and> c \<noteq> CHR ''@'' \<and> \<not> isspace c \<and> \<not> (code c < 32 \<or> code c = 127)"
    if "c \<in> set (to_string port)" for c
    using that by (auto simp: list_all_iff isdigit_def isspace_def)
  have ns: "no_space ?text" using assms(1,6) dig by (auto simp: no_space_def list_all_iff isspace_def)
  have ctl: "\<not> contains_control_character ?text"
    using assms(1,7) dig by (auto simp: contains_control_character_def list_ex_iff)
  obtain p where path: "path = CHR ''/'' # p" using assms(8,9) by (cases path) auto
  have slash: "CHR ''/'' \<notin> set ?auth" using assms(3) dig by auto
  have at: "find_char (CHR ''@'') ?auth = None" using assms(3) dig by (auto simp: find_char_None_iff)
  have hd: "hd ?auth \<noteq> CHR ''[''" using assms(2,3) by (cases host) auto
  have colon: "rfind_char (CHR '':'') ?auth = Some (length host)"
    using rfind_char_append [of "CHR '':''" "to_string port" host] dig by auto
  have port: "parse_upstream_port (to_string port) = Inr port"
    using assms(4,5) digits by (simp add: parse_upstream_port_iff to_string_value)
  have auth: "parse_authority ?auth d = Inr (host, port)" for d
    using hd colon port by (simp add: parse_authority_def)
  let ?n = "if scheme = ''http'' then 7 else 8 :: nat"
  have plain: "starts_with ?text ''http://'' \<longleftrightarrow> scheme = ''http''" "starts_with ?text ''https://'' \<longleftrightarrow> scheme = ''https''"
    "drop ?n ?text = ?auth @ path"
    using assms(1) by (auto simp: starts_with_def)
  have find: "find_char (CHR ''/'') (?auth @ path) = Some (length ?auth)"
    unfolding path by (rule find_char_append [OF slash])
  have parts: "take (length ?auth) (?auth @ path) = ?auth" "drop (length ?auth) (?auth @ path) = path" by simp_all
  have whole: "scheme @ ''://'' @ host @ '':'' @ to_string port @ path = ?text" by simp
  have ne: "?auth \<noteq> []" by simp
  show ?thesis
    unfolding whole parse_reverse_proxy_target_def Let_def trim_no_space [OF ns] plain
    using assms(1,2,4,8,9) ctl ne auth
    by (simp only: find parts at option.case r_bind_simps prod.case simp_thms if_False if_True) auto
qed

section \<open>Witnesses\<close>

definition vhost_sample :: string where
  "vhost_sample = ''*.Example.com=proxy:http://up ; a.example.com = static: /srv/a''"

definition vhost_request_sample :: request where
  "vhost_request_sample = new_request\<lparr>rq_headers := [(''host'', ''A.example.COM:80'')]\<rparr>"

lemma vhost_sample_rules:
  "parse_virtual_host_rules vhost_sample =
    Inr [\<lparr>vr_host_pattern = ''*.example.com'', vr_action = reverse_proxy, vr_document_root = [],
           vr_upstreams = [\<lparr>pt_scheme = ''http'', pt_host = ''up'', pt_port = 80, pt_base_path = ''/'', pt_authority = ''up''\<rparr>],
           vr_script_runtime = [], vr_script_root = []\<rparr>,
         \<lparr>vr_host_pattern = ''a.example.com'', vr_action = static_files, vr_document_root = ''/srv/a'', vr_upstreams = [],
           vr_script_runtime = [], vr_script_root = []\<rparr>]"
  by code_simp

theorem virtual_host_rules_wf_witness:
  "\<exists>rules. parse_virtual_host_rules vhost_sample = Inr rules \<and> rules \<noteq> [] \<and> list_all wf_rule rules"
  using virtual_host_rules_wf [OF vhost_sample_rules] vhost_sample_rules by blast

theorem virtual_host_routing_witness:
  "\<exists>rules. parse_virtual_host_rules vhost_sample = Inr rules \<and>
    map_option vr_document_root (select_virtual_host_rule vhost_request_sample rules) = Some ''/srv/a''"
proof -
  have "request_header vhost_request_sample ''host'' = Some (''A.example.COM'' @ '':80'')" by code_simp
  moreover have "no_space ''A.example.COM''" "port_suffix '':80''" by code_simp+
  moreover have "lowercase ''A.example.COM'' = ''a.example.com''" by code_simp
  ultimately show ?thesis
    using virtual_host_routing [OF vhost_sample_rules, of vhost_request_sample "''A.example.COM''" "'':80''"]
      vhost_sample_rules by simp
qed

theorem proxy_target_roundtrip_witness:
  "parse_reverse_proxy_target (''https'' @ ''://'' @ ''up.org'' @ '':'' @ to_string 8443 @ ''/api'') =
    Inr \<lparr>pt_scheme = ''https'', pt_host = ''up.org'', pt_port = 8443, pt_base_path = ''/api'',
         pt_authority = ''up.org'' @ '':'' @ to_string 8443\<rparr>"
proof -
  have "no_space (''up.org'' @ ''/api'')" "\<not> contains_control_character (''up.org'' @ ''/api'')" by code_simp+
  then show ?thesis by (intro proxy_target_roundtrip) simp_all
qed

end
