(* ===== verification/Reverse_Proxy.thy ===== *)
theory Reverse_Proxy
  imports Virtual_Host Http1_Session
begin

text \<open>
  The reverse proxy of \<open>src/src/http/virtual_host.cpp\<close>: the request sent to an upstream server, the reading of its
  response, the order of the attempts, the circuit breakers and \<open>reverse_proxy_response\<close>. Sockets and TLS
  (connect, write, read until close) are the parameter \<open>exchange\<close>, one call per attempt: the bytes received, or
  \<open>None\<close> for an exception. The steady clock is the parameter \<open>clock\<close>: two readings per attempt, in nanoseconds.
\<close>

section \<open>The upstream request\<close>

definition is_hop_by_hop_header :: "string \<Rightarrow> bool" where
  "is_hop_by_hop_header name \<longleftrightarrow>
     name \<in> {''connection'', ''keep-alive'', ''proxy-authenticate'', ''proxy-authorization'', ''te'', ''trailer'',
       ''transfer-encoding'', ''upgrade''}"

function strip_slashes :: "string \<Rightarrow> string" where
  "strip_slashes base = (if length base > 1 \<and> last base = CHR ''/'' then strip_slashes (butlast base) else base)"
  by pat_completeness auto
termination
  by (relation "measure length") auto

declare strip_slashes.simps [simp del]

definition reverse_proxy_target_path :: "reverse_proxy_target \<Rightarrow> string \<Rightarrow> string" where
  "reverse_proxy_target_path upstream request_target =
     (if pt_base_path upstream = [] \<or> pt_base_path upstream = ''/'' then
        (if request_target = [] then ''/'' else request_target)
      else
        let base = strip_slashes (pt_base_path upstream) in
        if request_target = [] then base
        else if hd request_target = CHR ''/'' then base @ request_target
        else base @ ''/'' @ request_target)"

text \<open>The headers of the upstream request, in the order they are written.\<close>

definition forwarded_headers :: "(headers \<Rightarrow> headers) \<Rightarrow> request \<Rightarrow> headers" where
  "forwarded_headers it r =
     map (\<lambda>(name, v). (lowercase name, v))
       (filter (\<lambda>(name, v). \<not> (lowercase name = ''host'' \<or> lowercase name = ''content-length'' \<or>
          is_hop_by_hop_header (lowercase name))) (it (rq_headers r)))"

definition upstream_headers ::
    "(headers \<Rightarrow> headers) \<Rightarrow> (string \<Rightarrow> string option) \<Rightarrow> request \<Rightarrow> reverse_proxy_target \<Rightarrow> headers" where
  "upstream_headers it fs r upstream =
     [(''host'', pt_authority upstream), (''connection'', ''close'')] @
     (case request_header r ''host'' of None \<Rightarrow> [] | Some h \<Rightarrow> [(''x-forwarded-host'', h)]) @
     forwarded_headers it r @
     [(''content-length'', to_string (length (body_text fs r 0)))]"

definition build_reverse_proxy_upstream_request ::
    "(headers \<Rightarrow> headers) \<Rightarrow> (string \<Rightarrow> string option) \<Rightarrow> request \<Rightarrow> reverse_proxy_target \<Rightarrow> string" where
  "build_reverse_proxy_upstream_request it fs r upstream =
     rq_method r @ '' '' @ reverse_proxy_target_path upstream (rq_target r) @ '' HTTP/1.1'' @ CRLF @
     render_headers (upstream_headers it fs r upstream) @ CRLF @ body_text fs r 0"

section \<open>The upstream response\<close>

text \<open>The outer \<open>None\<close> is a loop that never ends, \<open>Inl\<close> an exception, the inner \<open>None\<close> is \<open>std::nullopt\<close>.\<close>

partial_function (option) decode_upstream_chunked :: "string \<Rightarrow> nat \<Rightarrow> string \<Rightarrow> string option result option" where
  "decode_upstream_chunked encoded cursor body =
     (case find_from encoded CRLF cursor of
        None \<Rightarrow> Some (Inr None)
      | Some line_end \<Rightarrow>
          (case chunk_size_line encoded cursor line_end of
             None \<Rightarrow> Some (Inr None)
           | Some chunk_size \<Rightarrow>
               let cursor = line_end + 2 in
               if chunk_size = 0 then Some (Inr (Some body))
               else if length encoded < sz (cursor + chunk_size + 2) then Some (Inr None)
               else
                 let body = body @ substr encoded cursor chunk_size;
                     cursor = sz (cursor + chunk_size)
                 in if cursor > length encoded then Some (Inl ''std::out_of_range'')
                    else if substr encoded cursor 2 \<noteq> CRLF then Some (Inr None)
                    else decode_upstream_chunked encoded (cursor + 2) body))"

declare decode_upstream_chunked.simps [code]

text \<open>\<open>status >> version >> status_code\<close> and the rest of the line: \<open>None\<close> when the extraction fails. The number is
  read after the white space in front of it.\<close>

definition read_status_line :: "string \<Rightarrow> (string \<times> int \<times> string) option" where
  "read_status_line line =
     (let t = dropWhile isspace line;
          version = takeWhile (\<lambda>c. \<not> isspace c) t;
          rest = dropWhile (\<lambda>c. \<not> isspace c) t
      in if version = [] then None
         else
           case stoi rest of
             Inl _ \<Rightarrow> None
           | Inr (status_code, consumed) \<Rightarrow> Some (version, status_code, drop consumed rest))"

record upstream_head =
  uh_headers :: headers
  uh_chunked :: bool

definition upstream_header_line :: "string \<Rightarrow> upstream_head \<Rightarrow> upstream_head" where
  "upstream_header_line line h =
     (case find_char (CHR '':'') line of
        None \<Rightarrow> h
      | Some separator \<Rightarrow>
          let name = lowercase (trim (take separator line)); v = trim (drop (separator + 1) line) in
          if name = ''transfer-encoding'' \<and> lowercase v = ''chunked'' then h\<lparr>uh_chunked := True\<rparr>
          else if name = ''content-length'' \<or> is_hop_by_hop_header name then h
          else h\<lparr>uh_headers := AList.update name v (uh_headers h)\<rparr>)"

function upstream_header_lines :: "string \<Rightarrow> upstream_head \<Rightarrow> upstream_head" where
  "upstream_header_lines s h =
     (case getline s of
        None \<Rightarrow> h
      | Some (line0, rest) \<Rightarrow>
          let line = strip_cr line0 in
          if line = [] then h else upstream_header_lines rest (upstream_header_line line h))"
  by pat_completeness auto
termination
  by (relation "measure (\<lambda>(s, h). length s)") (auto dest: getline_shorter)

declare upstream_header_lines.simps [simp del]

definition parse_reverse_proxy_upstream_response :: "string \<Rightarrow> response result option" where
  "parse_reverse_proxy_upstream_response raw_response =
     (case find_from raw_response (CRLF @ CRLF) 0 of
        None \<Rightarrow> Some (Inl ''upstream response missing headers'')
      | Some header_end \<Rightarrow>
          (case getline (take header_end raw_response) of
             None \<Rightarrow> Some (Inl ''upstream response missing status line'')
           | Some (line0, headers_input) \<Rightarrow>
               (case read_status_line (strip_cr line0) of
                  None \<Rightarrow> Some (Inl ''upstream response status line is invalid'')
                | Some (version, status_code, rest) \<Rightarrow>
                    if \<not> starts_with version ''HTTP/'' then Some (Inl ''upstream response status line is invalid'')
                    else
                      let reason = trim rest;
                          reason = (if reason = [] then reason_phrase status_code else reason);
                          h = upstream_header_lines headers_input \<lparr>uh_headers = [], uh_chunked = False\<rparr>;
                          r = \<lparr>rs_status = status_code, rs_reason = reason, rs_headers = uh_headers h, rs_body = []\<rparr>;
                          raw_body = drop (header_end + 4) raw_response
                      in if uh_chunked h then
                           map_option (\<lambda>res. r_bind res (\<lambda>decoded.
                             case decoded of None \<Rightarrow> Inl ''upstream chunked body is invalid''
                             | Some b \<Rightarrow> Inr (r\<lparr>rs_body := b\<rparr>))) (decode_upstream_chunked raw_body 0 [])
                         else Some (Inr (r\<lparr>rs_body := raw_body\<rparr>)))))"

section \<open>The order of the attempts\<close>

definition bounded_proxy_attempts :: "nat \<Rightarrow> nat \<Rightarrow> nat" where
  "bounded_proxy_attempts upstream_count retry_count =
     (let requested_attempts = min (if retry_count = size_max then retry_count else retry_count + 1) 16
      in if upstream_count = 1 then requested_attempts else min upstream_count requested_attempts)"

text \<open>The FNV-1a hash of the host and the target.\<close>

definition fnv_hash :: "string \<Rightarrow> u64" where
  "fnv_hash key = foldl (\<lambda>h ch. (h XOR ucast (byte_of_char ch)) * 1099511628211) 1469598103934665603 key"

definition stable_hash_start :: "request \<Rightarrow> nat \<Rightarrow> nat" where
  "stable_hash_start r upstream_count =
     (let key = (case request_header r ''host'' of None \<Rightarrow> [] | Some h \<Rightarrow> h) @ [LF] @ rq_target r
      in unat (fnv_hash key) mod upstream_count)"

text \<open>The counter \<open>next_proxy_upstream\<close> is threaded through.\<close>

definition ordered_reverse_proxy_upstreams ::
    "request \<Rightarrow> reverse_proxy_target list \<Rightarrow> reverse_proxy_settings \<Rightarrow> u64 \<Rightarrow> reverse_proxy_target list \<times> u64" where
  "ordered_reverse_proxy_upstreams r upstreams settings counter =
     (if upstreams = [] then ([], counter)
      else
        let (start, counter) =
              (case px_load_balancing_policy settings of
                 round_robin \<Rightarrow> (unat counter mod length upstreams, counter + 1)
               | stable_hash \<Rightarrow> (stable_hash_start r (length upstreams), counter)
               | failover \<Rightarrow> (0, counter));
            attempts = bounded_proxy_attempts (length upstreams) (px_retry_count settings)
        in if length upstreams = 1 then (replicate attempts (hd upstreams), counter)
           else (map (\<lambda>attempt. upstreams ! ((start + attempt) mod length upstreams)) [0..<attempts], counter))"

section \<open>Circuit breakers\<close>

record circuit_breaker_entry =
  cb_failure_count :: u64
  cb_opened_until :: int

type_synonym circuit_breakers = "string \<rightharpoonup> circuit_breaker_entry"

definition new_breaker :: circuit_breaker_entry where
  "new_breaker = \<lparr>cb_failure_count = 0, cb_opened_until = 0\<rparr>"

definition upstream_circuit_key :: "reverse_proxy_target \<Rightarrow> string" where
  "upstream_circuit_key upstream = pt_scheme upstream @ ''://'' @ pt_authority upstream @ pt_base_path upstream"

definition reverse_proxy_upstream_available ::
    "reverse_proxy_target \<Rightarrow> reverse_proxy_settings \<Rightarrow> int \<Rightarrow> circuit_breakers \<Rightarrow> bool \<times> circuit_breakers" where
  "reverse_proxy_upstream_available upstream settings now cbs =
     (if \<not> px_circuit_breaker_enabled settings then (True, cbs)
      else
        case cbs (upstream_circuit_key upstream) of
          None \<Rightarrow> (True, cbs)
        | Some entry \<Rightarrow>
            if cb_opened_until entry = 0 then (True, cbs)
            else if now < cb_opened_until entry then (False, cbs)
            else (True, cbs (upstream_circuit_key upstream := None)))"

definition record_reverse_proxy_upstream_success ::
    "reverse_proxy_target \<Rightarrow> reverse_proxy_settings \<Rightarrow> circuit_breakers \<Rightarrow> circuit_breakers" where
  "record_reverse_proxy_upstream_success upstream settings cbs =
     (if \<not> px_circuit_breaker_enabled settings then cbs else cbs (upstream_circuit_key upstream := None))"

definition record_reverse_proxy_upstream_failure ::
    "reverse_proxy_target \<Rightarrow> reverse_proxy_settings \<Rightarrow> int \<Rightarrow> circuit_breakers \<Rightarrow> circuit_breakers" where
  "record_reverse_proxy_upstream_failure upstream settings now cbs =
     (if \<not> px_circuit_breaker_enabled settings then cbs
      else
        let threshold = max (px_circuit_breaker_failure_threshold settings) 1;
            key = upstream_circuit_key upstream;
            entry = (case cbs key of None \<Rightarrow> new_breaker | Some e \<Rightarrow> e);
            entry = entry\<lparr>cb_failure_count := cb_failure_count entry + 1\<rparr>;
            entry = (if unat (cb_failure_count entry) \<ge> threshold
                     then entry\<lparr>cb_opened_until := now + px_circuit_breaker_cooldown_seconds settings * 1000000000\<rparr>
                     else entry)
        in cbs (key \<mapsto> entry))"

section \<open>The response of the proxy\<close>

record proxy_env =
  pe_exchange :: "nat \<Rightarrow> reverse_proxy_target \<Rightarrow> string \<Rightarrow> string option"
  pe_clock :: "nat \<Rightarrow> int \<times> int"

definition bad_gateway :: response where
  "bad_gateway = text_response 502 (''Bad Gateway'' @ [LF]) plain_text"

definition service_unavailable :: "reverse_proxy_settings \<Rightarrow> response" where
  "service_unavailable settings =
     set_header ''retry-after'' (int_to_string (px_circuit_breaker_cooldown_seconds settings))
       (text_response 503 (''Service Unavailable'' @ [LF]) plain_text)"

text \<open>The loop over the ordered upstreams, with the number of the attempt; \<open>None\<close> when reading a response never ends.\<close>

fun proxy_attempts ::
    "proxy_env \<Rightarrow> (reverse_proxy_target \<Rightarrow> string) \<Rightarrow> reverse_proxy_settings \<Rightarrow> nat \<Rightarrow> reverse_proxy_target list \<Rightarrow>
     bool \<Rightarrow> bool \<Rightarrow> circuit_breakers \<Rightarrow> (response \<times> circuit_breakers) option" where
  "proxy_attempts env request_text settings n [] skipped_open_circuit attempted_upstream cbs =
     Some (if \<not> attempted_upstream \<and> skipped_open_circuit then (service_unavailable settings, cbs)
           else (bad_gateway, cbs))"
| "proxy_attempts env request_text settings n (upstream # rest) skipped_open_circuit attempted_upstream cbs =
     (case reverse_proxy_upstream_available upstream settings (fst (pe_clock env n)) cbs of
        (False, cbs) \<Rightarrow> proxy_attempts env request_text settings (n + 1) rest True attempted_upstream cbs
      | (True, cbs) \<Rightarrow>
          let failed = proxy_attempts env request_text settings (n + 1) rest skipped_open_circuit True
                (record_reverse_proxy_upstream_failure upstream settings (snd (pe_clock env n)) cbs)
          in case pe_exchange env n upstream (request_text upstream) of
               None \<Rightarrow> failed
             | Some raw \<Rightarrow>
                 (case parse_reverse_proxy_upstream_response raw of
                    None \<Rightarrow> None
                  | Some (Inl e) \<Rightarrow> failed
                  | Some (Inr response) \<Rightarrow> Some (response, record_reverse_proxy_upstream_success upstream settings cbs)))"

definition reverse_proxy_response ::
    "(headers \<Rightarrow> headers) \<Rightarrow> (string \<Rightarrow> string option) \<Rightarrow> proxy_env \<Rightarrow> request \<Rightarrow> reverse_proxy_target list \<Rightarrow>
     reverse_proxy_settings \<Rightarrow> u64 \<Rightarrow> circuit_breakers \<Rightarrow> (response \<times> u64 \<times> circuit_breakers) option" where
  "reverse_proxy_response it fs env r upstreams settings counter cbs =
     (case ordered_reverse_proxy_upstreams r upstreams settings counter of
        (ordered, counter) \<Rightarrow>
          map_option (\<lambda>(response, cbs). (response, counter, cbs))
            (proxy_attempts env (build_reverse_proxy_upstream_request it fs r) settings 0 ordered False False cbs))"

section \<open>The upstream request is framed by the proxy\<close>

lemma map_of_store_headers:
  "map_of (store_headers hs acc) = map_of acc ++ map_of (rev (map (\<lambda>(n, v). (n, trim v)) hs))"
  by (induction hs arbitrary: acc) (auto simp: store_headers_def update_conv')

lemma strip_slashes_prefix: "strip_slashes p \<noteq> [] \<longleftrightarrow> p \<noteq> []" "set (strip_slashes p) \<subseteq> set p"
proof (induction p rule: strip_slashes.induct)
  case (1 p)
  { case 1 show ?case using "1.IH"(1) by (subst strip_slashes.simps) (cases p rule: rev_cases, auto)
  next
    case 2 show ?case using "1.IH"(2) by (subst strip_slashes.simps) (auto dest: in_set_butlastD) }
qed

lemma target_path_word:
  assumes "no_space t" "t \<noteq> []" "no_space (pt_base_path u)"
  shows "no_space (reverse_proxy_target_path u t) \<and> reverse_proxy_target_path u t \<noteq> []"
  using assms strip_slashes_prefix [of "pt_base_path u"]
  by (auto simp: reverse_proxy_target_path_def Let_def no_space_def list_all_iff isspace_def)

definition dropped_header :: "string \<Rightarrow> bool" where
  "dropped_header n \<longleftrightarrow> n = ''host'' \<or> n = ''content-length'' \<or> is_hop_by_hop_header n"

text \<open>The requests the parser returns; the body may be spooled.\<close>

definition request_wf :: "(string \<Rightarrow> string option) \<Rightarrow> request \<Rightarrow> bool" where
  "request_wf fs r \<longleftrightarrow> no_space (rq_method r) \<and> rq_method r \<noteq> [] \<and> no_space (rq_target r) \<and> rq_target r \<noteq> [] \<and>
     list_all header_ok (rq_headers r) \<and> distinct (map fst (rq_headers r)) \<and> body_wf fs r"

lemma map_of_last:
  assumes "distinct (map fst hs)" "(n, v) \<in> set hs"
  shows "map_of (rev hs) n = Some v"
  using assms by (intro map_of_is_SomeI) (simp_all add: rev_map [symmetric])

lemma forwarded_headers_wf:
  assumes "iterates it" "list_all header_ok (rq_headers r)" "distinct (map fst (rq_headers r))"
  shows "set (forwarded_headers it r) = {h \<in> set (rq_headers r). \<not> dropped_header (fst h)}"
    and "distinct (map fst (forwarded_headers it r))"
proof -
  let ?keep = "\<lambda>(n, v :: string). \<not> dropped_header (lowercase n)"
  have low: "lowercase (fst h) = fst h" if "h \<in> set (it (rq_headers r))" for h
    using that assms(2) by (auto simp: iterates_set [OF assms(1)] list_all_iff header_ok_def)
  have eq: "forwarded_headers it r = filter ?keep (it (rq_headers r))"
    using low unfolding forwarded_headers_def dropped_header_def by (auto intro!: map_idI)
  then show "set (forwarded_headers it r) = {h \<in> set (rq_headers r). \<not> dropped_header (fst h)}"
    using low by (auto simp: iterates_set [OF assms(1)])
  show "distinct (map fst (forwarded_headers it r))"
    unfolding eq using assms(3) by (intro distinct_map_filter) (simp add: iterates_distinct [OF assms(1)])
qed

lemma map_of_trimmed:
  assumes "list_all header_ok hs" "distinct (map fst hs)"
  shows "map_of (rev (map (\<lambda>(n, v). (n, trim v)) hs)) n = map_of hs n"
proof -
  have "map (\<lambda>(n, v). (n, trim v)) hs = hs"
    using assms(1) by (auto simp: list_all_iff header_ok_def intro!: map_idI)
  moreover have "map_of (rev hs) = map_of hs"
    by (rule map_of_eqI) (use assms(2) map_of_last [OF assms(2)] in \<open>auto simp: map_of_is_SomeI\<close>)
  ultimately show ?thesis by simp
qed

lemma map_of_forwarded:
  assumes "iterates it" "list_all header_ok (rq_headers r)" "distinct (map fst (rq_headers r))"
  shows "map_of (forwarded_headers it r) n = (if dropped_header n then None else map_of (rq_headers r) n)"
proof -
  note F = forwarded_headers_wf [OF assms]
  have "map_of (forwarded_headers it r) n = Some v \<longleftrightarrow> \<not> dropped_header n \<and> map_of (rq_headers r) n = Some v" for v
    using F assms(3) by (auto simp: map_of_eq_Some_iff)
  note iff = this
  show ?thesis
  proof (cases "map_of (forwarded_headers it r) n")
    case None
    with iff show ?thesis by (cases "map_of (rq_headers r) n") auto
  next
    case (Some v)
    with iff [of v] show ?thesis by simp
  qed
qed

text \<open>What the upstream server reads of the headers.\<close>

definition received_header :: "request \<Rightarrow> reverse_proxy_target \<Rightarrow> nat \<Rightarrow> string \<Rightarrow> string option" where
  "received_header r u n name =
     (if name = ''host'' then Some (trim (pt_authority u))
      else if name = ''connection'' then Some ''close''
      else if name = ''content-length'' then Some (to_string n)
      else if is_hop_by_hop_header name then None
      else case map_of (rq_headers r) name of
        Some v \<Rightarrow> Some v
      | None \<Rightarrow> if name = ''x-forwarded-host'' then map_of (rq_headers r) ''host'' else None)"

lemma stored_upstream_headers:
  assumes "iterates it" "request_wf fs r"
  shows "map_of (store_headers (upstream_headers it fs r u) []) name =
    received_header r u (length (body_contents fs r)) name"
proof -
  have ok: "list_all header_ok (rq_headers r)" "distinct (map fst (rq_headers r))" "body_wf fs r"
    using assms(2) by (simp_all add: request_wf_def)
  note F = forwarded_headers_wf [OF assms(1) ok(1,2)]
  have fok: "list_all header_ok (forwarded_headers it r)" using F(1) ok(1) by (auto simp: list_all_iff)
  have cl: "trim (to_string n) = to_string n" for n
    using to_string_chars digits_no by (intro trim_no_space) (auto simp: no_space_def list_all_iff)
  have close: "trim ''close'' = ''close''" by code_simp
  have host: "v = trim v" if "map_of (rq_headers r) ''host'' = Some v" for v
    using map_of_SomeD [OF that] ok(1) by (auto simp: list_all_iff header_ok_def)
  have low: "lowercase ''host'' = ''host''" by code_simp
  have body: "body_text fs r 0 = body_contents fs r" using body_text_contents [OF ok(3), of 0] by simp
  have hop: "is_hop_by_hop_header ''connection''" "\<not> is_hop_by_hop_header ''host''"
    "\<not> is_hop_by_hop_header ''content-length''" "\<not> is_hop_by_hop_header ''x-forwarded-host''"
    by (simp_all add: is_hop_by_hop_header_def)
  have "map_of (store_headers (upstream_headers it fs r u) []) name =
    (if name = ''content-length'' then Some (to_string (length (body_contents fs r)))
     else case map_of (forwarded_headers it r) name of
       Some v \<Rightarrow> Some v
     | None \<Rightarrow> if name = ''x-forwarded-host'' \<and> map_of (rq_headers r) ''host'' \<noteq> None then map_of (rq_headers r) ''host''
         else if name = ''connection'' then Some ''close'' else if name = ''host'' then Some (trim (pt_authority u)) else None)"
    unfolding map_of_store_headers upstream_headers_def map_append rev_append map_of_append body
    using map_of_trimmed [OF fok F(2), of name] cl host
    by (auto simp: map_add_def close low request_header_def split: option.split)
  then show ?thesis
    unfolding map_of_forwarded [OF assms(1) ok(1,2)] received_header_def dropped_header_def
    using hop by (auto split: option.split)
qed

text \<open>C9: The proxy frames what it forwards. For every request the parser accepts, read by an upstream server with
  the same grammar, the bytes sent are one request with the client's method, the target below the upstream's
  path and exactly the body; its headers are the proxy's own Host, Connection and Content-Length, no
  Transfer-Encoding or other hop-by-hop header, every other header of the client, and X-Forwarded-Host
  (which the client can supply itself). So nothing a client sends can shift the boundary of the request.\<close>

theorem upstream_request_framed:
  assumes "iterates it" "request_wf fs r" "wf_target u" "no_space (pt_base_path u)"
  shows "\<exists>r'. pr_request (parse_request (build_reverse_proxy_upstream_request it fs r u)) = Some r' \<and>
    rq_method r' = rq_method r \<and> rq_target r' = reverse_proxy_target_path u (rq_target r) \<and>
    rq_version r' = ''HTTP/1.1'' \<and> rq_body r' = body_contents fs r \<and>
    map_of (rq_headers r') = received_header r u (length (body_contents fs r))"
proof -
  have ok: "no_space (rq_method r)" "rq_method r \<noteq> []" "no_space (rq_target r)" "rq_target r \<noteq> []"
    "list_all header_ok (rq_headers r)" "distinct (map fst (rq_headers r))" "body_wf fs r"
    using assms(2) by (simp_all add: request_wf_def)
  let ?hs = "upstream_headers it fs r u" and ?t = "reverse_proxy_target_path u (rq_target r)"
  have body: "body_text fs r 0 = body_contents fs r" using body_text_contents [OF ok(7), of 0] by simp
  have names: "name_ok ''host''" "name_ok ''connection''" "name_ok ''x-forwarded-host''" "name_ok ''content-length''"
    unfolding name_ok_def by code_simp+
  have cl: "LF \<notin> set (to_string n)" for n using to_string_chars [of LF n] by (auto simp: isdigit_def)
  have auth: "LF \<notin> set (pt_authority u)"
    using assms(3) by (auto simp: wf_target_def contains_control_character_def list_ex_iff)
  have xf: "LF \<notin> set v" if "request_header r ''host'' = Some v" for v
    using map_of_SomeD [OF that [unfolded request_header_def]] ok(5) by (auto simp: list_all_iff header_ok_def)
  have fwd: "list_all (\<lambda>(n, v). name_ok n \<and> LF \<notin> set v) (forwarded_headers it r)"
    using forwarded_headers_wf(1) [OF assms(1) ok(5,6)] ok(5) by (auto simp: list_all_iff header_ok_def name_ok_def)
  have "list_all (\<lambda>(n, v). name_ok n \<and> LF \<notin> set v) ?hs"
    unfolding upstream_headers_def using names cl auth xf fwd by (auto split: option.splits)
  note h = parse_headers_stores [OF this, of "[]" "body_contents fs r"]
  have "build_reverse_proxy_upstream_request it fs r u = render_request (rq_method r) ?t ''HTTP/1.1'' ?hs (body_contents fs r)"
    by (simp add: build_reverse_proxy_upstream_request_def render_request_def body)
  moreover have "no_space ?t \<and> ?t \<noteq> []" by (rule target_path_word [OF ok(3,4) assms(4)])
  ultimately show ?thesis
    using parse_rendered [OF ok(1,2) _ _ _ h, of ?t "''HTTP/1.1''"] stored_upstream_headers [OF assms(1,2)] by auto
qed

definition proxied_sample :: request where
  "proxied_sample = new_request\<lparr>rq_method := ''POST'', rq_target := ''/x'', rq_version := ''HTTP/1.1'', rq_body := ''hi'',
     rq_headers := [(''host'', ''a.org''), (''transfer-encoding'', ''chunked''), (''accept'', ''text/html'')]\<rparr>"

definition upstream_sample :: reverse_proxy_target where
  "upstream_sample = \<lparr>pt_scheme = ''http'', pt_host = ''up'', pt_port = 80, pt_base_path = ''/api/'', pt_authority = ''up''\<rparr>"

lemma wf_samples: "request_wf (\<lambda>_. None) proxied_sample" "wf_target upstream_sample" "no_space (pt_base_path upstream_sample)"
  by code_simp+

theorem upstream_request_framed_witness:
  "\<exists>r'. pr_request (parse_request (build_reverse_proxy_upstream_request rev (\<lambda>_. None) proxied_sample upstream_sample)) = Some r' \<and>
    rq_target r' = ''/api/x'' \<and> rq_body r' = ''hi'' \<and> map_of (rq_headers r') ''transfer-encoding'' = None \<and>
    map_of (rq_headers r') ''x-forwarded-host'' = Some ''a.org'' \<and> map_of (rq_headers r') ''accept'' = Some ''text/html''"
proof -
  have "reverse_proxy_target_path upstream_sample (rq_target proxied_sample) = ''/api/x''"
    "body_contents (\<lambda>_. None) proxied_sample = ''hi''"
    "received_header proxied_sample upstream_sample (length ''hi'') ''transfer-encoding'' = None"
    "received_header proxied_sample upstream_sample (length ''hi'') ''x-forwarded-host'' = Some ''a.org''"
    "received_header proxied_sample upstream_sample (length ''hi'') ''accept'' = Some ''text/html''"
    by code_simp+
  then show ?thesis using upstream_request_framed [OF iterates_id(2) wf_samples] by auto
qed

section \<open>The upstream response is read back\<close>

lemma decode_upstream_refines:
  "decode_chunked_spec encoded cursor body = Some res \<Longrightarrow> cr_state res = chunked_complete \<Longrightarrow>
    cursor \<le> length encoded \<Longrightarrow> decode_upstream_chunked encoded cursor body = Some (Inr (Some (cr_body res)))"
proof (induction encoded cursor body rule: decode_chunked_spec.induct)
  case (1 encoded cursor body)
  note prem = "1.prems"(1) [unfolded decode_chunked_spec.simps [of encoded cursor]]
  obtain e where e: "find_from encoded CRLF cursor = Some e"
    using prem "1.prems"(2) by (cases "find_from encoded CRLF cursor") (auto simp: chunked_outcome_def)
  obtain n where n: "chunk_size_line encoded cursor e = Some n"
    using prem "1.prems"(2) e by (cases "chunk_size_line encoded cursor e") (auto simp: chunked_outcome_def)
  have bound: "e + 2 \<le> length encoded" using find_from_bound [OF e] by simp
  show ?case
  proof (cases "n = 0")
    case True
    with prem e n chunked_trailers_bounds [OF bound, of body] show ?thesis
      by (subst decode_upstream_chunked.simps) auto
  next
    case False
    then have c: "\<not> 2 ^ 64 \<le> e + 2 + n + 2" "\<not> length encoded < e + 2 + n + 2" "\<not> substr encoded (e + 2 + n) 2 \<noteq> CRLF"
      using prem e n "1.prems"(2) by (auto simp: Let_def chunked_outcome_def split: if_splits)
    have rec: "decode_chunked_spec encoded (e + 2 + n + 2) (body @ substr encoded (e + 2) n) = Some res"
      using prem e n False c by (simp only: Let_def option.case if_False if_not_P)
    have "decode_upstream_chunked encoded cursor body =
        decode_upstream_chunked encoded (e + 2 + n + 2) (body @ substr encoded (e + 2) n)"
      using e n False c by (subst decode_upstream_chunked.simps) (simp add: Let_def)
    with "1.IH" [OF e n refl False c rec "1.prems"(2)] c show ?thesis by simp
  qed
qed

lemma decode_upstream_encoded:
  assumes "length (encode_chunked_body chunks @ rest) < 2 ^ 64"
  shows "decode_upstream_chunked (encode_chunked_body chunks @ rest) 0 [] = Some (Inr (Some (concat chunks)))"
  using decode_upstream_refines [of "encode_chunked_body chunks @ rest" 0 "[]"]
    decode_encoded_chunks [of "[]" chunks rest "[]"] assms by (simp add: chunked_outcome_def)

text \<open>Header lines joined without a final line end: the part of the response before the empty line.\<close>

fun join_lines :: "string list \<Rightarrow> string" where
  "join_lines [] = []"
| "join_lines [l] = l"
| "join_lines (l # ls) = l @ CRLF @ join_lines ls"

lemma join_lines_Cons: "ls \<noteq> [] \<Longrightarrow> join_lines (l # ls) = l @ CRLF @ join_lines ls"
  by (cases ls) simp_all

lemma find_head_end:
  "LF \<notin> set l \<Longrightarrow> find_sub (CRLF @ CRLF) (l @ CRLF @ s) =
    (if prefix CRLF s then Some (length l) else map_option (\<lambda>i. length l + 2 + i) (find_sub (CRLF @ CRLF) s))"
proof (induction l)
  case Nil
  then show ?case by (cases "find_sub [CR, LF, CR, LF] s") auto
next
  case (Cons c l)
  have "\<not> prefix (CRLF @ CRLF) (c # l @ CRLF @ s)" using Cons.prems by (cases l) auto
  with Cons show ?case by (auto simp: option.map_comp o_def cong: option.map_cong)
qed

lemma find_join_lines:
  assumes "ls \<noteq> []" "list_all (\<lambda>l. LF \<notin> set l) ls" "list_all (\<lambda>l. l \<noteq> []) (tl ls)"
  shows "find_sub (CRLF @ CRLF) (join_lines ls @ CRLF @ CRLF @ body) = Some (length (join_lines ls))"
  using assms
proof (induction ls rule: join_lines.induct)
  case (2 l)
  then show ?case using find_head_end [of l "CRLF @ body"] by simp
next
  case (3 l m ls)
  have "\<not> prefix CRLF (join_lines (m # ls) @ CRLF @ CRLF @ body)"
  proof -
    obtain c m' where m: "m = c # m'" using "3.prems"(3) by (cases m) auto
    have "LF \<notin> set m" using "3.prems"(2) by simp
    then show ?thesis by (cases m'; cases ls) (auto simp: m)
  qed
  with 3 find_head_end [of l "join_lines (m # ls) @ CRLF @ CRLF @ body"] show ?case by simp
qed simp

lemma getline_last: "l \<noteq> [] \<Longrightarrow> LF \<notin> set l \<Longrightarrow> getline l = Some (l, [])"
proof -
  assume l: "l \<noteq> []" "LF \<notin> set l"
  then have "\<forall>c\<in>set l. c \<noteq> LF" by blast
  then have "takeWhile (\<lambda>c. c \<noteq> LF) l = l" "dropWhile (\<lambda>c. c \<noteq> LF) l = []" by simp_all
  with l show ?thesis by (simp add: getline_def del: dropWhile_eq_Nil_conv)
qed

text \<open>A line that \<open>strip_cr\<close> leaves alone.\<close>

definition plain_line :: "string \<Rightarrow> bool" where
  "plain_line l \<longleftrightarrow> l \<noteq> [] \<and> LF \<notin> set l \<and> strip_cr l = l"

lemma getline_join:
  assumes "plain_line l"
  shows "\<exists>l0. getline (join_lines (l # ls)) = Some (l0, join_lines ls) \<and> strip_cr l0 = l"
proof (cases ls)
  case Nil
  with assms show ?thesis by (simp add: getline_last plain_line_def)
next
  case (Cons m ms)
  have "getline ((l @ [CR]) @ LF # join_lines ls) = Some (l @ [CR], join_lines ls)"
    using assms by (intro getline_append) (simp add: plain_line_def)
  then show ?thesis using Cons strip_cr_append [of l] by auto
qed

lemma upstream_header_lines_join:
  "list_all plain_line ls \<Longrightarrow> upstream_header_lines (join_lines ls) h = fold upstream_header_line ls h"
proof (induction ls arbitrary: h)
  case Nil
  then show ?case by (simp add: upstream_header_lines.simps getline_def)
next
  case (Cons l ls)
  then obtain l0 where g: "getline (join_lines (l # ls)) = Some (l0, join_lines ls)" "strip_cr l0 = l"
    using getline_join [of l ls] by auto
  have "upstream_header_lines (join_lines (l # ls)) h = upstream_header_lines (join_lines ls) (upstream_header_line l h)"
    using g Cons.prems by (subst upstream_header_lines.simps) (simp add: plain_line_def)
  with Cons show ?case by simp
qed

definition is_chunked :: "headers \<Rightarrow> bool" where
  "is_chunked hs \<longleftrightarrow> (\<exists>v. map_of hs ''transfer-encoding'' = Some v \<and> lowercase v = ''chunked'')"

definition end_to_end :: "headers \<Rightarrow> headers" where
  "end_to_end hs = filter (\<lambda>(n, v). n \<noteq> ''content-length'' \<and> \<not> is_hop_by_hop_header n) hs"

abbreviation text_line :: "string \<times> string \<Rightarrow> string" where
  "text_line h \<equiv> fst h @ '': '' @ snd h"

lemma upstream_header_line_ok:
  assumes "header_ok (n, v)"
  shows "upstream_header_line (text_line (n, v)) h =
    (if n = ''transfer-encoding'' \<and> lowercase v = ''chunked'' then h\<lparr>uh_chunked := True\<rparr>
     else if n = ''content-length'' \<or> is_hop_by_hop_header n then h
     else h\<lparr>uh_headers := AList.update n v (uh_headers h)\<rparr>)"
proof -
  have ok: "lowercase n = n" "trim n = n" "trim v = v" "CHR '':'' \<notin> set n" using assms by (auto simp: header_ok_def)
  then have "find_char (CHR '':'') (n @ '': '' @ v) = Some (length n)"
    using find_char_append [of "CHR '':''" n "CHR '' '' # v"] by simp
  with ok show ?thesis by (simp add: upstream_header_line_def Let_def trim_space_prefix)
qed

lemma fold_upstream_header_line:
  assumes "list_all header_ok hs" "distinct (map fst hs)" "fst ` set hs \<inter> fst ` set acc = {}"
  shows "fold upstream_header_line (map text_line hs) \<lparr>uh_headers = acc, uh_chunked = b\<rparr> =
    \<lparr>uh_headers = acc @ end_to_end hs, uh_chunked = (b \<or> is_chunked hs)\<rparr>"
  using assms
proof (induction hs arbitrary: acc b)
  case (Cons h hs)
  obtain n v where h: "h = (n, v)" by (cases h)
  have ok: "header_ok (n, v)" and new: "n \<notin> fst ` set hs" "n \<notin> fst ` set acc" using Cons.prems by (auto simp: h)
  have none: "map_of hs n = None" using new(1) by (simp add: map_of_eq_None_iff)
  have hop: "is_hop_by_hop_header ''transfer-encoding''" by (simp add: is_hop_by_hop_header_def)
  have IH: "fold upstream_header_line (map text_line hs) \<lparr>uh_headers = acc', uh_chunked = b'\<rparr> =
      \<lparr>uh_headers = acc' @ end_to_end hs, uh_chunked = (b' \<or> is_chunked hs)\<rparr>"
    if "acc' = acc \<or> acc' = acc @ [(n, v)]" for acc' b'
  proof (rule Cons.IH)
    have "fst ` set acc' \<subseteq> insert n (fst ` set acc)" using that by auto
    then show "fst ` set hs \<inter> fst ` set acc' = {}" using Cons.prems(3) new(1) by (simp add: h) blast
  qed (use Cons.prems in \<open>simp_all add: h\<close>)
  show ?case
    using IH none upstream_header_line_ok [OF ok] new hop
    by (auto simp: h end_to_end_def is_chunked_def update_new)
qed (simp add: end_to_end_def is_chunked_def)

lemma stoi_status:
  assumes "int n \<le> int_max"
  shows "stoi (CHR '' '' # to_string n @ CHR '' '' # t) = Inr (int n, 1 + length (to_string n))"
proof -
  have all: "\<forall>c\<in>set (to_string n). isdigit c" using to_string_isdigit by (simp add: list_all_iff)
  have "hd (to_string n) \<in> set (to_string n)" by (rule hd_in_set) simp
  with all have c: "isdigit (hd (to_string n))" by blast
  obtain d ds where s: "to_string n = d # ds" by (cases "to_string n") simp_all
  have d: "\<not> isspace d" "d \<noteq> CHR ''+''" "d \<noteq> CHR ''-''" using c by (auto simp: s isdigit_def isspace_def)
  have "takeWhile isdigit (to_string n @ CHR '' '' # t) = to_string n"
    using all by (subst takeWhile_append2) (auto simp: isdigit_def)
  then have "scan_number (CHR '' '' # to_string n @ CHR '' '' # t) = Some (False, to_string n, 1 + length (to_string n))"
    using d by (simp add: scan_number_def s isspace_def [of "CHR '' ''"])
  with assms show ?thesis by (simp add: stoi_def to_string_value int_max_def)
qed

lemma read_status_line_ok:
  assumes "int n \<le> int_max"
  shows "read_status_line (''HTTP/1.1 '' @ to_string n @ '' '' @ reason) = Some (''HTTP/1.1'', int n, CHR '' '' # reason)"
  using stoi_status [OF assms, of reason] by (simp add: read_status_line_def isspace_def)

text \<open>A response as an upstream server writes it.\<close>

definition render_response :: "nat \<Rightarrow> string \<Rightarrow> headers \<Rightarrow> string \<Rightarrow> string" where
  "render_response status reason hs payload =
     ''HTTP/1.1 '' @ to_string status @ '' '' @ reason @ CRLF @ render_headers hs @ CRLF @ payload"

lemma render_join:
  "l @ CRLF @ render_headers hs @ CRLF @ payload = join_lines (l # map text_line hs) @ CRLF @ CRLF @ payload"
proof (induction hs arbitrary: l)
  case (Cons h hs)
  have "render_headers (h # hs) = text_line h @ CRLF @ render_headers hs"
    by (cases h) (simp add: render_headers_def)
  with Cons.IH [of "text_line h"] show ?case by (simp only: append.assoc list.map join_lines.simps)
qed (simp add: render_headers_def)

lemma text_line_plain:
  assumes "header_ok h"
  shows "plain_line (text_line h)"
proof -
  have "last (text_line h) \<noteq> CR"
  proof (cases "snd h = []")
    case False
    then have "last (text_line h) = last (snd h)" by simp
    moreover have "\<not> isspace (last (snd h))"
    proof -
      have "rev (dropWhile isspace (rev (snd h))) = snd h"
        using assms dropWhile_isspace_trim [of "snd h"] trim_def [of "snd h"] by (simp add: header_ok_def)
      then have "dropWhile isspace (rev (snd h)) = rev (snd h)" by (metis rev_rev_ident)
      then show ?thesis using False by (metis hd_dropWhile hd_rev rev_is_Nil_conv)
    qed
    ultimately show ?thesis by (auto simp: isspace_def)
  qed simp
  with assms show ?thesis by (auto simp: plain_line_def strip_cr_def header_ok_def)
qed

lemma parse_rendered_head:
  assumes "int status \<le> int_max" "reason \<noteq> []" "trim reason = reason" "LF \<notin> set reason"
    and "list_all header_ok hs" "distinct (map fst hs)"
  defines "r \<equiv> \<lparr>rs_status = int status, rs_reason = reason, rs_headers = end_to_end hs, rs_body = []\<rparr>"
  shows "parse_reverse_proxy_upstream_response (render_response status reason hs payload) =
    (if is_chunked hs then
       map_option (\<lambda>res. r_bind res (\<lambda>decoded.
         case decoded of None \<Rightarrow> Inl ''upstream chunked body is invalid'' | Some b \<Rightarrow> Inr (r\<lparr>rs_body := b\<rparr>)))
         (decode_upstream_chunked payload 0 [])
     else Some (Inr (r\<lparr>rs_body := payload\<rparr>)))"
proof -
  let ?l0 = "''HTTP/1.1 '' @ to_string status @ '' '' @ reason"
  let ?ls = "map text_line hs"
  let ?head = "join_lines (?l0 # ?ls)"
  have raw: "render_response status reason hs payload = ?head @ CRLF @ CRLF @ payload"
    unfolding render_join [symmetric] render_response_def by simp
  have plain: "list_all plain_line ?ls"
    using assms(5) text_line_plain by (auto simp: list_all_iff)
  have "\<not> isspace (last reason)"
    using text_line_plain trim_def [of reason] assms(2,3) dropWhile_isspace_trim [of reason]
    by (metis hd_dropWhile hd_rev rev_is_Nil_conv rev_rev_ident)
  then have l0: "plain_line ?l0"
    using assms(2,4) to_string_chars [of LF status]
    by (auto simp: plain_line_def strip_cr_def isdigit_def isspace_def)
  have "find_sub (CRLF @ CRLF) (?head @ CRLF @ CRLF @ payload) = Some (length ?head)"
    using plain l0 by (intro find_join_lines) (auto simp: list_all_iff plain_line_def)
  then have fe: "find_from (render_response status reason hs payload) (CRLF @ CRLF) 0 = Some (length ?head)"
    unfolding raw by (simp add: find_from_def)
  obtain g0 where g: "getline ?head = Some (g0, join_lines ?ls)" "strip_cr g0 = ?l0"
    using getline_join [OF l0] by blast
  have hl: "upstream_header_lines (join_lines ?ls) \<lparr>uh_headers = [], uh_chunked = False\<rparr> =
      \<lparr>uh_headers = end_to_end hs, uh_chunked = is_chunked hs\<rparr>"
    using fold_upstream_header_line [OF assms(5,6), of "[]" False] upstream_header_lines_join [OF plain] by simp
  have parts: "take (length ?head) (render_response status reason hs payload) = ?head"
    "drop (length ?head + 4) (render_response status reason hs payload) = payload"
    unfolding raw by simp_all
  have v: "starts_with ''HTTP/1.1'' ''HTTP/''" by code_simp
  show ?thesis
    unfolding parse_reverse_proxy_upstream_response_def fe option.case parts g prod.case read_status_line_ok [OF assms(1)]
      hl Let_def trim_space_prefix assms(3) r_def
    using assms(2) v by (simp only: if_not_P simp_thms if_False upstream_head.simps response.simps)
qed

text \<open>C24: Upstream responses round trip through the proxy: for every status, reason phrase, list of well-formed
  headers and body, written with a length or in chunks (followed by anything), the proxy reads back the
  status, the reason, exactly the body, and the headers less Content-Length and the hop-by-hop headers.\<close>

theorem upstream_response_roundtrip:
  assumes "int status \<le> int_max" "reason \<noteq> []" "trim reason = reason" "LF \<notin> set reason"
    and "list_all header_ok hs" "distinct (map fst hs)"
    and "length (encode_chunked_body chunks @ rest) < 2 ^ 64"
  shows "parse_reverse_proxy_upstream_response (render_response status reason hs
      (if is_chunked hs then encode_chunked_body chunks @ rest else concat chunks)) =
    Some (Inr \<lparr>rs_status = int status, rs_reason = reason, rs_headers = end_to_end hs, rs_body = concat chunks\<rparr>)"
  unfolding parse_rendered_head [OF assms(1-6)] using decode_upstream_encoded [OF assms(7)] by simp

definition response_headers_sample :: headers where
  "response_headers_sample =
     [(''content-type'', ''text/plain''), (''transfer-encoding'', ''Chunked''), (''connection'', ''keep-alive'')]"

theorem upstream_response_roundtrip_witness:
  "parse_reverse_proxy_upstream_response (render_response 200 ''OK'' response_headers_sample (encode_chunked_body [''abc'', ''de''] @ [])) =
    Some (Inr \<lparr>rs_status = 200, rs_reason = ''OK'', rs_headers = [(''content-type'', ''text/plain'')], rs_body = ''abcde''\<rparr>)"
proof -
  have "list_all header_ok response_headers_sample" "distinct (map fst response_headers_sample)"
    "end_to_end response_headers_sample = [(''content-type'', ''text/plain'')]" "trim ''OK'' = ''OK''" "LF \<notin> set ''OK''"
    by code_simp+
  moreover have "map_of response_headers_sample ''transfer-encoding'' = Some ''Chunked''" "lowercase ''Chunked'' = ''chunked''"
    by code_simp+
  then have "is_chunked response_headers_sample" by (auto simp: is_chunked_def)
  moreover have "encode_chunked_body [''abc'', ''de''] =
      ''3'' @ CRLF @ ''abc'' @ CRLF @ ''2'' @ CRLF @ ''de'' @ CRLF @ ''0'' @ CRLF @ CRLF"
    by code_simp
  ultimately show ?thesis
    using upstream_response_roundtrip [of 200 "''OK''" response_headers_sample "[''abc'', ''de'']" "[]"]
    by (simp add: int_max_def)
qed

end
