(* ===== verification/Proxy_Resilience.thy ===== *)
theory Proxy_Resilience
  imports Reverse_Proxy
begin

text \<open>
  The properties of the reverse proxy that span several requests: the circuit breaker as a state machine, the
  order in which upstreams are tried, and what a client is answered.
\<close>

section \<open>The circuit breaker\<close>

text \<open>The specification: a breaker counts failures while it is closed and is open until a moment.\<close>

datatype breaker = Closed nat | Open_until int

datatype breaker_event = Check int | Success | Failure int

definition failure_limit :: "reverse_proxy_settings \<Rightarrow> nat" where
  "failure_limit s = max (px_circuit_breaker_failure_threshold s) 1"

definition cooldown :: "reverse_proxy_settings \<Rightarrow> int" where
  "cooldown s = px_circuit_breaker_cooldown_seconds s * 1000000000"

fun breaker_step :: "reverse_proxy_settings \<Rightarrow> breaker_event \<Rightarrow> breaker \<Rightarrow> breaker" where
  "breaker_step s Success b = Closed 0"
| "breaker_step s (Check now) (Closed n) = Closed n"
| "breaker_step s (Check now) (Open_until t) = (if now < t then Open_until t else Closed 0)"
| "breaker_step s (Failure now) (Closed n) = (if n + 1 < failure_limit s then Closed (n + 1) else Open_until (now + cooldown s))"
| "breaker_step s (Failure now) (Open_until t) = Open_until (now + cooldown s)"

fun lets_through :: "int \<Rightarrow> breaker \<Rightarrow> bool" where
  "lets_through now (Closed n) = True"
| "lets_through now (Open_until t) = (t \<le> now)"

text \<open>The program: the calls of the three operations, for any upstream, in the order the mutex gives them.\<close>

fun breaker_call :: "reverse_proxy_settings \<Rightarrow> reverse_proxy_target \<times> breaker_event \<Rightarrow> circuit_breakers \<Rightarrow> circuit_breakers" where
  "breaker_call s (u, Check now) cbs = snd (reverse_proxy_upstream_available u s now cbs)"
| "breaker_call s (u, Success) cbs = record_reverse_proxy_upstream_success u s cbs"
| "breaker_call s (u, Failure now) cbs = record_reverse_proxy_upstream_failure u s now cbs"

definition breaker_of :: "circuit_breakers \<Rightarrow> string \<Rightarrow> breaker" where
  "breaker_of cbs k =
     (case cbs k of
        None \<Rightarrow> Closed 0
      | Some e \<Rightarrow> if cb_opened_until e = 0 then Closed (unat (cb_failure_count e)) else Open_until (cb_opened_until e))"

text \<open>After \<open>m\<close> calls no count is above \<open>m\<close>, and an entry is open exactly when its count has reached the limit.\<close>

definition breakers_inv :: "reverse_proxy_settings \<Rightarrow> nat \<Rightarrow> circuit_breakers \<Rightarrow> bool" where
  "breakers_inv s m cbs \<longleftrightarrow> (\<forall>k e. cbs k = Some e \<longrightarrow>
     unat (cb_failure_count e) \<le> m \<and> (cb_opened_until e = 0 \<longleftrightarrow> unat (cb_failure_count e) < failure_limit s))"

fun event_time_ok :: "breaker_event \<Rightarrow> bool" where
  "event_time_ok (Check now) = True"
| "event_time_ok Success = True"
| "event_time_ok (Failure now) = (0 \<le> now)"

lemma breaker_call_refines:
  assumes "px_circuit_breaker_enabled s" "0 < px_circuit_breaker_cooldown_seconds s" "event_time_ok ev"
    and inv: "breakers_inv s m cbs" and m: "m + 1 < 2 ^ 64"
  shows "breakers_inv s (m + 1) (breaker_call s (u, ev) cbs) \<and>
    breaker_of (breaker_call s (u, ev) cbs) k =
      (if upstream_circuit_key u = k then breaker_step s ev (breaker_of cbs k) else breaker_of cbs k)"
proof (cases ev)
  case (Check now)
  then show ?thesis
    using inv assms(1)
    by (auto simp: reverse_proxy_upstream_available_def breakers_inv_def breaker_of_def le_SucI split: option.splits)
next
  case Success
  then show ?thesis
    using inv assms(1) by (auto simp: record_reverse_proxy_upstream_success_def breakers_inv_def breaker_of_def le_SucI)
next
  case (Failure now)
  let ?key = "upstream_circuit_key u"
  define e where "e = (case cbs ?key of None \<Rightarrow> new_breaker | Some e \<Rightarrow> e)"
  define e' where "e' = e\<lparr>cb_failure_count := cb_failure_count e + 1,
    cb_opened_until := if unat (cb_failure_count e + 1) \<ge> failure_limit s then now + cooldown s else cb_opened_until e\<rparr>"
  have call: "breaker_call s (u, ev) cbs = cbs(?key \<mapsto> e')"
    using assms(1) Failure
    by (simp add: record_reverse_proxy_upstream_failure_def Let_def e'_def failure_limit_def cooldown_def e_def [symmetric])
  have ok: "unat (cb_failure_count e) \<le> m" "cb_opened_until e = 0 \<longleftrightarrow> unat (cb_failure_count e) < failure_limit s"
    using inv by (auto simp: e_def breakers_inv_def new_breaker_def failure_limit_def split: option.splits)
  have b: "breaker_of cbs ?key = (if cb_opened_until e = 0 then Closed (unat (cb_failure_count e)) else Open_until (cb_opened_until e))"
    by (simp add: breaker_of_def e_def new_breaker_def split: option.split)
  have inc: "unat (cb_failure_count e + 1) = unat (cb_failure_count e) + 1"
    using ok(1) m by (subst unat_add_lem [THEN iffD1]) simp_all
  have pos: "now + cooldown s \<noteq> 0" using assms(2,3) Failure by (simp add: cooldown_def)
  have "breakers_inv s (m + 1) (cbs(?key \<mapsto> e'))"
    using inv ok inc pos by (auto simp: breakers_inv_def e'_def le_SucI)
  moreover have "breaker_of (cbs(?key \<mapsto> e')) ?key = breaker_step s ev (breaker_of cbs ?key)"
    using ok inc pos Failure unfolding b by (auto simp: breaker_of_def e'_def)
  ultimately show ?thesis unfolding call by (auto simp: breaker_of_def)
qed

definition breaker_run :: "reverse_proxy_settings \<Rightarrow> (reverse_proxy_target \<times> breaker_event) list \<Rightarrow> circuit_breakers" where
  "breaker_run s calls = fold (breaker_call s) calls Map.empty"

definition calls_of :: "string \<Rightarrow> (reverse_proxy_target \<times> breaker_event) list \<Rightarrow> breaker_event list" where
  "calls_of k calls = map snd (filter (\<lambda>(u, ev). upstream_circuit_key u = k) calls)"

lemma breaker_run_refines:
  assumes "px_circuit_breaker_enabled s" "0 < px_circuit_breaker_cooldown_seconds s"
    and "list_all (\<lambda>(u, ev). event_time_ok ev) calls" "length calls < 2 ^ 64"
  shows "breakers_inv s (length calls) (breaker_run s calls) \<and>
    breaker_of (breaker_run s calls) k = fold (breaker_step s) (calls_of k calls) (Closed 0)"
  using assms(3,4)
proof (induction calls rule: rev_induct)
  case Nil
  then show ?case by (simp add: breaker_run_def breakers_inv_def breaker_of_def calls_of_def)
next
  case (snoc c calls)
  obtain u ev where c: "c = (u, ev)" by (cases c)
  have "breaker_run s (calls @ [c]) = breaker_call s (u, ev) (breaker_run s calls)" by (simp add: breaker_run_def c)
  with snoc breaker_call_refines [OF assms(1,2), of ev "length calls" "breaker_run s calls" u k] show ?case
    by (simp add: c calls_of_def)
qed

text \<open>C10: The circuit breakers implement the breaker automaton. Over every sequence of calls of the three
  operations, for any mix of upstreams, the table starting empty: each upstream's breaker is in the state the
  automaton reaches on its own calls (closed with the number of failures since the last success or expiry, open
  until the cool-down after the last failure once the limit is reached), independently of the others, and
  \<open>reverse_proxy_upstream_available\<close> answers accordingly.\<close>

theorem circuit_breaker_refines:
  assumes "px_circuit_breaker_enabled s" "0 < px_circuit_breaker_cooldown_seconds s"
    and "list_all (\<lambda>(u, ev). event_time_ok ev) calls" "length calls < 2 ^ 64"
  shows "breaker_of (breaker_run s calls) (upstream_circuit_key u) =
      fold (breaker_step s) (calls_of (upstream_circuit_key u) calls) (Closed 0) \<and>
    fst (reverse_proxy_upstream_available u s now (breaker_run s calls)) =
      lets_through now (fold (breaker_step s) (calls_of (upstream_circuit_key u) calls) (Closed 0))"
proof -
  have "fst (reverse_proxy_upstream_available u s now cbs) = lets_through now (breaker_of cbs (upstream_circuit_key u))" for cbs
    using assms(1) by (auto simp: reverse_proxy_upstream_available_def breaker_of_def split: option.split)
  then show ?thesis using breaker_run_refines [OF assms] by simp
qed

definition failing_calls :: "(reverse_proxy_target \<times> breaker_event) list" where
  "failing_calls = [(upstream_sample, Failure 1), (upstream_sample, Check 2), (upstream_sample, Failure 3),
     (upstream_sample\<lparr>pt_authority := ''other''\<rparr>, Success), (upstream_sample, Failure 5)]"

theorem circuit_breaker_refines_witness:
  "\<not> fst (reverse_proxy_upstream_available upstream_sample default_reverse_proxy_settings 10000000004
     (breaker_run default_reverse_proxy_settings failing_calls)) \<and>
   fst (reverse_proxy_upstream_available upstream_sample default_reverse_proxy_settings 10000000005
     (breaker_run default_reverse_proxy_settings failing_calls))"
proof -
  have calls: "calls_of (upstream_circuit_key upstream_sample) failing_calls = [Failure 1, Check 2, Failure 3, Failure 5]"
    by code_simp
  show ?thesis
    using circuit_breaker_refines [of default_reverse_proxy_settings failing_calls upstream_sample]
    unfolding calls by (simp add: failing_calls_def default_reverse_proxy_settings_def failure_limit_def cooldown_def)
qed

section \<open>The order of the attempts\<close>

lemma bounded_attempts:
  "n \<noteq> 0 \<Longrightarrow> 1 \<le> bounded_proxy_attempts n k \<and> bounded_proxy_attempts n k \<le> 16 \<and> bounded_proxy_attempts n k \<le> k + 1 \<and>
    (n \<noteq> 1 \<longrightarrow> bounded_proxy_attempts n k \<le> n)"
  by (auto simp: bounded_proxy_attempts_def Let_def size_max_def min_def)

lemma inj_on_rotation: "inj_on (\<lambda>i. (start + i) mod n) {..<n :: nat}"
proof -
  have "i = j" if "i \<le> j" "j < n" "(start + j) mod n = (start + i) mod n" for i j
  proof -
    have "n dvd j - i" using that mod_eq_dvd_iff_nat [of "start + i" "start + j" n] by simp
    with that show "i = j" using nat_dvd_not_less [of "j - i" n] by (cases "i < j") auto
  qed
  then show ?thesis by (intro inj_onI) (metis lessThan_iff nat_le_linear)
qed

lemma ordered_upstreams_start:
  assumes "ups \<noteq> []"
  shows "\<exists>start. start < length ups \<and>
    fst (ordered_reverse_proxy_upstreams r ups s c) = map (\<lambda>i. ups ! ((start + i) mod length ups))
      [0..<bounded_proxy_attempts (length ups) (px_retry_count s)] \<and>
    (px_load_balancing_policy s = round_robin \<longrightarrow> start = unat c mod length ups)"
proof -
  define start where "start = (case px_load_balancing_policy s of
    round_robin \<Rightarrow> unat c mod length ups | stable_hash \<Rightarrow> stable_hash_start r (length ups) | failover \<Rightarrow> 0)"
  have lt: "start < length ups"
    using assms by (auto simp: start_def stable_hash_start_def Let_def split: load_balancing_policy.split)
  have one: "replicate n (hd ups) = map (\<lambda>i. ups ! ((start + i) mod length ups)) [0..<n]" if "length ups = 1" for n
    using that assms by (intro nth_equalityI) (simp_all add: hd_conv_nth)
  have "fst (ordered_reverse_proxy_upstreams r ups s c) = map (\<lambda>i. ups ! ((start + i) mod length ups))
      [0..<bounded_proxy_attempts (length ups) (px_retry_count s)]"
    using assms one by (auto simp: ordered_reverse_proxy_upstreams_def start_def Let_def split: load_balancing_policy.split)
  with lt show ?thesis by (intro exI [of _ start]) (simp add: start_def)
qed

text \<open>Attempts are bounded and spread. For every request, policy and counter the upstreams tried are between
  one and sixteen, at most one more than the configured retries, all from the list, and no position is
  tried twice unless there is only one upstream; under round robin the counter is advanced by one per
  request, so as many consecutive requests as there are upstreams begin with each of them once.\<close>

theorem upstreams_balanced:
  assumes "ups \<noteq> []" "px_load_balancing_policy s' = round_robin" "unat c' + length ups \<le> 2 ^ 64"
  shows "(\<exists>idx. fst (ordered_reverse_proxy_upstreams r ups s c) = map (\<lambda>i. ups ! i) idx \<and> set idx \<subseteq> {..<length ups} \<and>
      idx \<noteq> [] \<and> length idx \<le> 16 \<and> length idx \<le> px_retry_count s + 1 \<and> (distinct idx \<or> length ups = 1)) \<and>
    (\<forall>q. snd (ordered_reverse_proxy_upstreams q ups s' c') = c' + 1) \<and>
    map (\<lambda>i. hd (fst (ordered_reverse_proxy_upstreams (q i) ups s' (c' + of_nat i)))) [0..<length ups] =
      rotate (unat c') ups"
proof (intro conjI allI)
  let ?n = "length ups" and ?k = "bounded_proxy_attempts (length ups) (px_retry_count s)"
  obtain start where st: "start < ?n"
    "fst (ordered_reverse_proxy_upstreams r ups s c) = map (\<lambda>i. ups ! ((start + i) mod ?n)) [0..<?k]"
    using ordered_upstreams_start [OF assms(1)] by blast
  have k: "1 \<le> ?k" "?k \<le> 16" "?k \<le> px_retry_count s + 1" "?n \<noteq> 1 \<longrightarrow> ?k \<le> ?n"
    using bounded_attempts [of ?n "px_retry_count s"] assms(1) by auto
  let ?idx = "map (\<lambda>i. (start + i) mod ?n) [0..<?k]"
  have "inj_on (\<lambda>i. (start + i) mod ?n) {..<?n}" by (rule inj_on_rotation)
  then have "distinct ?idx \<or> ?n = 1"
    using k(4) by (auto simp: distinct_map elim!: inj_on_subset)
  moreover have "set ?idx \<subseteq> {..<?n}" using assms(1) by auto
  ultimately show "\<exists>idx. fst (ordered_reverse_proxy_upstreams r ups s c) = map (\<lambda>i. ups ! i) idx \<and> set idx \<subseteq> {..<?n} \<and>
      idx \<noteq> [] \<and> length idx \<le> 16 \<and> length idx \<le> px_retry_count s + 1 \<and> (distinct idx \<or> ?n = 1)"
    using st(2) k by (intro exI [of _ ?idx]) auto
next
  fix q show "snd (ordered_reverse_proxy_upstreams q ups s' c') = c' + 1"
    using assms(1,2) by (simp add: ordered_reverse_proxy_upstreams_def Let_def)
next
  let ?n = "length ups"
  have first: "hd (fst (ordered_reverse_proxy_upstreams q ups s' d)) = ups ! (unat d mod ?n)" for q d
  proof -
    obtain start where "fst (ordered_reverse_proxy_upstreams q ups s' d) =
        map (\<lambda>i. ups ! ((start + i) mod ?n)) [0..<bounded_proxy_attempts ?n (px_retry_count s')]" "start = unat d mod ?n"
      using ordered_upstreams_start [OF assms(1), of q s' d] assms(2) by blast
    moreover have "1 \<le> bounded_proxy_attempts ?n (px_retry_count s')" using bounded_attempts [of ?n] assms(1) by simp
    ultimately show ?thesis by (simp add: hd_map upt_conv_Cons)
  qed
  have "unat (c' + of_nat i) = unat c' + i" if "i < ?n" for i
    using that assms(3) by (subst unat_add_lem [THEN iffD1]) (simp_all add: unat_of_nat)
  then show "map (\<lambda>i. hd (fst (ordered_reverse_proxy_upstreams (q i) ups s' (c' + of_nat i)))) [0..<?n] = rotate (unat c') ups"
    unfolding first by (intro nth_equalityI) (simp_all add: nth_rotate)
qed

definition three_upstreams :: "reverse_proxy_target list" where
  "three_upstreams = map (\<lambda>a. upstream_sample\<lparr>pt_authority := a\<rparr>) [''a'', ''b'', ''c'']"

theorem upstreams_balanced_witness:
  "map (\<lambda>i. pt_authority (hd (fst (ordered_reverse_proxy_upstreams new_request three_upstreams
      default_reverse_proxy_settings (5 + of_nat i))))) [0..<3] = [''c'', ''a'', ''b'']"
proof -
  have "map (\<lambda>i. hd (fst (ordered_reverse_proxy_upstreams new_request three_upstreams
      default_reverse_proxy_settings (5 + of_nat i)))) [0..<length three_upstreams] = rotate (unat (5 :: u64)) three_upstreams"
    by (rule conjunct2 [OF conjunct2 [OF upstreams_balanced [where q = "\<lambda>_. new_request"]]])
      (simp_all add: three_upstreams_def default_reverse_proxy_settings_def)
  note order = this
  have "map pt_authority (rotate (unat (5 :: u64)) three_upstreams) = [''c'', ''a'', ''b'']"
    by (simp add: rotate_drop_take three_upstreams_def)
  with order have "map pt_authority (map (\<lambda>i. hd (fst (ordered_reverse_proxy_upstreams new_request three_upstreams
      default_reverse_proxy_settings (5 + of_nat i)))) [0..<length three_upstreams]) = [''c'', ''a'', ''b'']" by simp
  moreover have "length three_upstreams = 3" by (simp add: three_upstreams_def)
  ultimately show ?thesis by (simp add: o_def)
qed

section \<open>What a client is answered\<close>

definition reachable :: "proxy_env \<Rightarrow> (reverse_proxy_target \<Rightarrow> string) \<Rightarrow> bool" where
  "reachable env request_text \<longleftrightarrow> (\<forall>n u raw. pe_exchange env n u (request_text u) = Some raw \<longrightarrow>
     parse_reverse_proxy_upstream_response raw \<noteq> None)"

definition answered_by ::
    "proxy_env \<Rightarrow> (reverse_proxy_target \<Rightarrow> string) \<Rightarrow> nat \<Rightarrow> reverse_proxy_target \<Rightarrow> response \<Rightarrow> bool" where
  "answered_by env request_text n u resp \<longleftrightarrow> (\<exists>raw. pe_exchange env n u (request_text u) = Some raw \<and>
     parse_reverse_proxy_upstream_response raw = Some (Inr resp))"

lemma unavailable_unchanged:
  "reverse_proxy_upstream_available u s now cbs = (False, cbs') \<Longrightarrow> cbs' = cbs"
  by (auto simp: reverse_proxy_upstream_available_def split: if_splits option.splits)

lemma proxy_attempts_spec:
  assumes "reachable env request_text"
  shows "\<exists>resp cbs'. proxy_attempts env request_text s n us skipped attempted cbs = Some (resp, cbs') \<and>
    ((\<exists>i < length us. answered_by env request_text (n + i) (us ! i) resp) \<or>
     resp = bad_gateway \<and> (us = [] \<longrightarrow> attempted \<or> \<not> skipped) \<or>
     resp = service_unavailable s \<and> \<not> attempted \<and> cbs' = cbs \<and> (us = [] \<longrightarrow> skipped) \<and>
       (\<forall>i < length us. \<not> fst (reverse_proxy_upstream_available (us ! i) s (fst (pe_clock env (n + i))) cbs)))"
proof (induction us arbitrary: n skipped attempted cbs)
  case Nil
  then show ?case by simp
next
  case (Cons u us)
  have later: "\<exists>i < length (u # us). answered_by env request_text (n + i) ((u # us) ! i) resp"
    if "i < length us" "answered_by env request_text (n + 1 + i) (us ! i) resp" for i resp
    using that by (intro exI [of _ "Suc i"]) simp
  obtain ok cbs1 where av: "reverse_proxy_upstream_available u s (fst (pe_clock env n)) cbs = (ok, cbs1)" by fastforce
  show ?case
  proof (cases ok)
    case False
    then have eq: "cbs1 = cbs" using av unavailable_unchanged [of u s _ cbs cbs1] by simp
    have step: "proxy_attempts env request_text s n (u # us) skipped attempted cbs =
        proxy_attempts env request_text s (n + 1) us True attempted cbs"
      using av False eq by simp
    obtain resp cbs' where r: "proxy_attempts env request_text s (n + 1) us True attempted cbs = Some (resp, cbs')"
      "(\<exists>i < length us. answered_by env request_text (n + 1 + i) (us ! i) resp) \<or> resp = bad_gateway \<or>
       resp = service_unavailable s \<and> \<not> attempted \<and> cbs' = cbs \<and>
         (\<forall>i < length us. \<not> fst (reverse_proxy_upstream_available (us ! i) s (fst (pe_clock env (n + 1 + i))) cbs))"
      using Cons.IH [of "n + 1" True attempted cbs] by blast
    have "\<forall>i < length (u # us). \<not> fst (reverse_proxy_upstream_available ((u # us) ! i) s (fst (pe_clock env (n + i))) cbs)"
      if "\<forall>i < length us. \<not> fst (reverse_proxy_upstream_available (us ! i) s (fst (pe_clock env (n + 1 + i))) cbs)"
      using that av False by (auto simp: less_Suc_eq_0_disj)
    with r step later show ?thesis by (metis list.distinct(1))
  next
    case True
    let ?failed = "proxy_attempts env request_text s (n + 1) us skipped True
      (record_reverse_proxy_upstream_failure u s (snd (pe_clock env n)) cbs1)"
    have failed: "\<exists>resp cbs'. ?failed = Some (resp, cbs') \<and>
        ((\<exists>i < length us. answered_by env request_text (n + 1 + i) (us ! i) resp) \<or> resp = bad_gateway)"
      using Cons.IH [of "n + 1" skipped True "record_reverse_proxy_upstream_failure u s (snd (pe_clock env n)) cbs1"] by blast
    show ?thesis
    proof (cases "\<exists>resp. answered_by env request_text n u resp")
      case answered: True
      then obtain resp raw where "pe_exchange env n u (request_text u) = Some raw"
        "parse_reverse_proxy_upstream_response raw = Some (Inr resp)" by (auto simp: answered_by_def)
      with av True have "proxy_attempts env request_text s n (u # us) skipped attempted cbs =
          Some (resp, record_reverse_proxy_upstream_success u s cbs1)" "answered_by env request_text n u resp"
        by (simp_all add: answered_by_def)
      then show ?thesis by (metis add.right_neutral length_greater_0_conv list.distinct(1) nth_Cons_0)
    next
      case none: False
      have "proxy_attempts env request_text s n (u # us) skipped attempted cbs = ?failed"
      proof (cases "pe_exchange env n u (request_text u)")
        case None
        with av True show ?thesis by simp
      next
        case (Some raw)
        with assms obtain res where "parse_reverse_proxy_upstream_response raw = Some res"
          unfolding reachable_def by blast
        with av True Some none show ?thesis by (cases res) (auto simp: answered_by_def)
      qed
      with failed later show ?thesis by (metis list.distinct(1))
    qed
  qed
qed


definition one_answer_env :: proxy_env where
  "one_answer_env = \<lparr>pe_exchange = (\<lambda>n u text. if pt_authority u = ''b'' then Some (render_response 200 ''OK'' [] ''hi'') else None),
     pe_clock = (\<lambda>n. (int n, int n))\<rparr>"


end
