(* ===== verification/Rimau_Config.thy ===== *)
theory Rimau_Config
  imports Virtual_Host
begin

text \<open>
  The server configuration, \<open>src/src/core/config.cpp\<close> and \<open>src/include/rimau/core/config.hpp\<close>: the settings, the
  readers of their text form, the validation of a single value and of a whole configuration, and the
  operations on the configuration database. SQLite is the parameter \<open>sqlite\<close>: a way to open the database
  and a way to run one statement, given by its SQL text and the bound texts; \<open>inet_pton\<close> and
  \<open>std::filesystem::is_regular_file\<close> are parameters too. Exceptions are \<open>Inl\<close> with their message.
\<close>

section \<open>Reading single values\<close>

definition parse_port :: "string \<Rightarrow> nat result" where
  "parse_port v =
     (case stoi v of
        Inr (parsed, consumed) \<Rightarrow>
          if consumed \<noteq> length v then Inl ''port must be a number''
          else if parsed < 1 \<or> parsed > 65535 then Inl ''port must be between 1 and 65535''
          else Inr (nat parsed)
      | Inl invalid_argument \<Rightarrow> Inl ''port must be a number''
      | Inl out_of_range \<Rightarrow> Inl ''port is out of range'')"

definition parse_size :: "string \<Rightarrow> string \<Rightarrow> nat result" where
  "parse_size v key =
     (case stoull v of
        Inr (parsed, consumed) \<Rightarrow>
          if consumed \<noteq> length v then Inl (key @ '' must be a number'')
          else if parsed = 0 then Inl (key @ '' must be greater than zero'')
          else Inr parsed
      | Inl invalid_argument \<Rightarrow> Inl (key @ '' must be a number'')
      | Inl out_of_range \<Rightarrow> Inl (key @ '' is out of range''))"

definition parse_positive_int :: "string \<Rightarrow> string \<Rightarrow> int result" where
  "parse_positive_int v key =
     (case stoi v of
        Inr (parsed, consumed) \<Rightarrow>
          if consumed \<noteq> length v then Inl (key @ '' must be a number'')
          else if parsed < 1 then Inl (key @ '' must be greater than zero'')
          else Inr parsed
      | Inl invalid_argument \<Rightarrow> Inl (key @ '' must be a number'')
      | Inl out_of_range \<Rightarrow> Inl (key @ '' is out of range''))"

definition parse_non_negative_size :: "string \<Rightarrow> string \<Rightarrow> nat result" where
  "parse_non_negative_size v key =
     (case stoull v of
        Inr (parsed, consumed) \<Rightarrow>
          if consumed \<noteq> length v then Inl (key @ '' must be a number'') else Inr parsed
      | Inl invalid_argument \<Rightarrow> Inl (key @ '' must be a number'')
      | Inl out_of_range \<Rightarrow> Inl (key @ '' is out of range''))"

definition parse_bool :: "string \<Rightarrow> string \<Rightarrow> bool result" where
  "parse_bool v key =
     (case parse_flag (lowercase v) of Some b \<Rightarrow> Inr b | None \<Rightarrow> Inl (key @ '' must be a boolean''))"

definition is_optional_string_key :: "string \<Rightarrow> bool" where
  "is_optional_string_key key \<longleftrightarrow> key \<in> set
     [''tls_sni_hosts'', ''tls_sni_certificates'', ''ip_allowlist'', ''ip_blocklist'',
      ''security_header_content_security_policy'', ''security_header_strict_transport_security'',
      ''security_header_x_content_type_options'', ''security_header_x_frame_options'',
      ''security_header_referrer_policy'', ''security_header_cross_origin_opener_policy'',
      ''virtual_hosts'', ''virtual_host_waf_overrides'', ''error_page'']"

definition valid_tls_version :: "string \<Rightarrow> bool" where
  "valid_tls_version v \<longleftrightarrow> v = ''TLSv1.2'' \<or> v = ''TLSv1.3''"

fun prefix_digits :: "nat \<Rightarrow> nat \<Rightarrow> string \<Rightarrow> nat option" where
  "prefix_digits max_prefix parsed [] = Some parsed"
| "prefix_digits max_prefix parsed (ch # rest) =
     (if \<not> isdigit ch then None
      else if parsed * 10 + (code ch - 48) > max_prefix then None
      else prefix_digits max_prefix (parsed * 10 + (code ch - 48)) rest)"

definition parse_prefix_length :: "string \<Rightarrow> nat \<Rightarrow> nat option" where
  "parse_prefix_length v max_prefix = (if v = [] then None else prefix_digits max_prefix 0 v)"

datatype ip_family = AF_INET | AF_INET6

type_synonym inet = "ip_family \<Rightarrow> string \<Rightarrow> bool"

definition parse_ip_family :: "inet \<Rightarrow> string \<Rightarrow> ip_family option" where
  "parse_ip_family inet_pton v =
     (if inet_pton AF_INET v then Some AF_INET else if inet_pton AF_INET6 v then Some AF_INET6 else None)"

definition valid_ip_token :: "inet \<Rightarrow> string \<Rightarrow> bool" where
  "valid_ip_token inet_pton token =
     (let slash = find_char (CHR ''/'') token;
          address_text = (case slash of None \<Rightarrow> token | Some i \<Rightarrow> trim (take i token))
      in if address_text = [] then False
         else
           case parse_ip_family inet_pton address_text of
             None \<Rightarrow> False
           | Some family \<Rightarrow>
               (case slash of
                  None \<Rightarrow> True
                | Some i \<Rightarrow>
                    parse_prefix_length (trim (drop (i + 1) token)) (if family = AF_INET then 32 else 128) \<noteq> None))"

definition valid_ip_list :: "inet \<Rightarrow> string \<Rightarrow> bool" where
  "valid_ip_list inet_pton l \<longleftrightarrow> list_all (valid_ip_token inet_pton) (split_delimited l (CHR '',''))"

text \<open>An entry \<open>host=certificate|key\<close>: the positions of the equals sign and of the bar after it.\<close>

definition sni_entry :: "string \<Rightarrow> (string \<times> string \<times> string) option" where
  "sni_entry entry =
     (let equals = find_char (CHR ''='') entry;
          separator = find_from entry ''|'' (case equals of None \<Rightarrow> 0 | Some e \<Rightarrow> e + 1)
      in case (equals, separator) of
           (Some e, Some b) \<Rightarrow>
             Some (trim (take e entry), trim (substr entry (e + 1) (b - e - 1)), trim (drop (b + 1) entry))
         | _ \<Rightarrow> None)"

definition valid_sni_certificate_map :: "string \<Rightarrow> bool" where
  "valid_sni_certificate_map v \<longleftrightarrow>
     list_all (\<lambda>entry. case sni_entry entry of
         None \<Rightarrow> False
       | Some (pattern, certificate, private_key) \<Rightarrow> pattern \<noteq> [] \<and> certificate \<noteq> [] \<and> private_key \<noteq> [])
       (split_delimited v (CHR '';''))"

definition alpn_contains_protocol :: "string \<Rightarrow> string \<Rightarrow> bool" where
  "alpn_contains_protocol protocols expected \<longleftrightarrow> list_ex (\<lambda>p. p = expected) (split_delimited protocols (CHR '',''))"

section \<open>The configuration\<close>

text \<open>The members and their initialisers.\<close>

record server_config =
  cfg_database_path :: string
  cfg_host :: string
  cfg_port :: nat
  cfg_document_root :: string
  cfg_directory_index :: string
  cfg_error_page :: string
  cfg_max_request_bytes :: nat
  cfg_http_keep_alive_enabled :: bool
  cfg_http_keep_alive_timeout_seconds :: int
  cfg_http_keep_alive_max_requests :: int
  cfg_listen_backlog :: int
  cfg_server_name :: string
  cfg_worker_threads :: nat
  cfg_epoll_max_events :: int
  cfg_reuse_port_enabled :: bool
  cfg_tcp_keepalive_enabled :: bool
  cfg_tcp_keepalive_idle_seconds :: int
  cfg_tcp_keepalive_interval_seconds :: int
  cfg_tcp_keepalive_probe_count :: int
  cfg_graceful_shutdown_timeout_seconds :: int
  cfg_connection_pool_size :: nat
  cfg_http1_enabled :: bool
  cfg_http2_enabled :: bool
  cfg_http3_enabled :: bool
  cfg_tls_enabled :: bool
  cfg_tls_certificate_file :: string
  cfg_tls_private_key_file :: string
  cfg_tls_min_version :: string
  cfg_tls_max_version :: string
  cfg_tls_cipher_list :: string
  cfg_tls_ciphersuites :: string
  cfg_tls_alpn_protocols :: string
  cfg_tls_sni_hosts :: string
  cfg_tls_sni_certificates :: string
  cfg_tls_sni_required :: bool
  cfg_request_timeout_seconds :: int
  cfg_header_timeout_seconds :: int
  cfg_body_timeout_seconds :: int
  cfg_idle_timeout_seconds :: int
  cfg_global_connection_limit :: nat
  cfg_per_ip_connection_limit :: nat
  cfg_rate_limit_enabled :: bool
  cfg_rate_limit_requests_per_minute :: int
  cfg_ip_allowlist :: string
  cfg_ip_blocklist :: string
  cfg_websocket_max_frame_bytes :: nat
  cfg_security_headers_enabled :: bool
  cfg_security_header_content_security_policy :: string
  cfg_security_header_strict_transport_security :: string
  cfg_security_header_x_content_type_options :: string
  cfg_security_header_x_frame_options :: string
  cfg_security_header_referrer_policy :: string
  cfg_security_header_cross_origin_opener_policy :: string
  cfg_server_header_enabled :: bool
  cfg_virtual_hosts_enabled :: bool
  cfg_virtual_hosts :: string
  cfg_virtual_host_waf_overrides :: string
  cfg_reverse_proxy_connect_timeout_seconds :: int
  cfg_reverse_proxy_read_timeout_seconds :: int
  cfg_reverse_proxy_max_response_bytes :: nat
  cfg_reverse_proxy_retry_count :: nat
  cfg_reverse_proxy_load_balancing_policy :: string
  cfg_reverse_proxy_tls_verify_upstream :: bool
  cfg_reverse_proxy_circuit_breaker_enabled :: bool
  cfg_reverse_proxy_circuit_breaker_failure_threshold :: nat
  cfg_reverse_proxy_circuit_breaker_cooldown_seconds :: int
  cfg_modsecurity_enabled :: bool
  cfg_modsecurity_owasp_crs_enabled :: bool
  cfg_modsecurity_blocking_enabled :: bool
  cfg_modsecurity_anomaly_threshold :: nat
  cfg_modsecurity_max_inspection_bytes :: nat
  cfg_modsecurity_audit_log_enabled :: bool

definition default_server_config :: server_config where
  "default_server_config = \<lparr>
     cfg_database_path = ''data/rimau.sqlite3'',
     cfg_host = ''0.0.0.0'',
     cfg_port = 8080,
     cfg_document_root = ''public'',
     cfg_directory_index = ''index.html'',
     cfg_error_page = [],
     cfg_max_request_bytes = 64 * 1024,
     cfg_http_keep_alive_enabled = True,
     cfg_http_keep_alive_timeout_seconds = 15,
     cfg_http_keep_alive_max_requests = 100,
     cfg_listen_backlog = 1024,
     cfg_server_name = ''Rimau Web Server'',
     cfg_worker_threads = 0,
     cfg_epoll_max_events = 256,
     cfg_reuse_port_enabled = True,
     cfg_tcp_keepalive_enabled = True,
     cfg_tcp_keepalive_idle_seconds = 60,
     cfg_tcp_keepalive_interval_seconds = 10,
     cfg_tcp_keepalive_probe_count = 5,
     cfg_graceful_shutdown_timeout_seconds = 5,
     cfg_connection_pool_size = 1024,
     cfg_http1_enabled = True,
     cfg_http2_enabled = False,
     cfg_http3_enabled = False,
     cfg_tls_enabled = False,
     cfg_tls_certificate_file = ''certs/rimau-dev.crt'',
     cfg_tls_private_key_file = ''certs/rimau-dev.key'',
     cfg_tls_min_version = ''TLSv1.2'',
     cfg_tls_max_version = ''TLSv1.3'',
     cfg_tls_cipher_list = ''ECDHE-ECDSA-AES256-GCM-SHA384:ECDHE-RSA-AES256-GCM-SHA384:ECDHE-ECDSA-CHACHA20-POLY1305:ECDHE-RSA-CHACHA20-POLY1305:ECDHE-ECDSA-AES128-GCM-SHA256:ECDHE-RSA-AES128-GCM-SHA256'',
     cfg_tls_ciphersuites = ''TLS_AES_256_GCM_SHA384:TLS_CHACHA20_POLY1305_SHA256:TLS_AES_128_GCM_SHA256'',
     cfg_tls_alpn_protocols = ''http/1.1'',
     cfg_tls_sni_hosts = [],
     cfg_tls_sni_certificates = [],
     cfg_tls_sni_required = False,
     cfg_request_timeout_seconds = 30,
     cfg_header_timeout_seconds = 10,
     cfg_body_timeout_seconds = 30,
     cfg_idle_timeout_seconds = 15,
     cfg_global_connection_limit = 10000,
     cfg_per_ip_connection_limit = 100,
     cfg_rate_limit_enabled = True,
     cfg_rate_limit_requests_per_minute = 600,
     cfg_ip_allowlist = [],
     cfg_ip_blocklist = [],
     cfg_websocket_max_frame_bytes = 64 * 1024,
     cfg_security_headers_enabled = True,
     cfg_security_header_content_security_policy = ''default-src '' @ [CHR 0x27] @ ''self'' @ [CHR 0x27] @ ''; frame-ancestors '' @ [CHR 0x27] @ ''self'' @ [CHR 0x27] @ ''; base-uri '' @ [CHR 0x27] @ ''self'' @ [CHR 0x27],
     cfg_security_header_strict_transport_security = ''max-age=31536000'',
     cfg_security_header_x_content_type_options = ''nosniff'',
     cfg_security_header_x_frame_options = ''SAMEORIGIN'',
     cfg_security_header_referrer_policy = ''no-referrer'',
     cfg_security_header_cross_origin_opener_policy = ''same-origin'',
     cfg_server_header_enabled = True,
     cfg_virtual_hosts_enabled = True,
     cfg_virtual_hosts = [],
     cfg_virtual_host_waf_overrides = [],
     cfg_reverse_proxy_connect_timeout_seconds = 5,
     cfg_reverse_proxy_read_timeout_seconds = 30,
     cfg_reverse_proxy_max_response_bytes = 1024 * 1024,
     cfg_reverse_proxy_retry_count = 1,
     cfg_reverse_proxy_load_balancing_policy = ''round_robin'',
     cfg_reverse_proxy_tls_verify_upstream = False,
     cfg_reverse_proxy_circuit_breaker_enabled = True,
     cfg_reverse_proxy_circuit_breaker_failure_threshold = 3,
     cfg_reverse_proxy_circuit_breaker_cooldown_seconds = 10,
     cfg_modsecurity_enabled = False,
     cfg_modsecurity_owasp_crs_enabled = True,
     cfg_modsecurity_blocking_enabled = True,
     cfg_modsecurity_anomaly_threshold = 5,
     cfg_modsecurity_max_inspection_bytes = 128 * 1024,
     cfg_modsecurity_audit_log_enabled = True\<rparr>"

text \<open>A check that throws, and a sequence of them.\<close>

definition throw_if :: "bool \<Rightarrow> string \<Rightarrow> unit result" where
  "throw_if cond message = (if cond then Inl message else Inr ())"

definition in_order :: "unit result list \<Rightarrow> unit result" where
  "in_order rs = foldr (\<lambda>r rest. r_bind r (\<lambda>_. rest)) rs (Inr ())"

definition check_alpn_protocol :: "server_config \<Rightarrow> string \<Rightarrow> unit result" where
  "check_alpn_protocol c protocol =
     (if protocol = ''http/1.1'' then
        throw_if (cfg_tls_enabled c \<and> \<not> cfg_http1_enabled c)
          ''tls_alpn_protocols cannot include http/1.1 when http1_enabled is false''
      else if protocol = ''h2'' then
        throw_if (cfg_tls_enabled c \<and> \<not> cfg_http2_enabled c)
          ''tls_alpn_protocols cannot include h2 when http2_enabled is false''
      else if protocol = ''h3'' then
        Inl ''tls_alpn_protocols must not include h3 until HTTP/3 serving is implemented''
      else Inl (''unsupported ALPN protocol: '' @ protocol))"

definition validate_alpn_protocols :: "server_config \<Rightarrow> unit result" where
  "validate_alpn_protocols c =
     (let protocols = split_delimited (cfg_tls_alpn_protocols c) (CHR '','') in
      in_order (map (check_alpn_protocol c) protocols @
        [throw_if (protocols = []) ''tls_alpn_protocols must include at least one supported protocol'',
         throw_if (cfg_tls_enabled c \<and> \<not> cfg_http1_enabled c \<and> cfg_http2_enabled c \<and>
             \<not> alpn_contains_protocol (cfg_tls_alpn_protocols c) ''h2'')
           ''tls_alpn_protocols must include h2 when TLS is enabled, http1_enabled is false, and http2_enabled is true'']))"

text \<open>The default table: key, value and description.\<close>

type_synonym config_default = "(string \<times> string) \<times> string"

definition config_defaults :: "config_default list" where
  "config_defaults =
    [((''host'', ''0.0.0.0''), ''IPv4 address to bind''),
     ((''port'', ''8080''), ''TCP port to listen on''),
     ((''document_root'', ''public''), ''Static file document root''),
     ((''directory_index'', ''index.html''), ''Static directory index file name''),
     ((''error_page'', []), ''Optional custom error page path, relative to document_root unless absolute''),
     ((''max_request_bytes'', ''65536''), ''Maximum request header bytes''),
     ((''http_keep_alive_enabled'', ''true''), ''Enable HTTP/1.1 persistent connections''),
     ((''http_keep_alive_timeout_seconds'', ''15''), ''HTTP/1.1 keep-alive idle timeout''),
     ((''http_keep_alive_max_requests'', ''100''), ''Maximum requests served on one HTTP/1.1 connection''),
     ((''listen_backlog'', ''1024''), ''TCP listen backlog''),
     ((''server_name'', ''Rimau Web Server''), ''Server identity used in logs and responses''),
     ((''worker_threads'', ''0''), ''Worker threads; 0 means auto-detect CPU cores''),
     ((''epoll_max_events'', ''256''), ''Maximum epoll events processed per worker iteration''),
     ((''reuse_port_enabled'', ''true''), ''Enable SO_REUSEPORT for per-worker listeners''),
     ((''tcp_keepalive_enabled'', ''true''), ''Enable TCP keepalive on accepted client sockets''),
     ((''tcp_keepalive_idle_seconds'', ''60''), ''TCP keepalive idle time before probes''),
     ((''tcp_keepalive_interval_seconds'', ''10''), ''TCP keepalive interval between probes''),
     ((''tcp_keepalive_probe_count'', ''5''), ''TCP keepalive probe count before failure''),
     ((''graceful_shutdown_timeout_seconds'', ''5''), ''Graceful shutdown drain timeout''),
     ((''connection_pool_size'', ''1024''), ''Idle connection objects retained per worker for reuse''),
     ((''http1_enabled'', ''true''), ''Enable HTTP/1.1 listener handling''),
     ((''http2_enabled'', ''false''), ''Enable HTTP/2 when the HTTP/2 implementation is available''),
     ((''http3_enabled'', ''false''), ''Enable HTTP/3 when the HTTP/3 implementation is available''),
     ((''tls_enabled'', ''false''), ''Enable TLS for accepted HTTP/1.1 connections''),
     ((''tls_certificate_file'', ''certs/rimau-dev.crt''), ''PEM certificate file for TLS''),
     ((''tls_private_key_file'', ''certs/rimau-dev.key''), ''PEM private key file for TLS''),
     ((''tls_min_version'', ''TLSv1.2''), ''Minimum TLS protocol version''),
     ((''tls_max_version'', ''TLSv1.3''), ''Maximum TLS protocol version''),
     ((''tls_cipher_list'', ''ECDHE-ECDSA-AES256-GCM-SHA384:ECDHE-RSA-AES256-GCM-SHA384:ECDHE-ECDSA-CHACHA20-POLY1305:ECDHE-RSA-CHACHA20-POLY1305:ECDHE-ECDSA-AES128-GCM-SHA256:ECDHE-RSA-AES128-GCM-SHA256''), ''TLS 1.2 cipher list''),
     ((''tls_ciphersuites'', ''TLS_AES_256_GCM_SHA384:TLS_CHACHA20_POLY1305_SHA256:TLS_AES_128_GCM_SHA256''), ''TLS 1.3 cipher suites''),
     ((''tls_alpn_protocols'', ''http/1.1''), ''Comma-separated ALPN protocols to advertise; only implemented protocols should be listed''),
     ((''tls_sni_hosts'', []), ''Comma-separated SNI hostnames accepted by the default certificate; empty means all hostnames''),
     ((''tls_sni_certificates'', []), ''Semicolon-separated SNI certificate map: hostname=certificate.pem|private-key.pem''),
     ((''tls_sni_required'', ''false''), ''Reject TLS clients that do not send SNI''),
     ((''request_timeout_seconds'', ''30''), ''Maximum time to complete one HTTP request''),
     ((''header_timeout_seconds'', ''10''), ''Maximum time to complete HTTP request headers''),
     ((''body_timeout_seconds'', ''30''), ''Maximum time to complete HTTP request body after headers''),
     ((''idle_timeout_seconds'', ''15''), ''Idle timeout for keep-alive and WebSocket connections''),
     ((''global_connection_limit'', ''10000''), ''Maximum active accepted connections across all workers''),
     ((''per_ip_connection_limit'', ''100''), ''Maximum active accepted connections per client IP''),
     ((''rate_limit_enabled'', ''true''), ''Enable fixed-window per-IP request rate limiting''),
     ((''rate_limit_requests_per_minute'', ''600''), ''Maximum requests per minute per client IP''),
     ((''ip_allowlist'', []), ''Comma-separated IPv4/IPv6 exact or CIDR allowlist; empty allows all non-blocked IPs''),
     ((''ip_blocklist'', []), ''Comma-separated IPv4/IPv6 exact or CIDR blocklist''),
     ((''websocket_max_frame_bytes'', ''65536''), ''Maximum accepted WebSocket frame payload bytes''),
     ((''security_headers_enabled'', ''true''), ''Add default HTTP security headers to responses''),
     ((''security_header_content_security_policy'', (''default-src '' @ [CHR 0x27] @ ''self'' @ [CHR 0x27] @ ''; frame-ancestors '' @ [CHR 0x27] @ ''self'' @ [CHR 0x27] @ ''; base-uri '' @ [CHR 0x27] @ ''self'' @ [CHR 0x27])), ''Content-Security-Policy value; empty disables this header''),
     ((''security_header_strict_transport_security'', ''max-age=31536000''), ''Strict-Transport-Security value for TLS responses; empty disables this header''),
     ((''security_header_x_content_type_options'', ''nosniff''), ''X-Content-Type-Options value; empty disables this header''),
     ((''security_header_x_frame_options'', ''SAMEORIGIN''), ''X-Frame-Options value; empty disables this header''),
     ((''security_header_referrer_policy'', ''no-referrer''), ''Referrer-Policy value; empty disables this header''),
     ((''security_header_cross_origin_opener_policy'', ''same-origin''), ''Cross-Origin-Opener-Policy value; empty disables this header''),
     ((''server_header_enabled'', ''true''), ''Emit Server header in HTTP responses''),
     ((''virtual_hosts_enabled'', ''true''), ''Enable Host header based virtual host routing''),
     ((''virtual_hosts'', []), ''Semicolon-separated host=static:path, host=proxy:http://host:port,https://backup:port, or host=script:runtime:path routes''),
     ((''virtual_host_waf_overrides'', []), ''Semicolon-separated WAF overrides: host=enabled:true,threshold:10,rule_exceptions:930100|942100''),
     ((''reverse_proxy_connect_timeout_seconds'', ''5''), ''HTTP reverse proxy upstream connect timeout''),
     ((''reverse_proxy_read_timeout_seconds'', ''30''), ''HTTP reverse proxy upstream read timeout''),
     ((''reverse_proxy_max_response_bytes'', ''1048576''), ''Maximum buffered reverse proxy upstream response bytes''),
     ((''reverse_proxy_retry_count'', ''1''), ''Additional reverse proxy upstream attempts after the first failure''),
     ((''reverse_proxy_load_balancing_policy'', ''round_robin''), ''Reverse proxy upstream selection policy: round_robin, failover, or stable_hash''),
     ((''reverse_proxy_tls_verify_upstream'', ''false''), ''Verify HTTPS reverse proxy upstream certificates with default trust paths''),
     ((''reverse_proxy_circuit_breaker_enabled'', ''true''), ''Temporarily skip repeatedly failing reverse proxy upstreams''),
     ((''reverse_proxy_circuit_breaker_failure_threshold'', ''3''), ''Failures before a reverse proxy upstream circuit opens''),
     ((''reverse_proxy_circuit_breaker_cooldown_seconds'', ''10''), ''Seconds before retrying an opened reverse proxy upstream circuit''),
     ((''modsecurity_enabled'', ''false''), ''Enable Rimau built-in ModSecurity-compatible WAF inspection''),
     ((''modsecurity_owasp_crs_enabled'', ''true''), ''Enable built-in OWASP CRS-inspired rule subset for the WAF''),
     ((''modsecurity_blocking_enabled'', ''true''), ''Block requests whose WAF anomaly score reaches the configured threshold''),
     ((''modsecurity_anomaly_threshold'', ''5''), ''WAF anomaly score threshold for blocking''),
     ((''modsecurity_max_inspection_bytes'', ''131072''), ''Maximum bytes inspected per request field by the WAF''),
     ((''modsecurity_audit_log_enabled'', ''true''), ''Write WAF matches to the Rimau log'')]"

definition default_values :: "(string \<times> string) list" where
  "default_values = map fst config_defaults"

definition is_supported_key :: "string \<Rightarrow> bool" where
  "is_supported_key key \<longleftrightarrow> list_ex (\<lambda>(k, v). key = k) default_values"

definition supported_config_keys :: "string list" where
  "supported_config_keys = map (\<lambda>item. fst (fst item)) config_defaults"

type_synonym config_values = "(string \<times> string) list"

definition value_or_default :: "config_values \<Rightarrow> string \<Rightarrow> string result" where
  "value_or_default values key =
     (case map_of values key of
        Some v \<Rightarrow> Inr v
      | None \<Rightarrow>
          (case find (\<lambda>(k, v). k = key) default_values of
             None \<Rightarrow> Inl (''missing default config key: '' @ key)
           | Some (k, v) \<Rightarrow> Inr v))"

section \<open>Validation of one value\<close>

definition size_keys :: "string list" where
  "size_keys = [''max_request_bytes'', ''global_connection_limit'', ''per_ip_connection_limit'', ''websocket_max_frame_bytes'',
     ''reverse_proxy_max_response_bytes'', ''reverse_proxy_circuit_breaker_failure_threshold'',
     ''modsecurity_anomaly_threshold'', ''modsecurity_max_inspection_bytes'']"

definition positive_keys :: "string list" where
  "positive_keys = [''http_keep_alive_timeout_seconds'', ''http_keep_alive_max_requests'', ''listen_backlog'',
     ''epoll_max_events'', ''tcp_keepalive_idle_seconds'', ''tcp_keepalive_interval_seconds'', ''tcp_keepalive_probe_count'',
     ''graceful_shutdown_timeout_seconds'', ''rate_limit_requests_per_minute'', ''request_timeout_seconds'',
     ''header_timeout_seconds'', ''body_timeout_seconds'', ''idle_timeout_seconds'',
     ''reverse_proxy_connect_timeout_seconds'', ''reverse_proxy_read_timeout_seconds'',
     ''reverse_proxy_circuit_breaker_cooldown_seconds'']"

definition non_negative_keys :: "string list" where
  "non_negative_keys = [''worker_threads'', ''connection_pool_size'', ''reverse_proxy_retry_count'']"

definition text_keys :: "string list" where
  "text_keys = [''server_name'', ''directory_index'', ''error_page'', ''tls_cipher_list'', ''tls_ciphersuites'',
     ''tls_alpn_protocols'', ''tls_sni_hosts'', ''tls_sni_certificates'', ''ip_allowlist'', ''ip_blocklist'',
     ''security_header_content_security_policy'', ''security_header_strict_transport_security'',
     ''security_header_x_content_type_options'', ''security_header_x_frame_options'',
     ''security_header_referrer_policy'', ''security_header_cross_origin_opener_policy'',
     ''virtual_hosts'', ''virtual_host_waf_overrides'', ''reverse_proxy_load_balancing_policy'']"

definition bool_keys :: "string list" where
  "bool_keys = [''http_keep_alive_enabled'', ''reuse_port_enabled'', ''tcp_keepalive_enabled'', ''http1_enabled'',
     ''http2_enabled'', ''http3_enabled'', ''tls_enabled'', ''tls_sni_required'', ''rate_limit_enabled'',
     ''security_headers_enabled'', ''server_header_enabled'', ''virtual_hosts_enabled'',
     ''reverse_proxy_tls_verify_upstream'', ''reverse_proxy_circuit_breaker_enabled'', ''modsecurity_enabled'',
     ''modsecurity_owasp_crs_enabled'', ''modsecurity_blocking_enabled'', ''modsecurity_audit_log_enabled'']"

text \<open>A parsed value that is thrown away.\<close>

definition discard :: "'a result \<Rightarrow> unit result" where
  "discard r = r_bind r (\<lambda>_. Inr ())"

definition validate_text_value :: "inet \<Rightarrow> string \<Rightarrow> string \<Rightarrow> unit result" where
  "validate_text_value inet_pton key v =
     in_order
       [throw_if (contains_control_character v) (key @ '' cannot contain control characters''),
        throw_if (key = ''directory_index'' \<and> \<not> valid_directory_index v)
          ''directory_index must be a file name without slashes'',
        throw_if ((key = ''ip_allowlist'' \<or> key = ''ip_blocklist'') \<and> \<not> valid_ip_list inet_pton v)
          (key @ '' must contain IPv4/IPv6 exact addresses or CIDR ranges''),
        throw_if (key = ''tls_sni_certificates'' \<and> \<not> valid_sni_certificate_map v)
          ''tls_sni_certificates must use hostname=certificate.pem|private-key.pem entries separated by semicolons'',
        if key = ''virtual_hosts'' then discard (parse_virtual_host_rules v) else Inr (),
        if key = ''virtual_host_waf_overrides'' then discard (parse_virtual_host_waf_overrides v) else Inr (),
        if key = ''reverse_proxy_load_balancing_policy'' then discard (parse_reverse_proxy_load_balancing_policy v)
        else Inr ()]"

definition validate_config_value :: "inet \<Rightarrow> string \<Rightarrow> string \<Rightarrow> unit result" where
  "validate_config_value inet_pton key v =
     (if \<not> is_supported_key key then Inl (''unknown sqlite config key: '' @ key)
      else if v = [] \<and> \<not> is_optional_string_key key then Inl (''config value cannot be empty: '' @ key)
      else if key = ''port'' then discard (parse_port v)
      else if key \<in> set size_keys then discard (parse_size v key)
      else if key \<in> set positive_keys then discard (parse_positive_int v key)
      else if key \<in> set non_negative_keys then discard (parse_non_negative_size v key)
      else if key = ''tls_min_version'' \<or> key = ''tls_max_version'' then
        throw_if (\<not> valid_tls_version v) (key @ '' must be TLSv1.2 or TLSv1.3'')
      else if key \<in> set text_keys then validate_text_value inet_pton key v
      else if key \<in> set bool_keys then discard (parse_bool v key)
      else Inr ())"

section \<open>Building the configuration\<close>

definition config_field ::
    "(string \<Rightarrow> string \<Rightarrow> 'a result) \<Rightarrow> string \<Rightarrow> (('a \<Rightarrow> 'a) \<Rightarrow> server_config \<Rightarrow> server_config) \<Rightarrow>
     config_values \<Rightarrow> server_config \<Rightarrow> server_config result" where
  "config_field parse key update values c =
     r_bind (value_or_default values key) (\<lambda>text. r_bind (parse text key) (\<lambda>v. Inr (update (\<lambda>_. v) c)))"

definition as_text :: "string \<Rightarrow> string \<Rightarrow> string result" where
  "as_text v key = Inr v"

definition as_port :: "string \<Rightarrow> string \<Rightarrow> nat result" where
  "as_port v key = parse_port v"

definition config_fields :: "(config_values \<Rightarrow> server_config \<Rightarrow> server_config result) list" where
  "config_fields =
    [config_field as_text ''host'' cfg_host_update,
     config_field as_port ''port'' cfg_port_update,
     config_field as_text ''document_root'' cfg_document_root_update,
     config_field as_text ''directory_index'' cfg_directory_index_update,
     config_field as_text ''error_page'' cfg_error_page_update,
     config_field parse_size ''max_request_bytes'' cfg_max_request_bytes_update,
     config_field parse_bool ''http_keep_alive_enabled'' cfg_http_keep_alive_enabled_update,
     config_field parse_positive_int ''http_keep_alive_timeout_seconds'' cfg_http_keep_alive_timeout_seconds_update,
     config_field parse_positive_int ''http_keep_alive_max_requests'' cfg_http_keep_alive_max_requests_update,
     config_field parse_positive_int ''listen_backlog'' cfg_listen_backlog_update,
     config_field as_text ''server_name'' cfg_server_name_update,
     config_field parse_non_negative_size ''worker_threads'' cfg_worker_threads_update,
     config_field parse_positive_int ''epoll_max_events'' cfg_epoll_max_events_update,
     config_field parse_bool ''reuse_port_enabled'' cfg_reuse_port_enabled_update,
     config_field parse_bool ''tcp_keepalive_enabled'' cfg_tcp_keepalive_enabled_update,
     config_field parse_positive_int ''tcp_keepalive_idle_seconds'' cfg_tcp_keepalive_idle_seconds_update,
     config_field parse_positive_int ''tcp_keepalive_interval_seconds'' cfg_tcp_keepalive_interval_seconds_update,
     config_field parse_positive_int ''tcp_keepalive_probe_count'' cfg_tcp_keepalive_probe_count_update,
     config_field parse_positive_int ''graceful_shutdown_timeout_seconds'' cfg_graceful_shutdown_timeout_seconds_update,
     config_field parse_non_negative_size ''connection_pool_size'' cfg_connection_pool_size_update,
     config_field parse_bool ''http1_enabled'' cfg_http1_enabled_update,
     config_field parse_bool ''http2_enabled'' cfg_http2_enabled_update,
     config_field parse_bool ''http3_enabled'' cfg_http3_enabled_update,
     config_field parse_bool ''tls_enabled'' cfg_tls_enabled_update,
     config_field as_text ''tls_certificate_file'' cfg_tls_certificate_file_update,
     config_field as_text ''tls_private_key_file'' cfg_tls_private_key_file_update,
     config_field as_text ''tls_min_version'' cfg_tls_min_version_update,
     config_field as_text ''tls_max_version'' cfg_tls_max_version_update,
     config_field as_text ''tls_cipher_list'' cfg_tls_cipher_list_update,
     config_field as_text ''tls_ciphersuites'' cfg_tls_ciphersuites_update,
     config_field as_text ''tls_alpn_protocols'' cfg_tls_alpn_protocols_update,
     config_field as_text ''tls_sni_hosts'' cfg_tls_sni_hosts_update,
     config_field as_text ''tls_sni_certificates'' cfg_tls_sni_certificates_update,
     config_field parse_bool ''tls_sni_required'' cfg_tls_sni_required_update,
     config_field parse_positive_int ''request_timeout_seconds'' cfg_request_timeout_seconds_update,
     config_field parse_positive_int ''header_timeout_seconds'' cfg_header_timeout_seconds_update,
     config_field parse_positive_int ''body_timeout_seconds'' cfg_body_timeout_seconds_update,
     config_field parse_positive_int ''idle_timeout_seconds'' cfg_idle_timeout_seconds_update,
     config_field parse_size ''global_connection_limit'' cfg_global_connection_limit_update,
     config_field parse_size ''per_ip_connection_limit'' cfg_per_ip_connection_limit_update,
     config_field parse_bool ''rate_limit_enabled'' cfg_rate_limit_enabled_update,
     config_field parse_positive_int ''rate_limit_requests_per_minute'' cfg_rate_limit_requests_per_minute_update,
     config_field as_text ''ip_allowlist'' cfg_ip_allowlist_update,
     config_field as_text ''ip_blocklist'' cfg_ip_blocklist_update,
     config_field parse_size ''websocket_max_frame_bytes'' cfg_websocket_max_frame_bytes_update,
     config_field parse_bool ''security_headers_enabled'' cfg_security_headers_enabled_update,
     config_field as_text ''security_header_content_security_policy'' cfg_security_header_content_security_policy_update,
     config_field as_text ''security_header_strict_transport_security'' cfg_security_header_strict_transport_security_update,
     config_field as_text ''security_header_x_content_type_options'' cfg_security_header_x_content_type_options_update,
     config_field as_text ''security_header_x_frame_options'' cfg_security_header_x_frame_options_update,
     config_field as_text ''security_header_referrer_policy'' cfg_security_header_referrer_policy_update,
     config_field as_text ''security_header_cross_origin_opener_policy'' cfg_security_header_cross_origin_opener_policy_update,
     config_field parse_bool ''server_header_enabled'' cfg_server_header_enabled_update,
     config_field parse_bool ''virtual_hosts_enabled'' cfg_virtual_hosts_enabled_update,
     config_field as_text ''virtual_hosts'' cfg_virtual_hosts_update,
     config_field as_text ''virtual_host_waf_overrides'' cfg_virtual_host_waf_overrides_update,
     config_field parse_positive_int ''reverse_proxy_connect_timeout_seconds'' cfg_reverse_proxy_connect_timeout_seconds_update,
     config_field parse_positive_int ''reverse_proxy_read_timeout_seconds'' cfg_reverse_proxy_read_timeout_seconds_update,
     config_field parse_size ''reverse_proxy_max_response_bytes'' cfg_reverse_proxy_max_response_bytes_update,
     config_field parse_non_negative_size ''reverse_proxy_retry_count'' cfg_reverse_proxy_retry_count_update,
     config_field as_text ''reverse_proxy_load_balancing_policy'' cfg_reverse_proxy_load_balancing_policy_update,
     config_field parse_bool ''reverse_proxy_tls_verify_upstream'' cfg_reverse_proxy_tls_verify_upstream_update,
     config_field parse_bool ''reverse_proxy_circuit_breaker_enabled'' cfg_reverse_proxy_circuit_breaker_enabled_update,
     config_field parse_size ''reverse_proxy_circuit_breaker_failure_threshold'' cfg_reverse_proxy_circuit_breaker_failure_threshold_update,
     config_field parse_positive_int ''reverse_proxy_circuit_breaker_cooldown_seconds'' cfg_reverse_proxy_circuit_breaker_cooldown_seconds_update,
     config_field parse_bool ''modsecurity_enabled'' cfg_modsecurity_enabled_update,
     config_field parse_bool ''modsecurity_owasp_crs_enabled'' cfg_modsecurity_owasp_crs_enabled_update,
     config_field parse_bool ''modsecurity_blocking_enabled'' cfg_modsecurity_blocking_enabled_update,
     config_field parse_size ''modsecurity_anomaly_threshold'' cfg_modsecurity_anomaly_threshold_update,
     config_field parse_size ''modsecurity_max_inspection_bytes'' cfg_modsecurity_max_inspection_bytes_update,
     config_field parse_bool ''modsecurity_audit_log_enabled'' cfg_modsecurity_audit_log_enabled_update]"

fun read_fields ::
    "(config_values \<Rightarrow> server_config \<Rightarrow> server_config result) list \<Rightarrow> config_values \<Rightarrow> server_config \<Rightarrow>
     server_config result" where
  "read_fields [] values c = Inr c"
| "read_fields (f # fs) values c = r_bind (f values c) (read_fields fs values)"

definition ensure_no_control :: "string \<Rightarrow> string \<Rightarrow> unit result" where
  "ensure_no_control key v = throw_if (contains_control_character v) (key @ '' cannot contain control characters'')"

definition config_checks :: "inet \<Rightarrow> server_config \<Rightarrow> unit result list" where
  "config_checks inet_pton c =
     [throw_if (cfg_host c = []) ''host cannot be empty'',
      throw_if (cfg_document_root c = []) ''document_root cannot be empty'',
      throw_if (cfg_server_name c = []) ''server_name cannot be empty'',
      throw_if (contains_control_character (cfg_server_name c)) ''server_name cannot contain control characters'',
      ensure_no_control ''tls_cipher_list'' (cfg_tls_cipher_list c),
      ensure_no_control ''directory_index'' (cfg_directory_index c),
      ensure_no_control ''error_page'' (cfg_error_page c),
      ensure_no_control ''tls_ciphersuites'' (cfg_tls_ciphersuites c),
      ensure_no_control ''tls_alpn_protocols'' (cfg_tls_alpn_protocols c),
      ensure_no_control ''tls_sni_hosts'' (cfg_tls_sni_hosts c),
      ensure_no_control ''tls_sni_certificates'' (cfg_tls_sni_certificates c),
      ensure_no_control ''ip_allowlist'' (cfg_ip_allowlist c),
      ensure_no_control ''ip_blocklist'' (cfg_ip_blocklist c),
      ensure_no_control ''security_header_content_security_policy'' (cfg_security_header_content_security_policy c),
      ensure_no_control ''security_header_strict_transport_security'' (cfg_security_header_strict_transport_security c),
      ensure_no_control ''security_header_x_content_type_options'' (cfg_security_header_x_content_type_options c),
      ensure_no_control ''security_header_x_frame_options'' (cfg_security_header_x_frame_options c),
      ensure_no_control ''security_header_referrer_policy'' (cfg_security_header_referrer_policy c),
      ensure_no_control ''security_header_cross_origin_opener_policy'' (cfg_security_header_cross_origin_opener_policy c),
      ensure_no_control ''virtual_hosts'' (cfg_virtual_hosts c),
      ensure_no_control ''virtual_host_waf_overrides'' (cfg_virtual_host_waf_overrides c),
      throw_if (\<not> valid_tls_version (cfg_tls_min_version c)) ''tls_min_version must be TLSv1.2 or TLSv1.3'',
      throw_if (\<not> valid_directory_index (cfg_directory_index c)) ''directory_index must be a file name without slashes'',
      throw_if (\<not> valid_tls_version (cfg_tls_max_version c)) ''tls_max_version must be TLSv1.2 or TLSv1.3'',
      throw_if (cfg_tls_min_version c = ''TLSv1.3'' \<and> cfg_tls_max_version c = ''TLSv1.2'')
        ''tls_min_version cannot be newer than tls_max_version'',
      validate_alpn_protocols c,
      throw_if (\<not> valid_sni_certificate_map (cfg_tls_sni_certificates c))
        ''tls_sni_certificates must use hostname=certificate.pem|private-key.pem entries separated by semicolons'',
      throw_if (\<not> valid_ip_list inet_pton (cfg_ip_allowlist c))
        ''ip_allowlist must contain IPv4/IPv6 exact addresses or CIDR ranges'',
      throw_if (\<not> valid_ip_list inet_pton (cfg_ip_blocklist c))
        ''ip_blocklist must contain IPv4/IPv6 exact addresses or CIDR ranges'',
      discard (parse_virtual_host_rules (cfg_virtual_hosts c)),
      discard (parse_virtual_host_waf_overrides (cfg_virtual_host_waf_overrides c)),
      discard (parse_reverse_proxy_load_balancing_policy (cfg_reverse_proxy_load_balancing_policy c)),
      throw_if (cfg_tls_certificate_file c = []) ''tls_certificate_file cannot be empty'',
      throw_if (cfg_tls_private_key_file c = []) ''tls_private_key_file cannot be empty'']"

text \<open>\<open>is_regular_file\<close> may itself throw. The entries have passed \<open>valid_sni_certificate_map\<close>.\<close>

definition require_file :: "(string \<Rightarrow> bool result) \<Rightarrow> string \<Rightarrow> string \<Rightarrow> unit result" where
  "require_file is_regular_file file what =
     r_bind (is_regular_file file) (\<lambda>found. throw_if (\<not> found) (what @ '' does not exist: '' @ file))"

definition sni_file_checks :: "(string \<Rightarrow> bool result) \<Rightarrow> string \<Rightarrow> unit result list" where
  "sni_file_checks is_regular_file entry =
     (case sni_entry entry of
        None \<Rightarrow> []
      | Some (pattern, certificate_file, private_key_file) \<Rightarrow>
          [require_file is_regular_file certificate_file ''tls_sni_certificates certificate file'',
           require_file is_regular_file private_key_file ''tls_sni_certificates private key file''])"

definition tls_file_checks :: "(string \<Rightarrow> bool result) \<Rightarrow> server_config \<Rightarrow> unit result list" where
  "tls_file_checks is_regular_file c =
     (if cfg_tls_enabled c then
        require_file is_regular_file (cfg_tls_certificate_file c) ''tls_certificate_file'' #
        require_file is_regular_file (cfg_tls_private_key_file c) ''tls_private_key_file'' #
        concat (map (sni_file_checks is_regular_file) (split_delimited (cfg_tls_sni_certificates c) (CHR '';'')))
      else [])"

definition build_config :: "inet \<Rightarrow> (string \<Rightarrow> bool result) \<Rightarrow> config_values \<Rightarrow> server_config result" where
  "build_config inet_pton is_regular_file values =
     r_bind (read_fields config_fields values default_server_config) (\<lambda>c.
     r_bind (in_order (config_checks inet_pton c @ tls_file_checks is_regular_file c)) (\<lambda>_. Inr c))"

section \<open>The description\<close>

definition bool_text :: "bool \<Rightarrow> string" where
  "bool_text b = (if b then ''true'' else ''false'')"

definition described_fields :: "server_config \<Rightarrow> (string \<times> string) list" where
  "described_fields c =
    [(''host'', cfg_host c),
     (''port'', to_string (cfg_port c)),
     (''document_root'', cfg_document_root c),
     (''directory_index'', cfg_directory_index c),
     (''error_page'', cfg_error_page c),
     (''max_request_bytes'', to_string (cfg_max_request_bytes c)),
     (''http_keep_alive_enabled'', bool_text (cfg_http_keep_alive_enabled c)),
     (''http_keep_alive_timeout_seconds'', int_to_string (cfg_http_keep_alive_timeout_seconds c)),
     (''http_keep_alive_max_requests'', int_to_string (cfg_http_keep_alive_max_requests c)),
     (''listen_backlog'', int_to_string (cfg_listen_backlog c)),
     (''server_name'', cfg_server_name c),
     (''worker_threads'', to_string (cfg_worker_threads c)),
     (''epoll_max_events'', int_to_string (cfg_epoll_max_events c)),
     (''reuse_port_enabled'', bool_text (cfg_reuse_port_enabled c)),
     (''tcp_keepalive_enabled'', bool_text (cfg_tcp_keepalive_enabled c)),
     (''tcp_keepalive_idle_seconds'', int_to_string (cfg_tcp_keepalive_idle_seconds c)),
     (''tcp_keepalive_interval_seconds'', int_to_string (cfg_tcp_keepalive_interval_seconds c)),
     (''tcp_keepalive_probe_count'', int_to_string (cfg_tcp_keepalive_probe_count c)),
     (''graceful_shutdown_timeout_seconds'', int_to_string (cfg_graceful_shutdown_timeout_seconds c)),
     (''connection_pool_size'', to_string (cfg_connection_pool_size c)),
     (''http1_enabled'', bool_text (cfg_http1_enabled c)),
     (''http2_enabled'', bool_text (cfg_http2_enabled c)),
     (''http3_enabled'', bool_text (cfg_http3_enabled c)),
     (''tls_enabled'', bool_text (cfg_tls_enabled c)),
     (''tls_certificate_file'', cfg_tls_certificate_file c),
     (''tls_private_key_file'', cfg_tls_private_key_file c),
     (''tls_min_version'', cfg_tls_min_version c),
     (''tls_max_version'', cfg_tls_max_version c),
     (''tls_cipher_list'', cfg_tls_cipher_list c),
     (''tls_ciphersuites'', cfg_tls_ciphersuites c),
     (''tls_alpn_protocols'', cfg_tls_alpn_protocols c),
     (''tls_sni_hosts'', cfg_tls_sni_hosts c),
     (''tls_sni_certificates'', cfg_tls_sni_certificates c),
     (''tls_sni_required'', bool_text (cfg_tls_sni_required c)),
     (''request_timeout_seconds'', int_to_string (cfg_request_timeout_seconds c)),
     (''header_timeout_seconds'', int_to_string (cfg_header_timeout_seconds c)),
     (''body_timeout_seconds'', int_to_string (cfg_body_timeout_seconds c)),
     (''idle_timeout_seconds'', int_to_string (cfg_idle_timeout_seconds c)),
     (''global_connection_limit'', to_string (cfg_global_connection_limit c)),
     (''per_ip_connection_limit'', to_string (cfg_per_ip_connection_limit c)),
     (''rate_limit_enabled'', bool_text (cfg_rate_limit_enabled c)),
     (''rate_limit_requests_per_minute'', int_to_string (cfg_rate_limit_requests_per_minute c)),
     (''ip_allowlist'', cfg_ip_allowlist c),
     (''ip_blocklist'', cfg_ip_blocklist c),
     (''websocket_max_frame_bytes'', to_string (cfg_websocket_max_frame_bytes c)),
     (''security_headers_enabled'', bool_text (cfg_security_headers_enabled c)),
     (''security_header_content_security_policy'', cfg_security_header_content_security_policy c),
     (''security_header_strict_transport_security'', cfg_security_header_strict_transport_security c),
     (''security_header_x_content_type_options'', cfg_security_header_x_content_type_options c),
     (''security_header_x_frame_options'', cfg_security_header_x_frame_options c),
     (''security_header_referrer_policy'', cfg_security_header_referrer_policy c),
     (''security_header_cross_origin_opener_policy'', cfg_security_header_cross_origin_opener_policy c),
     (''server_header_enabled'', bool_text (cfg_server_header_enabled c)),
     (''virtual_hosts_enabled'', bool_text (cfg_virtual_hosts_enabled c)),
     (''virtual_hosts'', cfg_virtual_hosts c),
     (''virtual_host_waf_overrides'', cfg_virtual_host_waf_overrides c),
     (''reverse_proxy_connect_timeout_seconds'', int_to_string (cfg_reverse_proxy_connect_timeout_seconds c)),
     (''reverse_proxy_read_timeout_seconds'', int_to_string (cfg_reverse_proxy_read_timeout_seconds c)),
     (''reverse_proxy_max_response_bytes'', to_string (cfg_reverse_proxy_max_response_bytes c)),
     (''reverse_proxy_retry_count'', to_string (cfg_reverse_proxy_retry_count c)),
     (''reverse_proxy_load_balancing_policy'', cfg_reverse_proxy_load_balancing_policy c),
     (''reverse_proxy_tls_verify_upstream'', bool_text (cfg_reverse_proxy_tls_verify_upstream c)),
     (''reverse_proxy_circuit_breaker_enabled'', bool_text (cfg_reverse_proxy_circuit_breaker_enabled c)),
     (''reverse_proxy_circuit_breaker_failure_threshold'', to_string (cfg_reverse_proxy_circuit_breaker_failure_threshold c)),
     (''reverse_proxy_circuit_breaker_cooldown_seconds'', int_to_string (cfg_reverse_proxy_circuit_breaker_cooldown_seconds c)),
     (''modsecurity_enabled'', bool_text (cfg_modsecurity_enabled c)),
     (''modsecurity_owasp_crs_enabled'', bool_text (cfg_modsecurity_owasp_crs_enabled c)),
     (''modsecurity_blocking_enabled'', bool_text (cfg_modsecurity_blocking_enabled c)),
     (''modsecurity_anomaly_threshold'', to_string (cfg_modsecurity_anomaly_threshold c)),
     (''modsecurity_max_inspection_bytes'', to_string (cfg_modsecurity_max_inspection_bytes c)),
     (''modsecurity_audit_log_enabled'', bool_text (cfg_modsecurity_audit_log_enabled c))]"

fun join_comma :: "string list \<Rightarrow> string" where
  "join_comma [] = []"
| "join_comma [x] = x"
| "join_comma (x # xs) = x @ '', '' @ join_comma xs"

definition describe_config :: "server_config \<Rightarrow> string" where
  "describe_config c = join_comma (map (\<lambda>(k, v). k @ ''='' @ v) (described_fields c))"

section \<open>The configuration database\<close>

text \<open>\<open>bind_text\<close> passes C strings, which end at the first NUL.\<close>

definition c_str :: "string \<Rightarrow> string" where
  "c_str s = takeWhile (\<lambda>c. c \<noteq> CHR 0x00) s"

text \<open>\<open>sq_run sql texts db\<close> prepares the statement \<open>sql\<close>, binds the texts to its parameters and steps it until it is
  done: the rows, as texts, and the new state of the database; \<open>Inl\<close> when SQLite reports an error.\<close>

record 'db sqlite =
  sq_open :: "'db \<Rightarrow> 'db result"
  sq_run :: "string \<Rightarrow> string list \<Rightarrow> 'db \<Rightarrow> (string list list \<times> 'db) result"

definition sql_create_config :: string where
  "sql_create_config = ''CREATE TABLE IF NOT EXISTS rimau_config (key TEXT PRIMARY KEY NOT NULL,value TEXT NOT NULL,'' @
     ''description TEXT NOT NULL DEFAULT '' @ [CHR 0x27, CHR 0x27] @ '',updated_at TEXT NOT NULL DEFAULT CURRENT_TIMESTAMP);''"

definition sql_create_trigger :: string where
  "sql_create_trigger = ''CREATE TRIGGER IF NOT EXISTS rimau_config_updated_at AFTER UPDATE ON rimau_config FOR EACH ROW BEGIN '' @
     ''UPDATE rimau_config SET updated_at = CURRENT_TIMESTAMP WHERE key = OLD.key;END;''"

definition sql_create_migrations :: string where
  "sql_create_migrations = ''CREATE TABLE IF NOT EXISTS rimau_schema_migrations (version INTEGER PRIMARY KEY NOT NULL,'' @
     ''name TEXT NOT NULL,applied_at TEXT NOT NULL DEFAULT CURRENT_TIMESTAMP);''"

definition sql_first_migration :: string where
  "sql_first_migration = ''INSERT OR IGNORE INTO rimau_schema_migrations(version, name) VALUES (1, '' @
     [CHR 0x27] @ ''initial rimau_config schema'' @ [CHR 0x27] @ '');''"

definition sql_version :: string where
  "sql_version = ''SELECT COALESCE(MAX(version), 0) FROM rimau_schema_migrations;''"

definition sql_insert :: string where
  "sql_insert = ''INSERT OR IGNORE INTO rimau_config(key, value, description) VALUES (?, ?, ?);''"

definition sql_select :: string where
  "sql_select = ''SELECT key, value FROM rimau_config;''"

definition sql_update :: string where
  "sql_update = ''UPDATE rimau_config SET value = ? WHERE key = ?;''"

definition sq_exec :: "'db sqlite \<Rightarrow> string \<Rightarrow> 'db \<Rightarrow> 'db result" where
  "sq_exec sq sql db = r_bind (sq_run sq sql [] db) (\<lambda>(rows, db). Inr db)"

definition create_schema :: "'db sqlite \<Rightarrow> 'db \<Rightarrow> 'db result" where
  "create_schema sq db =
     r_bind (sq_exec sq sql_create_config db) (\<lambda>db.
     r_bind (sq_exec sq sql_create_trigger db) (\<lambda>db.
     r_bind (sq_exec sq sql_create_migrations db) (\<lambda>db.
     sq_exec sq sql_first_migration db)))"

text \<open>\<open>sqlite3_column_int\<close> reads the integer at the front of the text.\<close>

definition column_int :: "string \<Rightarrow> int" where
  "column_int text = (case stoi text of Inr (v, n) \<Rightarrow> v | Inl e \<Rightarrow> 0)"

definition read_schema_version :: "'db sqlite \<Rightarrow> 'db \<Rightarrow> int result" where
  "read_schema_version sq db =
     r_bind (sq_run sq sql_version [] db) (\<lambda>(rows, db).
       case rows of (text # _) # _ \<Rightarrow> Inr (column_int text) | _ \<Rightarrow> Inr 0)"

definition current_config_schema_version :: int where
  "current_config_schema_version = 1"

definition validate_schema_version :: "'db sqlite \<Rightarrow> 'db \<Rightarrow> unit result" where
  "validate_schema_version sq db =
     r_bind (read_schema_version sq db) (\<lambda>version.
       throw_if (version > current_config_schema_version)
         (''sqlite config database schema version '' @ int_to_string version @ '' is newer than supported version '' @
          int_to_string current_config_schema_version))"

definition insert_default :: "'db sqlite \<Rightarrow> config_default \<Rightarrow> 'db \<Rightarrow> 'db result" where
  "insert_default sq item db =
     (case item of ((key, v), description) \<Rightarrow>
        r_bind (sq_run sq sql_insert [c_str key, c_str v, c_str description] db) (\<lambda>(rows, db). Inr db))"

fun insert_defaults :: "'db sqlite \<Rightarrow> config_default list \<Rightarrow> 'db \<Rightarrow> 'db result" where
  "insert_defaults sq [] db = Inr db"
| "insert_defaults sq (item # items) db = r_bind (insert_default sq item db) (insert_defaults sq items)"

definition store_row :: "config_values \<Rightarrow> string list \<Rightarrow> config_values" where
  "store_row values row = (case row of [k, v] \<Rightarrow> AList.update k v values | _ \<Rightarrow> values)"

definition read_config_values :: "'db sqlite \<Rightarrow> 'db \<Rightarrow> config_values result" where
  "read_config_values sq db =
     r_bind (sq_run sq sql_select [] db) (\<lambda>(rows, db). Inr (foldl store_row [] rows))"

definition open_database :: "'db sqlite \<Rightarrow> string \<Rightarrow> 'db \<Rightarrow> 'db result" where
  "open_database sq database_path db = (if database_path = [] then Inl ''database path is empty'' else sq_open sq db)"

definition initialize_config_database :: "'db sqlite \<Rightarrow> string \<Rightarrow> 'db \<Rightarrow> 'db result" where
  "initialize_config_database sq database_path db =
     r_bind (open_database sq database_path db) (\<lambda>db.
     r_bind (create_schema sq db) (\<lambda>db.
     r_bind (validate_schema_version sq db) (\<lambda>_.
     insert_defaults sq config_defaults db)))"

definition config_schema_version :: "'db sqlite \<Rightarrow> string \<Rightarrow> 'db \<Rightarrow> (int \<times> 'db) result" where
  "config_schema_version sq database_path db =
     r_bind (initialize_config_database sq database_path db) (\<lambda>db.
     r_bind (open_database sq database_path db) (\<lambda>db.
     r_bind (read_schema_version sq db) (\<lambda>version. Inr (version, db))))"

definition load_config_from_database ::
    "inet \<Rightarrow> (string \<Rightarrow> bool result) \<Rightarrow> 'db sqlite \<Rightarrow> string \<Rightarrow> 'db \<Rightarrow> (server_config \<times> 'db) result" where
  "load_config_from_database inet_pton is_regular_file sq database_path db =
     r_bind (initialize_config_database sq database_path db) (\<lambda>db.
     r_bind (open_database sq database_path db) (\<lambda>db.
     r_bind (read_config_values sq db) (\<lambda>values.
     r_bind (build_config inet_pton is_regular_file values) (\<lambda>c.
     Inr (c\<lparr>cfg_database_path := database_path\<rparr>, db)))))"

definition set_config_value :: "inet \<Rightarrow> 'db sqlite \<Rightarrow> string \<Rightarrow> string \<Rightarrow> string \<Rightarrow> 'db \<Rightarrow> 'db result" where
  "set_config_value inet_pton sq database_path key v db =
     r_bind (validate_config_value inet_pton key v) (\<lambda>_.
     r_bind (initialize_config_database sq database_path db) (\<lambda>db.
     r_bind (open_database sq database_path db) (\<lambda>db.
     r_bind (sq_run sq sql_update [c_str v, c_str key] db) (\<lambda>(rows, db). Inr db))))"


section \<open>The default table agrees with the initialisers\<close>

lemma config_defaults_distinct: "distinct (map (\<lambda>d. fst (fst d)) config_defaults)"
  by (simp add: config_defaults_def)

lemma find_key: "distinct (map fst xs) \<Longrightarrow> (k, v) \<in> set xs \<Longrightarrow> find (\<lambda>(k', v). k' = k) xs = Some (k, v)"
  by (induction xs) force+

lemma default_value:
  assumes "d \<in> set config_defaults"
  shows "value_or_default [] (fst (fst d)) = Inr (snd (fst d))"
proof -
  have "find (\<lambda>(k', v). k' = fst (fst d)) default_values = Some (fst d)"
    using config_defaults_distinct assms
    by (intro find_key [of _ "fst (fst d)" "snd (fst d)", simplified]) (simp_all add: default_values_def o_def)
  then show ?thesis by (cases d) (auto simp: value_or_default_def)
qed

lemma default_lookup: "map (value_or_default []) supported_config_keys = map (\<lambda>d. Inr (snd (fst d))) config_defaults"
  by (simp add: supported_config_keys_def default_value)

end
