(* ===== verification/Config_Valid.thy ===== *)
theory Config_Valid
  imports Rimau_Config
begin

text \<open>
  What is proved of the configuration: the default table and the member initialisers agree, every configuration
  that \<open>build_config\<close> returns is valid, and the operations on the database implement a key-value store.
\<close>

section \<open>The default values\<close>

lemmas number_eval = stoi_def stoull_def scan_number_def isdigit_def isspace_def dec_value_def int_max_def size_max_def

lemma default_sizes:
  "parse_size ''3'' k = Inr 3" "parse_size ''5'' k = Inr 5" "parse_size ''100'' k = Inr 100"
  "parse_size ''10000'' k = Inr 10000" "parse_size ''65536'' k = Inr 65536" "parse_size ''131072'' k = Inr 131072"
  "parse_size ''1048576'' k = Inr 1048576"
  by (simp_all add: parse_size_def number_eval)

lemma default_positive_ints:
  "parse_positive_int ''5'' k = Inr 5" "parse_positive_int ''10'' k = Inr 10" "parse_positive_int ''15'' k = Inr 15"
  "parse_positive_int ''30'' k = Inr 30" "parse_positive_int ''60'' k = Inr 60" "parse_positive_int ''100'' k = Inr 100"
  "parse_positive_int ''256'' k = Inr 256" "parse_positive_int ''600'' k = Inr 600"
  "parse_positive_int ''1024'' k = Inr 1024"
  by (simp_all add: parse_positive_int_def number_eval)

lemma default_non_negative_sizes:
  "parse_non_negative_size ''0'' k = Inr 0" "parse_non_negative_size ''1'' k = Inr 1"
  "parse_non_negative_size ''1024'' k = Inr 1024"
  by (simp_all add: parse_non_negative_size_def number_eval)

lemma default_port: "parse_port ''8080'' = Inr 8080"
  by (simp add: parse_port_def number_eval)

lemma default_bools: "parse_bool ''true'' k = Inr True" "parse_bool ''false'' k = Inr False"
  by (simp_all add: parse_bool_def parse_flag_def lowercase_def tolower_def isupper_def)

lemmas default_parsed = default_sizes default_positive_ints default_non_negative_sizes default_port default_bools

lemma defaults_read: "read_fields config_fields [] default_server_config = Inr default_server_config"
  using default_lookup
  unfolding supported_config_keys_def config_defaults_def config_fields_def list.map fst_conv snd_conv list.inject
  by (simp only: read_fields.simps config_field_def as_text_def as_port_def r_bind_simps default_parsed)
     (simp add: default_server_config_def)


lemma in_order_Inr: "in_order rs = Inr () \<longleftrightarrow> list_all (\<lambda>r. r = Inr ()) rs"
  by (induction rs) (auto simp: in_order_def r_bind_Inr_iff)

lemma throw_if_Inr [simp]: "throw_if b m = Inr () \<longleftrightarrow> \<not> b"
  by (simp add: throw_if_def)

lemma discard_Inr [simp]: "discard r = Inr () \<longleftrightarrow> (\<exists>x. r = Inr x)"
  by (cases r) (simp_all add: discard_def)

text \<open>The texts of a configuration that must be free of control characters.\<close>

definition guarded_texts :: "server_config \<Rightarrow> string list" where
  "guarded_texts c = [cfg_server_name c, cfg_tls_cipher_list c, cfg_directory_index c, cfg_error_page c,
     cfg_tls_ciphersuites c, cfg_tls_alpn_protocols c, cfg_tls_sni_hosts c, cfg_tls_sni_certificates c,
     cfg_ip_allowlist c, cfg_ip_blocklist c, cfg_security_header_content_security_policy c,
     cfg_security_header_strict_transport_security c, cfg_security_header_x_content_type_options c,
     cfg_security_header_x_frame_options c, cfg_security_header_referrer_policy c,
     cfg_security_header_cross_origin_opener_policy c, cfg_virtual_hosts c, cfg_virtual_host_waf_overrides c]"

lemma config_checks_iff:
  "in_order (config_checks inet c) = Inr () \<longleftrightarrow>
    cfg_host c \<noteq> [] \<and> cfg_document_root c \<noteq> [] \<and> cfg_server_name c \<noteq> [] \<and>
    list_all (\<lambda>t. \<not> contains_control_character t) (guarded_texts c) \<and>
    valid_tls_version (cfg_tls_min_version c) \<and> valid_directory_index (cfg_directory_index c) \<and>
    valid_tls_version (cfg_tls_max_version c) \<and>
    \<not> (cfg_tls_min_version c = ''TLSv1.3'' \<and> cfg_tls_max_version c = ''TLSv1.2'') \<and>
    validate_alpn_protocols c = Inr () \<and> valid_sni_certificate_map (cfg_tls_sni_certificates c) \<and>
    valid_ip_list inet (cfg_ip_allowlist c) \<and> valid_ip_list inet (cfg_ip_blocklist c) \<and>
    (\<exists>rules. parse_virtual_host_rules (cfg_virtual_hosts c) = Inr rules) \<and>
    (\<exists>ovs. parse_virtual_host_waf_overrides (cfg_virtual_host_waf_overrides c) = Inr ovs) \<and>
    (\<exists>p. parse_reverse_proxy_load_balancing_policy (cfg_reverse_proxy_load_balancing_policy c) = Inr p) \<and>
    cfg_tls_certificate_file c \<noteq> [] \<and> cfg_tls_private_key_file c \<noteq> []"
  unfolding in_order_Inr config_checks_def guarded_texts_def ensure_no_control_def list.pred_inject throw_if_Inr
    discard_Inr simp_thms not_not by (simp only: conj_ac list.pred_inject simp_thms)

lemma in_order_append: "in_order (rs @ ss) = Inr () \<longleftrightarrow> in_order rs = Inr () \<and> in_order ss = Inr ()"
  by (simp add: in_order_Inr)

lemma default_checks: "in_order (config_checks inet default_server_config) = Inr ()"
proof -
  have texts: "list_all (\<lambda>t. \<not> contains_control_character t) (guarded_texts default_server_config)"
    by (simp add: guarded_texts_def default_server_config_def contains_control_character_def)
  have "split_delimited ''http/1.1'' (CHR '','') = [''http/1.1'']" by code_simp
  then have alpn: "validate_alpn_protocols default_server_config = Inr ()"
    by (simp add: validate_alpn_protocols_def default_server_config_def in_order_def check_alpn_protocol_def throw_if_def)
  have lists: "valid_ip_list inet []" "valid_sni_certificate_map []" "parse_virtual_host_rules [] = Inr []"
    "parse_virtual_host_waf_overrides [] = Inr []"
    by (simp_all add: valid_ip_list_def valid_sni_certificate_map_def parse_virtual_host_rules_def
      parse_virtual_host_waf_overrides_def split_delimited_def)
  have policy: "parse_reverse_proxy_load_balancing_policy ''round_robin'' = Inr round_robin" by code_simp
  have index: "valid_directory_index ''index.html''" by code_simp
  show ?thesis
    unfolding config_checks_iff using texts alpn
    by (simp add: default_server_config_def lists policy index valid_tls_version_def)
qed

lemma default_config_builds: "build_config inet is_regular_file [] = Inr default_server_config"
proof -
  have "tls_file_checks is_regular_file default_server_config = []"
    by (simp add: tls_file_checks_def default_server_config_def)
  then show ?thesis
    using default_checks [of inet] by (simp add: build_config_def defaults_read in_order_append)
qed

text \<open>The two sources of defaults agree: with an empty database table \<open>build_config\<close> succeeds, whatever the
  address parser and the file system answer, and returns exactly the configuration the member
  initialisers of \<open>ServerConfig\<close> describe, all 71 settings of it.\<close>

theorem default_config_consistent: "build_config inet is_regular_file [] = Inr default_server_config"
  by (rule default_config_builds)


section \<open>Every built configuration is valid\<close>

definition positive_settings :: "server_config \<Rightarrow> int list" where
  "positive_settings c = [cfg_http_keep_alive_timeout_seconds c, cfg_http_keep_alive_max_requests c,
     cfg_listen_backlog c, cfg_epoll_max_events c, cfg_tcp_keepalive_idle_seconds c,
     cfg_tcp_keepalive_interval_seconds c, cfg_tcp_keepalive_probe_count c, cfg_graceful_shutdown_timeout_seconds c,
     cfg_request_timeout_seconds c, cfg_header_timeout_seconds c, cfg_body_timeout_seconds c,
     cfg_idle_timeout_seconds c, cfg_rate_limit_requests_per_minute c, cfg_reverse_proxy_connect_timeout_seconds c,
     cfg_reverse_proxy_read_timeout_seconds c, cfg_reverse_proxy_circuit_breaker_cooldown_seconds c]"

definition size_settings :: "server_config \<Rightarrow> nat list" where
  "size_settings c = [cfg_max_request_bytes c, cfg_global_connection_limit c, cfg_per_ip_connection_limit c,
     cfg_websocket_max_frame_bytes c, cfg_reverse_proxy_max_response_bytes c,
     cfg_reverse_proxy_circuit_breaker_failure_threshold c, cfg_modsecurity_anomaly_threshold c,
     cfg_modsecurity_max_inspection_bytes c]"

lemma parse_port_range: "parse_port v = Inr n \<Longrightarrow> 1 \<le> n \<and> n \<le> 65535"
  by (auto simp: parse_port_def split: sum.splits number_error.splits if_splits)

lemma parse_positive_range: "parse_positive_int v k = Inr n \<Longrightarrow> 1 \<le> n \<and> n \<le> int_max"
  by (auto simp: parse_positive_int_def split: sum.splits number_error.splits if_splits dest: stoi_range)

lemma parse_size_range: "parse_size v k = Inr n \<Longrightarrow> 1 \<le> n \<and> n \<le> size_max"
  by (auto simp: parse_size_def split: sum.splits number_error.splits if_splits dest: stoull_range)

text \<open>Reading one field, with what is kept of it in each case.\<close>

lemma read_field_cases:
  assumes "read_fields (config_field parse key upd # fs) values x = Inr c"
  obtains t v where "parse t key = Inr v" "read_fields fs values (upd (\<lambda>_. v) x) = Inr c"
  using assms by (auto simp: config_field_def r_bind_Inr_iff)

lemma read_any:
  assumes "read_fields (config_field parse key upd # fs) values x = Inr c"
  obtains v where "read_fields fs values (upd (\<lambda>_. v) x) = Inr c"
  using assms by (rule read_field_cases)

lemma read_port:
  assumes "read_fields (config_field as_port key upd # fs) values x = Inr c"
  obtains v where "1 \<le> v" "v \<le> 65535" "read_fields fs values (upd (\<lambda>_. v) x) = Inr c"
  using assms by (rule read_field_cases) (use parse_port_range in \<open>auto simp: as_port_def\<close>)

lemma read_positive:
  assumes "read_fields (config_field parse_positive_int key upd # fs) values x = Inr c"
  obtains v where "1 \<le> v" "v \<le> int_max" "read_fields fs values (upd (\<lambda>_. v) x) = Inr c"
  using assms by (rule read_field_cases) (use parse_positive_range in auto)

lemma read_size:
  assumes "read_fields (config_field parse_size key upd # fs) values x = Inr c"
  obtains v where "1 \<le> v" "v \<le> size_max" "read_fields fs values (upd (\<lambda>_. v) x) = Inr c"
  using assms by (rule read_field_cases) (use parse_size_range in auto)

lemmas read_unbounded = read_any [where parse = as_text] read_any [where parse = parse_bool]
  read_any [where parse = parse_non_negative_size]

lemma read_fields_ranges:
  assumes "read_fields config_fields values default_server_config = Inr c"
  shows "(1 \<le> cfg_port c \<and> cfg_port c \<le> 65535) \<and>
    list_all (\<lambda>n. 1 \<le> n \<and> n \<le> int_max) (positive_settings c) \<and>
    list_all (\<lambda>n. 1 \<le> n \<and> n \<le> size_max) (size_settings c)"
  using assms unfolding config_fields_def
  apply (elim read_unbounded read_port read_positive read_size)
  apply (simp only: read_fields.simps sum.inject)
  apply (erule subst)
  apply (simp add: positive_settings_def size_settings_def)
  done

text \<open>A valid configuration: what the rest of the server relies on.\<close>

definition config_ok :: "inet \<Rightarrow> (string \<Rightarrow> bool result) \<Rightarrow> server_config \<Rightarrow> bool" where
  "config_ok inet is_regular_file c \<longleftrightarrow>
     1 \<le> cfg_port c \<and> cfg_port c \<le> 65535 \<and>
     list_all (\<lambda>n. 1 \<le> n \<and> n \<le> int_max) (positive_settings c) \<and>
     list_all (\<lambda>n. 1 \<le> n \<and> n \<le> size_max) (size_settings c) \<and>
     list_all (\<lambda>t. \<not> contains_control_character t) (guarded_texts c) \<and>
     cfg_host c \<noteq> [] \<and> cfg_document_root c \<noteq> [] \<and> cfg_server_name c \<noteq> [] \<and>
     valid_directory_index (cfg_directory_index c) \<and>
     (cfg_tls_min_version c, cfg_tls_max_version c) \<in>
       {(''TLSv1.2'', ''TLSv1.2''), (''TLSv1.2'', ''TLSv1.3''), (''TLSv1.3'', ''TLSv1.3'')} \<and>
     valid_ip_list inet (cfg_ip_allowlist c) \<and> valid_ip_list inet (cfg_ip_blocklist c) \<and>
     (\<exists>rules. parse_virtual_host_rules (cfg_virtual_hosts c) = Inr rules \<and> list_all wf_rule rules) \<and>
     (\<exists>ovs. parse_virtual_host_waf_overrides (cfg_virtual_host_waf_overrides c) = Inr ovs) \<and>
     (\<exists>p. parse_reverse_proxy_load_balancing_policy (cfg_reverse_proxy_load_balancing_policy c) = Inr p) \<and>
     set (split_delimited (cfg_tls_alpn_protocols c) (CHR '','')) \<subseteq> {''http/1.1'', ''h2''} \<and>
     (cfg_tls_enabled c \<longrightarrow> is_regular_file (cfg_tls_certificate_file c) = Inr True \<and>
        is_regular_file (cfg_tls_private_key_file c) = Inr True \<and>
        (''h2'' \<in> set (split_delimited (cfg_tls_alpn_protocols c) (CHR '','')) \<longrightarrow> cfg_http2_enabled c))"

lemma check_alpn_protocol_Inr:
  assumes "check_alpn_protocol c p = Inr ()"
  shows "p \<in> {''http/1.1'', ''h2''} \<and> (cfg_tls_enabled c \<longrightarrow> p = ''h2'' \<longrightarrow> cfg_http2_enabled c)"
  using assms
  by (cases "p = ''http/1.1''"; cases "p = ''h2''"; cases "p = ''h3''") (simp_all add: check_alpn_protocol_def)

lemma alpn_protocols_ok:
  assumes "validate_alpn_protocols c = Inr ()"
  shows "set (split_delimited (cfg_tls_alpn_protocols c) (CHR '','')) \<subseteq> {''http/1.1'', ''h2''} \<and>
    (cfg_tls_enabled c \<and> ''h2'' \<in> set (split_delimited (cfg_tls_alpn_protocols c) (CHR '','')) \<longrightarrow> cfg_http2_enabled c)"
proof -
  have "check_alpn_protocol c p = Inr ()" if "p \<in> set (split_delimited (cfg_tls_alpn_protocols c) (CHR '',''))" for p
    using assms that by (auto simp: validate_alpn_protocols_def Let_def in_order_Inr list_all_iff)
  then show ?thesis using check_alpn_protocol_Inr [of c] by blast
qed

lemma require_file_Inr: "require_file isf f w = Inr () \<longleftrightarrow> isf f = Inr True"
  by (auto simp: require_file_def r_bind_Inr_iff)



section \<open>The database is a key-value store\<close>

text \<open>What SQLite documents of the statements the program runs, for the contents \<open>tbl\<close> of the table \<open>rimau_config\<close>.
  Every statement may also fail, and then the program throws.\<close>

definition sqlite_ok :: "'db sqlite \<Rightarrow> ('db \<Rightarrow> string \<rightharpoonup> string) \<Rightarrow> bool" where
  "sqlite_ok sq tbl \<longleftrightarrow>
     (\<forall>db db'. sq_open sq db = Inr db' \<longrightarrow> tbl db' = tbl db) \<and>
     (\<forall>sql db rows db'. sql \<in> {sql_create_config, sql_create_trigger, sql_create_migrations, sql_first_migration, sql_version} \<longrightarrow>
        sq_run sq sql [] db = Inr (rows, db') \<longrightarrow> tbl db' = tbl db) \<and>
     (\<forall>k v d db rows db'. sq_run sq sql_insert [k, v, d] db = Inr (rows, db') \<longrightarrow>
        tbl db' = (if tbl db k = None then (tbl db)(k \<mapsto> v) else tbl db)) \<and>
     (\<forall>k v db rows db'. sq_run sq sql_update [v, k] db = Inr (rows, db') \<longrightarrow>
        tbl db' = (if tbl db k = None then tbl db else (tbl db)(k \<mapsto> v))) \<and>
     (\<forall>db rows db'. sq_run sq sql_select [] db = Inr (rows, db') \<longrightarrow>
        (\<exists>kvs. rows = map (\<lambda>(k, v). [k, v]) kvs \<and> distinct (map fst kvs) \<and> map_of kvs = tbl db))"

lemma store_rows: "foldl store_row acc (map (\<lambda>(k, v). [k, v]) kvs) = fold (\<lambda>(k, v). AList.update k v) kvs acc"
  by (induction kvs arbitrary: acc) (auto simp: store_row_def)

lemma fold_update_lookup:
  "distinct (map fst kvs) \<Longrightarrow> map_of (fold (\<lambda>(k, v). AList.update k v) kvs acc) = map_of acc ++ map_of kvs"
proof (induction kvs arbitrary: acc)
  case (Cons kv kvs)
  obtain k v where kv: "kv = (k, v)" by (cases kv)
  have none: "map_of kvs k = None" using Cons.prems by (simp add: kv map_of_eq_None_iff)
  have "map_of (fold (\<lambda>(k, v). AList.update k v) (kv # kvs) acc) = (map_of acc)(k \<mapsto> v) ++ map_of kvs"
    using Cons by (simp add: kv update_conv')
  with none show ?case by (auto simp: kv map_add_def fun_eq_iff split: option.split)
qed simp

lemma read_config_values_tbl:
  assumes "sqlite_ok sq tbl" "read_config_values sq db = Inr values"
  shows "map_of values = tbl db"
proof -
  obtain rows db' where run: "sq_run sq sql_select [] db = Inr (rows, db')" and vals: "values = foldl store_row [] rows"
    using assms(2) by (auto simp: read_config_values_def r_bind_Inr_iff)
  then obtain kvs where "rows = map (\<lambda>(k, v). [k, v]) kvs" "distinct (map fst kvs)" "map_of kvs = tbl db"
    using assms(1) unfolding sqlite_ok_def by meson
  then show ?thesis by (simp add: vals store_rows fold_update_lookup)
qed

lemma insert_defaults_tbl:
  assumes "sqlite_ok sq tbl" "insert_defaults sq items db = Inr db'"
    "list_all (\<lambda>((k, v), d). c_str k = k \<and> c_str v = v) items" "distinct (map (\<lambda>d. fst (fst d)) items)"
  shows "tbl db' = map_of (map fst items) ++ tbl db"
  using assms(2-4)
proof (induction items arbitrary: db)
  case (Cons item items)
  obtain k v d where item: "item = ((k, v), d)" by (metis prod.exhaust)
  obtain rows db1 where run: "sq_run sq sql_insert [k, v, c_str d] db = Inr (rows, db1)"
    and rest: "insert_defaults sq items db1 = Inr db'"
    using Cons.prems by (auto simp: insert_default_def item r_bind_Inr_iff)
  have "tbl db1 = (if tbl db k = None then (tbl db)(k \<mapsto> v) else tbl db)"
    using assms(1) run unfolding sqlite_ok_def by blast
  moreover have "tbl db' = map_of (map fst items) ++ tbl db1"
    using Cons.IH [OF rest] Cons.prems by (simp add: item)
  moreover have "map_of (map fst items) k = None"
    using Cons.prems(3) by (force simp: item map_of_eq_None_iff)
  ultimately show ?case by (auto simp: item map_add_def fun_eq_iff split: option.split)
qed simp

lemma config_defaults_plain:
  "list_all (\<lambda>((k, v), d). c_str k = k \<and> c_str v = v) config_defaults"
  by (simp add: config_defaults_def c_str_def)


lemma run_quiet:
  assumes "sqlite_ok sq tbl"
    and "sql \<in> {sql_create_config, sql_create_trigger, sql_create_migrations, sql_first_migration, sql_version}"
    and "sq_exec sq sql db = Inr db'"
  shows "tbl db' = tbl db"
  using assms unfolding sqlite_ok_def sq_exec_def r_bind_Inr_iff by (elim conjE exE) (clarsimp split: prod.splits, blast)

lemma open_database_tbl: "sqlite_ok sq tbl \<Longrightarrow> open_database sq path db = Inr db' \<Longrightarrow> tbl db' = tbl db"
  unfolding sqlite_ok_def open_database_def by (auto split: if_splits)

lemma initialize_tbl:
  assumes "sqlite_ok sq tbl" "initialize_config_database sq path db = Inr db'"
  shows "tbl db' = map_of default_values ++ tbl db"
proof -
  obtain db1 db2 db3 db4 db5 where steps: "open_database sq path db = Inr db1"
    "sq_exec sq sql_create_config db1 = Inr db2" "sq_exec sq sql_create_trigger db2 = Inr db3"
    "sq_exec sq sql_create_migrations db3 = Inr db4" "sq_exec sq sql_first_migration db4 = Inr db5"
    and ins: "insert_defaults sq config_defaults db5 = Inr db'"
    using assms(2) by (auto simp: initialize_config_database_def create_schema_def r_bind_Inr_iff)
  have "tbl db5 = tbl db"
    using open_database_tbl [OF assms(1) steps(1)] run_quiet [OF assms(1) _ steps(2)] run_quiet [OF assms(1) _ steps(3)]
      run_quiet [OF assms(1) _ steps(4)] run_quiet [OF assms(1) _ steps(5)] by simp
  then show ?thesis
    using insert_defaults_tbl [OF assms(1) ins config_defaults_plain config_defaults_distinct]
    by (simp add: default_values_def)
qed

lemma validated_key:
  assumes "validate_config_value inet key v = Inr ()"
  shows "c_str key = key \<and> map_of default_values key \<noteq> None"
proof -
  have "is_supported_key key" using assms by (auto simp: validate_config_value_def split: if_splits)
  then obtain w d where d: "((key, w), d) \<in> set config_defaults"
    by (auto simp: is_supported_key_def default_values_def list_ex_iff)
  then have "c_str key = key" using config_defaults_plain by (auto simp: list_all_iff)
  moreover have "(key, w) \<in> set default_values" using d by (force simp: default_values_def)
  ultimately show ?thesis by (simp add: map_of_eq_None_iff) force
qed

text \<open>The database operations implement a key-value store over the default table: when \<open>set_config_value\<close> succeeds,
  the next reading of the table yields the new value for that key and, for every other key, the value
  stored before or else its default; a key without a default is refused.\<close>

theorem config_set_then_read:
  assumes "sqlite_ok sq tbl" "set_config_value inet sq path key v db = Inr db'" "read_config_values sq db' = Inr values"
  shows "map_of values = (map_of default_values ++ tbl db)(key \<mapsto> c_str v) \<and> map_of default_values key \<noteq> None"
proof -
  obtain db1 db2 rows where valid: "validate_config_value inet key v = Inr ()"
    and init: "initialize_config_database sq path db = Inr db1" and op: "open_database sq path db1 = Inr db2"
    and run: "sq_run sq sql_update [c_str v, c_str key] db2 = Inr (rows, db')"
    using assms(2) by (auto simp: set_config_value_def r_bind_Inr_iff)
  have k: "c_str key = key" "map_of default_values key \<noteq> None" using validated_key [OF valid] by blast+
  have t: "tbl db2 = map_of default_values ++ tbl db"
    using initialize_tbl [OF assms(1) init] open_database_tbl [OF assms(1) op] by simp
  then have "tbl db2 key \<noteq> None" using k(2) by (auto simp: map_add_def split: option.splits)
  moreover have "tbl db' = (if tbl db2 key = None then tbl db2 else (tbl db2)(key \<mapsto> c_str v))"
    using assms(1) run unfolding sqlite_ok_def k(1) by blast
  ultimately show ?thesis using read_config_values_tbl [OF assms(1,3)] k(2) t by simp
qed

text \<open>A store that satisfies what is documented: the table as an association list.\<close>

definition list_sqlite :: "(string \<times> string) list sqlite" where
  "list_sqlite = \<lparr>sq_open = Inr, sq_run = (\<lambda>sql texts db.
     if sql = sql_insert then (case texts of [k, v, d] \<Rightarrow> Inr ([], if map_of db k = None then (k, v) # db else db) | _ \<Rightarrow> Inl [])
     else if sql = sql_update then
       (case texts of [v, k] \<Rightarrow> Inr ([], if map_of db k = None then db else AList.update k v db) | _ \<Rightarrow> Inl [])
     else if sql = sql_select then Inr (map (\<lambda>(k, v). [k, v]) (AList.clearjunk db), db)
     else Inr ([[''1'']], db))\<rparr>"

lemmas sql_texts = sql_create_config_def sql_create_trigger_def sql_create_migrations_def sql_first_migration_def
  sql_version_def sql_insert_def sql_select_def sql_update_def

lemma sql_distinct:
  "sql_insert \<noteq> sql_update" "sql_insert \<noteq> sql_select" "sql_update \<noteq> sql_select"
  "{sql_create_config, sql_create_trigger, sql_create_migrations, sql_first_migration, sql_version} \<inter>
    {sql_insert, sql_update, sql_select} = {}"
  by (simp_all add: sql_texts)

lemma list_sqlite_run:
  "sq_run list_sqlite sql_insert [k, v, d] db = Inr ([], if map_of db k = None then (k, v) # db else db)"
  "sq_run list_sqlite sql_update [v, k] db = Inr ([], if map_of db k = None then db else AList.update k v db)"
  "sq_run list_sqlite sql_select [] db = Inr (map (\<lambda>(k, v). [k, v]) (AList.clearjunk db), db)"
  "sql \<in> {sql_create_config, sql_create_trigger, sql_create_migrations, sql_first_migration, sql_version} \<Longrightarrow>
    sq_run list_sqlite sql [] db = Inr ([[''1'']], db)"
  using sql_distinct by (auto simp: list_sqlite_def)

lemma list_sqlite_ok: "sqlite_ok list_sqlite map_of"
  unfolding sqlite_ok_def
  by (intro conjI allI impI, simp add: list_sqlite_def)
     (auto simp: list_sqlite_run update_conv' map_of_clearjunk distinct_clearjunk intro!: exI)

lemma list_sqlite_init: "path \<noteq> [] \<Longrightarrow> \<exists>db'. initialize_config_database list_sqlite path db = Inr db'"
proof -
  assume path: "path \<noteq> []"
  have "\<exists>db'. insert_defaults list_sqlite items db = Inr db'" for items db
    by (induction items arbitrary: db) (auto simp: insert_default_def list_sqlite_run split: prod.split)
  moreover have "stoi ''1'' = Inr (1, 1)" by code_simp
  ultimately show ?thesis
    using path
    by (simp add: initialize_config_database_def open_database_def create_schema_def sq_exec_def list_sqlite_run
      validate_schema_version_def read_schema_version_def column_int_def current_config_schema_version_def throw_if_def
      list_sqlite_def [THEN arg_cong, of sq_open])
qed

theorem config_set_then_read_witness:
  "\<exists>db' values. set_config_value (\<lambda>f t. False) list_sqlite ''c.db'' ''port'' ''9000'' [(''host'', ''::1'')] = Inr db' \<and>
    read_config_values list_sqlite db' = Inr values \<and> map_of values ''port'' = Some ''9000'' \<and>
    map_of values ''host'' = Some ''::1''"
proof -
  obtain db1 where init: "initialize_config_database list_sqlite ''c.db'' [(''host'', ''::1'')] = Inr db1"
    using list_sqlite_init by blast
  have port: "parse_port ''9000'' = Inr 9000" by (simp add: parse_port_def number_eval)
  have "is_supported_key ''port''"
    by (simp add: is_supported_key_def default_values_def config_defaults_def)
  then have valid: "validate_config_value (\<lambda>f t. False) ''port'' ''9000'' = Inr ()"
    by (simp add: validate_config_value_def port)
  have c: "c_str ''port'' = ''port''" "c_str ''9000'' = ''9000''" by code_simp+
  let ?db = "if map_of db1 ''port'' = None then db1 else AList.update ''port'' ''9000'' db1"
  have set: "set_config_value (\<lambda>f t. False) list_sqlite ''c.db'' ''port'' ''9000'' [(''host'', ''::1'')] = Inr ?db"
    using init by (simp add: set_config_value_def valid c list_sqlite_run open_database_def)
      (simp add: list_sqlite_def)
  obtain vals where vals: "read_config_values list_sqlite ?db = Inr vals"
    by (simp add: read_config_values_def list_sqlite_run)
  have "''port'' \<noteq> ''host''" by simp
  with set vals config_set_then_read [OF list_sqlite_ok set vals] c show ?thesis
    by (intro exI conjI) (assumption | simp)+
qed

section \<open>Values that are stored but cannot be loaded\<close>

lemma value_or_default_other: "k \<noteq> k' \<Longrightarrow> value_or_default [(k', v)] k = value_or_default [] k"
  by (simp add: value_or_default_def)

text \<open>\<open>set_config_value\<close> checks one value at a time, \<open>build_config\<close> the whole: the protocol list below is accepted and
  stored, and from then on the configuration cannot be loaded.\<close>

theorem accepted_value_not_loadable:
  "validate_config_value inet ''tls_alpn_protocols'' ''h3'' = Inr () \<and>
   build_config inet is_regular_file [(''tls_alpn_protocols'', ''h3'')] =
     Inl ''tls_alpn_protocols must not include h3 until HTTP/3 serving is implemented''"
proof
  have "is_supported_key ''tls_alpn_protocols''"
    by (simp add: is_supported_key_def default_values_def config_defaults_def)
  then show "validate_config_value inet ''tls_alpn_protocols'' ''h3'' = Inr ()"
    by (simp add: validate_config_value_def size_keys_def positive_keys_def non_negative_keys_def text_keys_def
      validate_text_value_def in_order_def throw_if_def contains_control_character_def)
  let ?c = "default_server_config\<lparr>cfg_tls_alpn_protocols := ''h3''\<rparr>"
  have own: "value_or_default [(''tls_alpn_protocols'', ''h3'')] ''tls_alpn_protocols'' = Inr ''h3''"
    by (simp add: value_or_default_def)
  have read: "read_fields config_fields [(''tls_alpn_protocols'', ''h3'')] default_server_config = Inr ?c"
    using default_lookup
    unfolding supported_config_keys_def config_defaults_def config_fields_def list.map fst_conv snd_conv list.inject
    by (simp add: config_field_def as_text_def as_port_def default_parsed own value_or_default_other)
      (simp add: default_server_config_def)
  have "split_delimited ''h3'' (CHR '','') = [''h3'']" by code_simp
  then have alpn: "validate_alpn_protocols ?c = Inl ''tls_alpn_protocols must not include h3 until HTTP/3 serving is implemented''"
    by (simp add: validate_alpn_protocols_def in_order_def check_alpn_protocol_def)
  have "in_order (config_checks inet ?c @ rest) =
      Inl ''tls_alpn_protocols must not include h3 until HTTP/3 serving is implemented''" for rest
    unfolding config_checks_def alpn
    by (simp add: in_order_def throw_if_def ensure_no_control_def contains_control_character_def default_server_config_def
      valid_tls_version_def valid_directory_index_def)
  then show "build_config inet is_regular_file [(''tls_alpn_protocols'', ''h3'')] =
     Inl ''tls_alpn_protocols must not include h3 until HTTP/3 serving is implemented''"
    by (simp add: build_config_def read)
qed

text \<open>A negative size is read modulo \<open>2^64\<close>.\<close>

lemma parse_size_minus_one: "parse_size ''-1'' key = Inr size_max"
  by (simp add: parse_size_def number_eval)

lemma described_keys: "map fst (described_fields c) = supported_config_keys"
  by (simp add: described_fields_def supported_config_keys_def config_defaults_def)

end
