(* ===== verification/Http_Transaction.thy ===== *)
theory Http_Transaction
  imports Proxy_Resilience Config_Valid
begin

text \<open>
  One request through the server's handlers: \<open>response_sink.cpp\<close>, \<open>response_builder.cpp\<close>, \<open>transaction.cpp\<close>,
  \<open>static_file_handler.cpp\<close> and the handlers of \<open>virtual_host.cpp\<close> under \<open>src/src/http\<close>, and \<open>BufferedResponseSink\<close> of
  \<open>src/src/core/server.cpp\<close>. The abstract classes are records of functions (their virtual tables), so that the code
  which only knows the interface is one definition; the contract of a \<open>ResponseSink\<close> is the locale \<open>response_sink\<close>,
  which \<open>BufferedResponseSink\<close> interprets. \<open>'s\<close> is the state of a sink, \<open>'g\<close> the global state a handler may
  change (the round robin counter and the circuit breakers of the proxy).
\<close>

section \<open>Sinks\<close>

record 's sink =
  sk_send :: "response \<Rightarrow> body_mode \<Rightarrow> 's \<Rightarrow> 's"
  sk_send_chunked :: "response \<Rightarrow> string list \<Rightarrow> body_mode \<Rightarrow> 's \<Rightarrow> 's"
  sk_sent :: "'s \<Rightarrow> bool"

text \<open>The implementation a subclass inherits.\<close>

definition default_send_chunked ::
    "(response \<Rightarrow> body_mode \<Rightarrow> 's \<Rightarrow> 's) \<Rightarrow> response \<Rightarrow> string list \<Rightarrow> body_mode \<Rightarrow> 's \<Rightarrow> 's" where
  "default_send_chunked send r chunks mode s = send (r\<lparr>rs_body := rs_body r @ concat chunks\<rparr>) mode s"

record buffered_sink =
  bs_sent :: bool
  bs_last_status :: int
  bs_response :: response
  bs_chunked :: bool
  bs_chunks :: "string list"
  bs_body_mode :: body_mode

definition new_buffered_sink :: buffered_sink where
  "new_buffered_sink = \<lparr>bs_sent = False, bs_last_status = 500, bs_response = new_response, bs_chunked = False,
     bs_chunks = [], bs_body_mode = body_included\<rparr>"

definition buffered_send :: "response \<Rightarrow> body_mode \<Rightarrow> buffered_sink \<Rightarrow> buffered_sink" where
  "buffered_send r mode s =
     (if bs_sent s then s
      else s\<lparr>bs_last_status := rs_status r, bs_response := r, bs_body_mode := mode, bs_chunked := False,
             bs_chunks := [], bs_sent := True\<rparr>)"

definition buffered_send_chunked :: "response \<Rightarrow> string list \<Rightarrow> body_mode \<Rightarrow> buffered_sink \<Rightarrow> buffered_sink" where
  "buffered_send_chunked r chunks mode s =
     (if bs_sent s then s
      else s\<lparr>bs_last_status := rs_status r, bs_response := r\<lparr>rs_body := concat chunks\<rparr>, bs_chunks := chunks,
             bs_body_mode := mode, bs_chunked := True, bs_sent := True\<rparr>)"

definition buffered :: "buffered_sink sink" where
  "buffered = \<lparr>sk_send = buffered_send, sk_send_chunked = buffered_send_chunked, sk_sent = bs_sent\<rparr>"

definition add_security_header :: "string \<Rightarrow> string \<Rightarrow> serialization_options \<Rightarrow> serialization_options" where
  "add_security_header name v options =
     (if v = [] then options else options\<lparr>so_default_headers := AList.update name v (so_default_headers options)\<rparr>)"

definition response_serialization_options :: "server_config \<Rightarrow> serialization_options" where
  "response_serialization_options config =
     (let options = default_serialization_options\<lparr>so_server_header_enabled := cfg_server_header_enabled config,
            so_server_name := cfg_server_name config\<rparr>
      in if cfg_security_headers_enabled config then
           let options = add_security_header ''x-content-type-options'' (cfg_security_header_x_content_type_options config) options;
               options = add_security_header ''x-frame-options'' (cfg_security_header_x_frame_options config) options;
               options = add_security_header ''referrer-policy'' (cfg_security_header_referrer_policy config) options;
               options = add_security_header ''cross-origin-opener-policy''
                 (cfg_security_header_cross_origin_opener_policy config) options;
               options = add_security_header ''content-security-policy''
                 (cfg_security_header_content_security_policy config) options
           in if cfg_tls_enabled config
              then add_security_header ''strict-transport-security'' (cfg_security_header_strict_transport_security config) options
              else options
         else options)"

definition sink_payload ::
    "(headers \<Rightarrow> headers) \<Rightarrow> server_config \<Rightarrow> bool \<Rightarrow> int \<Rightarrow> int \<Rightarrow> buffered_sink \<Rightarrow> string" where
  "sink_payload it config keep_alive timeout_seconds remaining_requests s =
     (let r = (if keep_alive then
                 set_header ''keep-alive''
                   (''timeout='' @ int_to_string timeout_seconds @ '', max='' @ int_to_string remaining_requests)
                   (set_header ''connection'' ''keep-alive'' (bs_response s))
               else erase_header ''keep-alive'' (set_header ''connection'' ''close'' (bs_response s)));
          options = response_serialization_options config
      in if bs_chunked s then to_http_chunked_string it (bs_chunks s) (bs_body_mode s = body_included) options r
         else to_http_string it (bs_body_mode s = body_included) options r)"

section \<open>The response builder\<close>

text \<open>The response under construction; the sink is passed to the sending operations.\<close>

definition build_status :: "int \<Rightarrow> response \<Rightarrow> response" where
  "build_status status r = r\<lparr>rs_status := status, rs_reason := reason_phrase status\<rparr>"

definition build_status_reason :: "int \<Rightarrow> string \<Rightarrow> response \<Rightarrow> response" where
  "build_status_reason status reason r = r\<lparr>rs_status := status, rs_reason := reason\<rparr>"

definition build_header :: "string \<Rightarrow> string \<Rightarrow> response \<Rightarrow> response" where
  "build_header name v r = set_header name v r"

definition build_body :: "string \<Rightarrow> response \<Rightarrow> response" where
  "build_body b r = r\<lparr>rs_body := b\<rparr>"

definition build_content_type :: "string \<Rightarrow> response \<Rightarrow> response" where
  "build_content_type v r = set_header ''content-type'' v r"

definition build_send :: "'s sink \<Rightarrow> response \<Rightarrow> 's \<Rightarrow> 's" where
  "build_send sk r = sk_send sk r body_included"

definition build_send_without_body :: "'s sink \<Rightarrow> response \<Rightarrow> 's \<Rightarrow> 's" where
  "build_send_without_body sk r = sk_send sk r headers_only"

definition build_send_chunked :: "'s sink \<Rightarrow> string list \<Rightarrow> response \<Rightarrow> 's \<Rightarrow> 's" where
  "build_send_chunked sk chunks r = sk_send_chunked sk r chunks body_included"

text \<open>The plain text error that \<open>dispatch\<close> and \<open>RequestHandler::on_error\<close> build.\<close>

definition error_500 :: "string \<Rightarrow> response" where
  "error_500 text = build_body text (build_content_type plain_text (build_status 500 new_response))"

section \<open>Handlers and transactions\<close>

datatype thrown = std_exception string | unknown_exception

text \<open>A call of a handler: \<open>None\<close> when it never returns, otherwise the sink, the global state and what it threw.\<close>

type_synonym ('s, 'g) call = "('s \<times> 'g \<times> thrown option) option"

record ('s, 'g) handler =
  hl_on_request :: "request \<Rightarrow> 's \<Rightarrow> 'g \<Rightarrow> ('s, 'g) call"
  hl_on_complete :: "'g \<Rightarrow> 'g \<times> thrown option"
  hl_on_error :: "string \<Rightarrow> 's \<Rightarrow> 'g \<Rightarrow> ('s, 'g) call"

definition default_on_complete :: "'g \<Rightarrow> 'g \<times> thrown option" where
  "default_on_complete g = (g, None)"

definition default_on_error :: "'s sink \<Rightarrow> string \<Rightarrow> 's \<Rightarrow> 'g \<Rightarrow> ('s, 'g) call" where
  "default_on_error sk message s g = Some (build_send sk (error_500 (message @ [LF])) s, g, None)"

type_synonym ('s, 'g) factory = "request \<Rightarrow> thrown + ('s, 'g) handler option"

datatype transaction_state = tx_idle | tx_handling | tx_complete | tx_failed

record transaction =
  tx_id :: u64
  tx_request :: request
  tx_state :: transaction_state

definition new_transaction :: "u64 \<Rightarrow> request \<Rightarrow> transaction" where
  "new_transaction i r = \<lparr>tx_id = i, tx_request = r, tx_state = tx_idle\<rparr>"

fun failure_text :: "thrown \<Rightarrow> string" where
  "failure_text (std_exception what) = ''Request handler failed: '' @ what @ [LF]"
| "failure_text unknown_exception = ''Request handler failed with an unknown error'' @ [LF]"

definition catch_error :: "'s sink \<Rightarrow> thrown \<Rightarrow> 's \<Rightarrow> 'g \<Rightarrow> ('s \<times> 'g \<times> transaction_state) option" where
  "catch_error sk e s g = Some (build_send sk (error_500 (failure_text e)) s, g, tx_failed)"

definition run_handler ::
    "'s sink \<Rightarrow> ('s, 'g) handler \<Rightarrow> request \<Rightarrow> 's \<Rightarrow> 'g \<Rightarrow> ('s \<times> 'g \<times> transaction_state) option" where
  "run_handler sk h r s g =
     (case hl_on_request h r s g of
        None \<Rightarrow> None
      | Some (s, g, Some e) \<Rightarrow> catch_error sk e s g
      | Some (s, g, None) \<Rightarrow>
          (case hl_on_complete h g of
             (g, Some e) \<Rightarrow> catch_error sk e s g
           | (g, None) \<Rightarrow>
               if sk_sent sk s then Some (s, g, tx_complete)
               else
                 case hl_on_error h ''Request handler completed without sending a response'' s g of
                   None \<Rightarrow> None
                 | Some (s, g, Some e) \<Rightarrow> catch_error sk e s g
                 | Some (s, g, None) \<Rightarrow> Some (s, g, tx_failed)))"

definition dispatch ::
    "'s sink \<Rightarrow> ('s, 'g) factory \<Rightarrow> transaction \<Rightarrow> 's \<Rightarrow> 'g \<Rightarrow> (transaction \<times> 's \<times> 'g) option" where
  "dispatch sk create tx s g =
     map_option (\<lambda>(s, g, st). (tx\<lparr>tx_state := st\<rparr>, s, g))
       (case create (tx_request tx) of
          Inl e \<Rightarrow> catch_error sk e s g
        | Inr None \<Rightarrow> Some (build_send sk (error_500 (''No request handler available'' @ [LF])) s, g, tx_failed)
        | Inr (Some h) \<Rightarrow> run_handler sk h (tx_request tx) s g)"

section \<open>The static file handler\<close>

definition allowed_methods :: string where
  "allowed_methods = ''GET, HEAD, POST, PUT, PATCH, DELETE, OPTIONS''"

definition is_supported_method :: "string \<Rightarrow> bool" where
  "is_supported_method m \<longleftrightarrow> m \<in> {''GET'', ''HEAD'', ''POST'', ''PUT'', ''PATCH'', ''DELETE'', ''OPTIONS''}"

fun separated :: "string list \<Rightarrow> string" where
  "separated [] = []"
| "separated [x] = x"
| "separated (x # xs) = x @ '','' @ separated xs"

abbreviation quoted :: "string \<Rightarrow> string" where
  "quoted s \<equiv> [CHR 0x22] @ json_escape s @ [CHR 0x22]"

text \<open>\<open>query_params\<close> is an unordered map as well; \<open>qit\<close> is its iteration order.\<close>

definition query_params_json :: "(query_params \<Rightarrow> query_params) \<Rightarrow> request \<Rightarrow> string" where
  "query_params_json qit r =
     ''{'' @ separated (map (\<lambda>(name, vs). quoted name @ '':['' @ separated (map (\<lambda>v. quoted v) vs) @ '']'')
       (qit (rq_query_params r))) @ ''}''"

definition method_json_response ::
    "(query_params \<Rightarrow> query_params) \<Rightarrow> (string \<Rightarrow> string option) \<Rightarrow> request \<Rightarrow> response" where
  "method_json_response qit files r =
     (let body = body_text_loop (64 * 1024) (open_body_reader files r) [] in
      set_header ''allow'' allowed_methods
        (json_response 200
          (''{'' @ quoted ''method'' @ '':'' @ quoted (rq_method r) @ '','' @
           quoted ''target'' @ '':'' @ quoted (rq_target r) @ '','' @
           quoted ''path'' @ '':'' @ quoted (rq_path r) @ '','' @
           quoted ''query'' @ '':'' @ query_params_json qit r @ '','' @
           quoted ''body_size'' @ '':'' @ to_string (body_size r) @ '','' @
           quoted ''json_request'' @ '':'' @ bool_text (is_json r) @ '','' @
           quoted ''body'' @ '':'' @ quoted body @ '','' @
           quoted ''body_truncated'' @ '':'' @ bool_text (body_size r > length body) @ '','' @
           quoted ''body_spooled'' @ '':'' @ bool_text (body_spooled_to_file r) @ ''}'' @ [LF])))"

text \<open>What the handler answers, and how; \<open>downstream.send\<close> is called exactly once on every path.\<close>

record world =
  w_files :: file_system
  w_spool :: "string \<Rightarrow> string option"
  w_headers_order :: "headers \<Rightarrow> headers"
  w_query_order :: "query_params \<Rightarrow> query_params"
  w_proxy :: proxy_env

definition static_file_answer :: "world \<Rightarrow> path \<Rightarrow> static_file_options \<Rightarrow> request \<Rightarrow> response \<times> body_mode" where
  "static_file_answer w document_root options r =
     (if \<not> is_supported_method (rq_method r) then
        (set_header ''allow'' allowed_methods (text_response 405 (''Method Not Allowed'' @ [LF]) plain_text), body_included)
      else if rq_method r = ''OPTIONS'' then
        (set_header ''access-control-allow-headers''
           ''Content-Type, Range, Upgrade, Connection, Sec-WebSocket-Key, Sec-WebSocket-Version''
           (set_header ''access-control-allow-methods'' allowed_methods
             (set_header ''allow'' allowed_methods (new_response\<lparr>rs_status := 204, rs_reason := reason_phrase 204\<rparr>))),
         headers_only)
      else if rq_method r = ''GET'' \<or> rq_method r = ''HEAD'' then
        (file_response (w_files w) r document_root options,
         if rq_method r = ''HEAD'' then headers_only else body_included)
      else (method_json_response (w_query_order w) (w_spool w) r, body_included))"

definition static_file_handler ::
    "'s sink \<Rightarrow> world \<Rightarrow> path \<Rightarrow> static_file_options \<Rightarrow> ('s, 'g) handler" where
  "static_file_handler sk w document_root options =
     \<lparr>hl_on_request = (\<lambda>r s g. case static_file_answer w document_root options r of
        (resp, mode) \<Rightarrow> Some (sk_send sk resp mode s, g, None)),
      hl_on_complete = default_on_complete, hl_on_error = default_on_error sk\<rparr>"

definition static_file_handler_factory ::
    "'s sink \<Rightarrow> world \<Rightarrow> path \<Rightarrow> static_file_options \<Rightarrow> ('s, 'g) factory" where
  "static_file_handler_factory sk w document_root options r = Inr (Some (static_file_handler sk w document_root options))"

section \<open>The handlers of virtual hosts\<close>

type_synonym proxy_globals = "u64 \<times> circuit_breakers"

definition reverse_proxy_handler ::
    "'s sink \<Rightarrow> world \<Rightarrow> reverse_proxy_target list \<Rightarrow> reverse_proxy_settings \<Rightarrow> ('s, proxy_globals) handler" where
  "reverse_proxy_handler sk w upstreams settings =
     \<lparr>hl_on_request = (\<lambda>r s (counter, cbs).
        map_option (\<lambda>(resp, counter, cbs).
          (sk_send sk resp (if rq_method r = ''HEAD'' then headers_only else body_included) s, (counter, cbs), None))
          (reverse_proxy_response (w_headers_order w) (w_spool w) (w_proxy w) r upstreams settings counter cbs)),
      hl_on_complete = default_on_complete, hl_on_error = default_on_error sk\<rparr>"

definition script_answer :: "virtual_host_rule \<Rightarrow> response" where
  "script_answer rule =
     set_header ''x-rimau-runtime-status'' ''planned''
       (json_response 501
         (''{'' @ quoted ''runtime'' @ '':'' @ quoted (vr_script_runtime rule) @ '','' @
          quoted ''script_root'' @ '':'' @ quoted (vr_script_root rule) @ '','' @
          quoted ''implemented'' @ '':false,'' @ quoted ''message'' @ '':'' @
          quoted ''Bundled server-side runtime execution is not implemented yet'' @ ''}'' @ [LF]))"

definition server_side_script_handler :: "'s sink \<Rightarrow> virtual_host_rule \<Rightarrow> ('s, 'g) handler" where
  "server_side_script_handler sk rule =
     \<lparr>hl_on_request = (\<lambda>r s g. Some (sk_send sk (script_answer rule) body_included s, g, None)),
      hl_on_complete = default_on_complete, hl_on_error = default_on_error sk\<rparr>"

record virtual_host_factory =
  vf_default_document_root :: path
  vf_rules :: "virtual_host_rule list"
  vf_proxy_settings :: reverse_proxy_settings
  vf_static_file_options :: static_file_options

definition new_virtual_host_factory ::
    "path \<Rightarrow> string \<Rightarrow> reverse_proxy_settings \<Rightarrow> static_file_options \<Rightarrow> virtual_host_factory result" where
  "new_virtual_host_factory root cfg settings options =
     r_bind (parse_virtual_host_rules cfg) (\<lambda>rules.
       Inr \<lparr>vf_default_document_root = root, vf_rules = rules, vf_proxy_settings = settings,
            vf_static_file_options = options\<rparr>)"

definition virtual_host_create :: "'s sink \<Rightarrow> world \<Rightarrow> virtual_host_factory \<Rightarrow> ('s, proxy_globals) factory" where
  "virtual_host_create sk w f r =
     (case select_virtual_host_rule r (vf_rules f) of
        None \<Rightarrow> Inr (Some (static_file_handler sk w (vf_default_document_root f) (vf_static_file_options f)))
      | Some rule \<Rightarrow>
          (case vr_action rule of
             static_files \<Rightarrow> Inr (Some (static_file_handler sk w (vr_document_root rule) (vf_static_file_options f)))
           | reverse_proxy \<Rightarrow> Inr (Some (reverse_proxy_handler sk w (vr_upstreams rule) (vf_proxy_settings f)))
           | server_side_script \<Rightarrow> Inr (Some (server_side_script_handler sk rule))))"

section \<open>The contract of a sink\<close>

text \<open>A sink remembers at most one answer: the first one it is given.\<close>

locale response_sink =
  fixes sk :: "'s sink" and answer :: "'s \<Rightarrow> (response \<times> body_mode) option"
  assumes sent_iff: "sk_sent sk s \<longleftrightarrow> answer s \<noteq> None"
    and send_first: "answer s = None \<Longrightarrow> answer (sk_send sk r m s) = Some (r, m)"
    and send_again: "answer s \<noteq> None \<Longrightarrow> sk_send sk r m s = s"
    and send_chunked_first: "answer s = None \<Longrightarrow> rs_body r = [] \<Longrightarrow>
      answer (sk_send_chunked sk r chunks m s) = Some (r\<lparr>rs_body := concat chunks\<rparr>, m)"
    and send_chunked_again: "answer s \<noteq> None \<Longrightarrow> sk_send_chunked sk r chunks m s = s"
begin

lemma send_answered: "sk_sent sk (sk_send sk r m s)"
  by (cases "answer s = None") (simp_all add: sent_iff send_first send_again)

lemma send_keeps: "answer s = Some a \<Longrightarrow> answer (sk_send sk r m s) = Some a"
  by (simp add: send_again)

lemma catch_error_answer:
  "catch_error sk e s g = Some (s', g', st) \<Longrightarrow> st = tx_failed \<and> g' = g \<and>
    answer s' = (case answer s of None \<Rightarrow> Some (error_500 (failure_text e), body_included) | Some a \<Rightarrow> Some a)"
  by (auto simp: catch_error_def build_send_def send_first send_keeps split: option.split)

lemma run_handler_answers:
  assumes "hl_on_error h = default_on_error sk" "run_handler sk h r s g = Some (s', g', st)"
  shows "sk_sent sk s' \<and> st \<in> {tx_complete, tx_failed}"
proof -
  obtain s1 g1 e1 where req: "hl_on_request h r s g = Some (s1, g1, e1)"
    using assms(2) by (cases "hl_on_request h r s g") (auto simp: run_handler_def)
  obtain g2 e2 where comp: "hl_on_complete h g1 = (g2, e2)" by fastforce
  have thrown: "sk_sent sk s' \<and> st \<in> {tx_complete, tx_failed}" if "catch_error sk e t g3 = Some (s', g', st)" for e t g3
    using catch_error_answer [OF that] by (auto simp: sent_iff split: option.splits)
  have silent: "sk_sent sk s' \<and> st \<in> {tx_complete, tx_failed}" if "e1 = None" "e2 = None"
    using assms req comp that
    by (auto simp: run_handler_def default_on_error_def build_send_def send_answered split: if_splits)
  show ?thesis
  proof (cases e1)
    case (Some e)
    with assms(2) req show ?thesis by (intro thrown) (simp add: run_handler_def)
  next
    case None
    show ?thesis
    proof (cases e2)
      case (Some e)
      with assms(2) req comp \<open>e1 = None\<close> show ?thesis by (intro thrown) (simp add: run_handler_def)
    next
      case None
      with \<open>e1 = None\<close> silent show ?thesis by blast
    qed
  qed
qed

lemma dispatch_answers:
  assumes "\<And>h. create (tx_request tx) = Inr (Some h) \<Longrightarrow> hl_on_error h = default_on_error sk"
    and "dispatch sk create tx s g = Some (tx', s', g')"
  shows "sk_sent sk s' \<and> tx_state tx' \<in> {tx_complete, tx_failed} \<and> tx_request tx' = tx_request tx"
proof (cases "create (tx_request tx)")
  case (Inl e)
  then obtain st where "catch_error sk e s g = Some (s', g', st)" "tx' = tx\<lparr>tx_state := st\<rparr>"
    using assms(2) by (auto simp: dispatch_def)
  then show ?thesis using catch_error_answer by (fastforce simp: sent_iff split: option.splits)
next
  case (Inr oh)
  show ?thesis
  proof (cases oh)
    case None
    with Inr assms(2) show ?thesis by (auto simp: dispatch_def build_send_def send_answered)
  next
    case (Some h)
    then obtain st where "run_handler sk h (tx_request tx) s g = Some (s', g', st)" "tx' = tx\<lparr>tx_state := st\<rparr>"
      using assms(2) Inr by (auto simp: dispatch_def)
    then show ?thesis using run_handler_answers [OF assms(1)] Inr Some by fastforce
  qed
qed

text \<open>Nothing but the handler's own request callback can keep \<open>dispatch\<close> from returning.\<close>

lemma dispatch_returns:
  assumes "\<And>h. create (tx_request tx) = Inr (Some h) \<Longrightarrow> hl_on_error h = default_on_error sk \<and>
    hl_on_request h (tx_request tx) s g \<noteq> None"
  shows "\<exists>tx' s' g'. dispatch sk create tx s g = Some (tx', s', g')"
  using assms
  by (auto simp: dispatch_def run_handler_def catch_error_def default_on_error_def split: sum.split option.split prod.split)

text \<open>A handler that sends one answer and returns.\<close>

lemma run_handler_sends:
  assumes "answer s = None" "hl_on_request h r s g = Some (sk_send sk resp m s, g', None)"
    and "hl_on_complete h = default_on_complete"
  shows "run_handler sk h r s g = Some (sk_send sk resp m s, g', tx_complete)"
  using assms by (simp add: run_handler_def default_on_complete_def send_answered)

end

definition buffered_answer :: "buffered_sink \<Rightarrow> (response \<times> body_mode) option" where
  "buffered_answer s = (if bs_sent s then Some (bs_response s, bs_body_mode s) else None)"

interpretation bsink: response_sink buffered buffered_answer
  by unfold_locales
    (auto simp: buffered_def buffered_answer_def buffered_send_def buffered_send_chunked_def split: if_splits)

lemma catch_error_new:
  "catch_error buffered e new_buffered_sink g =
     Some (new_buffered_sink\<lparr>bs_last_status := 500, bs_response := error_500 (failure_text e), bs_sent := True\<rparr>, g, tx_failed)"
  by (simp add: catch_error_def build_send_def buffered_def buffered_send_def new_buffered_sink_def error_500_def
    build_body_def build_content_type_def build_status_def set_header_def)

text \<open>C29: Every dispatched request is answered, exactly once. Whatever the factory and the handler do (refuse, throw at any
  point, also after having sent a response, return without sending, or send several times), once the handler's
  \<open>on_request\<close> returns, \<open>dispatch\<close> returns, the sink holds one response which no later call changes, and the transaction is
  complete or failed; when the factory throws, or the handler throws before it sent anything, that response is the
  500 that names the exception.\<close>

theorem dispatch_answers_once:
  assumes "\<And>h. create (tx_request tx) = Inr (Some h) \<Longrightarrow> hl_on_error h = default_on_error buffered \<and>
      hl_on_request h (tx_request tx) new_buffered_sink g \<noteq> None"
  shows "\<exists>tx' s' g'. dispatch buffered create tx new_buffered_sink g = Some (tx', s', g') \<and> bs_sent s' \<and>
    tx_state tx' \<in> {tx_complete, tx_failed} \<and> buffered_send r m s' = s' \<and> buffered_send_chunked r chunks m s' = s' \<and>
    (\<forall>e. create (tx_request tx) = Inl e \<or>
       (\<exists>h g1. create (tx_request tx) = Inr (Some h) \<and>
          hl_on_request h (tx_request tx) new_buffered_sink g = Some (new_buffered_sink, g1, Some e)) \<longrightarrow>
       tx_state tx' = tx_failed \<and> bs_last_status s' = 500 \<and> bs_response s' = error_500 (failure_text e))"
proof -
  obtain tx' s' g' where d: "dispatch buffered create tx new_buffered_sink g = Some (tx', s', g')"
    using bsink.dispatch_returns [of create tx new_buffered_sink g] assms by fast
  have sent: "bs_sent s'" "tx_state tx' \<in> {tx_complete, tx_failed}"
    using bsink.dispatch_answers [OF _ d] assms by (simp_all add: buffered_def)
  have "tx_state tx' = tx_failed \<and> bs_last_status s' = 500 \<and> bs_response s' = error_500 (failure_text e)"
    if "create (tx_request tx) = Inl e \<or> (\<exists>h g1. create (tx_request tx) = Inr (Some h) \<and>
      hl_on_request h (tx_request tx) new_buffered_sink g = Some (new_buffered_sink, g1, Some e))" for e
    using d that by (auto simp: dispatch_def run_handler_def catch_error_new)
  with d sent show ?thesis by (auto simp: buffered_send_def buffered_send_chunked_def)
qed

text \<open>A handler that throws before it sends anything.\<close>

theorem dispatch_answers_once_witness:
  "\<exists>tx' s' g'. dispatch buffered
      (\<lambda>r. Inr (Some \<lparr>hl_on_request = (\<lambda>r s g. Some (s, g, Some (std_exception ''boom''))),
         hl_on_complete = default_on_complete, hl_on_error = default_on_error buffered\<rparr>))
      (new_transaction 1 new_request) new_buffered_sink () = Some (tx', s', g') \<and> bs_sent s' \<and>
    bs_response s' = error_500 (''Request handler failed: boom'' @ [LF])"
  using dispatch_answers_once [where tx = "new_transaction 1 new_request" and g = "()" and
      create = "\<lambda>r. Inr (Some \<lparr>hl_on_request = (\<lambda>r s g. Some (s, g, Some (std_exception ''boom''))),
         hl_on_complete = default_on_complete, hl_on_error = default_on_error buffered\<rparr>)"]
  by fastforce

section \<open>Virtual hosts end to end\<close>

text \<open>The answer the configuration promises for a request.\<close>

definition promised_answer ::
    "world \<Rightarrow> virtual_host_factory \<Rightarrow> request \<Rightarrow> proxy_globals \<Rightarrow> (response \<times> body_mode \<times> proxy_globals) option" where
  "promised_answer w f r g =
     (let static = (\<lambda>root. case static_file_answer w root (vf_static_file_options f) r of (resp, m) \<Rightarrow> Some (resp, m, g)) in
      case select_virtual_host_rule r (vf_rules f) of
        None \<Rightarrow> static (vf_default_document_root f)
      | Some rule \<Rightarrow>
          (case vr_action rule of
             static_files \<Rightarrow> static (vr_document_root rule)
           | server_side_script \<Rightarrow> Some (script_answer rule, body_included, g)
           | reverse_proxy \<Rightarrow>
               map_option (\<lambda>(resp, counter, cbs). (resp, if rq_method r = ''HEAD'' then headers_only else body_included, counter, cbs))
                 (reverse_proxy_response (w_headers_order w) (w_spool w) (w_proxy w) r (vr_upstreams rule)
                   (vf_proxy_settings f) (fst g) (snd g))))"

lemma virtual_host_create_handler:
  "\<exists>h. virtual_host_create sk w f r = Inr (Some h) \<and> hl_on_complete h = default_on_complete \<and> hl_on_error h = default_on_error sk \<and>
    hl_on_request h r s g = map_option (\<lambda>(resp, m, g'). (sk_send sk resp m s, g', None)) (promised_answer w f r g)"
proof (cases "select_virtual_host_rule r (vf_rules f)")
  case None
  then show ?thesis
    by (simp add: virtual_host_create_def promised_answer_def static_file_handler_def split: prod.split)
next
  case (Some rule)
  then show ?thesis
    by (cases "vr_action rule"; cases g;
        cases "reverse_proxy_response (w_headers_order w) (w_spool w) (w_proxy w) r (vr_upstreams rule)
          (vf_proxy_settings f) (fst g) (snd g)")
      (auto simp: virtual_host_create_def promised_answer_def static_file_handler_def reverse_proxy_handler_def
        server_side_script_handler_def split: prod.splits)
qed


end
