(* ===== verification/Access_Control.thy ===== *)
theory Access_Control
  imports Rimau_Config "HOL-Library.Multiset"
begin

text \<open>
  Who may connect and how often: the address lists, the connection limits and the request rate limiter of
  \<open>src/src/core/server.cpp\<close> (\<open>ParsedIpAddress\<close>, \<open>cidr_match\<close>, \<open>ip_matches_list\<close>, \<open>SecurityState\<close>, \<open>render_client_ip\<close>).
  \<open>inet_pton\<close> and \<open>inet_ntop\<close> are parameters: the first gives the address bytes in network order.
  Every operation of \<open>SecurityState\<close> runs under its mutex, so that an interleaving of threads is a sequence of
  operations; times are counts of nanoseconds.
\<close>

section \<open>Addresses\<close>

type_synonym inet_pton = "ip_family \<Rightarrow> string \<Rightarrow> bytes option"

definition inet_pton_ok :: "inet_pton \<Rightarrow> bool" where
  "inet_pton_ok pton \<longleftrightarrow>
     (\<forall>t b. (pton AF_INET t = Some b \<longrightarrow> length b = 4) \<and> (pton AF_INET6 t = Some b \<longrightarrow> length b = 16)) \<and>
     (\<forall>f t. pton f t \<noteq> None \<longrightarrow> t \<noteq> [] \<and> \<not> list_ex isspace t)"

record parsed_ip =
  pi_family :: ip_family
  pi_bytes :: bytes
  pi_bit_count :: int

definition parse_ip_address :: "inet_pton \<Rightarrow> string \<Rightarrow> parsed_ip option" where
  "parse_ip_address pton v =
     (case pton AF_INET (c_str v) of
        Some b \<Rightarrow> Some \<lparr>pi_family = AF_INET, pi_bytes = take 4 b @ replicate 12 0, pi_bit_count = 32\<rparr>
      | None \<Rightarrow>
          (case pton AF_INET6 (c_str v) of
             Some b \<Rightarrow> Some \<lparr>pi_family = AF_INET6, pi_bytes = take 16 b, pi_bit_count = 128\<rparr>
           | None \<Rightarrow> None))"

definition cidr_match :: "parsed_ip \<Rightarrow> parsed_ip \<Rightarrow> int \<Rightarrow> bool" where
  "cidr_match ip network prefix_length =
     (if pi_family ip \<noteq> pi_family network \<or> prefix_length < 0 \<or> prefix_length > pi_bit_count ip then False
      else
        let full_bytes = nat prefix_length div 8;
            remaining_bits = nat prefix_length mod 8
        in if \<not> list_all (\<lambda>i. pi_bytes ip ! i = pi_bytes network ! i) [0..<full_bytes] then False
           else if remaining_bits = 0 then True
           else
             let mask = push_bit (8 - remaining_bits) (0xff :: u8)
             in pi_bytes ip ! full_bytes AND mask = pi_bytes network ! full_bytes AND mask)"

fun prefix_value :: "int \<Rightarrow> int \<Rightarrow> string \<Rightarrow> int option" where
  "prefix_value max_prefix p [] = Some p"
| "prefix_value max_prefix p (ch # rest) =
     (if \<not> isdigit ch then None
      else if p * 10 + (int (code ch) - 48) > max_prefix then None
      else prefix_value max_prefix (p * 10 + (int (code ch) - 48)) rest)"

definition parse_prefix :: "string \<Rightarrow> int \<Rightarrow> int option" where
  "parse_prefix v max_prefix = (if v = [] then None else prefix_value max_prefix 0 v)"

definition ip_matches_token :: "inet_pton \<Rightarrow> string \<Rightarrow> string \<Rightarrow> bool" where
  "ip_matches_token pton ip_text token =
     (case parse_ip_address pton ip_text of
        None \<Rightarrow> False
      | Some ip \<Rightarrow>
          let token = trim token in
          case find_char (CHR ''/'') token of
            None \<Rightarrow>
              (case parse_ip_address pton token of
                 None \<Rightarrow> False
               | Some exact \<Rightarrow> pi_family exact = pi_family ip \<and> pi_bytes exact = pi_bytes ip)
          | Some slash \<Rightarrow>
              (case parse_ip_address pton (take slash token) of
                 None \<Rightarrow> False
               | Some network \<Rightarrow>
                   if pi_family network \<noteq> pi_family ip then False
                   else
                     case parse_prefix (drop (slash + 1) token) (pi_bit_count network) of
                       None \<Rightarrow> False
                     | Some prefix_length \<Rightarrow> cidr_match ip network prefix_length))"

definition ip_matches_list :: "inet_pton \<Rightarrow> string \<Rightarrow> string \<Rightarrow> bool" where
  "ip_matches_list pton ip_text l = list_ex (ip_matches_token pton ip_text) (split_csv l)"

text \<open>The address of a client; IPv4 addresses that arrive on an IPv6 socket are unwrapped.\<close>

datatype socket_address = sockaddr_in bytes | sockaddr_in6 bytes | sockaddr_other

definition is_v4_mapped :: "bytes \<Rightarrow> bool" where
  "is_v4_mapped b \<longleftrightarrow> take 12 b = replicate 10 0 @ [0xff, 0xff]"

fun render_client_ip :: "(ip_family \<Rightarrow> bytes \<Rightarrow> string option) \<Rightarrow> socket_address \<Rightarrow> string" where
  "render_client_ip ntop (sockaddr_in b) = (case ntop AF_INET b of Some t \<Rightarrow> t | None \<Rightarrow> ''0.0.0.0'')"
| "render_client_ip ntop (sockaddr_in6 b) =
     (if is_v4_mapped b then (case ntop AF_INET (take 4 (drop 12 b)) of Some t \<Rightarrow> t | None \<Rightarrow> ''0.0.0.0'')
      else (case ntop AF_INET6 b of Some t \<Rightarrow> t | None \<Rightarrow> ''::''))"
| "render_client_ip ntop sockaddr_other = ''unknown''"

section \<open>Limits\<close>

datatype accept_decision = allowed | blocked_ip | not_allowlisted | global_limit | per_ip_limit

record request_bucket =
  bk_window_start :: int
  bk_count :: nat

record security_state =
  sec_active_connections_by_ip :: "string \<rightharpoonup> nat"
  sec_request_buckets :: "string \<rightharpoonup> request_bucket"
  sec_total_connections :: nat

definition new_security_state :: security_state where
  "new_security_state = \<lparr>sec_active_connections_by_ip = Map.empty, sec_request_buckets = Map.empty, sec_total_connections = 0\<rparr>"

text \<open>\<open>operator[]\<close> of a map inserts a zero for an unknown key, also on the path that refuses the connection.\<close>

definition try_open_connection ::
    "inet_pton \<Rightarrow> string \<Rightarrow> server_config \<Rightarrow> security_state \<Rightarrow> accept_decision \<times> security_state" where
  "try_open_connection pton ip config s =
     (if ip_matches_list pton ip (cfg_ip_blocklist config) then (blocked_ip, s)
      else if cfg_ip_allowlist config \<noteq> [] \<and> \<not> ip_matches_list pton ip (cfg_ip_allowlist config) then (not_allowlisted, s)
      else if sec_total_connections s \<ge> cfg_global_connection_limit config then (global_limit, s)
      else
        let n = (case sec_active_connections_by_ip s ip of None \<Rightarrow> 0 | Some n \<Rightarrow> n) in
        if n \<ge> cfg_per_ip_connection_limit config
        then (per_ip_limit, s\<lparr>sec_active_connections_by_ip := (sec_active_connections_by_ip s)(ip \<mapsto> n)\<rparr>)
        else (allowed, s\<lparr>sec_active_connections_by_ip := (sec_active_connections_by_ip s)(ip \<mapsto> n + 1),
                         sec_total_connections := sec_total_connections s + 1\<rparr>))"

definition close_connection :: "string \<Rightarrow> security_state \<Rightarrow> security_state" where
  "close_connection ip s =
     (if ip = [] then s
      else
        let m = sec_active_connections_by_ip s;
            m = (case m ip of None \<Rightarrow> m | Some n \<Rightarrow> if n > 1 then m(ip \<mapsto> n - 1) else m(ip := None))
        in s\<lparr>sec_active_connections_by_ip := m,
             sec_total_connections := (if sec_total_connections s > 0 then sec_total_connections s - 1 else 0)\<rparr>)"

abbreviation minute :: int where
  "minute \<equiv> 60000000000"

definition allow_request :: "string \<Rightarrow> server_config \<Rightarrow> int \<Rightarrow> security_state \<Rightarrow> bool \<times> security_state" where
  "allow_request ip config now s =
     (if \<not> cfg_rate_limit_enabled config \<or> ip = [] then (True, s)
      else
        let bucket = (case sec_request_buckets s ip of None \<Rightarrow> \<lparr>bk_window_start = 0, bk_count = 0\<rparr> | Some b \<Rightarrow> b);
            bucket = (if bk_window_start bucket = 0 \<or> now - bk_window_start bucket \<ge> minute
                      then bucket\<lparr>bk_window_start := now, bk_count := 0\<rparr> else bucket)
        in if bk_count bucket \<ge> nat (cfg_rate_limit_requests_per_minute config mod 2 ^ 64)
           then (False, s\<lparr>sec_request_buckets := (sec_request_buckets s)(ip \<mapsto> bucket)\<rparr>)
           else (True, s\<lparr>sec_request_buckets :=
                  (sec_request_buckets s)(ip \<mapsto> bucket\<lparr>bk_count := bk_count bucket + 1\<rparr>)\<rparr>))"

section \<open>Prefix matching is matching of leading bits\<close>

definition octet_bits :: "u8 \<Rightarrow> bool list" where
  "octet_bits b = map (bit b) [7, 6, 5, 4, 3, 2, 1, 0]"

definition address_bits :: "bytes \<Rightarrow> bool list" where
  "address_bits b = concat (map octet_bits b)"

lemma length_octet_bits [simp]: "length (octet_bits b) = 8"
  by (simp add: octet_bits_def)

lemma less_8_cases: "(n :: nat) < 8 \<Longrightarrow> n = 0 \<or> n = 1 \<or> n = 2 \<or> n = 3 \<or> n = 4 \<or> n = 5 \<or> n = 6 \<or> n = 7"
  by arith

lemma u8_eqI:
  assumes "\<And>n. n < 8 \<Longrightarrow> bit (x :: u8) n = bit y n"
  shows "x = y"
  using assms by (intro bit_word_eqI) simp

lemma masked_byte_eq_iff:
  assumes "r < 8"
  shows "x AND push_bit (8 - r) 0xff = y AND push_bit (8 - r) (0xff :: u8) \<longleftrightarrow> take r (octet_bits x) = take r (octet_bits y)"
proof -
  have mask: "bit (push_bit (8 - r) (0xff :: u8)) n \<longleftrightarrow> 8 - r \<le> n \<and> n < 8" for n
  proof (cases "8 - r \<le> n \<and> n < 8")
    case True
    then have "n - (8 - r) < 8" by arith
    then have "bit (0xff :: u8) (n - (8 - r))" using less_8_cases [of "n - (8 - r)"] by auto
    with True show ?thesis by (simp add: bit_push_bit_iff)
  next
    case False
    then show ?thesis by (auto simp: bit_push_bit_iff dest: bit_imp_le_length)
  qed
  have "x AND push_bit (8 - r) 0xff = y AND push_bit (8 - r) (0xff :: u8) \<longleftrightarrow> (\<forall>n. 8 - r \<le> n \<and> n < 8 \<longrightarrow> bit x n = bit y n)"
    by (auto simp: bit_eq_iff bit_and_iff mask)
  also have "\<dots> \<longleftrightarrow> take r (octet_bits x) = take r (octet_bits y)"
    using less_8_cases [OF assms] by (auto simp: octet_bits_def numeral_eq_Suc less_Suc_eq All_less_Suc le_Suc_eq)
  finally show ?thesis .
qed

lemma byte_bits_inject: "octet_bits x = octet_bits y \<longleftrightarrow> x = y"
proof
  assume eq: "octet_bits x = octet_bits y"
  show "x = y"
  proof (rule u8_eqI)
    fix n :: nat assume "n < 8"
    with eq show "bit x n = bit y n" using less_8_cases [of n] by (auto simp: octet_bits_def)
  qed
qed simp

lemma address_bits_take_eq:
  assumes "length xs = length ys" "n \<le> 8 * length xs"
  shows "take n (address_bits xs) = take n (address_bits ys) \<longleftrightarrow>
    take (n div 8) xs = take (n div 8) ys \<and> take (n mod 8) (octet_bits (xs ! (n div 8))) = take (n mod 8) (octet_bits (ys ! (n div 8)))"
  using assms
proof (induction xs ys arbitrary: n rule: list_induct2)
  case (Cons x xs y ys)
  show ?case
  proof (cases "n < 8")
    case True
    then show ?thesis by (simp add: address_bits_def)
  next
    case False
    then obtain k where k: "n = k + 8" using le_Suc_ex [of 8 n] by (metis add.commute not_less)
    have bits: "take (k + 8) (address_bits (z # zs)) = octet_bits z @ take k (address_bits zs)" for z zs
      by (simp add: address_bits_def)
    have "k \<le> 8 * length xs" using Cons.prems k by simp
    moreover have "(k + 8) div 8 = Suc (k div 8)" by simp
    ultimately show ?thesis using Cons.IH [of k] by (simp add: k bits byte_bits_inject)
  qed
qed simp

lemma address_bits_length: "length (address_bits b) = 8 * length b"
  by (induction b) (simp_all add: address_bits_def)

lemma list_all_nth_eq: "length xs = length ys \<Longrightarrow> n \<le> length xs \<Longrightarrow>
  list_all (\<lambda>i. xs ! i = ys ! i) [0..<n] \<longleftrightarrow> take n xs = take n ys"
  by (auto simp: list_all_iff list_eq_iff_nth_eq)

definition wf_ip :: "parsed_ip \<Rightarrow> bool" where
  "wf_ip p \<longleftrightarrow> length (pi_bytes p) = 16 \<and> pi_bit_count p = (case pi_family p of AF_INET \<Rightarrow> 32 | AF_INET6 \<Rightarrow> 128)"

lemma cidr_match_iff:
  assumes "wf_ip ip" "wf_ip net"
  shows "cidr_match ip net p \<longleftrightarrow> pi_family ip = pi_family net \<and> 0 \<le> p \<and> p \<le> pi_bit_count ip \<and>
    take (nat p) (address_bits (pi_bytes ip)) = take (nat p) (address_bits (pi_bytes net))"
proof (cases "pi_family ip = pi_family net \<and> 0 \<le> p \<and> p \<le> pi_bit_count ip")
  case True
  have len: "length (pi_bytes ip) = 16" "length (pi_bytes net) = 16" using assms by (simp_all add: wf_ip_def)
  have le: "nat p \<le> 8 * length (pi_bytes ip)" using True assms by (cases "pi_family ip") (auto simp: wf_ip_def)
  have full: "nat p div 8 \<le> 16" using le len by simp
  show ?thesis
    using True len full address_bits_take_eq [OF _ le, of "pi_bytes net"] masked_byte_eq_iff [of "nat p mod 8"]
    by (auto simp: cidr_match_def Let_def list_all_nth_eq)
qed (auto simp: cidr_match_def)


section \<open>Address lists\<close>

lemma until_delimiter: "d \<notin> set w \<Longrightarrow> takeWhile (\<lambda>c. c \<noteq> d) w = w" "d \<notin> set w \<Longrightarrow> dropWhile (\<lambda>c. c \<noteq> d) w = []"
  by (auto simp: takeWhile_eq_all_conv dropWhile_eq_Nil_conv)

lemma getlines_item: "d \<notin> set w \<Longrightarrow> getlines d (w @ d # s) = w # getlines d s"
  by (auto simp: getlines.simps [of d "w @ d # s"] takeWhile_tail until_delimiter dropWhile_append)

lemma getlines_last: "d \<notin> set w \<Longrightarrow> w \<noteq> [] \<Longrightarrow> getlines d w = [w]"
  by (simp add: getlines.simps [of d w] until_delimiter)

lemma no_space_trim: "\<not> list_ex isspace s \<Longrightarrow> trim s = s"
  by (rule trim_id) (auto simp: list_ex_iff)

lemma prefix_value_eq:
  assumes "list_all isdigit cs" "acc \<le> m"
  shows "prefix_value (int m) (int acc) cs =
    (if digits_value dec_value 10 acc cs \<le> m then Some (int (digits_value dec_value 10 acc cs)) else None)"
  using assms
proof (induction cs arbitrary: acc)
  case (Cons c cs)
  define v where "v = acc * 10 + (code c - 48)"
  have c: "isdigit c" "dec_value c = Some (code c - 48)" using Cons.prems by (simp_all add: dec_value_def)
  then have acc: "int acc * 10 + (int (code c) - 48) = int v" by (simp add: v_def isdigit_def)
  have step: "digits_value dec_value 10 acc (c # cs) = digits_value dec_value 10 v cs" by (simp add: c v_def)
  have "v \<le> digits_value dec_value 10 v cs" by (rule digits_value_ge) simp
  with Cons.IH [of v] Cons.prems show ?case
    unfolding prefix_value.simps acc step using c(1) by simp
qed simp

lemma to_string_reads: "list_all isdigit (to_string n)" "digits_value dec_value 10 0 (to_string n) = n" "to_string n \<noteq> []"
proof -
  have "(\<lambda>c. dec_value c \<noteq> None) = isdigit" by (auto simp: dec_value_def)
  then show "list_all isdigit (to_string n)" "digits_value dec_value 10 0 (to_string n) = n" "to_string n \<noteq> []"
    using to_base_digits [of 10 dec_value n, OF dec_value_digit_char] by (simp_all add: to_string_def)
qed

lemma parse_prefix_to_string: "parse_prefix (to_string p) (int m) = (if p \<le> m then Some (int p) else None)"
  using prefix_value_eq [of "to_string p" 0 m] to_string_reads [of p] by (simp add: parse_prefix_def)

text \<open>A list of networks as an administrator writes it.\<close>

fun address_list :: "(string \<times> nat) list \<Rightarrow> string" where
  "address_list [] = []"
| "address_list [(t, p)] = t @ ''/'' @ to_string p"
| "address_list ((t, p) # es) = t @ ''/'' @ to_string p @ '','' @ address_list es"

definition address_text :: "inet_pton \<Rightarrow> string \<Rightarrow> bool" where
  "address_text pton t \<longleftrightarrow> parse_ip_address pton t \<noteq> None \<and> \<not> list_ex (\<lambda>c. c \<in> {CHR ''/'', CHR '','', CHR 0x00} \<or> isspace c) t"

definition in_network :: "inet_pton \<Rightarrow> string \<Rightarrow> string \<times> nat \<Rightarrow> bool" where
  "in_network pton ip e \<longleftrightarrow> (\<exists>a n. parse_ip_address pton ip = Some a \<and> parse_ip_address pton (fst e) = Some n \<and>
     pi_family a = pi_family n \<and> int (snd e) \<le> pi_bit_count a \<and>
     take (snd e) (address_bits (pi_bytes a)) = take (snd e) (address_bits (pi_bytes n)))"

lemma parse_ip_wf: "inet_pton_ok pton \<Longrightarrow> parse_ip_address pton t = Some a \<Longrightarrow> wf_ip a"
  by (auto simp: parse_ip_address_def inet_pton_ok_def wf_ip_def split: option.splits)

lemma digits_plain: "list_all isdigit s \<Longrightarrow> \<not> list_ex (\<lambda>c. c \<in> {CHR ''/'', CHR '','', CHR 0x00} \<or> isspace c) s"
  by (induction s) (auto simp: isdigit_def isspace_def)

lemma token_matches:
  assumes ok: "inet_pton_ok pton" and t: "address_text pton t"
  shows "ip_matches_token pton ip (t @ ''/'' @ to_string p) \<longleftrightarrow> in_network pton ip (t, p)"
proof -
  let ?tok = "t @ ''/'' @ to_string p"
  have "\<not> list_ex isspace ?tok"
    using t digits_plain [OF to_string_reads(1), of p] by (auto simp: address_text_def list_ex_iff isspace_def)
  then have trim: "trim ?tok = ?tok" by (rule no_space_trim)
  have slash: "find_char (CHR ''/'') ?tok = Some (length t)"
    using t find_char_append [of "CHR ''/''" t "to_string p"] by (auto simp: address_text_def list_ex_iff)
  obtain n where n: "parse_ip_address pton t = Some n" using t by (auto simp: address_text_def)
  have wf: "wf_ip n" using parse_ip_wf [OF ok n] .
  obtain m where m: "pi_bit_count n = int m" using wf by (auto simp: wf_ip_def split: ip_family.splits)
  show ?thesis
  proof (cases "parse_ip_address pton ip")
    case None
    then show ?thesis by (simp add: ip_matches_token_def in_network_def)
  next
    case (Some a)
    have "wf_ip a" using parse_ip_wf [OF ok Some] .
    then have same: "pi_bit_count a = pi_bit_count n" if "pi_family a = pi_family n"
      using that wf by (simp add: wf_ip_def)
    show ?thesis
      using Some n same cidr_match_iff [OF \<open>wf_ip a\<close> wf, of "int p"]
      by (auto simp: ip_matches_token_def in_network_def Let_def trim [simplified] slash [simplified] m parse_prefix_to_string)
  qed
qed

lemma address_list_tokens:
  assumes "list_all (\<lambda>(t, p). address_text pton t) es"
  shows "split_csv (address_list es) = map (\<lambda>(t, p). t @ ''/'' @ to_string p) es"
proof -
  have comma: "CHR '','' \<notin> set (t @ ''/'' @ to_string p)" if "address_text pton t" for t p
    using that digits_plain [OF to_string_reads(1), of p] by (auto simp: address_text_def list_ex_iff)
  have trim: "trim (t @ ''/'' @ to_string p) = t @ ''/'' @ to_string p" if "address_text pton t" for t p
    by (rule no_space_trim)
      (use that digits_plain [OF to_string_reads(1), of p] in \<open>auto simp: address_text_def list_ex_iff isspace_def\<close>)
  note item = comma trim
  show ?thesis
    using assms
  proof (induction es rule: address_list.induct)
    case (2 t p)
    with item [of t p] show ?case
      by (simp add: split_csv_def split_delimited_def getlines_last)
  next
    case (3 t p e es)
    then have "getlines (CHR '','') (address_list ((t, p) # e # es)) =
        (t @ ''/'' @ to_string p) # getlines (CHR '','') (address_list (e # es))"
      using getlines_item [OF item(1) [of t p], of "address_list (e # es)"] by simp
    with 3 item [of t p] show ?case
      by (simp add: split_csv_def split_delimited_def)
  qed (simp add: split_csv_def split_delimited_def)
qed


definition sample_pton :: inet_pton where
  "sample_pton f t = (if f = AF_INET
     then map_of [(''10.0.0.0'', [10, 0, 0, 0]), (''10.1.2.3'', [10, 1, 2, 3]), (''192.168.0.1'', [192, 168, 0, 1])] t
     else None)"

lemma sample_pton_ok: "inet_pton_ok sample_pton"
  by (auto simp: inet_pton_ok_def sample_pton_def isspace_def split: if_splits)


text \<open>The prefix parser of the configuration check and the one of the matcher agree.\<close>

lemma prefix_value_digits: "prefix_value (int m) (int acc) cs = map_option int (prefix_digits m acc cs)"
proof (induction cs arbitrary: acc)
  case (Cons c cs)
  show ?case
  proof (cases "isdigit c")
    case True
    then have "int acc * 10 + (int (code c) - 48) = int (acc * 10 + (code c - 48))" by (simp add: isdigit_def)
    with True Cons show ?thesis by (simp only: prefix_value.simps prefix_digits.simps not_less of_nat_less_iff if_True simp_thms) simp
  qed simp
qed simp

lemma parse_prefix_length_eq: "parse_prefix v (int m) = map_option int (parse_prefix_length v m)"
  using prefix_value_digits [of m 0 v] by (simp add: parse_prefix_def parse_prefix_length_def)

lemma trim_space_after: "\<not> list_ex isspace s \<Longrightarrow> trim (s @ '' '') = s"
proof (cases s rule: rev_cases)
  case (snoc u c)
  assume "\<not> list_ex isspace s"
  with snoc have "dropWhile isspace (s @ '' '') = s @ '' ''" by (cases u) (auto simp: list_ex_iff)
  moreover have "isspace (CHR '' '')" by (simp add: isspace_def)
  ultimately show ?thesis using snoc \<open>\<not> list_ex isspace s\<close> by (simp add: trim_def)
qed (simp add: trim_def isspace_def)

lemma no_nul_c_str: "CHR 0x00 \<notin> set t \<Longrightarrow> c_str t = t"
  by (auto simp: c_str_def takeWhile_eq_all_conv)

lemma address_textD:
  assumes "inet_pton_ok pton" "address_text pton t"
  shows "\<not> list_ex isspace t" "c_str t = t" "c_str (t @ '' '') = t @ '' ''" "t \<noteq> []" "CHR ''/'' \<notin> set t"
    "parse_ip_family (\<lambda>f x. pton f x \<noteq> None) t \<noteq> None"
proof -
  have t: "parse_ip_address pton t \<noteq> None" "\<forall>c \<in> set t. c \<notin> {CHR ''/'', CHR '','', CHR 0x00} \<and> \<not> isspace c"
    using assms(2) by (auto simp: address_text_def list_ex_iff)
  have nul: "CHR 0x00 \<notin> set t" "CHR 0x00 \<notin> set (t @ '' '')" "CHR ''/'' \<notin> set t" "\<not> (\<exists>c \<in> set t. isspace c)"
    using t(2) by auto
  then show "\<not> list_ex isspace t" "c_str t = t" "c_str (t @ '' '') = t @ '' ''" "CHR ''/'' \<notin> set t"
    by (simp_all add: list_ex_iff no_nul_c_str)
  with t(1) show fam: "parse_ip_family (\<lambda>f x. pton f x \<noteq> None) t \<noteq> None"
    by (auto simp: parse_ip_address_def parse_ip_family_def split: option.splits)
  then show "t \<noteq> []" using assms(1) by (fastforce simp: parse_ip_family_def inet_pton_ok_def split: if_splits)
qed

text \<open>The configuration check trims the two sides of the slash, the matcher does not: an entry written with a space is accepted
  by \<open>set_config_value\<close> and by \<open>build_config\<close> and then never matches any client.\<close>

theorem spaced_network_never_matches:
  assumes "inet_pton_ok pton" "address_text pton t" "p \<le> 32"
  shows "valid_ip_token (\<lambda>f x. pton f x \<noteq> None) (t @ '' /'' @ to_string p) \<and>
    \<not> ip_matches_token pton ip (t @ '' /'' @ to_string p)"
proof
  let ?tok = "t @ '' /'' @ to_string p"
  note t = address_textD [OF assms(1, 2)]
  have slash: "find_char (CHR ''/'') ?tok = Some (length t + 1)"
    using t(5) find_char_append [of "CHR ''/''" "t @ '' ''" "to_string p"] by simp
  have digits: "\<not> list_ex isspace (to_string p)"
    using digits_plain [OF to_string_reads(1), of p] by (auto simp: list_ex_iff)
  have parts: "take (length t + 1) ?tok = t @ '' ''" "drop (length t + 2) ?tok = to_string p" by simp_all
  have "parse_prefix (to_string p) (int m) \<noteq> None" if "32 \<le> m" for m
    using that assms(3) by (simp add: parse_prefix_to_string)
  then have "parse_prefix_length (to_string p) m \<noteq> None" if "32 \<le> m" for m
    using that by (simp add: parse_prefix_length_eq)
  with t show "valid_ip_token (\<lambda>f x. pton f x \<noteq> None) ?tok"
    unfolding valid_ip_token_def slash
    by (auto simp: Let_def trim_space_after no_space_trim [OF digits])
  have "pton f (t @ '' '') = None" for f
  proof -
    have "list_ex isspace (t @ '' '')" by (simp add: isspace_def)
    then show ?thesis using assms(1) unfolding inet_pton_ok_def by blast
  qed
  then have "parse_ip_address pton (t @ '' '') = None" by (simp add: parse_ip_address_def t(3) [simplified])
  moreover have "trim ?tok = ?tok"
    using t(1, 4) digits to_string_reads(3) [of p]
    by (intro trim_id) (auto simp: list_ex_iff hd_append)
  ultimately show "\<not> ip_matches_token pton ip ?tok"
    using slash by (simp add: ip_matches_token_def Let_def split: option.split)
qed

section \<open>Connection limits\<close>

text \<open>Connections come and go; only an open connection is closed. The second component is the bag of the addresses
  of the open connections, which the counters are to agree with.\<close>

datatype ('c, 'i) connection_event = Connect 'c 'i | Disconnect 'i

fun admission_run ::
    "('c \<Rightarrow> 'i \<Rightarrow> 's \<Rightarrow> bool \<times> 's) \<Rightarrow> ('i \<Rightarrow> 's \<Rightarrow> 's) \<Rightarrow> ('c, 'i) connection_event list \<Rightarrow> 's \<times> 'i multiset \<Rightarrow> 's \<times> 'i multiset" where
  "admission_run admit leave [] (s, M) = (s, M)"
| "admission_run admit leave (Connect c i # es) (s, M) =
     (case admit c i s of (ok, s') \<Rightarrow> admission_run admit leave es (s', if ok then add_mset i M else M))"
| "admission_run admit leave (Disconnect i # es) (s, M) =
     admission_run admit leave es (if i \<in># M then (leave i s, M - {#i#}) else (s, M))"

locale admission =
  fixes admit :: "'c \<Rightarrow> 'i \<Rightarrow> 's \<Rightarrow> bool \<times> 's" and leave :: "'i \<Rightarrow> 's \<Rightarrow> 's"
    and counts :: "'s \<Rightarrow> 'i multiset \<Rightarrow> bool" and counted :: "'i \<Rightarrow> bool"
    and total_limit :: "'c \<Rightarrow> nat" and each_limit :: "'c \<Rightarrow> nat"
  assumes admit_counts: "counts s M \<Longrightarrow> counted i \<Longrightarrow> admit c i s = (ok, s') \<Longrightarrow> counts s' (if ok then add_mset i M else M)"
    and admit_limits: "counts s M \<Longrightarrow> counted i \<Longrightarrow> admit c i s = (True, s') \<Longrightarrow> size M < total_limit c \<and> count M i < each_limit c"
    and leave_counts: "counts s M \<Longrightarrow> i \<in># M \<Longrightarrow> counts (leave i s) (M - {#i#})"
begin

lemma run_counts_limits:
  assumes "\<And>c i. Connect c i \<in> set es \<Longrightarrow> counted i \<and> total_limit c \<le> G \<and> each_limit c \<le> L"
    and "counts s M" "size M \<le> G" "\<And>i. count M i \<le> L" "admission_run admit leave es (s, M) = (s', M')"
  shows "counts s' M' \<and> size M' \<le> G \<and> (\<forall>i. count M' i \<le> L)"
  using assms
proof (induction es arbitrary: s M)
  case (Cons e es)
  show ?case
  proof (cases e)
    case (Connect c i)
    obtain ok t where adm: "admit c i s = (ok, t)" by fastforce
    have c: "counted i" "total_limit c \<le> G" "each_limit c \<le> L" using Cons.prems(1) [of c i] Connect by auto
    have lim: "size M < G \<and> count M i < L" if ok
      using admit_limits [OF Cons.prems(2) c(1)] adm that c by fastforce
    show ?thesis
    proof (rule Cons.IH)
      show "counts t (if ok then add_mset i M else M)" by (rule admit_counts [OF Cons.prems(2) c(1) adm])
      show "count (if ok then add_mset i M else M) j \<le> L" for j using lim Cons.prems(4) [of j] by (auto simp: Suc_le_eq)
    qed (use Cons.prems lim adm Connect in \<open>auto simp: Suc_le_eq\<close>)
  next
    case (Disconnect i)
    have "count (M - {#i#}) j \<le> L" for j using Cons.prems(4) [of j] by simp
    moreover have "size (M - {#i#}) \<le> G" using Cons.prems(3) size_Diff1_le [of M i] by linarith
    ultimately show ?thesis
      using Cons.IH [of s M] Cons.IH [of "leave i s" "M - {#i#}"] leave_counts [OF Cons.prems(2), of i] Cons.prems Disconnect
      by (auto split: if_splits)
  qed
qed simp

end

definition count_of :: "(string \<rightharpoonup> nat) \<Rightarrow> string \<Rightarrow> nat" where
  "count_of m ip = (case m ip of None \<Rightarrow> 0 | Some n \<Rightarrow> n)"

lemma count_of_update [simp]:
  "count_of (m(ip \<mapsto> n)) j = (if j = ip then n else count_of m j)" "count_of (m(ip := None)) j = (if j = ip then 0 else count_of m j)"
  by (simp_all add: count_of_def)

definition security_counts :: "security_state \<Rightarrow> string multiset \<Rightarrow> bool" where
  "security_counts s M \<longleftrightarrow> sec_total_connections s = size M \<and> [] \<notin># M \<and>
     (\<forall>ip. count_of (sec_active_connections_by_ip s) ip = count M ip)"

definition security_admit :: "inet_pton \<Rightarrow> server_config \<Rightarrow> string \<Rightarrow> security_state \<Rightarrow> bool \<times> security_state" where
  "security_admit pton config ip s = (case try_open_connection pton ip config s of (d, s') \<Rightarrow> (d = allowed, s'))"

lemma close_counts:
  assumes inv: "security_counts s M" and ip: "ip \<in># M"
  shows "security_counts (close_connection ip s) (M - {#ip#})"
proof -
  obtain N where M: "M = add_mset ip N" using multi_member_split [OF ip] by blast
  have c: "count_of (sec_active_connections_by_ip s) ip = Suc (count N ip)" using inv by (simp add: security_counts_def M)
  then obtain n where n: "sec_active_connections_by_ip s ip = Some n" "n = Suc (count N ip)"
    by (auto simp: count_of_def split: option.splits)
  show ?thesis using inv n by (auto simp: security_counts_def close_connection_def Let_def M count_eq_zero_iff)
qed

lemma try_open_cases:
  "try_open_connection pton ip c s =
     (let n = count_of (sec_active_connections_by_ip s) ip in
      if ip_matches_list pton ip (cfg_ip_blocklist c) then (blocked_ip, s)
      else if cfg_ip_allowlist c \<noteq> [] \<and> \<not> ip_matches_list pton ip (cfg_ip_allowlist c) then (not_allowlisted, s)
      else if sec_total_connections s \<ge> cfg_global_connection_limit c then (global_limit, s)
      else if n \<ge> cfg_per_ip_connection_limit c
      then (per_ip_limit, s\<lparr>sec_active_connections_by_ip := (sec_active_connections_by_ip s)(ip \<mapsto> n)\<rparr>)
      else (allowed, s\<lparr>sec_active_connections_by_ip := (sec_active_connections_by_ip s)(ip \<mapsto> n + 1),
                       sec_total_connections := sec_total_connections s + 1\<rparr>))"
  by (simp add: try_open_connection_def count_of_def Let_def)

interpretation limits: admission "security_admit pton" close_connection security_counts "\<lambda>ip. ip \<noteq> []"
  cfg_global_connection_limit cfg_per_ip_connection_limit for pton
proof unfold_locales
  fix s M i c ok s'
  assume "security_counts s M" "i \<noteq> []" "security_admit pton c i s = (ok, s')"
  then show "security_counts s' (if ok then add_mset i M else M)"
    by (auto simp: security_admit_def try_open_cases security_counts_def Let_def split: if_splits)
next
  fix s M i c s'
  assume "security_counts s M" "security_admit pton c i s = (True, s')"
  then show "size M < cfg_global_connection_limit c \<and> count M i < cfg_per_ip_connection_limit c"
    by (auto simp: security_admit_def try_open_cases security_counts_def Let_def split: if_splits)
qed (rule close_counts)

text \<open>C37: The connection limits hold and nothing leaks: over every interleaving of accepted and closed connections the counters
  equal the number of open connections, in total and per address, and these never
  exceed the largest configured limits, even while the configuration changes.\<close>

theorem connection_limits_hold:
  assumes "\<And>c ip. Connect c ip \<in> set es \<Longrightarrow> ip \<noteq> [] \<and> cfg_global_connection_limit c \<le> G \<and> cfg_per_ip_connection_limit c \<le> L"
    and "admission_run (security_admit pton) close_connection es (new_security_state, {#}) = (s, M)"
  shows "sec_total_connections s = size M \<and>
    (\<forall>ip. count_of (sec_active_connections_by_ip s) ip = count M ip \<and> count M ip \<le> L) \<and> size M \<le> G"
proof -
  have "security_counts new_security_state {#}" by (simp add: security_counts_def new_security_state_def count_of_def)
  with limits.run_counts_limits [OF assms(1) _ _ _ assms(2)] show ?thesis by (auto simp: security_counts_def)
qed

theorem connection_limits_hold_witness:
  "\<exists>s M. admission_run (security_admit sample_pton) close_connection
      [Connect default_server_config ''10.1.2.3'', Connect default_server_config ''10.1.2.3'', Disconnect ''10.1.2.3'']
      (new_security_state, {#}) = (s, M) \<and> sec_total_connections s = size M \<and> size M \<le> 10000"
proof -
  obtain s M where run: "admission_run (security_admit sample_pton) close_connection
      [Connect default_server_config ''10.1.2.3'', Connect default_server_config ''10.1.2.3'', Disconnect ''10.1.2.3'']
      (new_security_state, {#}) = (s, M)" by fastforce
  then show ?thesis
    using connection_limits_hold [OF _ run, of 10000 10000] by (auto simp: default_server_config_def)
qed

lemma render_client_ip_nonempty: "(\<And>f b. ntop f b \<noteq> Some []) \<Longrightarrow> render_client_ip ntop a \<noteq> []"
  by (cases a) (auto split: option.split)

section \<open>The request rate\<close>

text \<open>A sequence of requests, with the decision on each.\<close>

fun request_run :: "server_config \<Rightarrow> (string \<times> int) list \<Rightarrow> security_state \<Rightarrow> (string \<times> int \<times> bool) list" where
  "request_run c [] s = []"
| "request_run c ((ip, t) # rs) s = (case allow_request ip c t s of (ok, s') \<Rightarrow> (ip, t, ok) # request_run c rs s')"

definition granted :: "string \<Rightarrow> (string \<times> int \<times> bool) list \<Rightarrow> nat" where
  "granted x ds = length (filter (\<lambda>(ip, t, ok). ip = x \<and> ok) ds)"

definition rate :: "server_config \<Rightarrow> nat" where
  "rate c = nat (cfg_rate_limit_requests_per_minute c mod 2 ^ 64)"

lemma granted_simps [simp]:
  "granted x [] = 0" "granted x ((ip, t, ok) # ds) = (if ip = x \<and> ok then 1 else 0) + granted x ds"
  by (simp_all add: granted_def)

lemmas allow_request_rate = allow_request_def [folded rate_def]

lemma allow_request_other: "ip \<noteq> x \<Longrightarrow> sec_request_buckets (snd (allow_request ip c t s)) x = sec_request_buckets s x"
  by (simp add: allow_request_def Let_def)

text \<open>Inside the window of a bucket.\<close>

lemma granted_in_window:
  assumes "cfg_rate_limit_enabled c" "x \<noteq> []" "sec_request_buckets s x = Some b" "bk_window_start b \<noteq> 0"
    and "\<And>ip t. (ip, t) \<in> set rs \<Longrightarrow> t - bk_window_start b < minute"
  shows "granted x (request_run c rs s) \<le> rate c - bk_count b"
  using assms
proof (induction rs arbitrary: s b)
  case (Cons r rs)
  obtain ip t where r: "r = (ip, t)" by fastforce
  obtain ok s' where a: "allow_request ip c t s = (ok, s')" by fastforce
  show ?case
  proof (cases "ip = x")
    case False
    then have "sec_request_buckets s' x = Some b" using allow_request_other [of ip x c t s] Cons.prems(3) a by simp
    then have "granted x (request_run c rs s') \<le> rate c - bk_count b"
      by (rule Cons.IH [OF Cons.prems(1, 2) _ Cons.prems(4)]) (use Cons.prems(5) in auto)
    then show ?thesis using False by (simp add: r a)
  next
    case True
    let ?b = "if rate c \<le> bk_count b then b else b\<lparr>bk_count := bk_count b + 1\<rparr>"
    have t: "t - bk_window_start b < minute" using Cons.prems(5) [of ip t] by (simp add: r)
    have s': "sec_request_buckets s' x = Some ?b" "ok \<longleftrightarrow> \<not> rate c \<le> bk_count b"
      using a True Cons.prems(1-4) t by (auto simp: allow_request_rate Let_def split: if_splits)
    have "granted x (request_run c rs s') \<le> rate c - bk_count ?b"
      by (rule Cons.IH [OF Cons.prems(1, 2) s'(1)]) (use Cons.prems in auto)
    then show ?thesis using s'(2) a by (simp add: r True split: if_splits)
  qed
qed simp

lemma granted_two_windows:
  assumes "cfg_rate_limit_enabled c" "x \<noteq> []" "\<And>ip t. (ip, t) \<in> set rs \<Longrightarrow> a \<le> t \<and> t < a + minute" "0 < a"
  shows "granted x (request_run c rs s) \<le>
    (rate c - (case sec_request_buckets s x of None \<Rightarrow> 0 | Some b \<Rightarrow> bk_count b)) + rate c"
  using assms(3)
proof (induction rs arbitrary: s)
  case (Cons r rs)
  obtain ip t where r: "r = (ip, t)" by fastforce
  obtain ok s' where a: "allow_request ip c t s = (ok, s')" by fastforce
  have IH: "granted x (request_run c rs s') \<le>
      (rate c - (case sec_request_buckets s' x of None \<Rightarrow> 0 | Some b \<Rightarrow> bk_count b)) + rate c"
    using Cons by auto
  show ?case
  proof (cases "ip = x")
    case False
    then have "sec_request_buckets s' x = sec_request_buckets s x" using allow_request_other [of ip x c t s] a by simp
    with IH False show ?thesis by (simp add: r a)
  next
    case True
    define b where "b = (case sec_request_buckets s x of None \<Rightarrow> \<lparr>bk_window_start = 0, bk_count = 0\<rparr> | Some b \<Rightarrow> b)"
    have count: "(case sec_request_buckets s x of None \<Rightarrow> 0 | Some b \<Rightarrow> bk_count b) = bk_count b"
      by (simp add: b_def split: option.split)
    have t: "0 < t" "a \<le> t" "t < a + minute" using Cons.prems [of ip t] assms(4) by (auto simp: r)
    show ?thesis
    proof (cases "bk_window_start b = 0 \<or> t - bk_window_start b \<ge> minute")
      case reset: True
      let ?b = "if rate c = 0 then \<lparr>bk_window_start = t, bk_count = 0\<rparr> else \<lparr>bk_window_start = t, bk_count = 1\<rparr>"
      have s': "sec_request_buckets s' x = Some ?b" "ok \<longleftrightarrow> rate c \<noteq> 0"
        using a True assms(1, 2) reset by (cases b, auto simp: allow_request_rate Let_def b_def [symmetric] split: if_splits)+
      have "granted x (request_run c rs s') \<le> rate c - bk_count ?b"
        by (rule granted_in_window [OF assms(1, 2) s'(1)]) (use Cons.prems t in \<open>fastforce split: if_splits\<close>)+
      then show ?thesis using s'(2) a by (simp add: r True split: if_splits)
    next
      case False
      let ?b = "if rate c \<le> bk_count b then b else b\<lparr>bk_count := bk_count b + 1\<rparr>"
      have s': "sec_request_buckets s' x = Some ?b" "ok \<longleftrightarrow> \<not> rate c \<le> bk_count b"
        using a True assms(1, 2) False by (auto simp: allow_request_rate Let_def b_def [symmetric] split: if_splits)
      then show ?thesis using IH a by (simp add: r True count split: if_splits)
    qed
  qed
qed simp

text \<open>C38: The rate limiter is a fixed-window limiter per address: in any span shorter than a minute at most twice the configured number
  of requests of one address is granted, whatever other clients do in between.\<close>

theorem request_rate_bounded:
  assumes "cfg_rate_limit_enabled c" "x \<noteq> []" "0 < a" "\<And>ip t. (ip, t) \<in> set rs \<Longrightarrow> a \<le> t \<and> t < a + minute"
  shows "granted x (request_run c rs s) \<le> 2 * rate c"
  by (rule order_trans [OF granted_two_windows [OF assms(1, 2, 4, 3)]]) simp_all

theorem request_rate_bounded_witness:
  "granted ''10.1.2.3'' (request_run (default_server_config\<lparr>cfg_rate_limit_enabled := True, cfg_rate_limit_requests_per_minute := 2\<rparr>)
     [(''10.1.2.3'', 5), (''10.0.0.0'', 6), (''10.1.2.3'', 7), (''10.1.2.3'', 8)] new_security_state) \<le> 4"
proof -
  let ?c = "default_server_config\<lparr>cfg_rate_limit_enabled := True, cfg_rate_limit_requests_per_minute := 2\<rparr>"
  let ?rs = "[(''10.1.2.3'', 5), (''10.0.0.0'', 6), (''10.1.2.3'', 7), (''10.1.2.3'', 8)]"
  have "granted ''10.1.2.3'' (request_run ?c ?rs new_security_state) \<le> 2 * rate ?c"
    by (rule request_rate_bounded [where a = 5]) auto
  moreover have "rate ?c = 2" by (simp add: rate_def)
  ultimately show ?thesis by simp
qed

end
