(* ===== verification/Body_Stream.thy ===== *)
theory Body_Stream
  imports Http1_Session
begin

text \<open>
  Request bodies that arrive in pieces: \<open>RequestBodyAccumulator\<close>, \<open>Http1BodyStreamState\<close> and the body stream operations of
  \<open>ClientConnection\<close> in \<open>src/src/core/server.cpp\<close>. A body is kept in memory up to a limit and then moved to a
  temporary file. The operating system is a parameter: the path that \<open>mkstemp\<close> gives and the outcome of the \<open>k\<close>-th call
  of \<open>write\<close>. The chunked decoder is shown to refine an automaton that reads one character at a time, so that what it
  decodes does not depend on how the network cuts the body.
\<close>

section \<open>The accumulator\<close>

datatype write_outcome = written nat | interrupted | write_failed

record spool_os =
  os_mkstemp :: "string option"
  os_write :: "nat \<Rightarrow> write_outcome"

text \<open>\<open>ac_file\<close>: path and contents of the spool file; \<open>ac_writes\<close> counts the calls of \<open>write\<close>.\<close>

record accumulator =
  ac_memory_limit :: nat
  ac_size :: nat
  ac_memory :: string
  ac_file :: "(string \<times> string) option"
  ac_writes :: nat

definition new_accumulator :: "nat \<Rightarrow> accumulator" where
  "new_accumulator limit = \<lparr>ac_memory_limit = limit, ac_size = 0, ac_memory = [], ac_file = None, ac_writes = 0\<rparr>"

partial_function (option) write_spool ::
    "spool_os \<Rightarrow> nat \<Rightarrow> string \<Rightarrow> string \<Rightarrow> (nat \<times> string) result option" where
  "write_spool os k contents data =
     (if data = [] then Some (Inr (k, contents))
      else
        case os_write os k of
          interrupted \<Rightarrow> write_spool os (k + 1) contents data
        | write_failed \<Rightarrow> Some (Inl ''request body spool write failed: '')
        | written n \<Rightarrow>
            if n = 0 then Some (Inl ''request body spool write failed: '')
            else write_spool os (k + 1) (contents @ take n data) (drop n data))"

definition ensure_spool_file :: "spool_os \<Rightarrow> accumulator \<Rightarrow> accumulator result option" where
  "ensure_spool_file os a =
     (if ac_file a \<noteq> None then Some (Inr a)
      else
        case os_mkstemp os of
          None \<Rightarrow> Some (Inl ''request body spool create failed: '')
        | Some path \<Rightarrow>
            if ac_memory a = [] then Some (Inr (a\<lparr>ac_file := Some (path, [])\<rparr>))
            else
              map_option (\<lambda>r. r_bind r (\<lambda>(k, contents).
                  Inr (a\<lparr>ac_file := Some (path, contents), ac_memory := [], ac_writes := k\<rparr>)))
                (write_spool os (ac_writes a) [] (ac_memory a)))"

definition accumulator_append :: "spool_os \<Rightarrow> string \<Rightarrow> accumulator \<Rightarrow> accumulator result option" where
  "accumulator_append os data a =
     (if data = [] then Some (Inr a)
      else if ac_file a = None \<and> length (ac_memory a) + length data \<le> ac_memory_limit a then
        Some (Inr (a\<lparr>ac_memory := ac_memory a @ data, ac_size := ac_size a + length data\<rparr>))
      else
        case ensure_spool_file os a of
          None \<Rightarrow> None
        | Some (Inl e) \<Rightarrow> Some (Inl e)
        | Some (Inr a) \<Rightarrow>
            (case ac_file a of
               None \<Rightarrow> Some (Inr a)
             | Some (path, contents) \<Rightarrow>
                 map_option (\<lambda>r. r_bind r (\<lambda>(k, contents).
                     Inr (a\<lparr>ac_file := Some (path, contents), ac_writes := k, ac_size := ac_size a + length data\<rparr>)))
                   (write_spool os (ac_writes a) contents data)))"

definition accumulator_finish :: "accumulator \<Rightarrow> request \<Rightarrow> request" where
  "accumulator_finish a r =
     (let r = r\<lparr>rq_body_size_bytes := ac_size a\<rparr> in
      case ac_file a of
        Some (path, contents) \<Rightarrow> r\<lparr>rq_body := [], rq_body_file := Some path\<rparr>
      | None \<Rightarrow> r\<lparr>rq_body := ac_memory a\<rparr>)"

section \<open>The stream\<close>

datatype chunked_stream_phase = size_line | data_phase | data_crlf | trailer_line

record body_stream =
  st_request :: request
  st_accumulator :: accumulator
  st_chunked :: bool
  st_header_bytes :: nat
  st_max_body_bytes :: nat
  st_content_length :: nat
  st_received :: nat
  st_chunked_phase :: chunked_stream_phase
  st_line_buffer :: string
  st_chunk_remaining :: nat
  st_crlf_seen :: nat

definition new_body_stream :: "nat \<Rightarrow> body_stream" where
  "new_body_stream memory_limit = \<lparr>st_request = new_request, st_accumulator = new_accumulator memory_limit, st_chunked = False,
     st_header_bytes = 0, st_max_body_bytes = 0, st_content_length = 0, st_received = 0, st_chunked_phase = size_line,
     st_line_buffer = [], st_chunk_remaining = 0, st_crlf_seen = 0\<rparr>"

text \<open>What a call leaves behind: the buffer is used up and the stream waits, the body is complete and the rest of the buffer
  belongs to the next request, the stream failed with a status, or an exception came out of the accumulator.\<close>

datatype stream_outcome =
    stream_waiting body_stream
  | stream_finished body_stream string
  | stream_refused int string
  | stream_threw string

abbreviation stream_bad_request :: stream_outcome where
  "stream_bad_request \<equiv> stream_refused 400 (''Bad Request'' @ [LF])"

function process_content_length_http1_body_stream :: "spool_os \<Rightarrow> body_stream \<Rightarrow> string \<Rightarrow> stream_outcome option" where
  "process_content_length_http1_body_stream os st buffer =
     (if buffer \<noteq> [] \<and> st_received st < st_content_length st then
        let n = min (st_content_length st - st_received st) (length buffer) in
        case accumulator_append os (take n buffer) (st_accumulator st) of
          None \<Rightarrow> None
        | Some (Inl e) \<Rightarrow> Some (stream_threw e)
        | Some (Inr a) \<Rightarrow>
            process_content_length_http1_body_stream os
              (st\<lparr>st_accumulator := a, st_received := st_received st + n\<rparr>) (drop n buffer)
      else if st_received st = st_content_length st then Some (stream_finished st buffer)
      else Some (stream_waiting st))"
  by pat_completeness auto
termination
  by (relation "measure (\<lambda>(os, st, buffer). length buffer)") auto

declare process_content_length_http1_body_stream.simps [simp del]

text \<open>A complete line of the size or trailer phase; the buffer behind the line is \<open>rest\<close>.\<close>

datatype line_step = line_continue body_stream | line_stop stream_outcome

definition handle_stream_line :: "body_stream \<Rightarrow> string \<Rightarrow> string \<Rightarrow> line_step" where
  "handle_stream_line st line rest =
     (if st_chunked_phase st = trailer_line then
        (if line = [] then line_stop (stream_finished st rest)
         else if length line > 8192 then line_stop stream_bad_request
         else line_continue st)
      else
        let line = (case find_char (CHR '';'') line of None \<Rightarrow> line | Some i \<Rightarrow> take i line) in
        case parse_hex_size (trim line) of
          None \<Rightarrow> line_stop stream_bad_request
        | Some chunk_size \<Rightarrow>
            if chunk_size = 0 then line_continue (st\<lparr>st_chunked_phase := trailer_line\<rparr>)
            else line_continue (st\<lparr>st_chunk_remaining := chunk_size, st_chunked_phase := data_phase\<rparr>))"

function process_chunked_http1_body_stream :: "spool_os \<Rightarrow> body_stream \<Rightarrow> string \<Rightarrow> stream_outcome option" where
  "process_chunked_http1_body_stream os st buffer =
     (if buffer = [] then Some (stream_waiting st)
      else if st_chunked_phase st = size_line \<or> st_chunked_phase st = trailer_line then
        (case find_char LF buffer of
           None \<Rightarrow>
             let line = st_line_buffer st @ buffer in
             if length line > 8192 then Some stream_bad_request
             else Some (stream_waiting (st\<lparr>st_line_buffer := line\<rparr>))
         | Some line_end \<Rightarrow>
             let line = st_line_buffer st @ take (line_end + 1) buffer;
                 rest = drop (line_end + 1) buffer
             in if length line < 2 \<or> line ! (length line - 2) \<noteq> CR then Some stream_bad_request
                else
                  case handle_stream_line (st\<lparr>st_line_buffer := []\<rparr>) (take (length line - 2) line) rest of
                    line_stop out \<Rightarrow> Some out
                  | line_continue st \<Rightarrow> process_chunked_http1_body_stream os st rest)
      else if st_chunked_phase st = data_phase then
        let n = min (st_chunk_remaining st) (length buffer) in
        if ac_size (st_accumulator st) + n > st_max_body_bytes st
        then Some (stream_refused 413 (''Content Too Large'' @ [LF]))
        else
          case accumulator_append os (take n buffer) (st_accumulator st) of
            None \<Rightarrow> None
          | Some (Inl e) \<Rightarrow> Some (stream_threw e)
          | Some (Inr a) \<Rightarrow>
              let st = st\<lparr>st_accumulator := a, st_chunk_remaining := st_chunk_remaining st - n\<rparr>;
                  st = (if st_chunk_remaining st = 0 then st\<lparr>st_chunked_phase := data_crlf, st_crlf_seen := 0\<rparr> else st)
              in process_chunked_http1_body_stream os st (drop n buffer)
      else
        if hd buffer \<noteq> (if st_crlf_seen st = 0 then CR else LF) then Some stream_bad_request
        else
          let st = st\<lparr>st_crlf_seen := st_crlf_seen st + 1\<rparr>;
              st = (if st_crlf_seen st = 2 then st\<lparr>st_chunked_phase := size_line\<rparr> else st)
          in process_chunked_http1_body_stream os st (drop 1 buffer))"
  by pat_completeness auto
termination
proof (relation "measure (\<lambda>(os, st, buffer). 2 * length buffer + (if st_chunked_phase st = data_phase then 1 else 0))", goal_cases)
  case (2 os st buffer line_end line rest st')
  then have "length rest < length buffer" by (auto dest: find_char_Some)
  then show ?case by simp
next
  case (3 os st buffer n r x st' st'')
  then show ?case by (cases "st_chunk_remaining st = 0") (auto split: if_splits)
next
  case (4 os st buffer st' st'')
  then show ?case by (cases "st_chunked_phase st") (auto simp: length_greater_0_conv split: if_splits)
qed simp

declare process_chunked_http1_body_stream.simps [simp del]

definition process_body_stream :: "spool_os \<Rightarrow> body_stream \<Rightarrow> string \<Rightarrow> stream_outcome option" where
  "process_body_stream os st buffer =
     (if st_chunked st then process_chunked_http1_body_stream os st buffer
      else process_content_length_http1_body_stream os st buffer)"

section \<open>What the accumulator holds\<close>

definition acc_contents :: "accumulator \<Rightarrow> string" where
  "acc_contents a = (case ac_file a of None \<Rightarrow> ac_memory a | Some (path, contents) \<Rightarrow> contents)"

definition acc_inv :: "accumulator \<Rightarrow> bool" where
  "acc_inv a \<longleftrightarrow> ac_size a = length (acc_contents a) \<and> length (ac_memory a) \<le> ac_memory_limit a \<and>
     (ac_file a \<noteq> None \<longrightarrow> ac_memory a = [])"

lemma write_spool_returned:
  assumes "write_spool os k c d = Some y"
  shows "y = Inr (k', c') \<longrightarrow> c' = c @ d"
proof (rule write_spool.raw_induct [OF _ assms, where P = "\<lambda>os k c d y. y = Inr (k', c') \<longrightarrow> c' = c @ d"], goal_cases)
  case (1 ws os k c d y)
  show ?case
  proof
    assume y: "y = Inr (k', c')"
    show "c' = c @ d"
    proof (cases "d = []")
      case False
      show ?thesis
      proof (cases "os_write os k")
        case (written n)
        with 1(2) False y have "ws os (k + 1) (c @ take n d) (drop n d) = Some y" by (simp split: if_splits)
        from 1(1) [OF this] y show ?thesis by simp
      next
        case interrupted
        with 1(2) False have "ws os (k + 1) c d = Some y" by simp
        from 1(1) [OF this] y show ?thesis by simp
      qed (use 1(2) False y in simp)
    qed (use 1(2) y in simp)
  qed
qed

lemma write_spool_contents: "write_spool os k c d = Some (Inr (k', c')) \<Longrightarrow> c' = c @ d"
  using write_spool_returned by blast

lemma ensure_spool_file_inv:
  assumes "acc_inv a" "ensure_spool_file os a = Some (Inr a')"
  shows "acc_inv a' \<and> acc_contents a' = acc_contents a \<and> ac_size a' = ac_size a \<and> ac_memory_limit a' = ac_memory_limit a \<and>
    ac_file a' \<noteq> None"
  using assms
  by (auto simp: ensure_spool_file_def acc_inv_def acc_contents_def r_bind_Inr_iff dest: write_spool_contents split: if_splits option.splits)

lemma accumulator_append_inv:
  assumes "acc_inv a" "accumulator_append os d a = Some (Inr a')"
  shows "acc_inv a' \<and> acc_contents a' = acc_contents a @ d \<and> ac_memory_limit a' = ac_memory_limit a"
proof (cases "d = [] \<or> ac_file a = None \<and> length (ac_memory a) + length d \<le> ac_memory_limit a")
  case True
  with assms show ?thesis
    by (cases "d = []") (auto simp: accumulator_append_def acc_inv_def acc_contents_def split: option.splits)
next
  case False
  then obtain b where b: "ensure_spool_file os a = Some (Inr b)"
    using assms(2) by (auto simp: accumulator_append_def split: option.splits sum.splits)
  then obtain p c where f: "ac_file b = Some (p, c)" using ensure_spool_file_inv [OF assms(1) b] by auto
  obtain k c' where w: "write_spool os (ac_writes b) c d = Some (Inr (k, c'))"
      "a' = b\<lparr>ac_file := Some (p, c'), ac_writes := k, ac_size := ac_size b + length d\<rparr>"
    using assms(2) False b f by (auto simp: accumulator_append_def r_bind_Inr_iff)
  show ?thesis
    using ensure_spool_file_inv [OF assms(1) b] f w write_spool_contents [OF w(1)]
    by (auto simp: acc_inv_def acc_contents_def)
qed

text \<open>An operating system that gives a file and makes progress: then appending returns.\<close>

definition os_ok :: "spool_os \<Rightarrow> bool" where
  "os_ok os \<longleftrightarrow> os_mkstemp os \<noteq> None \<and>
     (\<forall>k. os_write os k \<noteq> write_failed \<and> os_write os k \<noteq> written 0 \<and> (\<exists>j \<ge> k. os_write os j \<noteq> interrupted))"

lemma write_spool_skip:
  "(\<And>i. k \<le> i \<Longrightarrow> i < j \<Longrightarrow> os_write os i = interrupted) \<Longrightarrow> k \<le> j \<Longrightarrow> d \<noteq> [] \<Longrightarrow> write_spool os k c d = write_spool os j c d"
proof (induction "j - k" arbitrary: k)
  case (Suc n)
  then have "write_spool os (Suc k) c d = write_spool os j c d" by (intro Suc.hyps(1)) auto
  moreover have "write_spool os k c d = write_spool os (Suc k) c d"
    using Suc.prems(1) [of k] Suc.hyps(2) Suc.prems(3) by (subst write_spool.simps) simp
  ultimately show ?case by simp
qed simp

lemma write_spool_returns:
  assumes "os_ok os"
  shows "\<exists>k'. write_spool os k c d = Some (Inr (k', c @ d))"
proof (induction "length d" arbitrary: k c d rule: less_induct)
  case less
  show ?case
  proof (cases "d = []")
    case True
    then show ?thesis by (simp add: write_spool.simps)
  next
    case False
    define j where "j = (LEAST j. k \<le> j \<and> os_write os j \<noteq> interrupted)"
    have ex: "\<exists>j. k \<le> j \<and> os_write os j \<noteq> interrupted" using assms by (simp add: os_ok_def)
    have j: "k \<le> j" "os_write os j \<noteq> interrupted" using LeastI_ex [OF ex] by (simp_all add: j_def)
    have "os_write os i = interrupted" if "k \<le> i" "i < j" for i
      using not_less_Least [of i "\<lambda>j. k \<le> j \<and> os_write os j \<noteq> interrupted"] that by (simp add: j_def)
    then have skip: "write_spool os k c d = write_spool os j c d" using j(1) False by (rule write_spool_skip)
    obtain n where n: "os_write os j = written n" "n \<noteq> 0"
      using assms j(2) by (cases "os_write os j") (auto simp: os_ok_def)
    have "length (drop n d) < length d" using n(2) False by simp
    from less [OF this, of "j + 1" "c @ take n d"] show ?thesis
      using False n unfolding skip by (subst write_spool.simps) simp
  qed
qed

lemma accumulator_append_returns:
  assumes "os_ok os" "acc_inv a"
  shows "\<exists>a'. accumulator_append os d a = Some (Inr a')"
proof -
  have ensure: "\<exists>b. ensure_spool_file os a = Some (Inr b)"
    using assms(1) write_spool_returns [OF assms(1), of "ac_writes a" "[]" "ac_memory a"]
    by (auto simp: ensure_spool_file_def os_ok_def)
  then obtain b p c where b: "ensure_spool_file os a = Some (Inr b)" "ac_file b = Some (p, c)"
    using ensure_spool_file_inv [OF assms(2)] by fastforce
  then show ?thesis
    using write_spool_returns [OF assms(1), of "ac_writes b" c d] by (auto simp: accumulator_append_def)
qed


section \<open>The chunked coding, one character at a time\<close>

record chunk_state =
  ca_phase :: chunked_stream_phase
  ca_line :: string
  ca_remaining :: nat
  ca_crlf :: nat
  ca_body :: string

datatype chunk_outcome = ca_more chunk_state | ca_done string string | ca_refused int | ca_overlong

definition line_size :: "string \<Rightarrow> nat option" where
  "line_size line = parse_hex_size (trim (takeWhile (\<lambda>c. c \<noteq> CHR '';'') line))"

definition data_char :: "char \<Rightarrow> chunk_state \<Rightarrow> chunk_state" where
  "data_char c s =
     (if ca_remaining s = 1 then s\<lparr>ca_body := ca_body s @ [c], ca_remaining := 0, ca_phase := data_crlf, ca_crlf := 0\<rparr>
      else s\<lparr>ca_body := ca_body s @ [c], ca_remaining := ca_remaining s - 1\<rparr>)"

definition crlf_char :: "chunk_state \<Rightarrow> chunk_state" where
  "crlf_char s = (if ca_crlf s = 1 then s\<lparr>ca_crlf := 2, ca_phase := size_line\<rparr> else s\<lparr>ca_crlf := ca_crlf s + 1\<rparr>)"

fun chunk_automaton :: "nat \<Rightarrow> chunk_state \<Rightarrow> string \<Rightarrow> chunk_outcome" where
  "chunk_automaton m s [] = ca_more s"
| "chunk_automaton m s (c # cs) =
     (case ca_phase s of
        data_phase \<Rightarrow>
          if length (ca_body s) \<ge> m then ca_refused 413 else chunk_automaton m (data_char c s) cs
      | data_crlf \<Rightarrow>
          if c \<noteq> (if ca_crlf s = 0 then CR else LF) then ca_refused 400 else chunk_automaton m (crlf_char s) cs
      | phase \<Rightarrow>
          if c \<noteq> LF then
            (if length (ca_line s) \<ge> 8192 then ca_overlong else chunk_automaton m (s\<lparr>ca_line := ca_line s @ [c]\<rparr>) cs)
          else if ca_line s = [] \<or> last (ca_line s) \<noteq> CR then ca_refused 400
          else if phase = trailer_line then
            (if ca_line s = [CR] then ca_done (ca_body s) cs else chunk_automaton m (s\<lparr>ca_line := []\<rparr>) cs)
          else
            case line_size (butlast (ca_line s)) of
              None \<Rightarrow> ca_refused 400
            | Some n \<Rightarrow>
                if n = 0 then chunk_automaton m (s\<lparr>ca_line := [], ca_phase := trailer_line\<rparr>) cs
                else chunk_automaton m (s\<lparr>ca_line := [], ca_phase := data_phase, ca_remaining := n\<rparr>) cs)"

lemma automaton_line:
  assumes "ca_phase s \<in> {size_line, trailer_line}" "LF \<notin> set w" "length (ca_line s) + length w \<le> 8192"
  shows "chunk_automaton m s (w @ rest) = chunk_automaton m (s\<lparr>ca_line := ca_line s @ w\<rparr>) rest"
  using assms
proof (induction w arbitrary: s)
  case (Cons c w)
  then have "chunk_automaton m (s\<lparr>ca_line := ca_line s @ [c]\<rparr>) (w @ rest) =
      chunk_automaton m (s\<lparr>ca_line := ca_line s @ c # w\<rparr>) rest"
    using Cons.IH [of "s\<lparr>ca_line := ca_line s @ [c]\<rparr>"] by simp
  with Cons.prems show ?case by (cases "ca_phase s") auto
qed simp

lemma automaton_overlong:
  assumes "ca_phase s \<in> {size_line, trailer_line}" "LF \<notin> set w" "w \<noteq> []" "length (ca_line s) + length w > 8192"
  shows "chunk_automaton m s (w @ rest) = ca_overlong"
  using assms
proof (induction w arbitrary: s)
  case (Cons c w)
  show ?case
  proof (cases "length (ca_line s) \<ge> 8192")
    case True
    with Cons.prems show ?thesis by (cases "ca_phase s") auto
  next
    case False
    then have "chunk_automaton m (s\<lparr>ca_line := ca_line s @ [c]\<rparr>) (w @ rest) = ca_overlong"
      using Cons.IH [of "s\<lparr>ca_line := ca_line s @ [c]\<rparr>"] Cons.prems by (cases w) simp_all
    with Cons.prems show ?thesis by (cases "ca_phase s") auto
  qed
qed simp

text \<open>The state after a run of data that stays inside the chunk.\<close>

definition after_data :: "string \<Rightarrow> chunk_state \<Rightarrow> chunk_state" where
  "after_data w s =
     (if length w = ca_remaining s
      then s\<lparr>ca_body := ca_body s @ w, ca_remaining := 0, ca_phase := data_crlf, ca_crlf := 0\<rparr>
      else s\<lparr>ca_body := ca_body s @ w, ca_remaining := ca_remaining s - length w\<rparr>)"

lemma automaton_data:
  assumes "ca_phase s = data_phase" "w \<noteq> []" "length w \<le> ca_remaining s"
  shows "chunk_automaton m s (w @ rest) =
    (if length (ca_body s) + length w > m then ca_refused 413 else chunk_automaton m (after_data w s) rest)"
  using assms
proof (induction w arbitrary: s)
  case (Cons c w)
  show ?case
  proof (cases "w = []")
    case True
    with Cons.prems show ?thesis by (auto simp: data_char_def after_data_def)
  next
    case False
    then have "ca_remaining s \<noteq> 1" using Cons.prems by (cases w) auto
    with Cons.prems False Cons.IH [of "data_char c s"] show ?thesis by (auto simp: data_char_def after_data_def)
  qed
qed simp

definition chunk_abs :: "body_stream \<Rightarrow> chunk_state" where
  "chunk_abs st = \<lparr>ca_phase = st_chunked_phase st, ca_line = st_line_buffer st, ca_remaining = st_chunk_remaining st,
     ca_crlf = st_crlf_seen st, ca_body = acc_contents (st_accumulator st)\<rparr>"

text \<open>The invariant of a stream: a chunk in progress has bytes left, the body respects its limits.\<close>

definition stream_inv :: "body_stream \<Rightarrow> bool" where
  "stream_inv st \<longleftrightarrow> acc_inv (st_accumulator st) \<and> ac_size (st_accumulator st) \<le> st_max_body_bytes st \<and>
     (st_chunked_phase st = data_phase \<longrightarrow> st_chunk_remaining st > 0) \<and>
     (st_chunked_phase st = data_crlf \<longrightarrow> st_crlf_seen st \<le> 1) \<and>
     (st_chunked_phase st \<in> {data_phase, data_crlf} \<longrightarrow> st_line_buffer st = []) \<and> length (st_line_buffer st) \<le> 8192"

definition same_stream :: "body_stream \<Rightarrow> body_stream \<Rightarrow> bool" where
  "same_stream st st' \<longleftrightarrow> st_request st' = st_request st \<and> st_max_body_bytes st' = st_max_body_bytes st \<and>
     st_chunked st' = st_chunked st \<and> ac_memory_limit (st_accumulator st') = ac_memory_limit (st_accumulator st)"

fun outcome_refines :: "body_stream \<Rightarrow> stream_outcome \<Rightarrow> chunk_outcome \<Rightarrow> bool" where
  "outcome_refines st (stream_waiting st') (ca_more s) \<longleftrightarrow> s = chunk_abs st' \<and> stream_inv st' \<and> same_stream st st'"
| "outcome_refines st (stream_finished st' rest) (ca_done body rest') \<longleftrightarrow>
     acc_contents (st_accumulator st') = body \<and> rest' = rest \<and> stream_inv st' \<and> same_stream st st'"
| "outcome_refines st (stream_refused status message) (ca_refused status') \<longleftrightarrow> status' = status"
| "outcome_refines _ _ _ \<longleftrightarrow> False"

lemma outcome_refines_trans: "same_stream st st' \<Longrightarrow> outcome_refines st' out o' \<Longrightarrow> outcome_refines st out o'"
  by (cases "(st, out, o')" rule: outcome_refines.cases) (auto simp: same_stream_def)

lemma same_stream_refl [simp]: "same_stream st st"
  by (simp add: same_stream_def)

lemma find_char_split: "find_char c s = Some i \<Longrightarrow> s = take i s @ c # drop (Suc i) s \<and> c \<notin> set (take i s)"
  using find_char_Some [of c s i] by (metis id_take_nth_drop)

lemma find_char_takeWhile: "(case find_char c x of None \<Rightarrow> x | Some i \<Rightarrow> take i x) = takeWhile (\<lambda>d. d \<noteq> c) x"
  by (induction x) (auto split: option.splits)

text \<open>One line.\<close>

lemma line_step_refines:
  assumes "st_chunked_phase st \<in> {size_line, trailer_line}" "stream_inv st" "length l \<le> 8192" "l \<noteq> []" "last l = CR"
    and "s = (chunk_abs st)\<lparr>ca_line := l\<rparr>"
  shows "case handle_stream_line (st\<lparr>st_line_buffer := []\<rparr>) (butlast l) rest of
      line_stop out \<Rightarrow> outcome_refines st out (chunk_automaton m s (LF # rest))
    | line_continue st' \<Rightarrow> stream_inv st' \<and> same_stream st st' \<and>
        chunk_automaton m s (LF # rest) = chunk_automaton m (chunk_abs st') rest"
proof -
  have cut: "(case find_char (CHR '';'') x of None \<Rightarrow> x | Some i \<Rightarrow> take i x) = takeWhile (\<lambda>c. c \<noteq> CHR '';'') x" for x
    by (rule find_char_takeWhile)
  have one: "butlast l = [] \<longleftrightarrow> l = [CR]" using assms(4, 5) by (cases l rule: rev_cases) auto
  have inv: "stream_inv (st\<lparr>st_line_buffer := []\<rparr>)" using assms(2) by (simp add: stream_inv_def)
  show ?thesis
  proof (cases "st_chunked_phase st = trailer_line")
    case True
    then show ?thesis using assms inv one
      by (auto simp: handle_stream_line_def chunk_abs_def same_stream_def)
  next
    case False
    then have "st_chunked_phase st = size_line" using assms(1) by simp
    then show ?thesis using assms
      by (cases "line_size (butlast l)")
        (auto simp: handle_stream_line_def cut [simplified] line_size_def chunk_abs_def same_stream_def stream_inv_def Let_def)
  qed
qed

lemma crlf_step:
  assumes "st_chunked_phase st = data_crlf" "stream_inv st" "c = (if st_crlf_seen st = 0 then CR else LF)"
    and "st' = (let st = st\<lparr>st_crlf_seen := st_crlf_seen st + 1\<rparr> in if st_crlf_seen st = 2 then st\<lparr>st_chunked_phase := size_line\<rparr> else st)"
  shows "stream_inv st' \<and> same_stream st st' \<and> chunk_automaton m (chunk_abs st) (c # rest) = chunk_automaton m (chunk_abs st') rest"
  using assms by (auto simp: stream_inv_def same_stream_def chunk_abs_def crlf_char_def numeral_2_eq_2)

lemma data_step:
  assumes "st_chunked_phase st = data_phase" "stream_inv st" "w \<noteq> []" "length w \<le> st_chunk_remaining st"
    and "ac_size (st_accumulator st) + length w \<le> st_max_body_bytes st" "accumulator_append os w (st_accumulator st) = Some (Inr a)"
    and "st' = (let st = st\<lparr>st_accumulator := a, st_chunk_remaining := st_chunk_remaining st - length w\<rparr> in
      if st_chunk_remaining st = 0 then st\<lparr>st_chunked_phase := data_crlf, st_crlf_seen := 0\<rparr> else st)"
  shows "stream_inv st' \<and> same_stream st st' \<and>
    chunk_automaton (st_max_body_bytes st) (chunk_abs st) (w @ rest) = chunk_automaton (st_max_body_bytes st) (chunk_abs st') rest"
proof -
  have a: "acc_inv a" "acc_contents a = acc_contents (st_accumulator st) @ w" "ac_memory_limit a = ac_memory_limit (st_accumulator st)"
    using accumulator_append_inv [OF _ assms(6)] assms(2) by (auto simp: stream_inv_def)
  have size: "ac_size (st_accumulator st) = length (acc_contents (st_accumulator st))" "ac_size a = length (acc_contents a)"
    using assms(2) a(1) by (simp_all add: stream_inv_def acc_inv_def)
  have "chunk_abs st' = after_data w (chunk_abs st)"
    using assms(1, 4, 7) a(2) by (auto simp: chunk_abs_def after_data_def Let_def)
  moreover have "stream_inv st'" "same_stream st st'"
    using assms(1, 2, 4, 5, 7) a size by (auto simp: stream_inv_def same_stream_def Let_def)
  ultimately show ?thesis
    using automaton_data [of "chunk_abs st" w "st_max_body_bytes st" rest] assms(1, 3, 4, 5) size(1) by (simp add: chunk_abs_def)
qed

text \<open>The code, one round of its loop at a time.\<close>

lemma round_no_line:
  "st_chunked_phase st \<in> {size_line, trailer_line} \<Longrightarrow> buffer \<noteq> [] \<Longrightarrow> LF \<notin> set buffer \<Longrightarrow>
   process_chunked_http1_body_stream os st buffer =
     (if length (st_line_buffer st @ buffer) > 8192 then Some stream_bad_request
      else Some (stream_waiting (st\<lparr>st_line_buffer := st_line_buffer st @ buffer\<rparr>)))"
  by (subst process_chunked_http1_body_stream.simps) (auto simp: find_char_None_iff [THEN iffD2])

lemma round_line:
  assumes "st_chunked_phase st \<in> {size_line, trailer_line}" "LF \<notin> set w" "l = st_line_buffer st @ w"
  shows "process_chunked_http1_body_stream os st (w @ LF # rest) =
     (if l = [] \<or> last l \<noteq> CR then Some stream_bad_request
      else case handle_stream_line (st\<lparr>st_line_buffer := []\<rparr>) (butlast l) rest of
             line_stop out \<Rightarrow> Some out
           | line_continue st \<Rightarrow> process_chunked_http1_body_stream os st rest)"
proof -
  define L where "L = l @ [LF]"
  have L: "length L < 2 \<or> L ! (length L - 2) \<noteq> CR \<longleftrightarrow> l = [] \<or> last l \<noteq> CR" "take (length L - 2) L = butlast l"
    by (cases l rule: rev_cases; simp add: L_def nth_append butlast_conv_take)+
  have line: "st_line_buffer st @ take (length w + 1) (w @ LF # rest) = L" "drop (length w + 1) (w @ LF # rest) = rest"
    using assms(3) by (simp_all add: L_def)
  have "find_char LF (w @ LF # rest) = Some (length w)" by (rule find_char_append [OF assms(2)])
  then show ?thesis
    unfolding process_chunked_http1_body_stream.simps [of os st "w @ LF # rest"] using assms(1)
    by (simp only: option.case Let_def line L) auto
qed

lemma round_data:
  assumes "st_chunked_phase st = data_phase" "buffer \<noteq> []" "n = min (st_chunk_remaining st) (length buffer)"
  shows "process_chunked_http1_body_stream os st buffer =
     (if ac_size (st_accumulator st) + n > st_max_body_bytes st then Some (stream_refused 413 (''Content Too Large'' @ [LF]))
      else case accumulator_append os (take n buffer) (st_accumulator st) of
             None \<Rightarrow> None
           | Some (Inl e) \<Rightarrow> Some (stream_threw e)
           | Some (Inr a) \<Rightarrow>
               process_chunked_http1_body_stream os
                 (let st = st\<lparr>st_accumulator := a, st_chunk_remaining := st_chunk_remaining st - n\<rparr> in
                  if st_chunk_remaining st = 0 then st\<lparr>st_chunked_phase := data_crlf, st_crlf_seen := 0\<rparr> else st) (drop n buffer))"
  using assms by (subst process_chunked_http1_body_stream.simps) (simp add: Let_def split: option.split sum.split)

lemma round_crlf:
  assumes "st_chunked_phase st = data_crlf"
  shows "process_chunked_http1_body_stream os st (c # rest) =
     (if c \<noteq> (if st_crlf_seen st = 0 then CR else LF) then Some stream_bad_request
      else process_chunked_http1_body_stream os
        (let st = st\<lparr>st_crlf_seen := st_crlf_seen st + 1\<rparr> in
         if st_crlf_seen st = 2 then st\<lparr>st_chunked_phase := size_line\<rparr> else st) rest)"
  using assms by (subst process_chunked_http1_body_stream.simps) (simp add: Let_def)

lemma refines_line:
  assumes "st_chunked_phase st \<in> {size_line, trailer_line}" "stream_inv st" "buffer \<noteq> []"
    and "chunk_automaton (st_max_body_bytes st) (chunk_abs st) buffer \<noteq> ca_overlong"
    and step: "\<And>st' rest. stream_inv st' \<Longrightarrow> same_stream st st' \<Longrightarrow> length rest < length buffer \<Longrightarrow>
      chunk_automaton (st_max_body_bytes st) (chunk_abs st) buffer = chunk_automaton (st_max_body_bytes st) (chunk_abs st') rest \<Longrightarrow>
      P (process_chunked_http1_body_stream os st' rest)"
    and stop: "\<And>out. outcome_refines st out (chunk_automaton (st_max_body_bytes st) (chunk_abs st) buffer) \<Longrightarrow> P (Some out)"
  shows "P (process_chunked_http1_body_stream os st buffer)"
proof -
  let ?A = "chunk_automaton (st_max_body_bytes st)"
  have ph: "ca_phase (chunk_abs st) \<in> {size_line, trailer_line}" using assms(1) by (simp add: chunk_abs_def)
  have short: "length (st_line_buffer st) + length w \<le> 8192" if "buffer = w @ rest" "LF \<notin> set w" for w rest
    using automaton_overlong [OF ph that(2), where rest = rest and m = "st_max_body_bytes st"] assms(2, 4) that(1)
    by (cases "w = []") (fastforce simp: chunk_abs_def stream_inv_def)+
  show ?thesis
  proof (cases "find_char LF buffer")
    case None
    then have lf: "LF \<notin> set buffer" by (simp add: find_char_None_iff)
    have "?A (chunk_abs st) buffer = ca_more (chunk_abs (st\<lparr>st_line_buffer := st_line_buffer st @ buffer\<rparr>))"
      using automaton_line [OF ph lf, where rest = "[]" and m = "st_max_body_bytes st"] short [of buffer "[]"] lf by (simp add: chunk_abs_def)
    then show ?thesis
      using stop [of "stream_waiting (st\<lparr>st_line_buffer := st_line_buffer st @ buffer\<rparr>)"] short [of buffer "[]"] lf assms(1-3)
      by (auto simp: round_no_line stream_inv_def same_stream_def)
  next
    case (Some i)
    define w rest where wr: "w = take i buffer" "rest = drop (Suc i) buffer"
    have buf: "buffer = w @ LF # rest" and w: "LF \<notin> set w" using find_char_split [OF Some] by (simp_all add: wr)
    define l where "l = st_line_buffer st @ w"
    have len: "length l \<le> 8192" using short [OF buf w] by (simp add: l_def)
    have A: "?A (chunk_abs st) buffer = ?A ((chunk_abs st)\<lparr>ca_line := l\<rparr>) (LF # rest)"
      using automaton_line [OF ph w, where rest = "LF # rest" and m = "st_max_body_bytes st"] len by (simp add: buf l_def chunk_abs_def)
    show ?thesis
    proof (cases "l = [] \<or> last l \<noteq> CR")
      case True
      then have "?A (chunk_abs st) buffer = ca_refused 400" unfolding A using ph by (cases "st_chunked_phase st") (auto simp: chunk_abs_def)
      with True stop [of stream_bad_request] show ?thesis
        unfolding buf round_line [OF assms(1) w l_def] by simp
    next
      case False
      then have l: "l \<noteq> []" "last l = CR" by auto
      from line_step_refines [OF assms(1, 2) len l refl, where rest = rest and m = "st_max_body_bytes st"] show ?thesis
        using False A stop step [of _ rest] unfolding buf round_line [OF assms(1) w l_def]
        by (auto simp del: chunk_automaton.simps split: line_step.splits)
    qed
  qed
qed

lemma refines_crlf:
  assumes crlf: "buffer = c # rest" "st_chunked_phase st = data_crlf" and inv: "stream_inv st"
    and step: "\<And>st' rest. stream_inv st' \<Longrightarrow> same_stream st st' \<Longrightarrow> length rest < length buffer \<Longrightarrow>
      chunk_automaton (st_max_body_bytes st) (chunk_abs st) buffer = chunk_automaton (st_max_body_bytes st) (chunk_abs st') rest \<Longrightarrow>
      P (process_chunked_http1_body_stream os st' rest)"
    and stop: "\<And>out. outcome_refines st out (chunk_automaton (st_max_body_bytes st) (chunk_abs st) buffer) \<Longrightarrow> P (Some out)"
  shows "P (process_chunked_http1_body_stream os st buffer)"
proof (cases "c = (if st_crlf_seen st = 0 then CR else LF)")
  case True
  obtain st' where st': "st' = (let st = st\<lparr>st_crlf_seen := st_crlf_seen st + 1\<rparr> in
      if st_crlf_seen st = 2 then st\<lparr>st_chunked_phase := size_line\<rparr> else st)" by blast
  have "P (process_chunked_http1_body_stream os st' rest)"
    by (rule step) (use crlf_step [OF crlf(2) inv True st', where rest = rest and m = "st_max_body_bytes st"] crlf(1)
      in \<open>simp_all del: chunk_automaton.simps\<close>)
  then show ?thesis using True round_crlf [OF crlf(2), of os c rest, folded st'] by (simp only: crlf(1) simp_thms if_False)
next
  case False
  then show ?thesis using crlf stop [of stream_bad_request] by (auto simp: round_crlf chunk_abs_def)
qed

lemma refines_data:
  assumes os: "os_ok os" and data: "buffer \<noteq> []" "st_chunked_phase st = data_phase" and inv: "stream_inv st"
    and step: "\<And>st' rest. stream_inv st' \<Longrightarrow> same_stream st st' \<Longrightarrow> length rest < length buffer \<Longrightarrow>
      chunk_automaton (st_max_body_bytes st) (chunk_abs st) buffer = chunk_automaton (st_max_body_bytes st) (chunk_abs st') rest \<Longrightarrow>
      P (process_chunked_http1_body_stream os st' rest)"
    and stop: "\<And>out. outcome_refines st out (chunk_automaton (st_max_body_bytes st) (chunk_abs st) buffer) \<Longrightarrow> P (Some out)"
  shows "P (process_chunked_http1_body_stream os st buffer)"
proof -
  let ?m = "st_max_body_bytes st" and ?s = "chunk_abs st"
  define n where "n = min (st_chunk_remaining st) (length buffer)"
  have n: "take n buffer \<noteq> []" "length (take n buffer) = n" "n \<le> st_chunk_remaining st"
    using inv data by (auto simp: n_def stream_inv_def)
  have size: "ac_size (st_accumulator st) = length (acc_contents (st_accumulator st))"
    using inv by (simp add: stream_inv_def acc_inv_def)
  show ?thesis
  proof (cases "ac_size (st_accumulator st) + n \<le> ?m")
    case False
    then have "chunk_automaton ?m ?s buffer = ca_refused 413"
      using automaton_data [of ?s "take n buffer" ?m "drop n buffer"] data n size by (simp add: chunk_abs_def)
    with False stop show ?thesis by (simp add: round_data [OF data(2, 1) n_def])
  next
    case True
    obtain a where a: "accumulator_append os (take n buffer) (st_accumulator st) = Some (Inr a)"
      using accumulator_append_returns [OF os] inv by (auto simp: stream_inv_def)
    obtain st' where st': "st' = (let st = st\<lparr>st_accumulator := a, st_chunk_remaining := st_chunk_remaining st - n\<rparr> in
        if st_chunk_remaining st = 0 then st\<lparr>st_chunked_phase := data_crlf, st_crlf_seen := 0\<rparr> else st)" by blast
    note ds = data_step [OF data(2) inv n(1) _ _ a, where rest = "drop n buffer", unfolded n(2) append_take_drop_id, OF n(3) True st']
    have "P (process_chunked_http1_body_stream os st' (drop n buffer))"
      by (rule step) (use ds n in \<open>auto simp del: chunk_automaton.simps\<close>)
    then show ?thesis using True a unfolding round_data [OF data(2, 1) n_def] st' by simp
  qed
qed

lemma process_chunked_refines:
  assumes os: "os_ok os"
  shows "stream_inv st \<Longrightarrow> chunk_automaton (st_max_body_bytes st) (chunk_abs st) buffer \<noteq> ca_overlong \<Longrightarrow>
    \<exists>out. process_chunked_http1_body_stream os st buffer = Some out \<and>
      outcome_refines st out (chunk_automaton (st_max_body_bytes st) (chunk_abs st) buffer)"
proof (induction "length buffer" arbitrary: st buffer rule: less_induct)
  case less
  let ?A = "chunk_automaton (st_max_body_bytes st)"
  let ?P = "\<lambda>r. \<exists>out. r = Some out \<and> outcome_refines st out (?A (chunk_abs st) buffer)"
  have step: "?P (process_chunked_http1_body_stream os st' rest)"
    if "stream_inv st'" "same_stream st st'" "length rest < length buffer" "?A (chunk_abs st) buffer = ?A (chunk_abs st') rest" for st' rest
    using less.hyps [OF that(3), of st'] that less.prems outcome_refines_trans [OF that(2)] by (auto simp: same_stream_def)
  consider (none) "buffer = []" | (line) "buffer \<noteq> []" "st_chunked_phase st \<in> {size_line, trailer_line}"
    | (data) "buffer \<noteq> []" "st_chunked_phase st = data_phase" | (crlf) c rest where "buffer = c # rest" "st_chunked_phase st = data_crlf"
    by (cases buffer; cases "st_chunked_phase st") auto
  then show ?case
  proof cases
    case none
    then show ?thesis using less.prems by (simp add: process_chunked_http1_body_stream.simps)
  next
    case line
    show ?thesis by (rule refines_line [OF line(2) less.prems(1) line(1) less.prems(2)]) (use step in blast)+
  next
    case crlf
    show ?thesis by (rule refines_crlf [OF crlf less.prems(1)]) (use step in blast)+
  next
    case data
    show ?thesis by (rule refines_data [OF os data less.prems(1)]) (use step in blast)+
  qed
qed

lemma automaton_append:
  "chunk_automaton m s (a @ b) =
    (case chunk_automaton m s a of ca_more s' \<Rightarrow> chunk_automaton m s' b | ca_done body rest \<Rightarrow> ca_done body (rest @ b) | r \<Rightarrow> r)"
proof (induction a arbitrary: s)
  case (Cons c a)
  then show ?case by (cases "ca_phase s"; cases "line_size (butlast (ca_line s))") simp_all
qed simp

text \<open>Feeding what the socket delivers, one segment after the other.\<close>

fun feed_segments :: "spool_os \<Rightarrow> body_stream \<Rightarrow> string list \<Rightarrow> stream_outcome option" where
  "feed_segments os st [] = Some (stream_waiting st)"
| "feed_segments os st (seg # segs) =
     (case process_body_stream os st seg of
        Some (stream_waiting st') \<Rightarrow> feed_segments os st' segs
      | Some (stream_finished st' rest) \<Rightarrow> Some (stream_finished st' (rest @ concat segs))
      | r \<Rightarrow> r)"

lemma feed_segments_refines:
  assumes "os_ok os" "stream_inv st" "st_chunked st" "chunk_automaton (st_max_body_bytes st) (chunk_abs st) (concat segs) \<noteq> ca_overlong"
  shows "\<exists>out. feed_segments os st segs = Some out \<and>
    outcome_refines st out (chunk_automaton (st_max_body_bytes st) (chunk_abs st) (concat segs))"
  using assms(2-)
proof (induction segs arbitrary: st)
  case (Cons seg segs)
  let ?A = "chunk_automaton (st_max_body_bytes st)"
  have split: "?A (chunk_abs st) (concat (seg # segs)) =
    (case ?A (chunk_abs st) seg of ca_more s' \<Rightarrow> ?A s' (concat segs) | ca_done body rest \<Rightarrow> ca_done body (rest @ concat segs) | r \<Rightarrow> r)"
    by (simp add: automaton_append)
  then have "?A (chunk_abs st) seg \<noteq> ca_overlong" using Cons.prems(3) by auto
  then obtain out where out: "process_chunked_http1_body_stream os st seg = Some out" "outcome_refines st out (?A (chunk_abs st) seg)"
    using process_chunked_refines [OF assms(1) Cons.prems(1)] by blast
  have p: "process_body_stream os st seg = Some out" using out(1) Cons.prems(2) by (simp add: process_body_stream_def)
  show ?case
  proof (cases out)
    case (stream_waiting st')
    then have s: "?A (chunk_abs st) seg = ca_more (chunk_abs st')" "stream_inv st'" "same_stream st st'"
      using out(2) by (cases "?A (chunk_abs st) seg"; simp)+
    then have "\<exists>out. feed_segments os st' segs = Some out \<and>
        outcome_refines st' out (chunk_automaton (st_max_body_bytes st') (chunk_abs st') (concat segs))"
      using Cons.prems split by (intro Cons.IH) (simp_all add: same_stream_def)
    then show ?thesis using s split p stream_waiting outcome_refines_trans [OF s(3)] by (auto simp: same_stream_def)
  next
    case (stream_finished st' rest)
    then show ?thesis using out(2) split p by (cases "?A (chunk_abs st) seg") auto
  qed (use out(2) split p in \<open>cases "?A (chunk_abs st) seg"; auto\<close>)+
qed simp

section \<open>Encoded bodies are decoded\<close>

lemma to_base_length: "2 \<le> b \<Longrightarrow> n < b ^ Suc k \<Longrightarrow> length (to_base b n) \<le> Suc k"
proof (induction k arbitrary: n)
  case (Suc k)
  then have "n div b < b ^ Suc k" by (simp add: less_mult_imp_div_less mult.commute)
  with Suc show ?case by (simp add: to_base.simps [of b n])
next
  case 0
  then show ?case by (simp add: to_base.simps [of b n])
qed

lemma to_hex_length: "n < 2 ^ 64 \<Longrightarrow> length (to_hex n) \<le> 16"
  using to_base_length [of 16 n 15] by (simp add: to_hex_def)

lemma to_hex_plain: "LF \<notin> set (to_hex n)" "CHR '';'' \<notin> set (to_hex n)" "trim (to_hex n) = to_hex n"
proof -
  have c: "c \<noteq> CHR '';'' \<and> \<not> isspace c" if "c \<in> set (to_hex n)" for c using hex_char_no [OF to_hex_chars [OF that]] by blast
  moreover have "isspace LF" by (simp add: isspace_def)
  ultimately show "LF \<notin> set (to_hex n)" "CHR '';'' \<notin> set (to_hex n)" by blast+
  show "trim (to_hex n) = to_hex n" using c by (intro trim_id) simp
qed

lemma line_size_to_hex: "n < 2 ^ 64 \<Longrightarrow> line_size (to_hex n) = Some n"
proof -
  assume "n < 2 ^ 64"
  have cut: "takeWhile (\<lambda>c. c \<noteq> CHR '';'') (to_hex n) = to_hex n"
    unfolding takeWhile_eq_all_conv using to_hex_plain(2) by blast
  show ?thesis using \<open>n < 2 ^ 64\<close> unfolding line_size_def cut to_hex_plain(3) by (rule parse_hex_size_to_hex)
qed

lemma automaton_size_line:
  assumes "ca_phase s = size_line" "ca_line s = []" "n < 2 ^ 64"
  shows "chunk_automaton m s (to_hex n @ CRLF @ rest) =
    chunk_automaton m (if n = 0 then s\<lparr>ca_phase := trailer_line\<rparr> else s\<lparr>ca_phase := data_phase, ca_remaining := n\<rparr>) rest"
proof -
  have w: "LF \<notin> set (to_hex n @ [CR])" using to_hex_plain(1) by simp
  have "chunk_automaton m s ((to_hex n @ [CR]) @ LF # rest) = chunk_automaton m (s\<lparr>ca_line := to_hex n @ [CR]\<rparr>) (LF # rest)"
    using automaton_line [OF _ w, of s m "LF # rest"] assms to_hex_length [OF assms(3)] by simp
  also have "\<dots> = chunk_automaton m (if n = 0 then s\<lparr>ca_phase := trailer_line\<rparr> else s\<lparr>ca_phase := data_phase, ca_remaining := n\<rparr>) rest"
    using assms by (simp add: line_size_to_hex) (cases s, simp)
  finally show ?thesis by simp
qed

lemma automaton_encoded:
  assumes "ca_phase s = size_line" "ca_line s = []" "length (ca_body s) + length (concat chunks) \<le> m" "length (concat chunks) < 2 ^ 64"
  shows "chunk_automaton m s (encode_chunked_body chunks @ rest) = ca_done (ca_body s @ concat chunks) rest"
  using assms
proof (induction chunks arbitrary: s)
  case Nil
  have z: "''0'' = to_hex 0" by code_simp
  show ?case
    using Nil automaton_size_line [of s 0 m "CRLF @ rest"] by (simp add: encode_chunked_body_def z)
next
  case (Cons chunk chunks)
  have split: "encode_chunked_body (chunk # chunks) = encode_chunk chunk @ encode_chunked_body chunks"
    by (simp add: encode_chunked_body_def)
  show ?case
  proof (cases "chunk = []")
    case True
    with Cons split show ?thesis by (simp add: encode_chunk_def)
  next
    case False
    let ?n = "length chunk" and ?tail = "encode_chunked_body chunks @ rest"
    let ?d = "s\<lparr>ca_phase := data_phase, ca_remaining := ?n\<rparr>"
    let ?e = "s\<lparr>ca_body := ca_body s @ chunk, ca_remaining := 0, ca_crlf := 2, ca_phase := size_line\<rparr>"
    have "chunk_automaton m s (to_hex ?n @ CRLF @ chunk @ CRLF @ ?tail) = chunk_automaton m ?d (chunk @ CRLF @ ?tail)"
      using automaton_size_line [of s ?n m "chunk @ CRLF @ ?tail"] Cons.prems False by simp
    also have "\<dots> = chunk_automaton m (after_data chunk ?d) (CRLF @ ?tail)"
      using automaton_data [of ?d chunk m "CRLF @ ?tail"] Cons.prems False by simp
    also have "\<dots> = chunk_automaton m ?e ?tail" by (simp add: after_data_def crlf_char_def)
    also have "\<dots> = ca_done (ca_body s @ concat (chunk # chunks)) rest" using Cons.IH [of ?e] Cons.prems by simp
    finally show ?thesis using False split by (simp add: encode_chunk_def)
  qed
qed

definition spooled :: "accumulator \<Rightarrow> (string \<Rightarrow> string option) \<Rightarrow> string \<Rightarrow> string option" where
  "spooled a files = (case ac_file a of None \<Rightarrow> files | Some (path, contents) \<Rightarrow> files(path \<mapsto> contents))"

lemma finish_contents:
  assumes "acc_inv a" "rq_body_file r = None"
  shows "body_wf (spooled a files) (accumulator_finish a r) \<and> body_contents (spooled a files) (accumulator_finish a r) = acc_contents a \<and>
    rq_headers (accumulator_finish a r) = rq_headers r"
  using assms by (auto simp: accumulator_finish_def spooled_def body_wf_def body_contents_def acc_inv_def acc_contents_def split: option.splits)

text \<open>C39: A chunked request body is decoded whatever the network does: for every list of chunks within the limits and every way to
  cut its encoding (and what follows it) into segments, the body stream finishes at the end of the encoding, hands the rest to
  the next request, and the request it builds has exactly the concatenated chunks as its body, in
  memory or in the spool file.\<close>

theorem chunk_stream_decodes:
  assumes "os_ok os" "concat segs = encode_chunked_body chunks @ rest"
    and "length (concat chunks) \<le> limit" "length (concat chunks) < 2 ^ 64" "rq_body_file r = None"
  shows "\<exists>st'. feed_segments os ((new_body_stream memory)\<lparr>st_request := r, st_chunked := True, st_max_body_bytes := limit\<rparr>) segs =
      Some (stream_finished st' rest) \<and>
    (let q = accumulator_finish (st_accumulator st') (st_request st'); fs = spooled (st_accumulator st') files in
     body_wf fs q \<and> body_contents fs q = concat chunks \<and> rq_headers q = rq_headers r)"
proof -
  let ?st = "(new_body_stream memory)\<lparr>st_request := r, st_chunked := True, st_max_body_bytes := limit\<rparr>"
  have inv: "stream_inv ?st" by (simp add: stream_inv_def new_body_stream_def new_accumulator_def acc_inv_def acc_contents_def)
  have A: "chunk_automaton (st_max_body_bytes ?st) (chunk_abs ?st) (concat segs) = ca_done (concat chunks) rest"
    unfolding assms(2) using assms(3, 4)
    by (subst automaton_encoded) (simp_all add: chunk_abs_def new_body_stream_def new_accumulator_def acc_contents_def)
  obtain out where out: "feed_segments os ?st segs = Some out" "outcome_refines ?st out (ca_done (concat chunks) rest)"
    using feed_segments_refines [OF assms(1) inv, of segs] A by auto
  then obtain st' where st': "out = stream_finished st' rest" "acc_contents (st_accumulator st') = concat chunks"
    "stream_inv st'" "same_stream ?st st'" by (cases out) auto
  have "acc_inv (st_accumulator st')" "st_request st' = r" using st' by (simp_all add: stream_inv_def same_stream_def)
  with finish_contents [of "st_accumulator st'" r files] assms(5) st' out(1) show ?thesis by (auto simp: Let_def)
qed

theorem chunk_stream_decodes_witness:
  "\<exists>st'. feed_segments \<lparr>os_mkstemp = Some ''/tmp/x'', os_write = \<lambda>k. if even k then interrupted else written 2\<rparr>
      ((new_body_stream 2)\<lparr>st_request := new_request, st_chunked := True, st_max_body_bytes := 9\<rparr>)
      [''3'', [CR, LF, CHR ''a''], ''bc'', [CR], [LF, CHR ''0'', CR, LF, CR], [LF, CHR ''G'']] = Some (stream_finished st' ''G'')"
proof -
  have "os_ok \<lparr>os_mkstemp = Some ''/tmp/x'', os_write = \<lambda>k. if even k then interrupted else written 2\<rparr>"
  proof -
    have "\<exists>j\<ge>k. odd j" for k :: nat by (rule exI [of _ "2 * k + 1"]) simp
    then show ?thesis by (simp add: os_ok_def) metis
  qed
  moreover have "concat [''3'', [CR, LF, CHR ''a''], ''bc'', [CR], [LF, CHR ''0'', CR, LF, CR], [LF, CHR ''G'']] =
      encode_chunked_body [''abc''] @ ''G''"
    by code_simp
  ultimately show ?thesis
    using chunk_stream_decodes [where limit = 9 and memory = 2 and r = new_request and files = Map.empty]
    by (fastforce simp: new_request_def)
qed

section \<open>Bounds\<close>

text \<open>What is kept of an unfinished body, whatever arrives and whatever the disk does.\<close>

fun outcome_inv :: "body_stream \<Rightarrow> stream_outcome \<Rightarrow> bool" where
  "outcome_inv st (stream_waiting st') \<longleftrightarrow> stream_inv st' \<and> same_stream st st'"
| "outcome_inv st (stream_finished st' rest) \<longleftrightarrow> stream_inv st' \<and> same_stream st st'"
| "outcome_inv st _ \<longleftrightarrow> True"

lemma outcome_inv_trans: "same_stream st st' \<Longrightarrow> outcome_inv st' out \<Longrightarrow> outcome_inv st out"
  by (cases out) (auto simp: same_stream_def)

lemma handle_line_inv:
  "stream_inv st \<Longrightarrow> st_chunked_phase st \<in> {size_line, trailer_line} \<Longrightarrow>
   (case handle_stream_line (st\<lparr>st_line_buffer := []\<rparr>) line rest of
      line_stop out \<Rightarrow> outcome_inv st out | line_continue st' \<Rightarrow> stream_inv st' \<and> same_stream st st')"
  by (auto simp: handle_stream_line_def stream_inv_def same_stream_def Let_def split: option.split)

lemma process_chunked_inv:
  "stream_inv st \<Longrightarrow> process_chunked_http1_body_stream os st buffer = Some out \<Longrightarrow> outcome_inv st out"
proof (induction "length buffer" arbitrary: st buffer rule: less_induct)
  case less
  have step: "outcome_inv st out"
    if "stream_inv st'" "same_stream st st'" "length rest < length buffer" "process_chunked_http1_body_stream os st' rest = Some out" for st' rest
    using less.hyps [OF that(3, 1, 4)] outcome_inv_trans [OF that(2)] by blast
  consider (none) "buffer = []" | (no_line) "st_chunked_phase st \<in> {size_line, trailer_line}" "buffer \<noteq> []" "LF \<notin> set buffer"
    | (line) w rest where "st_chunked_phase st \<in> {size_line, trailer_line}" "LF \<notin> set w" "buffer = w @ LF # rest"
    | (data) "st_chunked_phase st = data_phase" "buffer \<noteq> []" | (crlf) c rest where "st_chunked_phase st = data_crlf" "buffer = c # rest"
    using split_list_first [of LF buffer] by (cases buffer; cases "st_chunked_phase st") blast+
  then show ?case
  proof cases
    case none
    then show ?thesis using less.prems by (auto simp: process_chunked_http1_body_stream.simps)
  next
    case no_line
    then show ?thesis using less.prems by (auto simp: round_no_line stream_inv_def same_stream_def split: if_splits)
  next
    case line
    show ?thesis
      using less.prems(2) handle_line_inv [OF less.prems(1) line(1), of "butlast (st_line_buffer st @ w)" rest] step [of _ rest]
      unfolding line(3) round_line [OF line(1, 2) refl] by (auto split: if_splits line_step.splits)
  next
    case crlf
    obtain st' where st': "st' = (let st = st\<lparr>st_crlf_seen := st_crlf_seen st + 1\<rparr> in
        if st_crlf_seen st = 2 then st\<lparr>st_chunked_phase := size_line\<rparr> else st)" by blast
    show ?thesis
    proof (cases "c = (if st_crlf_seen st = 0 then CR else LF)")
      case True
      then show ?thesis
        using less.prems(2) crlf_step [OF crlf(1) less.prems(1) True st'] step [of st' rest]
        unfolding crlf(2) round_crlf [OF crlf(1)] st' [symmetric] by simp
    qed (use less.prems(2) in \<open>auto simp: crlf round_crlf [OF crlf(1)]\<close>)
  next
    case data
    define n where "n = min (st_chunk_remaining st) (length buffer)"
    have n: "take n buffer \<noteq> []" "length (take n buffer) = n" "n \<le> st_chunk_remaining st"
      using less.prems(1) data by (auto simp: n_def stream_inv_def)
    note round = less.prems(2) [unfolded round_data [OF data n_def]]
    show ?thesis
    proof (cases "ac_size (st_accumulator st) + n \<le> st_max_body_bytes st \<and> (\<exists>a. accumulator_append os (take n buffer) (st_accumulator st) = Some (Inr a))")
      case True
      then obtain a where a: "accumulator_append os (take n buffer) (st_accumulator st) = Some (Inr a)" by blast
      obtain st' where st': "st' = (let st = st\<lparr>st_accumulator := a, st_chunk_remaining := st_chunk_remaining st - n\<rparr> in
          if st_chunk_remaining st = 0 then st\<lparr>st_chunked_phase := data_crlf, st_crlf_seen := 0\<rparr> else st)" by blast
      have "stream_inv st' \<and> same_stream st st'"
        using data_step [OF data(1) less.prems(1) n(1) _ _ a, unfolded n(2), OF n(3) _ st'] True by blast
      moreover have "process_chunked_http1_body_stream os st' (drop n buffer) = Some out"
        using round True a unfolding st' by simp
      ultimately show ?thesis using step [of st' "drop n buffer"] n(1) by auto
    qed (use round in \<open>auto split: if_splits option.splits sum.splits\<close>)
  qed
qed

text \<open>The memory a client can make the server hold for an unfinished chunked body is bounded, whatever it sends and in whatever pieces:
  at most the memory limit of the accumulator and 8192 bytes of an incomplete line, and at most
  \<open>max_body_bytes\<close> in the spool file; everything above is answered with 400 or 413.\<close>

theorem body_stream_bounded:
  assumes "st_chunked st" "stream_inv st" "feed_segments os st segs = Some (stream_waiting st')"
  shows "length (ac_memory (st_accumulator st')) \<le> ac_memory_limit (st_accumulator st) \<and> length (st_line_buffer st') \<le> 8192 \<and>
    length (acc_contents (st_accumulator st')) \<le> st_max_body_bytes st \<and> stream_inv st'"
  using assms
proof (induction segs arbitrary: st)
  case (Cons seg segs)
  then obtain st1 where st1: "process_chunked_http1_body_stream os st seg = Some (stream_waiting st1)" "feed_segments os st1 segs = Some (stream_waiting st')"
    by (auto simp: process_body_stream_def split: option.splits stream_outcome.splits)
  have "stream_inv st1 \<and> same_stream st st1" using process_chunked_inv [OF Cons.prems(2) st1(1)] by simp
  then show ?case using Cons.IH [OF _ _ st1(2)] Cons.prems(1) by (auto simp: same_stream_def)
qed (auto simp: stream_inv_def acc_inv_def)

theorem body_stream_bounded_witness:
  "\<exists>st'. feed_segments \<lparr>os_mkstemp = None, os_write = \<lambda>k. write_failed\<rparr>
      ((new_body_stream 16)\<lparr>st_chunked := True, st_max_body_bytes := 100\<rparr>) [''3'', ''e''] = Some (stream_waiting st') \<and>
    length (acc_contents (st_accumulator st')) \<le> 100"
proof -
  let ?os = "\<lparr>os_mkstemp = None, os_write = \<lambda>k. write_failed\<rparr>" and ?st = "(new_body_stream 16)\<lparr>st_chunked := True, st_max_body_bytes := 100\<rparr>"
  obtain st' where f: "feed_segments ?os ?st [''3'', ''e''] = Some (stream_waiting st')"
    by (simp add: process_body_stream_def round_no_line new_body_stream_def)
  have inv: "stream_inv ?st" by (simp add: stream_inv_def new_body_stream_def new_accumulator_def acc_inv_def acc_contents_def)
  from body_stream_bounded [OF _ inv f] f show ?thesis by (intro exI [of _ st'] conjI) simp_all
qed

end
