(* ===== verification/Websocket.thy ===== *)
theory Websocket
  imports Rimau_Codec Http_Response
begin

text \<open>
  The WebSocket endpoint of \<open>src/src/core/server.cpp\<close>: \<open>base64_encode\<close>, the handshake, \<open>websocket_frame\<close> and
  \<open>process_websocket_frames\<close> of \<open>ClientConnection\<close>, an echo server. SHA-1 (OpenSSL's \<open>EVP_Digest\<close>) is a parameter.
  Both directions are instances of the locale \<open>frame_codec\<close>: the frames a client sends, read by the code, and the frames the
  code sends, read by a client that follows RFC 6455.
\<close>

section \<open>Base64\<close>

definition base64_table :: string where
  "base64_table = ''ABCDEFGHIJKLMNOPQRSTUVWXYZabcdefghijklmnopqrstuvwxyz0123456789+/''"

definition base64_triple :: "u8 \<Rightarrow> u8 \<Rightarrow> u8 \<Rightarrow> u32" where
  "base64_triple a b c = push_bit 16 (ucast a) OR push_bit 8 (ucast b) OR ucast c"

definition base64_digit :: "u32 \<Rightarrow> nat \<Rightarrow> char" where
  "base64_digit triple shift = base64_table ! unat (drop_bit shift triple AND 0x3f)"

fun base64_encode :: "bytes \<Rightarrow> string" where
  "base64_encode [] = []"
| "base64_encode [a] =
     (let t = base64_triple a 0 0 in [base64_digit t 18, base64_digit t 12, CHR ''='', CHR ''=''])"
| "base64_encode [a, b] =
     (let t = base64_triple a b 0 in [base64_digit t 18, base64_digit t 12, base64_digit t 6, CHR ''=''])"
| "base64_encode (a # b # c # rest) =
     (let t = base64_triple a b c
      in [base64_digit t 18, base64_digit t 12, base64_digit t 6, base64_digit t 0] @ base64_encode rest)"

section \<open>The handshake\<close>

definition connection_header_has_token :: "request \<Rightarrow> string \<Rightarrow> bool" where
  "connection_header_has_token r token =
     (case request_header r ''connection'' of
        None \<Rightarrow> False
      | Some header \<Rightarrow> list_ex (\<lambda>item. lowercase (trim item) = token) (getlines (CHR '','') header))"

definition websocket_guid :: string where
  "websocket_guid = ''258EAFA5-E914-47DA-95CA-C5AB0DC85B11''"

definition websocket_accept_key :: "(string \<Rightarrow> bytes option) \<Rightarrow> string \<Rightarrow> string result" where
  "websocket_accept_key sha1 key =
     (case sha1 (key @ websocket_guid) of
        None \<Rightarrow> Inl ''EVP_Digest SHA1 failed for WebSocket accept key''
      | Some digest \<Rightarrow> Inr (base64_encode digest))"

definition is_websocket_upgrade_request :: "request \<Rightarrow> bool" where
  "is_websocket_upgrade_request r \<longleftrightarrow>
     rq_method r = ''GET'' \<and>
     (case request_header r ''upgrade'' of None \<Rightarrow> False | Some v \<Rightarrow> lowercase v = ''websocket'') \<and>
     connection_header_has_token r ''upgrade'' \<and>
     (case request_header r ''sec-websocket-version'' of None \<Rightarrow> False | Some v \<Rightarrow> trim v = ''13'') \<and>
     (case request_header r ''sec-websocket-key'' of None \<Rightarrow> False | Some v \<Rightarrow> trim v \<noteq> [])"

definition websocket_handshake_response :: "(string \<Rightarrow> bytes option) \<Rightarrow> request \<Rightarrow> response result" where
  "websocket_handshake_response sha1 r =
     (case request_header r ''sec-websocket-key'' of
        None \<Rightarrow> Inr (text_response 400 (''Missing Sec-WebSocket-Key'' @ [LF]) plain_text)
      | Some key \<Rightarrow>
          r_bind (websocket_accept_key sha1 (trim key)) (\<lambda>accept.
            Inr (set_header ''sec-websocket-accept'' accept
              (set_header ''connection'' ''Upgrade''
                (set_header ''upgrade'' ''websocket''
                  (new_response\<lparr>rs_status := 101, rs_reason := reason_phrase 101\<rparr>))))))"

section \<open>Frames\<close>

text \<open>The \<open>k\<close> bytes of a number, the most significant first.\<close>

definition be_bytes :: "nat \<Rightarrow> nat \<Rightarrow> string" where
  "be_bytes k n = map (\<lambda>i. char_of (n div 256 ^ i mod 256)) (rev [0..<k])"

definition websocket_frame :: "u8 \<Rightarrow> string \<Rightarrow> string" where
  "websocket_frame opcode payload =
     (let n = length payload in
      char_of_byte (0x80 OR (opcode AND 0x0f)) #
      (if n < 126 then [char_of n]
       else if n \<le> 0xffff then char_of (126 :: nat) # be_bytes 2 n
       else char_of (127 :: nat) # be_bytes 8 n) @ payload)"

definition be_value :: "string \<Rightarrow> u64" where
  "be_value s = fold (\<lambda>c n. push_bit 8 n OR ucast (byte_of_char c)) s 0"

definition unmask :: "string \<Rightarrow> string \<Rightarrow> string" where
  "unmask key p = map (\<lambda>i. char_of_byte (byte_of_char (p ! i) XOR byte_of_char (key ! (i mod 4)))) [0..<length p]"

datatype ws_next = ws_incomplete | ws_bad_frame | ws_frame u8 string nat | ws_threw string

text \<open>The payload of a frame whose header ends at \<open>cursor\<close>. The sums are those of \<open>std::size_t\<close>; \<open>resize\<close> refuses what
  exceeds the largest size of a string.\<close>

definition websocket_payload :: "nat \<Rightarrow> string \<Rightarrow> u8 \<Rightarrow> nat \<Rightarrow> nat \<Rightarrow> ws_next" where
  "websocket_payload max_frame_bytes buffer opcode payload_length cursor =
     (if payload_length > max_frame_bytes \<or> length buffer < sz (cursor + 4 + payload_length) then
        (if payload_length > max_frame_bytes \<or> length buffer > sz (max_frame_bytes + 14) then ws_bad_frame else ws_incomplete)
      else if payload_length \<ge> 2 ^ 63 then ws_threw ''basic_string::_M_replace_aux''
      else ws_frame opcode (unmask (take 4 (drop cursor buffer)) (take payload_length (drop (cursor + 4) buffer)))
             (cursor + 4 + payload_length))"

definition next_websocket_frame :: "nat \<Rightarrow> string \<Rightarrow> ws_next" where
  "next_websocket_frame max_frame_bytes buffer =
     (if length buffer < 2 then ws_incomplete
      else
        let first = byte_of_char (buffer ! 0);
            second = byte_of_char (buffer ! 1);
            fin = first AND 0x80 \<noteq> 0;
            opcode = first AND 0x0f;
            masked = second AND 0x80 \<noteq> 0;
            payload_length = second AND 0x7f
        in if \<not> fin \<or> \<not> masked then ws_bad_frame
           else if payload_length = 126 then
             (if length buffer < 4 then ws_incomplete
              else websocket_payload max_frame_bytes buffer opcode (unat (be_value (take 2 (drop 2 buffer)))) 4)
           else if payload_length = 127 then
             (if length buffer < 10 then ws_incomplete
              else websocket_payload max_frame_bytes buffer opcode (unat (be_value (take 8 (drop 2 buffer)))) 10)
           else websocket_payload max_frame_bytes buffer opcode (unat payload_length) 2)"

record websocket_state =
  ws_in :: string
  ws_out :: string
  ws_close_after_write :: bool

definition queue_websocket_frame :: "u8 \<Rightarrow> string \<Rightarrow> websocket_state \<Rightarrow> websocket_state" where
  "queue_websocket_frame opcode payload s = s\<lparr>ws_out := ws_out s @ websocket_frame opcode payload\<rparr>"

definition websocket_close_queued :: "string \<Rightarrow> websocket_state \<Rightarrow> websocket_state" where
  "websocket_close_queued payload s = (queue_websocket_frame 0x8 payload s)\<lparr>ws_close_after_write := True\<rparr>"

lemma ws_frame_consumes: "next_websocket_frame m b = ws_frame opcode payload n \<Longrightarrow> 6 \<le> n \<and> 2 \<le> length b"
  by (auto simp: next_websocket_frame_def websocket_payload_def Let_def split: if_splits)

function process_websocket_frames :: "nat \<Rightarrow> websocket_state \<Rightarrow> websocket_state result" where
  "process_websocket_frames max_frame_bytes s =
     (case next_websocket_frame max_frame_bytes (ws_in s) of
        ws_incomplete \<Rightarrow> Inr s
      | ws_bad_frame \<Rightarrow> Inr (websocket_close_queued [] s)
      | ws_threw e \<Rightarrow> Inl e
      | ws_frame opcode payload consumed \<Rightarrow>
          let s = s\<lparr>ws_in := drop consumed (ws_in s)\<rparr> in
          if opcode = 0x1 \<or> opcode = 0x2 then process_websocket_frames max_frame_bytes (queue_websocket_frame opcode payload s)
          else if opcode = 0x8 then Inr (websocket_close_queued payload s)
          else if opcode = 0x9 then process_websocket_frames max_frame_bytes (queue_websocket_frame 0xA payload s)
          else if opcode = 0xA then process_websocket_frames max_frame_bytes s
          else Inr (websocket_close_queued [] s))"
  by pat_completeness auto
termination
  by (relation "measure (\<lambda>(m, s). length (ws_in s))") (auto simp: queue_websocket_frame_def dest: ws_frame_consumes)

declare process_websocket_frames.simps [simp del]

section \<open>Base64 can be decoded\<close>

lemma or_byte_nat:
  fixes x y :: nat
  assumes "y < 256"
  shows "push_bit 8 x OR y = x * 256 + y"
proof -
  have "push_bit 8 x AND y = 0"
  proof (rule bit_eqI)
    fix n
    have "take_bit 8 y = y" using assms by (simp add: take_bit_nat_eq_self)
    then have "bit y n \<Longrightarrow> n < 8" by (metis bit_take_bit_iff)
    then show "bit (push_bit 8 x AND y) n = bit 0 n" by (auto simp: bit_and_iff bit_push_bit_iff)
  qed
  then have "push_bit 8 x + y = push_bit 8 x OR y" by (rule disjunctive_add_eq_or)
  then show ?thesis by (simp add: push_bit_eq_mult)
qed

lemma unat_ucast_u8: "8 \<le> LENGTH('a :: len) \<Longrightarrow> unat (ucast (b :: u8) :: 'a word) = unat b"
proof -
  assume "8 \<le> LENGTH('a)"
  then have "unat b < 2 ^ LENGTH('a)"
    using power_increasing [of 8 "LENGTH('a)" "2 :: nat"] by (auto intro: less_le_trans [of _ 256])
  then show ?thesis by (simp add: unsigned_ucast_eq take_bit_nat_eq_self)
qed

lemma unat_push_or:
  fixes n :: "'a :: len word"
  assumes "unat n * 256 + 255 < 2 ^ LENGTH('a)" "8 \<le> LENGTH('a)"
  shows "unat (push_bit 8 n OR ucast (b :: u8)) = unat n * 256 + unat b"
proof -
  have "take_bit LENGTH('a) (push_bit 8 (unat n)) = push_bit 8 (unat n)"
    using assms(1) by (simp add: take_bit_nat_eq_self push_bit_eq_mult)
  then have "unat (push_bit 8 n) = push_bit 8 (unat n)" by (simp only: unsigned_push_bit_eq)
  with assms(2) show ?thesis by (simp only: unsigned_or_eq unat_ucast_u8) (simp add: or_byte_nat)
qed

lemma base64_triple_value: "unat (base64_triple a b c) = unat a * 65536 + unat b * 256 + unat c"
proof -
  have t: "base64_triple a b c = push_bit 8 (push_bit 8 (ucast a) OR ucast b) OR ucast c"
    by (simp add: base64_triple_def push_bit_or or.assoc)
  have lt: "unat a \<le> 255" "unat b \<le> 255" using unat_u8_less [of a] unat_u8_less [of b] by linarith+
  have a: "unat (ucast a :: u32) = unat a" by (simp add: unat_ucast_u8)
  have "unat (push_bit 8 (ucast a :: u32) OR ucast b) = unat a * 256 + unat b"
    using lt by (subst unat_push_or) (simp_all only: a, simp_all)
  then show ?thesis unfolding t using lt by (subst unat_push_or) simp_all
qed

lemma base64_digit_value: "base64_digit t s = base64_table ! (unat t div 2 ^ s mod 64)"
proof -
  have "drop_bit s t AND 0x3f = take_bit 6 (drop_bit s t)" by (simp add: take_bit_eq_mask mask_eq_exp_minus_1)
  then have "unat (drop_bit s t AND 0x3f) = take_bit 6 (drop_bit s (unat t))" by (simp only: unsigned_take_bit_eq unat_drop_bit_eq)
  then show ?thesis by (simp add: base64_digit_def take_bit_eq_mod drop_bit_eq_div)
qed

text \<open>A decoder after RFC 4648.\<close>

definition base64_index :: "char \<Rightarrow> nat" where
  "base64_index c = (case find_char c base64_table of None \<Rightarrow> 0 | Some i \<Rightarrow> i)"

fun base64_decode :: "string \<Rightarrow> bytes" where
  "base64_decode (p # q # r # s # rest) =
     (let v = ((base64_index p * 64 + base64_index q) * 64 + base64_index r) * 64 + base64_index s in
      [of_nat (v div 65536)] @ (if r = CHR ''='' then [] else of_nat (v div 256 mod 256) # (if s = CHR ''='' then [] else of_nat (v mod 256) # base64_decode rest)))"
| "base64_decode _ = []"

lemma base64_index_table: "i < 64 \<Longrightarrow> base64_index (base64_table ! i) = i \<and> base64_table ! i \<noteq> CHR ''=''"
proof -
  assume i: "i < 64"
  have "\<forall>i \<in> set [0..<64]. base64_index (base64_table ! i) = i \<and> base64_table ! i \<noteq> CHR ''=''"
    by code_simp
  with i show ?thesis by simp
qed

lemma base64_index_pad: "base64_index (CHR ''='') = 0"
  by code_simp

lemma base64_regroup:
  assumes "t < 16777216"
  shows "((t div 262144 mod 64 * 64 + t div 4096 mod 64) * 64 + t div 64 mod 64) * 64 + t mod 64 = (t :: nat)"
proof -
  have "t div 262144 mod 64 = t div 262144" using assms by simp
  moreover have "t div 262144 * 64 + t div 4096 mod 64 = t div 4096" using div_mult2_eq [of t 4096 64] by simp
  moreover have "t div 4096 * 64 + t div 64 mod 64 = t div 64" using div_mult2_eq [of t 64 64] by simp
  moreover have "t div 64 * 64 + t mod 64 = t" by simp
  ultimately show ?thesis by (simp only:)
qed

lemma base64_bytes:
  assumes "x < 256" "y < 256" "z < 256" "t = x * 65536 + y * 256 + (z :: nat)"
  shows "t < 16777216" "t div 65536 = x" "t div 256 mod 256 = y" "t mod 256 = z"
proof -
  have d: "t = (x * 256 + y) * 256 + z" using assms(4) by simp
  then have "t div 256 = x * 256 + y" using assms(3) by simp
  then show "t div 256 mod 256 = y" "t div 65536 = x" using assms(2) div_mult2_eq [of t 256 256] by simp_all
  show "t mod 256 = z" unfolding d using assms(3) by (simp only: mod_mult_self3 mod_less)
  show "t < 16777216" using assms by simp
qed

text \<open>Base64 is faithful: decoding the output of \<open>base64_encode\<close> gives back the encoded bytes, whatever their number.\<close>

theorem base64_roundtrip: "base64_decode (base64_encode d) = d"
proof (induction d rule: base64_encode.induct)
  case (2 a)
  define t where "t = unat (base64_triple a 0 0)"
  have v: "t = unat a * 65536 + 0 * 256 + 0" by (simp add: t_def base64_triple_value)
  then have t: "t = 64 * (64 * (unat a * 16))" by simp
  have "t div 64 = 64 * (unat a * 16)" unfolding t by (rule nonzero_mult_div_cancel_left) simp
  then have "t div 64 mod 64 = 0" by (simp only: mod_mult_self1_is_0)
  moreover have "t mod 64 = 0" unfolding t by (rule mod_mult_self1_is_0)
  ultimately show ?case
    using base64_bytes [OF _ _ _ v] base64_regroup [of t]
    by (simp add: base64_digit_value t_def [symmetric] base64_index_table base64_index_pad Let_def del: mult_0)
next
  case (3 a b)
  define t where "t = unat (base64_triple a b 0)"
  have v: "t = unat a * 65536 + unat b * 256 + 0" by (simp add: t_def base64_triple_value)
  then have t: "t = 64 * (unat a * 1024 + unat b * 4)" by simp
  have "t mod 64 = 0" unfolding t by (rule mod_mult_self1_is_0)
  then show ?case
    using base64_bytes [OF _ _ _ v] base64_regroup [of t]
    by (simp add: base64_digit_value t_def [symmetric] base64_index_table base64_index_pad Let_def)
next
  case (4 a b c rest)
  define t where "t = unat (base64_triple a b c)"
  have v: "t = unat a * 65536 + unat b * 256 + unat c" by (simp add: t_def base64_triple_value)
  from 4 base64_bytes [OF _ _ _ v] base64_regroup [of t] show ?case
    by (simp add: base64_digit_value t_def [symmetric] base64_index_table Let_def)
qed simp

section \<open>Lengths\<close>

lemma be_value_snoc: "be_value (s @ [c]) = push_bit 8 (be_value s) OR ucast (byte_of_char c)"
  by (simp add: be_value_def)

lemma be_value_bound: "length s \<le> 8 \<Longrightarrow> unat (be_value s) < 256 ^ length s"
proof (induction s rule: rev_induct)
  case (snoc c s)
  have "(256 :: nat) ^ length s \<le> 256 ^ 7" using snoc.prems by (intro power_increasing) simp_all
  with snoc have b: "unat (be_value s) < 256 ^ length s" "unat (be_value s) * 256 + 255 < 2 ^ 64" by simp_all
  then have "unat (be_value (s @ [c])) = unat (be_value s) * 256 + code c"
    by (subst be_value_snoc, subst unat_push_or) simp_all
  also have "\<dots> < (unat (be_value s) + 1) * 256" by simp
  also have "\<dots> \<le> 256 ^ length (s @ [c])" using b(1) by (simp add: Suc_le_eq [symmetric] del: mult_Suc)
  finally show ?case .
qed (simp add: be_value_def)

lemma be_bytes_Suc: "be_bytes (Suc k) n = be_bytes k (n div 256) @ [char_of (n mod 256)]"
proof -
  have "rev [0..<Suc k] = map Suc (rev [0..<k]) @ [0]" by (simp add: upt_conv_Cons map_Suc_upt [symmetric] rev_map del: upt_Suc)
  then show ?thesis by (simp add: be_bytes_def div_mult2_eq del: upt_Suc)
qed

lemma length_be_bytes [simp]: "length (be_bytes k n) = k"
  by (simp add: be_bytes_def)

lemma be_value_be_bytes: "k \<le> 8 \<Longrightarrow> n < 256 ^ k \<Longrightarrow> unat (be_value (be_bytes k n)) = n"
proof (induction k arbitrary: n)
  case (Suc k)
  then have IH: "unat (be_value (be_bytes k (n div 256))) = n div 256" by (simp add: less_mult_imp_div_less mult.commute)
  have "(256 :: nat) ^ k \<le> 256 ^ 7" using Suc.prems by (intro power_increasing) simp_all
  moreover have "n div 256 < 256 ^ k" using Suc.prems(2) by (simp add: less_mult_imp_div_less mult.commute)
  ultimately have "n div 256 * 256 + 255 < 2 ^ 64" by simp
  then show ?case by (simp add: be_bytes_Suc be_value_snoc unat_push_or IH)
qed (simp add: be_value_def be_bytes_def)

lemma length_unmask [simp]: "length (unmask key p) = length p"
  by (simp add: unmask_def)

lemma unmask_unmask: "unmask key (unmask key p) = p"
proof (rule nth_equalityI)
  fix i assume "i < length (unmask key (unmask key p))"
  then show "unmask key (unmask key p) ! i = p ! i" by (simp add: unmask_def xor.assoc)
qed simp

text \<open>What a client sends.\<close>

definition client_frame :: "u8 \<times> string \<times> string \<Rightarrow> string" where
  "client_frame f = (case f of (opcode, key, payload) \<Rightarrow>
     let n = length payload in
     char_of_byte (0x80 OR opcode) #
     (if n < 126 then [char_of (128 + n)]
      else if n \<le> 0xffff then char_of (128 + 126 :: nat) # be_bytes 2 n
      else char_of (128 + 127 :: nat) # be_bytes 8 n) @ key @ unmask key payload)"

lemma byte_of_nat: "n < 256 \<Longrightarrow> byte_of_char (char_of n) = of_nat n"
  by (simp add: byte_of_char_def of_char_of)

lemma length_byte:
  assumes "n < 128"
  shows "byte_of_char (char_of (128 + n)) AND 0x80 \<noteq> 0" "unat (byte_of_char (char_of (128 + n)) AND 0x7f) = n"
proof -
  have b: "byte_of_char (char_of (128 + n)) = of_nat (128 + n)" using assms by (intro byte_of_nat) simp
  have "\<forall>n \<in> set [0..<128]. (of_nat (128 + n) :: u8) AND 0x80 \<noteq> 0 \<and> unat ((of_nat (128 + n) :: u8) AND 0x7f) = n"
    by code_simp
  then show "byte_of_char (char_of (128 + n)) AND 0x80 \<noteq> 0" "unat (byte_of_char (char_of (128 + n)) AND 0x7f) = n"
    using assms unfolding b by simp_all
qed

lemma ws_first_byte:
  fixes opcode :: u8
  shows "(0x80 OR opcode) AND 0x80 \<noteq> 0" "(0x80 OR opcode) AND 0x0f = opcode AND 0x0f"
proof -
  have "bit ((0x80 OR opcode) AND 0x80) 7" by (simp add: bit_and_iff bit_or_iff)
  then show "(0x80 OR opcode) AND 0x80 \<noteq> 0" by auto
  have "(0x80 OR opcode) AND 0x0f = (0x80 AND 0x0f) OR (opcode AND 0x0f)" by (simp add: bit.conj_disj_distrib2)
  then show "(0x80 OR opcode) AND 0x0f = opcode AND 0x0f" by simp
qed

lemma long_lengths: "byte_of_char (char_of (254 :: nat)) AND 0x7f = (126 :: u8)" "byte_of_char (char_of (255 :: nat)) AND 0x7f = (127 :: u8)"
  by code_simp+

lemma payload_at:
  assumes "length key = 4" "length payload \<le> m" "m + 14 < 2 ^ 63" "buffer = h @ key @ unmask key payload @ rest" "cursor = length h" "cursor \<le> 10"
  shows "websocket_payload m buffer opcode (length payload) cursor = ws_frame opcode payload (cursor + 4 + length payload)"
proof -
  have "sz (cursor + 4 + length payload) = cursor + 4 + length payload" using assms by (intro sz_id) simp
  then show ?thesis using assms by (simp add: websocket_payload_def unmask_unmask)
qed

lemma next_frame_client:
  assumes "length key = 4" "opcode AND 0x0f = opcode" "length payload \<le> m" "m + 14 < 2 ^ 63"
  shows "next_websocket_frame m (client_frame (opcode, key, payload) @ rest) =
    ws_frame opcode payload (length (client_frame (opcode, key, payload)))"
proof -
  let ?n = "length payload" and ?body = "key @ unmask key payload @ rest"
  have b: "byte_of_char (char_of_byte x) = x" for x by simp
  consider (small) "?n < 126" | (medium) "126 \<le> ?n" "?n \<le> 0xffff" | (large) "0xffff < ?n" by linarith
  then show ?thesis
  proof cases
    case small
    let ?h = "[char_of_byte (0x80 OR opcode), char_of (128 + ?n)]"
    have "unat (byte_of_char (char_of (128 + ?n)) AND 0x7f) = ?n" by (rule length_byte) (use small in simp)
    moreover from this small have "byte_of_char (char_of (128 + ?n)) AND 0x7f \<noteq> 126" "byte_of_char (char_of (128 + ?n)) AND 0x7f \<noteq> 127" by auto
    ultimately show ?thesis
      using small assms payload_at [OF assms(1, 3, 4), of "?h @ ?body" ?h rest 2 opcode] length_byte(1) [of ?n]
      by (simp add: next_websocket_frame_def client_frame_def ws_first_byte Let_def)
  next
    case medium
    let ?h = "char_of_byte (0x80 OR opcode) # char_of (254 :: nat) # be_bytes 2 ?n"
    show ?thesis
      using medium assms payload_at [OF assms(1, 3, 4), of "?h @ ?body" ?h rest 4 opcode] length_byte(1) [of 126] long_lengths be_value_be_bytes [of 2 ?n]
      by (simp add: next_websocket_frame_def client_frame_def ws_first_byte Let_def)
  next
    case large
    let ?h = "char_of_byte (0x80 OR opcode) # char_of (255 :: nat) # be_bytes 8 ?n"
    show ?thesis
      using large assms payload_at [OF assms(1, 3, 4), of "?h @ ?body" ?h rest 10 opcode] length_byte(1) [of 127] long_lengths be_value_be_bytes [of 8 ?n]
      by (simp add: next_websocket_frame_def client_frame_def ws_first_byte Let_def)
  qed
qed

section \<open>The frames of the server\<close>

text \<open>A client that follows RFC 6455 reads one unfragmented frame; a server must not mask.\<close>

definition client_payload :: "string \<Rightarrow> u8 \<Rightarrow> nat \<Rightarrow> nat \<Rightarrow> (u8 \<times> string) outcome" where
  "client_payload s opcode n cursor =
     (if length s < cursor + n then NeedMore ''payload'' else Parsed (opcode, take n (drop cursor s)) (cursor + n))"

definition client_read :: "string \<Rightarrow> (u8 \<times> string) outcome" where
  "client_read s =
     (if length s < 2 then NeedMore ''header''
      else
        let opcode = byte_of_char (s ! 0) AND 0x0f; n = code (s ! 1) in
        if n < 126 then client_payload s opcode n 2
        else if n = 126 then
          (if length s < 4 then NeedMore ''length'' else client_payload s opcode (unat (be_value (take 2 (drop 2 s)))) 4)
        else if n = 127 then
          (if length s < 10 then NeedMore ''length'' else client_payload s opcode (unat (be_value (take 8 (drop 2 s)))) 10)
        else Malformed ''masked'')"

definition server_fits :: "u8 \<times> string \<Rightarrow> bool" where
  "server_fits f \<longleftrightarrow> fst f AND 0x0f = fst f \<and> length (snd f) < 2 ^ 64"

definition server_frame :: "u8 \<times> string \<Rightarrow> bytes result" where
  "server_frame f = Inr (string_to_bytes (websocket_frame (fst f) (snd f)))"

lemma client_reads_frame:
  assumes "server_fits (opcode, payload)"
  shows "client_read (websocket_frame opcode payload @ rest) = Parsed (opcode, payload) (length (websocket_frame opcode payload))"
proof -
  let ?n = "length payload"
  have op: "opcode AND 0x0f = opcode" "?n < 2 ^ 64" using assms by (simp_all add: server_fits_def)
  have c: "code (char_of n) = n" if "n < 256" for n using that by (simp add: of_char_of)
  consider (small) "?n < 126" | (medium) "126 \<le> ?n" "?n \<le> 0xffff" | (large) "0xffff < ?n" by linarith
  then show ?thesis
    using op be_value_be_bytes [of 2 ?n] be_value_be_bytes [of 8 ?n]
    by cases (simp_all add: websocket_frame_def client_read_def client_payload_def ws_first_byte c Let_def)
qed

lemma client_read_stable: "client_read s = Parsed f n \<Longrightarrow> client_read (s @ t) = Parsed f n"
proof -
  assume r: "client_read s = Parsed f n"
  then have l: "2 \<le> length s" by (simp add: client_read_def split: if_splits)
  then have at: "(s @ t) ! 0 = s ! 0" "(s @ t) ! Suc 0 = s ! Suc 0" by (auto simp: nth_append)
  have pay: "client_payload (s @ t) opcode k c = Parsed f n" if "client_payload s opcode k c = Parsed f n" for opcode k c
    using that by (simp add: client_payload_def split: if_splits)
  consider (small) "code (s ! 1) < 126" | (medium) "code (s ! 1) = 126" | (large) "code (s ! 1) = 127" | (bad) "127 < code (s ! 1)" by linarith
  then show ?thesis
  proof cases
    case small
    then show ?thesis using r l pay by (simp add: client_read_def at Let_def)
  next
    case medium
    then have "4 \<le> length s" using r l by (simp add: client_read_def Let_def split: if_splits)
    then show ?thesis using medium r l pay by (simp add: client_read_def at Let_def)
  next
    case large
    then have "10 \<le> length s" using r l by (simp add: client_read_def Let_def split: if_splits)
    then show ?thesis using large r l pay by (simp add: client_read_def at Let_def)
  qed (use r l in \<open>simp add: client_read_def Let_def\<close>)
qed

lemma client_read_bound: "client_read s = Parsed f n \<Longrightarrow> 0 < n \<and> n \<le> length s"
  by (simp add: client_read_def client_payload_def Let_def split: if_splits)

interpretation ws_server: frame_codec server_frame client_read server_fits
proof unfold_locales
  fix f bs rest
  assume "server_fits f" "server_frame f = Inr bs"
  then show "client_read (bytes_to_string bs @ rest) = Parsed f (length bs)"
    using client_reads_frame [of "fst f" "snd f" rest] by (auto simp: server_frame_def)
next
  fix f bs assume "server_frame f = Inr bs"
  then show "bs \<noteq> []" by (auto simp: server_frame_def websocket_frame_def Let_def string_to_bytes_def)
qed (rule client_read_stable, assumption, rule client_read_bound)

section \<open>The echo server\<close>

definition reply :: "u8 \<times> string \<times> string \<Rightarrow> (u8 \<times> string) list" where
  "reply f = (case f of (opcode, key, payload) \<Rightarrow>
     if opcode = 0xA then [] else if opcode = 0x9 then [(0xA, payload)] else [(opcode, payload)])"

definition masked_message :: "nat \<Rightarrow> u8 \<times> string \<times> string \<Rightarrow> bool" where
  "masked_message m f \<longleftrightarrow> fst f \<in> {0x1, 0x2, 0x9, 0xA} \<and> length (fst (snd f)) = 4 \<and> length (snd (snd f)) \<le> m"

lemma message_opcode: "fst f \<in> {0x1, 0x2, 0x9, 0xA :: u8} \<Longrightarrow> fst f AND 0x0f = fst f"
  by auto

lemma process_message:
  assumes "masked_message m f" "m + 14 < 2 ^ 63"
  shows "process_websocket_frames m (s\<lparr>ws_in := client_frame f @ rest\<rparr>) =
    process_websocket_frames m (s\<lparr>ws_out := ws_out s @ concat (map (\<lambda>(o', p). websocket_frame o' p) (reply f)), ws_in := rest\<rparr>)"
proof -
  obtain opcode key payload where f: "f = (opcode, key, payload)" by (cases f)
  have nf: "next_websocket_frame m (client_frame f @ rest) = ws_frame opcode payload (length (client_frame f))"
    using assms message_opcode [of f] unfolding f by (intro next_frame_client) (auto simp: masked_message_def)
  have "opcode \<in> {0x1, 0x2, 0x9, 0xA}" using assms(1) by (simp add: masked_message_def f)
  moreover have swap: "t\<lparr>ws_in := a, ws_out := b\<rparr> = t\<lparr>ws_out := b, ws_in := a\<rparr>" for t :: websocket_state and a b
    by (cases t) simp
  moreover have "reply f = (if opcode = 0xA then [] else if opcode = 0x9 then [(0xA, payload)] else [(opcode, payload)])"
    by (simp add: reply_def f)
  ultimately show ?thesis
    by (subst process_websocket_frames.simps) (elim insertE emptyE; simp add: nf queue_websocket_frame_def swap Let_def)
qed

lemma process_messages:
  assumes "list_all (masked_message m) fs" "m + 14 < 2 ^ 63"
  shows "process_websocket_frames m (s\<lparr>ws_in := concat (map client_frame fs) @ rest\<rparr>) =
    process_websocket_frames m (s\<lparr>ws_out := ws_out s @ concat (map (\<lambda>(o', p). websocket_frame o' p) (concat (map reply fs))),
      ws_in := rest\<rparr>)"
  using assms(1)
proof (induction fs arbitrary: s)
  case (Cons f fs)
  let ?w = "\<lambda>(o', p). websocket_frame o' p"
  have "process_websocket_frames m (s\<lparr>ws_in := concat (map client_frame (f # fs)) @ rest\<rparr>) =
    process_websocket_frames m (s\<lparr>ws_out := ws_out s @ concat (map ?w (reply f)), ws_in := concat (map client_frame fs) @ rest\<rparr>)"
    using process_message [OF _ assms(2), where f = f and s = s and rest = "concat (map client_frame fs) @ rest"] Cons.prems by simp
  also have "\<dots> = process_websocket_frames m (s\<lparr>ws_out := ws_out s @ concat (map ?w (concat (map reply (f # fs)))), ws_in := rest\<rparr>)"
    using Cons.IH [of "s\<lparr>ws_out := ws_out s @ concat (map ?w (reply f))\<rparr>"] Cons.prems by simp
  finally show ?case .
next
  case Nil
  show ?case by (cases s) simp
qed

text \<open>C40: The WebSocket endpoint echoes: for every sequence of text, binary, ping and pong frames within the size limit, masked with any
  keys, all input is consumed, the connection stays open, and a client reads from the output exactly its own text and
  binary messages in order and one pong with the payload of each ping.\<close>

theorem websocket_echo:
  assumes "list_all (masked_message m) fs" "m + 14 < 2 ^ 63"
  shows "\<exists>s. process_websocket_frames m \<lparr>ws_in = concat (map client_frame fs), ws_out = [], ws_close_after_write = False\<rparr> = Inr s \<and>
    ws_in s = [] \<and> \<not> ws_close_after_write s \<and> parse_all client_read (ws_out s) = (concat (map reply fs), [])"
proof -
  let ?rs = "concat (map reply fs)" and ?w = "\<lambda>(o', p). websocket_frame o' p"
  have fits: "list_all server_fits ?rs"
    using assms by (induction fs) (auto simp: masked_message_def reply_def server_fits_def)
  have enc: "enc_all server_frame rs = Inr (string_to_bytes (concat (map ?w rs)))" for rs
    by (induction rs) (auto simp: server_frame_def string_to_bytes_def)
  have "parse_all client_read [] = ([], [])" by (simp add: parse_all.simps client_read_def)
  then have "parse_all client_read (concat (map ?w ?rs)) = (?rs, [])"
    using ws_server.parse_all_enc_all [OF fits enc, of "[]"] by simp
  moreover have "process_websocket_frames m \<lparr>ws_in = concat (map client_frame fs), ws_out = [], ws_close_after_write = False\<rparr> =
      Inr \<lparr>ws_in = [], ws_out = concat (map ?w ?rs), ws_close_after_write = False\<rparr>"
    using process_messages [OF assms, where s = "\<lparr>ws_in = [], ws_out = [], ws_close_after_write = False\<rparr>" and rest = "[]"]
    by (simp add: process_websocket_frames.simps [of m "\<lparr>ws_in = [], ws_out = _, ws_close_after_write = _\<rparr>"] next_websocket_frame_def)
  ultimately show ?thesis by simp
qed

theorem websocket_echo_witness:
  "\<exists>s. process_websocket_frames 65536 \<lparr>ws_in = client_frame (0x1, ''abcd'', ''hello'') @ client_frame (0x9, ''wxyz'', ''p''),
      ws_out = [], ws_close_after_write = False\<rparr> = Inr s \<and>
    parse_all client_read (ws_out s) = ([(0x1, ''hello''), (0xA, ''p'')], [])"
  using websocket_echo [of 65536 "[(0x1, ''abcd'', ''hello''), (0x9, ''wxyz'', ''p'')]"]
  by (auto simp: masked_message_def reply_def)

text \<open>A refused frame stays in the buffer and \<open>websocket_close_after_write_\<close> is not looked at again: every further piece of input queues
  one more Close frame.\<close>

theorem websocket_close_repeats:
  assumes "process_websocket_frames m s = Inr s'" "next_websocket_frame m (ws_in s) = ws_bad_frame" "2 \<le> length (ws_in s)"
    and "byte_of_char (ws_in s ! 1) AND 0x80 = 0"
  shows "process_websocket_frames m (s'\<lparr>ws_in := ws_in s' @ further\<rparr>) =
    Inr (s'\<lparr>ws_in := ws_in s' @ further, ws_out := ws_out s' @ websocket_frame 0x8 []\<rparr>)"
proof -
  have s': "s' = websocket_close_queued [] s" using assms(1, 2) by (subst (asm) process_websocket_frames.simps) simp
  then have "next_websocket_frame m (ws_in s' @ further) = ws_bad_frame"
    using assms(3, 4) by (simp add: next_websocket_frame_def websocket_close_queued_def queue_websocket_frame_def nth_append Let_def)
  then show ?thesis
    by (subst process_websocket_frames.simps) (simp add: websocket_close_queued_def queue_websocket_frame_def s')
qed

end
