(* ===== verification/Client_State.thy ===== *)
theory Client_State
  imports Http_Transaction Access_Control Body_Stream Websocket Http2_Messages
begin

text \<open>
  The state of a client connection (\<open>ClientConnection\<close> in \<open>src/src/core/server.cpp\<close>), the operations that put a response into
  it, the settings it derives from the configuration, and the loop that hands buffered bytes to a socket. What the
  operating system and the TLS library answer is an argument: each call of an event handler gets the results of the
  socket calls it will make. Log lines and the registration with epoll are left out (\<open>epoll_ctl\<close> is taken to succeed), descriptors
  are represented by what is done with them. The clock shows one time, in nanoseconds, during one call of a handler; the
  time 0 is the default value of a \<open>time_point\<close>.
\<close>

section \<open>The connection\<close>

datatype client_phase =
    ph_tls_handshake | ph_reading | ph_writing | ph_websocket | ph_websocket_proxy | ph_reverse_proxy | ph_tls_shutdown | ph_closed

datatype reverse_proxy_stage = stage_idle | stage_connecting | stage_tls_handshake | stage_writing_request | stage_reading_response

abbreviation EPOLLIN :: u32 where "EPOLLIN \<equiv> 0x001"
abbreviation EPOLLOUT :: u32 where "EPOLLOUT \<equiv> 0x004"
abbreviation EPOLLERR :: u32 where "EPOLLERR \<equiv> 0x008"
abbreviation EPOLLHUP :: u32 where "EPOLLHUP \<equiv> 0x010"
abbreviation EPOLLRDHUP :: u32 where "EPOLLRDHUP \<equiv> 0x2000"

record client_conn =
  cc_config :: server_config
  cc_client_ip :: string
  cc_ssl :: bool
  cc_http2_tls_selected :: bool
  cc_phase :: client_phase
  cc_events :: u32
  cc_request_buffer :: string
  cc_response_buffer :: string
  cc_response_offset :: nat
  cc_keep_alive_after_response :: bool
  cc_websocket_after_response :: bool
  cc_websocket_proxy_after_response :: bool
  cc_websocket_close_after_write :: bool
  wp_client_to_upstream :: string
  wp_upstream_to_client :: string
  wp_client_to_upstream_offset :: nat
  wp_upstream_to_client_offset :: nat
  wp_client_extra_events :: u32
  wp_upstream_extra_events :: u32
  wp_upstream_tls :: bool
  cc_http2_active :: bool
  cc_http2_session :: server_session
  cc_http1_body_stream :: "body_stream option"
  cc_requests_served :: int
  cc_last_activity :: int
  cc_request_started_at :: int
  cc_body_started_at :: int
  cc_waiting_for_body :: bool
  rp_request :: "request option"
  rp_ordered_upstreams :: "reverse_proxy_target list"
  rp_settings :: reverse_proxy_settings
  rp_current_upstream :: reverse_proxy_target
  rp_upstream_request :: string
  rp_upstream_request_offset :: nat
  rp_response_buffer :: string
  rp_keep_alive :: bool
  rp_body_mode :: body_mode
  rp_stage :: reverse_proxy_stage
  rp_attempt_index :: nat
  rp_skipped_open_circuit :: bool
  rp_attempted_upstream :: bool
  rp_extra_events :: u32
  rp_stage_started_at :: int

definition no_target :: reverse_proxy_target where
  "no_target = \<lparr>pt_scheme = ''http'', pt_host = [], pt_port = 80, pt_base_path = [], pt_authority = []\<rparr>"

text \<open>What the connections share: the limits, the round robin counter and the circuit breakers of the proxy, the spool files.\<close>

record server_globals =
  g_security :: security_state
  g_counter :: u64
  g_breakers :: circuit_breakers
  g_spool :: "string \<Rightarrow> string option"

definition close_now :: "client_conn \<Rightarrow> client_conn" where
  "close_now c = c\<lparr>rp_extra_events := 0, wp_upstream_tls := False, cc_phase := ph_closed, cc_events := 0\<rparr>"

definition closed :: "client_conn \<Rightarrow> bool" where
  "closed c \<longleftrightarrow> cc_phase c = ph_closed"

definition set_serialized_response :: "string \<Rightarrow> bool \<Rightarrow> client_conn \<Rightarrow> client_conn" where
  "set_serialized_response payload keep_alive c =
     c\<lparr>cc_keep_alive_after_response := keep_alive, cc_response_buffer := payload, cc_response_offset := 0,
       cc_phase := ph_writing, cc_events := EPOLLOUT\<rparr>"

definition response_text :: "(headers \<Rightarrow> headers) \<Rightarrow> server_config \<Rightarrow> int \<Rightarrow> response \<Rightarrow> body_mode \<Rightarrow> bool \<Rightarrow> string" where
  "response_text it config requests_served r mode keep_alive =
     (let r = (if keep_alive then
                 set_header ''keep-alive''
                   (''timeout='' @ int_to_string (cfg_http_keep_alive_timeout_seconds config) @ '', max='' @
                    int_to_string (max 0 (cfg_http_keep_alive_max_requests config - requests_served)))
                   (set_header ''connection'' ''keep-alive'' r)
               else erase_header ''keep-alive'' (set_header ''connection'' ''close'' r))
      in to_http_string it (mode = body_included) (response_serialization_options config) r)"

definition set_response :: "(headers \<Rightarrow> headers) \<Rightarrow> response \<Rightarrow> body_mode \<Rightarrow> bool \<Rightarrow> client_conn \<Rightarrow> client_conn" where
  "set_response it r mode keep_alive c =
     set_serialized_response (response_text it (cc_config c) (cc_requests_served c) r mode keep_alive) keep_alive c"

definition set_websocket_handshake_response :: "(headers \<Rightarrow> headers) \<Rightarrow> response \<Rightarrow> client_conn \<Rightarrow> client_conn" where
  "set_websocket_handshake_response it r c =
     set_serialized_response (to_http_string it True (response_serialization_options (cc_config c)) r) False
       (c\<lparr>cc_websocket_after_response := True\<rparr>)"

definition set_websocket_proxy_handshake_response :: "(headers \<Rightarrow> headers) \<Rightarrow> response \<Rightarrow> client_conn \<Rightarrow> client_conn" where
  "set_websocket_proxy_handshake_response it r c =
     set_serialized_response (to_http_string it True (response_serialization_options (cc_config c)) r) False
       (c\<lparr>cc_websocket_proxy_after_response := True\<rparr>)"

definition text_error :: "(headers \<Rightarrow> headers) \<Rightarrow> int \<Rightarrow> string \<Rightarrow> client_conn \<Rightarrow> client_conn" where
  "text_error it status message c = set_response it (text_response status (message @ [LF]) plain_text) body_included False c"

section \<open>Settings from the configuration\<close>

definition config_proxy_settings :: "server_config \<Rightarrow> reverse_proxy_settings result" where
  "config_proxy_settings config =
     r_bind (parse_reverse_proxy_load_balancing_policy (cfg_reverse_proxy_load_balancing_policy config)) (\<lambda>policy.
       Inr (default_reverse_proxy_settings\<lparr>
         px_connect_timeout_seconds := cfg_reverse_proxy_connect_timeout_seconds config,
         px_read_timeout_seconds := cfg_reverse_proxy_read_timeout_seconds config,
         px_max_response_bytes := cfg_reverse_proxy_max_response_bytes config,
         px_retry_count := cfg_reverse_proxy_retry_count config,
         px_load_balancing_policy := policy,
         px_verify_tls_upstream := cfg_reverse_proxy_tls_verify_upstream config,
         px_circuit_breaker_enabled := cfg_reverse_proxy_circuit_breaker_enabled config,
         px_circuit_breaker_failure_threshold := cfg_reverse_proxy_circuit_breaker_failure_threshold config,
         px_circuit_breaker_cooldown_seconds := cfg_reverse_proxy_circuit_breaker_cooldown_seconds config\<rparr>))"

definition config_static_file_options :: "server_config \<Rightarrow> static_file_options" where
  "config_static_file_options config =
     default_static_file_options\<lparr>sf_directory_index := cfg_directory_index config, sf_error_page := cfg_error_page config\<rparr>"

definition config_waf_settings :: "server_config \<Rightarrow> request \<Rightarrow> waf_settings result" where
  "config_waf_settings config r =
     (let settings = default_waf_settings\<lparr>
            ws_enabled := cfg_modsecurity_enabled config,
            ws_owasp_crs_enabled := cfg_modsecurity_owasp_crs_enabled config,
            ws_blocking_enabled := cfg_modsecurity_blocking_enabled config,
            ws_anomaly_threshold := cfg_modsecurity_anomaly_threshold config,
            ws_max_inspection_bytes := cfg_modsecurity_max_inspection_bytes config\<rparr>
      in if cfg_virtual_hosts_enabled config \<and> cfg_virtual_host_waf_overrides config \<noteq> [] then
           r_bind (parse_virtual_host_waf_overrides (cfg_virtual_host_waf_overrides config)) (\<lambda>overrides.
             Inr (apply_virtual_host_waf_override settings (select_virtual_host_waf_override r overrides)))
         else Inr settings)"

definition inspect_waf :: "world \<Rightarrow> server_config \<Rightarrow> request \<Rightarrow> response option result" where
  "inspect_waf w config r =
     r_bind (config_waf_settings config r) (\<lambda>settings.
       let res = inspect_request (w_headers_order w) (w_query_order w) (w_spool w) r settings in
       if \<not> wr_inspected res \<or> wr_matches res = [] then Inr None
       else if \<not> wr_allowed res then Inr (Some (waf_block_response res))
       else Inr None)"

definition reverse_proxy_upstreams_for_request :: "request \<Rightarrow> server_config \<Rightarrow> reverse_proxy_target list option result" where
  "reverse_proxy_upstreams_for_request r config =
     (if \<not> cfg_virtual_hosts_enabled config \<or> cfg_virtual_hosts config = [] then Inr None
      else
        r_bind (parse_virtual_host_rules (cfg_virtual_hosts config)) (\<lambda>rules.
          case select_virtual_host_rule r rules of
            None \<Rightarrow> Inr None
          | Some rule \<Rightarrow> if vr_action rule \<noteq> reverse_proxy then Inr None else Inr (Some (vr_upstreams rule))))"

section \<open>Sockets\<close>

text \<open>Results of successive socket calls; when the list ends the next call would block. \<open>send_again\<close> and \<open>recv_again\<close> carry the event
  a TLS connection waits for and stand for \<open>EAGAIN\<close> on a plain socket. \<open>recv_failed\<close> of a TLS connection is \<open>SSL_ERROR_SYSCALL\<close> or
  \<open>SSL_ERROR_SSL\<close>. A call that reports more bytes than it was given does not exist; \<open>min\<close> says so.\<close>

datatype send_io = sent nat | send_again u32 | send_failed

datatype recv_io = received string | recv_closed | recv_again u32 | recv_failed

datatype flush_end = flush_done | flush_blocked u32 | flush_failed

fun flush_buffer :: "send_io list \<Rightarrow> string \<Rightarrow> nat \<Rightarrow> flush_end \<times> nat \<times> send_io list" where
  "flush_buffer ios buffer offset =
     (if offset < length buffer then
        (case ios of
           [] \<Rightarrow> (flush_blocked EPOLLOUT, offset, [])
         | sent n # ios \<Rightarrow>
             if n = 0 then (flush_failed, offset, ios)
             else flush_buffer ios buffer (offset + min n (length buffer - offset))
         | send_again ev # ios \<Rightarrow> (flush_blocked ev, offset, ios)
         | send_failed # ios \<Rightarrow> (flush_failed, offset, ios))
      else (flush_done, offset, ios))"

declare flush_buffer.simps [simp del]

lemma flush_buffer_bounds:
  assumes "flush_buffer ios b o1 = (r, o2, rest)" "o1 \<le> length b"
  shows "o1 \<le> o2 \<and> o2 \<le> length b \<and> (r = flush_done \<longleftrightarrow> o2 = length b)"
  using assms
proof (induction ios b o1 rule: flush_buffer.induct)
  case (1 ios b o1)
  show ?case
  proof (cases "o1 < length b")
    case True
    note u = "1.prems"(1) [unfolded flush_buffer.simps [of ios b o1]]
    show ?thesis
    proof (cases ios)
      case Nil
      with u True show ?thesis by auto
    next
      case (Cons io ios')
      show ?thesis
      proof (cases io)
        case (sent n)
        show ?thesis
        proof (cases "n = 0")
          case False
          with u True Cons sent have "flush_buffer ios' b (o1 + min n (length b - o1)) = (r, o2, rest)" by simp
          with "1.IH" [OF True Cons sent False] True show ?thesis by fastforce
        qed (use u True Cons sent in auto)
      qed (use u True Cons in auto)
    qed
  qed (use "1.prems" flush_buffer.simps [of ios b o1] in auto)
qed

text \<open>A call that returns nothing (\<open>None\<close>) never ends; \<open>Inl\<close> is an exception that leaves the operation, with the state it leaves
  behind.\<close>

type_synonym conn_state = "client_conn \<times> server_globals"
type_synonym 'a run = "((string \<times> conn_state) + 'a) option"

definition run_bind :: "'a run \<Rightarrow> ('a \<Rightarrow> 'b run) \<Rightarrow> 'b run" where
  "run_bind m k = (case m of None \<Rightarrow> None | Some (Inl e) \<Rightarrow> Some (Inl e) | Some (Inr x) \<Rightarrow> k x)"

abbreviation run_return :: "'a \<Rightarrow> 'a run" where
  "run_return x \<equiv> Some (Inr x)"

definition run_lift :: "conn_state \<Rightarrow> 'a result \<Rightarrow> 'a run" where
  "run_lift s r = (case r of Inl e \<Rightarrow> Some (Inl (e, s)) | Inr x \<Rightarrow> Some (Inr x))"

lemma run_lift_simps [simp]: "run_lift s (Inl e) = Some (Inl (e, s))" "run_lift s (Inr x) = run_return x"
  by (simp_all add: run_lift_def)

lemma run_bind_simps [simp]:
  "run_bind None k = None" "run_bind (Some (Inl x)) k = Some (Inl x)" "run_bind (run_return y) k = k y"
  by (simp_all add: run_bind_def)

section \<open>The connection pool\<close>

text \<open>The members of a connection that was just constructed.\<close>

definition new_client :: client_conn where
  "new_client = \<lparr>cc_config = default_server_config, cc_client_ip = [], cc_ssl = False, cc_http2_tls_selected = False,
     cc_phase = ph_closed, cc_events = 0, cc_request_buffer = [], cc_response_buffer = [], cc_response_offset = 0,
     cc_keep_alive_after_response = False, cc_websocket_after_response = False, cc_websocket_proxy_after_response = False,
     cc_websocket_close_after_write = False, wp_client_to_upstream = [], wp_upstream_to_client = [],
     wp_client_to_upstream_offset = 0, wp_upstream_to_client_offset = 0, wp_client_extra_events = 0,
     wp_upstream_extra_events = 0, wp_upstream_tls = False, cc_http2_active = False, cc_http2_session = new_session,
     cc_http1_body_stream = None, cc_requests_served = 0, cc_last_activity = 0, cc_request_started_at = 0,
     cc_body_started_at = 0, cc_waiting_for_body = False, rp_request = None, rp_ordered_upstreams = [],
     rp_settings = default_reverse_proxy_settings, rp_current_upstream = no_target, rp_upstream_request = [],
     rp_upstream_request_offset = 0, rp_response_buffer = [], rp_keep_alive = False, rp_body_mode = body_included,
     rp_stage = stage_idle, rp_attempt_index = 0, rp_skipped_open_circuit = False, rp_attempted_upstream = False,
     rp_extra_events = 0, rp_stage_started_at = 0\<rparr>"

text \<open>The configuration pointer, which is null until \<open>reset\<close> sets it, has no counterpart; nothing reads it in between.\<close>

definition prepare_for_pool :: "client_conn \<Rightarrow> client_conn" where
  "prepare_for_pool c = c\<lparr>wp_upstream_tls := False, rp_extra_events := 0, cc_ssl := False, cc_http2_tls_selected := False,
     cc_phase := ph_closed, cc_events := 0, cc_client_ip := [], cc_request_buffer := [], cc_http1_body_stream := None,
     cc_response_buffer := [], cc_response_offset := 0, cc_keep_alive_after_response := False,
     cc_websocket_after_response := False, cc_websocket_proxy_after_response := False,
     cc_websocket_close_after_write := False, wp_client_to_upstream := [], wp_upstream_to_client := [],
     wp_client_to_upstream_offset := 0, wp_upstream_to_client_offset := 0, wp_client_extra_events := 0,
     wp_upstream_extra_events := 0, rp_request := None, rp_ordered_upstreams := [],
     rp_settings := default_reverse_proxy_settings, rp_current_upstream := no_target, rp_upstream_request := [],
     rp_upstream_request_offset := 0, rp_response_buffer := [], rp_keep_alive := False, rp_body_mode := body_included,
     rp_stage := stage_idle, rp_attempt_index := 0, rp_skipped_open_circuit := False, rp_attempted_upstream := False,
     rp_stage_started_at := 0, cc_http2_active := False, cc_http2_session := session_reset (cc_http2_session c),
     cc_requests_served := 0, cc_last_activity := 0, cc_request_started_at := 0, cc_body_started_at := 0,
     cc_waiting_for_body := False\<rparr>"

definition client_reset :: "server_config \<Rightarrow> string \<Rightarrow> bool \<Rightarrow> int \<Rightarrow> client_conn \<Rightarrow> client_conn" where
  "client_reset config ip tls now c =
     (prepare_for_pool c)\<lparr>cc_config := config, cc_client_ip := ip,
       cc_phase := (if tls then ph_tls_handshake else ph_reading), cc_events := EPOLLIN, cc_last_activity := now,
       cc_request_started_at := 0, cc_body_started_at := 0, cc_waiting_for_body := False, cc_ssl := tls\<rparr>"

lemma session_reset_eq:
  "session_reset s = new_session\<lparr>sv_decoder := new_decoder\<lparr>hd_max_table_size := hd_max_table_size (sv_decoder s)\<rparr>\<rparr>"
  by (cases s, cases "sv_decoder s") (simp add: session_reset_def new_session_def hd_reset_def new_decoder_def)

text \<open>C19: A connection object that is taken out of the pool carries nothing over from its earlier client: it equals
  a new one, whatever state the earlier client left it in, except for the size limit of the HPACK table,
  which \<open>HpackDecoder::reset\<close> keeps.\<close>

theorem pooled_connection_fresh:
  "client_reset config ip tls now c =
     (client_reset config ip tls now new_client)\<lparr>cc_http2_session :=
        new_session\<lparr>sv_decoder := new_decoder\<lparr>hd_max_table_size := hd_max_table_size (sv_decoder (cc_http2_session c))\<rparr>\<rparr>\<rparr>"
  by (cases c) (simp add: client_reset_def prepare_for_pool_def new_client_def session_reset_eq)

end
