(* ===== verification/Client_Proxy.thy ===== *)
theory Client_Proxy
  imports Client_State
begin

text \<open>
  The asynchronous reverse proxy of a client connection (\<open>ClientConnection\<close> in \<open>src/src/core/server.cpp\<close>): the attempts on the
  upstreams of a virtual host, each going through connecting, TLS handshake, writing the request and reading the
  response, driven by the events and the clock of the event loop. What the sockets answer is given per attempt.
\<close>

section \<open>Attempts\<close>

datatype connect_outcome = connect_throws | connect_pending | connect_now

datatype tls_outcome = tls_done bool | tls_want u32 | tls_failed

record upstream_os =
  uo_connect :: connect_outcome
  uo_socket_error :: bool
  uo_tls_setup_throws :: bool
  uo_tls :: tls_outcome
  uo_sends :: "send_io list"
  uo_recvs :: "recv_io list"

record client_env =
  ce_world :: world
  ce_sha1 :: "string \<Rightarrow> bytes option"
  ce_now :: int
  ce_spool_os :: spool_os
  ce_upstream :: "nat \<Rightarrow> upstream_os"
  ce_tls :: tls_outcome
  ce_alpn :: string
  ce_sends :: "send_io list"
  ce_recvs :: "recv_io list"
  ce_tunnel_sends :: "send_io list"
  ce_tunnel_recvs :: "recv_io list"

abbreviation ce_it :: "client_env \<Rightarrow> headers \<Rightarrow> headers" where
  "ce_it e \<equiv> w_headers_order (ce_world e)"

text \<open>What one call of an event handler meets: the time, the answers of the upstream sockets of the attempts, of the client's TLS
  connection and socket, and of the upstream socket of a WebSocket tunnel. The operating system's answers of a proxied
  request belong to the attempt that is under way.\<close>

definition current_os :: "client_env \<Rightarrow> client_conn \<Rightarrow> upstream_os" where
  "current_os e c = ce_upstream e (rp_attempt_index c - 1)"

datatype attempt = attempt_running (attempt_conn: client_conn) | attempt_failed (attempt_conn: client_conn)

definition is_https :: "client_conn \<Rightarrow> bool" where
  "is_https c \<longleftrightarrow> pt_scheme (rp_current_upstream c) = ''https''"

definition flush_reverse_proxy_request :: "client_env \<Rightarrow> client_conn \<Rightarrow> attempt" where
  "flush_reverse_proxy_request e c =
     (case flush_buffer (uo_sends (current_os e c)) (rp_upstream_request c) (rp_upstream_request_offset c) of
        (r, offset, _) \<Rightarrow>
          let c = (if offset > rp_upstream_request_offset c
                   then c\<lparr>rp_upstream_request_offset := offset, cc_last_activity := ce_now e, rp_extra_events := 0\<rparr> else c)
          in (case r of
                flush_done \<Rightarrow> attempt_running (c\<lparr>rp_stage := stage_reading_response, rp_stage_started_at := ce_now e, rp_extra_events := 0\<rparr>)
              | flush_blocked ev \<Rightarrow> attempt_running (if is_https c then c\<lparr>rp_extra_events := ev\<rparr> else c)
              | flush_failed \<Rightarrow> attempt_failed c))"

definition start_writing :: "client_env \<Rightarrow> client_conn \<Rightarrow> attempt" where
  "start_writing e c =
     flush_reverse_proxy_request e (c\<lparr>rp_stage := stage_writing_request, rp_stage_started_at := ce_now e, rp_extra_events := 0\<rparr>)"

definition drive_reverse_proxy_tls_handshake :: "client_env \<Rightarrow> client_conn \<Rightarrow> attempt" where
  "drive_reverse_proxy_tls_handshake e c =
     (case uo_tls (current_os e c) of
        tls_done verified \<Rightarrow>
          if px_verify_tls_upstream (rp_settings c) \<and> \<not> verified then attempt_failed c else start_writing e c
      | tls_want ev \<Rightarrow> attempt_running (c\<lparr>rp_extra_events := ev\<rparr>)
      | tls_failed \<Rightarrow> attempt_failed c)"

definition finish_reverse_proxy_tcp_connect :: "client_env \<Rightarrow> client_conn \<Rightarrow> attempt" where
  "finish_reverse_proxy_tcp_connect e c =
     (if uo_socket_error (current_os e c) then attempt_failed c
      else if is_https c then
        (if uo_tls_setup_throws (current_os e c) then attempt_failed c
         else drive_reverse_proxy_tls_handshake e (c\<lparr>rp_stage := stage_tls_handshake, rp_stage_started_at := ce_now e\<rparr>))
      else start_writing e c)"

definition finish_reverse_proxy_failure_response :: "client_env \<Rightarrow> client_conn \<Rightarrow> client_conn" where
  "finish_reverse_proxy_failure_response e c =
     set_response (ce_it e)
       (if \<not> rp_attempted_upstream c \<and> rp_skipped_open_circuit c then service_unavailable (rp_settings c) else bad_gateway)
       body_included (rp_keep_alive c) (c\<lparr>rp_extra_events := 0\<rparr>)"

text \<open>Working on an attempt changes neither the list of upstreams nor the position in it, nor anything of the client's side.\<close>

definition same_request :: "client_conn \<Rightarrow> client_conn \<Rightarrow> bool" where
  "same_request c c' \<longleftrightarrow> rp_attempt_index c' = rp_attempt_index c \<and> rp_ordered_upstreams c' = rp_ordered_upstreams c \<and>
     cc_phase c' = cc_phase c \<and> rp_keep_alive c' = rp_keep_alive c \<and> rp_settings c' = rp_settings c \<and>
     rp_attempted_upstream c' = rp_attempted_upstream c \<and> rp_skipped_open_circuit c' = rp_skipped_open_circuit c \<and>
     cc_config c' = cc_config c \<and> cc_requests_served c' = cc_requests_served c \<and> cc_request_buffer c' = cc_request_buffer c \<and>
     rp_current_upstream c' = rp_current_upstream c \<and> rp_body_mode c' = rp_body_mode c \<and> rp_request c' = rp_request c \<and>
     cc_http1_body_stream c' = cc_http1_body_stream c \<and> cc_http2_active c' = cc_http2_active c"

lemma same_request_trans: "same_request a b \<Longrightarrow> same_request b c \<Longrightarrow> same_request a c"
  by (simp add: same_request_def)

lemma flush_request_frame: "same_request c (attempt_conn (flush_reverse_proxy_request e c))"
  by (auto simp: flush_reverse_proxy_request_def same_request_def Let_def split: prod.split flush_end.split)

lemma start_writing_frame: "same_request c (attempt_conn (start_writing e c))"
  using flush_request_frame [of "c\<lparr>rp_stage := stage_writing_request, rp_stage_started_at := ce_now e, rp_extra_events := 0\<rparr>" e]
  by (simp add: start_writing_def same_request_def)

lemma tls_handshake_frame: "same_request c (attempt_conn (drive_reverse_proxy_tls_handshake e c))"
  using start_writing_frame [of c e]
  by (auto simp: drive_reverse_proxy_tls_handshake_def same_request_def split: tls_outcome.split)

lemma tcp_connect_frame: "same_request c (attempt_conn (finish_reverse_proxy_tcp_connect e c))"
  using start_writing_frame [of c e]
    tls_handshake_frame [of "c\<lparr>rp_stage := stage_tls_handshake, rp_stage_started_at := ce_now e\<rparr>" e]
  by (auto simp: finish_reverse_proxy_tcp_connect_def same_request_def)

text \<open>One turn of the loop over the upstreams, the calls under \<open>try\<close>: an exception or a failure is a failed attempt.\<close>

definition begin_attempt :: "client_env \<Rightarrow> (string \<Rightarrow> string option) \<Rightarrow> reverse_proxy_target \<Rightarrow> client_conn \<Rightarrow> attempt" where
  "begin_attempt e spool upstream c =
     (let request = (case rp_request c of None \<Rightarrow> new_request | Some r \<Rightarrow> r);
          c = c\<lparr>rp_attempted_upstream := True, rp_extra_events := 0, rp_current_upstream := upstream,
                rp_upstream_request := build_reverse_proxy_upstream_request (ce_it e) spool request upstream,
                rp_upstream_request_offset := 0, rp_response_buffer := []\<rparr>;
          started = c\<lparr>rp_stage := stage_connecting, rp_stage_started_at := ce_now e\<rparr>
      in case uo_connect (current_os e c) of
           connect_throws \<Rightarrow> attempt_failed c
         | connect_pending \<Rightarrow> attempt_running started
         | connect_now \<Rightarrow> finish_reverse_proxy_tcp_connect e started)"

lemma begin_attempt_frame:
  "rp_attempt_index (attempt_conn (begin_attempt e spool u c)) = rp_attempt_index c"
  "rp_ordered_upstreams (attempt_conn (begin_attempt e spool u c)) = rp_ordered_upstreams c"
  using tcp_connect_frame by (simp_all add: begin_attempt_def Let_def same_request_def split: connect_outcome.split)

lemma begin_attempt_failed:
  "begin_attempt e spool u c = attempt_failed c' \<Longrightarrow> rp_attempt_index c' = rp_attempt_index c \<and> rp_ordered_upstreams c' = rp_ordered_upstreams c"
  using begin_attempt_frame [of e spool u c] by simp

text \<open>The loop. A failure after the connection was made re-enters it through \<open>fail_reverse_proxy_attempt\<close>, which is the recursive
  call here.\<close>

function start_next_reverse_proxy_attempt ::
    "client_env \<Rightarrow> (string \<Rightarrow> string option) \<Rightarrow> client_conn \<Rightarrow> circuit_breakers \<Rightarrow> client_conn \<times> circuit_breakers" where
  "start_next_reverse_proxy_attempt e spool c cbs =
     (if cc_phase c = ph_reverse_proxy \<and> rp_attempt_index c < length (rp_ordered_upstreams c) then
        let upstream = rp_ordered_upstreams c ! rp_attempt_index c;
            c = c\<lparr>rp_attempt_index := rp_attempt_index c + 1\<rparr>
        in case reverse_proxy_upstream_available upstream (rp_settings c) (ce_now e) cbs of
             (available, cbs) \<Rightarrow>
               if \<not> available then start_next_reverse_proxy_attempt e spool (c\<lparr>rp_skipped_open_circuit := True\<rparr>) cbs
               else
                 case begin_attempt e spool upstream c of
                   attempt_running c \<Rightarrow> (c, cbs)
                 | attempt_failed c \<Rightarrow>
                     start_next_reverse_proxy_attempt e spool (c\<lparr>rp_extra_events := 0\<rparr>)
                       (record_reverse_proxy_upstream_failure upstream (rp_settings c) (ce_now e) cbs)
      else (finish_reverse_proxy_failure_response e c, cbs))"
  by pat_completeness auto
termination
  by (relation "measure (\<lambda>(e, spool, c, cbs). length (rp_ordered_upstreams c) - rp_attempt_index c)")
    (auto dest!: begin_attempt_failed)

declare start_next_reverse_proxy_attempt.simps [simp del]

definition fail_reverse_proxy_attempt ::
    "client_env \<Rightarrow> (string \<Rightarrow> string option) \<Rightarrow> client_conn \<Rightarrow> circuit_breakers \<Rightarrow> client_conn \<times> circuit_breakers" where
  "fail_reverse_proxy_attempt e spool c cbs =
     (if cc_phase c \<noteq> ph_reverse_proxy then (c, cbs)
      else start_next_reverse_proxy_attempt e spool (c\<lparr>rp_extra_events := 0\<rparr>)
             (record_reverse_proxy_upstream_failure (rp_current_upstream c) (rp_settings c) (ce_now e) cbs))"

definition settle_attempt ::
    "client_env \<Rightarrow> (string \<Rightarrow> string option) \<Rightarrow> attempt \<Rightarrow> circuit_breakers \<Rightarrow> client_conn \<times> circuit_breakers" where
  "settle_attempt e spool a cbs =
     (case a of attempt_running c \<Rightarrow> (c, cbs) | attempt_failed c \<Rightarrow> fail_reverse_proxy_attempt e spool c cbs)"

definition try_start_reverse_proxy ::
    "client_env \<Rightarrow> request \<Rightarrow> bool \<Rightarrow> client_conn \<Rightarrow> server_globals \<Rightarrow> (bool \<times> conn_state) run" where
  "try_start_reverse_proxy e r keep_alive c g =
     (case reverse_proxy_upstreams_for_request r (cc_config c) of
        Inl _ \<Rightarrow> run_return (True, text_error (ce_it e) 500 ''Internal Server Error'' c, g)
      | Inr None \<Rightarrow> run_return (False, c, g)
      | Inr (Some upstreams) \<Rightarrow>
          run_bind (run_lift (c\<lparr>rp_request := Some r\<rparr>, g) (config_proxy_settings (cc_config c))) (\<lambda>settings.
            case ordered_reverse_proxy_upstreams r upstreams settings (g_counter g) of
              (ordered, counter) \<Rightarrow>
                let c = c\<lparr>rp_request := Some r, rp_settings := settings, rp_ordered_upstreams := ordered,
                      rp_keep_alive := keep_alive,
                      rp_body_mode := (if rq_method r = ''HEAD'' then headers_only else body_included),
                      rp_attempt_index := 0, rp_skipped_open_circuit := False, rp_attempted_upstream := False,
                      rp_response_buffer := [], rp_upstream_request := [], rp_upstream_request_offset := 0,
                      rp_stage := stage_idle, rp_stage_started_at := ce_now e, cc_phase := ph_reverse_proxy, cc_events := 0\<rparr>
                in case start_next_reverse_proxy_attempt e (g_spool g) c (g_breakers g) of
                     (c, cbs) \<Rightarrow> run_return (True, c, g\<lparr>g_counter := counter, g_breakers := cbs\<rparr>)))"

section \<open>Reading the response\<close>

datatype read_end = read_waiting client_conn | read_failed client_conn | read_finished client_conn

text \<open>\<open>read_plain_reverse_proxy_response\<close> and \<open>read_tls_reverse_proxy_response\<close>, with \<open>append_reverse_proxy_response\<close>.\<close>

fun read_reverse_proxy_response :: "int \<Rightarrow> recv_io list \<Rightarrow> client_conn \<Rightarrow> read_end" where
  "read_reverse_proxy_response now [] c = read_waiting (c\<lparr>rp_extra_events := (if is_https c then EPOLLIN else 0)\<rparr>)"
| "read_reverse_proxy_response now (received chunk # ios) c =
     (if chunk = [] then read_finished c
      else if length (rp_response_buffer c) + length chunk > px_max_response_bytes (rp_settings c) then read_failed c
      else read_reverse_proxy_response now ios
        (c\<lparr>rp_response_buffer := rp_response_buffer c @ chunk, cc_last_activity := now,
           rp_extra_events := (if is_https c then 0 else rp_extra_events c)\<rparr>))"
| "read_reverse_proxy_response now (recv_closed # ios) c = read_finished c"
| "read_reverse_proxy_response now (recv_again ev # ios) c = read_waiting (c\<lparr>rp_extra_events := (if is_https c then ev else 0)\<rparr>)"
| "read_reverse_proxy_response now (recv_failed # ios) c =
     (if is_https c \<and> rp_response_buffer c \<noteq> [] then read_finished c else read_failed c)"

definition finish_reverse_proxy_response ::
    "client_env \<Rightarrow> (string \<Rightarrow> string option) \<Rightarrow> client_conn \<Rightarrow> circuit_breakers \<Rightarrow> (client_conn \<times> circuit_breakers) option" where
  "finish_reverse_proxy_response e spool c cbs =
     (case parse_reverse_proxy_upstream_response (rp_response_buffer c) of
        None \<Rightarrow> None
      | Some (Inl _) \<Rightarrow> Some (fail_reverse_proxy_attempt e spool (c\<lparr>rp_response_buffer := []\<rparr>) cbs)
      | Some (Inr resp) \<Rightarrow>
          Some (set_response (ce_it e) resp (rp_body_mode c) (rp_keep_alive c) (c\<lparr>rp_response_buffer := [], rp_extra_events := 0\<rparr>),
                record_reverse_proxy_upstream_success (rp_current_upstream c) (rp_settings c) cbs))"

section \<open>Events\<close>

definition reverse_proxy_stage_events :: "client_conn \<Rightarrow> u32" where
  "reverse_proxy_stage_events c =
     (case rp_stage c of
        stage_connecting \<Rightarrow> EPOLLOUT
      | stage_tls_handshake \<Rightarrow> rp_extra_events c
      | stage_writing_request \<Rightarrow> EPOLLOUT OR rp_extra_events c
      | stage_reading_response \<Rightarrow> EPOLLIN OR rp_extra_events c
      | stage_idle \<Rightarrow> 0)"

definition handle_reverse_proxy_upstream ::
    "client_env \<Rightarrow> (string \<Rightarrow> string option) \<Rightarrow> u32 \<Rightarrow> client_conn \<Rightarrow> circuit_breakers \<Rightarrow> (client_conn \<times> circuit_breakers) option" where
  "handle_reverse_proxy_upstream e spool revents c cbs =
     (if revents AND EPOLLERR \<noteq> 0 then Some (fail_reverse_proxy_attempt e spool c cbs)
      else if rp_stage c = stage_connecting \<and> revents AND EPOLLOUT \<noteq> 0 then
        Some (settle_attempt e spool (finish_reverse_proxy_tcp_connect e c) cbs)
      else if rp_stage c = stage_tls_handshake \<and> revents AND (EPOLLIN OR EPOLLOUT) \<noteq> 0 then
        Some (settle_attempt e spool (drive_reverse_proxy_tls_handshake e c) cbs)
      else
        case (if rp_stage c = stage_writing_request \<and> revents AND (EPOLLIN OR EPOLLOUT) \<noteq> 0
              then settle_attempt e spool (flush_reverse_proxy_request e c) cbs else (c, cbs)) of
          (c, cbs) \<Rightarrow>
            if cc_phase c \<noteq> ph_reverse_proxy then Some (c, cbs)
            else if rp_stage c = stage_reading_response \<and> revents AND (EPOLLIN OR EPOLLHUP OR EPOLLRDHUP) \<noteq> 0 then
              (case read_reverse_proxy_response (ce_now e) (uo_recvs (current_os e c)) c of
                 read_waiting c \<Rightarrow> Some (c, cbs)
               | read_failed c \<Rightarrow> Some (fail_reverse_proxy_attempt e spool c cbs)
               | read_finished c \<Rightarrow> finish_reverse_proxy_response e spool c cbs)
            else Some (c, cbs))"

text \<open>The part of \<open>handle_upstream\<close> and of \<open>expire_if_timed_out\<close> that concerns a connection in the phase \<open>reverse_proxy\<close>.\<close>

definition handle_upstream_proxy ::
    "client_env \<Rightarrow> (string \<Rightarrow> string option) \<Rightarrow> u32 \<Rightarrow> client_conn \<Rightarrow> circuit_breakers \<Rightarrow> (client_conn \<times> circuit_breakers) option" where
  "handle_upstream_proxy e spool revents c cbs =
     (if revents AND (EPOLLERR OR EPOLLHUP OR EPOLLRDHUP) \<noteq> 0 \<and> revents AND (EPOLLIN OR EPOLLOUT) = 0
      then Some (close_now c, cbs)
      else handle_reverse_proxy_upstream e spool revents c cbs)"

abbreviation seconds :: "int \<Rightarrow> int" where
  "seconds n \<equiv> n * 1000000000"

definition proxy_timeout :: "client_conn \<Rightarrow> int" where
  "proxy_timeout c =
     (if rp_stage c = stage_reading_response then cfg_reverse_proxy_read_timeout_seconds (cc_config c)
      else cfg_reverse_proxy_connect_timeout_seconds (cc_config c))"

definition expire_reverse_proxy ::
    "client_env \<Rightarrow> (string \<Rightarrow> string option) \<Rightarrow> client_conn \<Rightarrow> circuit_breakers \<Rightarrow> bool \<times> client_conn \<times> circuit_breakers" where
  "expire_reverse_proxy e spool c cbs =
     (if rp_stage_started_at c \<noteq> 0 \<and> ce_now e - rp_stage_started_at c \<ge> seconds (proxy_timeout c)
      then (True, fail_reverse_proxy_attempt e spool c cbs)
      else (False, c, cbs))"

section \<open>A proxied request ends\<close>

text \<open>An attempt that is under way, and what a client is told when none is left.\<close>

definition proxy_running :: "client_conn \<Rightarrow> bool" where
  "proxy_running c \<longleftrightarrow> cc_phase c = ph_reverse_proxy \<and> rp_stage c \<noteq> stage_idle \<and>
     0 < rp_attempt_index c \<and> rp_attempt_index c \<le> length (rp_ordered_upstreams c) \<and>
     rp_current_upstream c = rp_ordered_upstreams c ! (rp_attempt_index c - 1)"

definition same_client :: "client_conn \<Rightarrow> client_conn \<Rightarrow> bool" where
  "same_client c c' \<longleftrightarrow> rp_ordered_upstreams c' = rp_ordered_upstreams c \<and> rp_keep_alive c' = rp_keep_alive c \<and>
     rp_settings c' = rp_settings c \<and> cc_config c' = cc_config c \<and> cc_requests_served c' = cc_requests_served c \<and>
     rp_body_mode c' = rp_body_mode c \<and> rp_request c' = rp_request c \<and> cc_request_buffer c' = cc_request_buffer c \<and>
     cc_http1_body_stream c' = cc_http1_body_stream c \<and> cc_http2_active c' = cc_http2_active c"

definition answered_with :: "client_env \<Rightarrow> response \<Rightarrow> body_mode \<Rightarrow> client_conn \<Rightarrow> bool" where
  "answered_with e resp mode c \<longleftrightarrow> cc_phase c = ph_writing \<and> cc_response_offset c = 0 \<and>
     cc_keep_alive_after_response c = rp_keep_alive c \<and>
     cc_response_buffer c = response_text (ce_it e) (cc_config c) (cc_requests_served c) resp mode (rp_keep_alive c)"

definition gave_up :: "client_env \<Rightarrow> client_conn \<Rightarrow> bool" where
  "gave_up e c \<longleftrightarrow>
     answered_with e (if \<not> rp_attempted_upstream c \<and> rp_skipped_open_circuit c then service_unavailable (rp_settings c) else bad_gateway)
       body_included c"

fun stage_rank :: "reverse_proxy_stage \<Rightarrow> nat" where
  "stage_rank stage_idle = 3"
| "stage_rank stage_connecting = 3"
| "stage_rank stage_tls_handshake = 2"
| "stage_rank stage_writing_request = 1"
| "stage_rank stage_reading_response = 0"

text \<open>The stages a proxied request may still go through.\<close>

definition proxy_measure :: "client_conn \<Rightarrow> nat" where
  "proxy_measure c = 4 * (length (rp_ordered_upstreams c) - rp_attempt_index c) + stage_rank (rp_stage c)"

lemma stage_rank_le: "stage_rank g \<le> 3"
  by (cases g) simp_all

lemma same_client_refl [simp]: "same_client c c"
  by (simp add: same_client_def)

lemma same_client_trans: "same_client a b \<Longrightarrow> same_client b c \<Longrightarrow> same_client a c"
  by (simp add: same_client_def)

lemma same_request_client: "same_request c c' \<Longrightarrow> same_client c c'"
  by (simp add: same_request_def same_client_def)

lemma gave_up_finish: "gave_up e (finish_reverse_proxy_failure_response e c)" "same_client c (finish_reverse_proxy_failure_response e c)"
  by (simp_all add: gave_up_def answered_with_def finish_reverse_proxy_failure_response_def set_response_def
    set_serialized_response_def same_client_def)

text \<open>Progress within an attempt: a stage that does not change keeps the time at which it began.\<close>

definition advances :: "int \<Rightarrow> client_conn \<Rightarrow> client_conn \<Rightarrow> bool" where
  "advances now c c' \<longleftrightarrow> rp_stage c' \<noteq> stage_idle \<and>
     (stage_rank (rp_stage c') < stage_rank (rp_stage c) \<and> rp_stage_started_at c' = now \<or>
      rp_stage c' = rp_stage c \<and> rp_stage_started_at c' = rp_stage_started_at c)"

lemma flush_request_advances:
  assumes "rp_stage c = stage_writing_request" "flush_reverse_proxy_request e c = attempt_running c'"
  shows "advances (ce_now e) c c'"
  using assms by (auto simp: flush_reverse_proxy_request_def advances_def Let_def split: prod.splits flush_end.splits if_splits)

lemma start_writing_running:
  assumes "start_writing e c = attempt_running c'"
  shows "rp_stage c' \<in> {stage_writing_request, stage_reading_response} \<and> rp_stage_started_at c' = ce_now e"
  using assms unfolding start_writing_def
  by (auto simp: flush_reverse_proxy_request_def Let_def split: prod.splits flush_end.splits if_splits)

lemma tls_handshake_advances:
  assumes "rp_stage c = stage_tls_handshake" "drive_reverse_proxy_tls_handshake e c = attempt_running c'"
  shows "advances (ce_now e) c c'"
  using assms start_writing_running [of e c c']
  by (auto simp: drive_reverse_proxy_tls_handshake_def advances_def split: tls_outcome.splits if_splits)

lemma tcp_connect_advances:
  assumes "rp_stage c = stage_connecting" "finish_reverse_proxy_tcp_connect e c = attempt_running c'"
  shows "advances (ce_now e) c c'"
proof (cases "is_https c")
  case True
  let ?c = "c\<lparr>rp_stage := stage_tls_handshake, rp_stage_started_at := ce_now e\<rparr>"
  have "advances (ce_now e) ?c c'"
    using assms True by (intro tls_handshake_advances) (auto simp: finish_reverse_proxy_tcp_connect_def split: if_splits)
  then show ?thesis using assms(1) by (auto simp: advances_def)
next
  case False
  with assms start_writing_running [of e c c'] show ?thesis
    by (auto simp: finish_reverse_proxy_tcp_connect_def advances_def split: if_splits)
qed

lemma begin_attempt_cases:
  assumes "cc_phase c = ph_reverse_proxy" "0 < rp_attempt_index c" "rp_attempt_index c \<le> length (rp_ordered_upstreams c)"
    and "u = rp_ordered_upstreams c ! (rp_attempt_index c - 1)"
  shows "same_client c (attempt_conn (begin_attempt e spool u c)) \<and> cc_phase (attempt_conn (begin_attempt e spool u c)) = ph_reverse_proxy \<and>
    (\<forall>c'. begin_attempt e spool u c = attempt_running c' \<longrightarrow> proxy_running c' \<and> rp_stage_started_at c' = ce_now e)"
proof -
  define started where "started = c\<lparr>rp_attempted_upstream := True, rp_extra_events := 0, rp_current_upstream := u,
      rp_upstream_request := build_reverse_proxy_upstream_request (ce_it e) spool
        (case rp_request c of None \<Rightarrow> new_request | Some r \<Rightarrow> r) u,
      rp_upstream_request_offset := 0, rp_response_buffer := [], rp_stage := stage_connecting, rp_stage_started_at := ce_now e\<rparr>"
  have s: "rp_stage started = stage_connecting" "rp_stage_started_at started = ce_now e" "proxy_running started" "same_client c started"
    using assms by (simp_all add: started_def proxy_running_def same_client_def)
  have f: "same_request started (attempt_conn (finish_reverse_proxy_tcp_connect e started))" by (rule tcp_connect_frame)
  have "proxy_running c' \<and> rp_stage_started_at c' = ce_now e" if "finish_reverse_proxy_tcp_connect e started = attempt_running c'" for c'
    using tcp_connect_advances [OF s(1) that] f s that by (auto simp: advances_def same_request_def proxy_running_def)
  then show ?thesis
    using assms(1) s(2-4) same_client_trans [OF s(4) same_request_client [OF f]] f
    by (auto simp: begin_attempt_def Let_def started_def [symmetric] same_request_def same_client_def proxy_running_def
      split: connect_outcome.split)
qed

lemma start_next_cases:
  assumes "start_next_reverse_proxy_attempt e spool c cbs = (c', cbs')" "cc_phase c = ph_reverse_proxy"
  shows "same_client c c' \<and>
    (proxy_running c' \<and> rp_attempt_index c < rp_attempt_index c' \<and> rp_stage_started_at c' = ce_now e \<or> gave_up e c')"
  using assms
proof (induction e spool c cbs arbitrary: c' cbs' rule: start_next_reverse_proxy_attempt.induct)
  case (1 e spool c cbs)
  note IH = "1.IH" and prems = "1.prems"
  show ?case
  proof (cases "rp_attempt_index c < length (rp_ordered_upstreams c)")
    case False
    then show ?thesis
      using prems gave_up_finish by (auto simp: start_next_reverse_proxy_attempt.simps [of e spool c cbs])
  next
    case True
    define u where "u = rp_ordered_upstreams c ! rp_attempt_index c"
    define c1 where "c1 = c\<lparr>rp_attempt_index := rp_attempt_index c + 1\<rparr>"
    obtain ok cbs1 where avail: "(ok, cbs1) = reverse_proxy_upstream_available u (rp_settings c1) (ce_now e) cbs" by (metis surj_pair)
    have g: "cc_phase c = ph_reverse_proxy \<and> rp_attempt_index c < length (rp_ordered_upstreams c)" using True prems(2) by simp
    have c1: "same_client c c1" "cc_phase c1 = ph_reverse_proxy" "rp_attempt_index c1 = Suc (rp_attempt_index c)"
      using g by (simp_all add: c1_def same_client_def)
    have eq: "start_next_reverse_proxy_attempt e spool c cbs =
      (if \<not> ok then start_next_reverse_proxy_attempt e spool (c1\<lparr>rp_skipped_open_circuit := True\<rparr>) cbs1
       else case begin_attempt e spool u c1 of
              attempt_running c \<Rightarrow> (c, cbs1)
            | attempt_failed c \<Rightarrow> start_next_reverse_proxy_attempt e spool (c\<lparr>rp_extra_events := 0\<rparr>)
                (record_reverse_proxy_upstream_failure u (rp_settings c) (ce_now e) cbs1))"
      using g avail [symmetric]
      by (subst start_next_reverse_proxy_attempt.simps) (simp add: u_def c1_def Let_def split: attempt.split)
    note B = begin_attempt_cases [OF c1(2), of u e spool]
    have B: "same_client c1 (attempt_conn (begin_attempt e spool u c1))"
      "cc_phase (attempt_conn (begin_attempt e spool u c1)) = ph_reverse_proxy"
      "begin_attempt e spool u c1 = attempt_running c2 \<Longrightarrow> proxy_running c2 \<and> rp_stage_started_at c2 = ce_now e" for c2
      using B g by (auto simp: c1_def u_def)
    show ?thesis
    proof (cases ok)
      case False
      have "start_next_reverse_proxy_attempt e spool (c1\<lparr>rp_skipped_open_circuit := True\<rparr>) cbs1 = (c', cbs')"
        using prems(1) False unfolding eq by simp
      from IH(1) [OF g u_def c1_def avail False this] c1 show ?thesis by (auto simp: same_client_def)
    next
      case True
      show ?thesis
      proof (cases "begin_attempt e spool u c1")
        case (attempt_running c2)
        then have "c2 = c'" using prems(1) True unfolding eq by simp
        with attempt_running B begin_attempt_frame [of e spool u c1] c1 show ?thesis by (auto simp: same_client_def)
      next
        case (attempt_failed c2)
        have "start_next_reverse_proxy_attempt e spool (c2\<lparr>rp_extra_events := 0\<rparr>)
            (record_reverse_proxy_upstream_failure u (rp_settings c2) (ce_now e) cbs1) = (c', cbs')"
          using prems(1) True attempt_failed unfolding eq by simp
        from IH(2) [OF g u_def c1_def avail _ attempt_failed this] True attempt_failed B(1, 2) begin_attempt_frame [of e spool u c1] c1
        show ?thesis by (auto simp: same_client_def)
      qed
    qed
  qed
qed

text \<open>What one event can do to an attempt: give up, move on to another upstream, or stay with it.\<close>

definition proxy_progress :: "client_env \<Rightarrow> client_conn \<Rightarrow> client_conn \<Rightarrow> bool" where
  "proxy_progress e c c' \<longleftrightarrow> same_client c c' \<and>
     (gave_up e c' \<or>
      proxy_running c' \<and>
        (rp_attempt_index c < rp_attempt_index c' \<and> rp_stage_started_at c' = ce_now e \<or>
         rp_attempt_index c' = rp_attempt_index c \<and> advances (ce_now e) c c'))"

definition relayed :: "client_env \<Rightarrow> client_conn \<Rightarrow> client_conn \<Rightarrow> bool" where
  "relayed e c c' \<longleftrightarrow> same_client c c' \<and>
     (\<exists>bytes resp. parse_reverse_proxy_upstream_response bytes = Some (Inr resp) \<and> answered_with e resp (rp_body_mode c) c')"

lemma running_not_gave_up: "gave_up e c \<Longrightarrow> \<not> proxy_running c"
  by (simp add: gave_up_def answered_with_def proxy_running_def)

lemma proxy_progress_refl: "proxy_running c \<Longrightarrow> proxy_progress e c c"
  by (simp add: proxy_progress_def advances_def proxy_running_def)

lemma proxy_progress_trans:
  assumes "proxy_progress e a b" "proxy_running b" "proxy_progress e b c"
  shows "proxy_progress e a c"
  using assms running_not_gave_up [of e b] same_client_trans [of a b c]
  by (auto simp: proxy_progress_def advances_def)

lemma relayed_trans: "proxy_progress e a b \<Longrightarrow> relayed e b c \<Longrightarrow> relayed e a c"
  by (auto simp: proxy_progress_def relayed_def same_client_def)

lemma fail_attempt_progress:
  assumes "fail_reverse_proxy_attempt e spool c cbs = (c', cbs')" "cc_phase c = ph_reverse_proxy" "same_request a c"
  shows "proxy_progress e a c'"
proof -
  have "start_next_reverse_proxy_attempt e spool (c\<lparr>rp_extra_events := 0\<rparr>)
      (record_reverse_proxy_upstream_failure (rp_current_upstream c) (rp_settings c) (ce_now e) cbs) = (c', cbs')"
    using assms by (simp add: fail_reverse_proxy_attempt_def)
  from start_next_cases [OF this] assms(2, 3) show ?thesis
    by (auto simp: proxy_progress_def same_client_def same_request_def)
qed

text \<open>A failed attempt always uses up its upstream.\<close>

lemma fail_attempt_measure:
  assumes "fail_reverse_proxy_attempt e spool c cbs = (c', cbs')" "proxy_running c"
  shows "gave_up e c' \<or> proxy_running c' \<and> proxy_measure c' < proxy_measure c"
proof -
  have "start_next_reverse_proxy_attempt e spool (c\<lparr>rp_extra_events := 0\<rparr>)
      (record_reverse_proxy_upstream_failure (rp_current_upstream c) (rp_settings c) (ce_now e) cbs) = (c', cbs')"
    using assms by (simp add: fail_reverse_proxy_attempt_def proxy_running_def)
  from start_next_cases [OF this] assms(2) stage_rank_le [of "rp_stage c'"] show ?thesis
    by (auto simp: proxy_running_def same_client_def proxy_measure_def)
qed

lemma settle_attempt_progress:
  assumes "settle_attempt e spool a cbs = (c', cbs')" "proxy_running c" "same_request c (attempt_conn a)"
    and "\<And>c2. a = attempt_running c2 \<Longrightarrow> advances (ce_now e) c c2"
  shows "proxy_progress e c c'"
proof (cases a)
  case (attempt_running c2)
  with assms same_request_client [OF assms(3)] show ?thesis
    by (auto simp: settle_attempt_def proxy_progress_def proxy_running_def same_request_def advances_def)
next
  case (attempt_failed c2)
  with assms show ?thesis
    by (intro fail_attempt_progress [of e spool c2 cbs]) (auto simp: settle_attempt_def proxy_running_def same_request_def)
qed

fun read_conn :: "read_end \<Rightarrow> client_conn" where
  "read_conn (read_waiting c) = c"
| "read_conn (read_failed c) = c"
| "read_conn (read_finished c) = c"

lemma read_response_frame:
  "same_request c (read_conn (read_reverse_proxy_response now ios c)) \<and>
   rp_stage (read_conn (read_reverse_proxy_response now ios c)) = rp_stage c \<and>
   rp_stage_started_at (read_conn (read_reverse_proxy_response now ios c)) = rp_stage_started_at c"
  by (induction now ios c rule: read_reverse_proxy_response.induct) (auto simp: same_request_def)

lemma finish_response_cases:
  assumes "finish_reverse_proxy_response e spool c cbs = Some (c', cbs')" "cc_phase c = ph_reverse_proxy" "same_request a c"
  shows "proxy_progress e a c' \<or> relayed e a c'"
proof (cases "parse_reverse_proxy_upstream_response (rp_response_buffer c)")
  case (Some p)
  show ?thesis
  proof (cases p)
    case (Inl m)
    have "same_request a (c\<lparr>rp_response_buffer := []\<rparr>)" using assms(3) by (simp add: same_request_def)
    with assms Some Inl show ?thesis
      by (intro disjI1 fail_attempt_progress [of e spool "c\<lparr>rp_response_buffer := []\<rparr>" cbs]) (simp_all add: finish_reverse_proxy_response_def)
  next
    case (Inr resp)
    with assms Some have "same_client a c' \<and> answered_with e resp (rp_body_mode a) c'"
      by (auto simp: finish_reverse_proxy_response_def answered_with_def set_response_def set_serialized_response_def
        same_client_def same_request_def)
    with Some Inr show ?thesis by (auto simp: relayed_def)
  qed
qed (use assms in \<open>simp add: finish_reverse_proxy_response_def\<close>)

lemma read_step_cases:
  assumes "(case read_reverse_proxy_response (ce_now e) ios c of
              read_waiting c \<Rightarrow> Some (c, cbs)
            | read_failed c \<Rightarrow> Some (fail_reverse_proxy_attempt e spool c cbs)
            | read_finished c \<Rightarrow> finish_reverse_proxy_response e spool c cbs) = Some (c', cbs')" "proxy_running c"
  shows "proxy_progress e c c' \<or> relayed e c c'"
proof -
  obtain r where r: "read_reverse_proxy_response (ce_now e) ios c = r" by simp
  have f: "same_request c (read_conn r)" "rp_stage (read_conn r) = rp_stage c" "rp_stage_started_at (read_conn r) = rp_stage_started_at c"
    using read_response_frame [of c "ce_now e" ios] r by simp_all
  show ?thesis
  proof (cases r)
    case (read_waiting c2)
    with assms f r same_request_client [of c c2] show ?thesis
      by (auto simp: proxy_progress_def proxy_running_def same_request_def advances_def)
  next
    case (read_failed c2)
    with assms f r show ?thesis
      by (intro disjI1 fail_attempt_progress [of e spool c2 cbs]) (auto simp: proxy_running_def same_request_def)
  next
    case (read_finished c2)
    with assms f r show ?thesis
      by (intro finish_response_cases [of e spool c2 cbs]) (auto simp: proxy_running_def same_request_def)
  qed
qed

lemma handle_proxy_cases:
  assumes "handle_reverse_proxy_upstream e spool revents c cbs = Some (c', cbs')" "proxy_running c"
  shows "proxy_progress e c c' \<or> relayed e c c'"
proof -
  have phase: "cc_phase c = ph_reverse_proxy" using assms(2) by (simp add: proxy_running_def)
  have refl: "same_request c c" by (simp add: same_request_def)
  note H = assms(1) [unfolded handle_reverse_proxy_upstream_def]
  consider (err) "revents AND EPOLLERR \<noteq> 0"
    | (conn) "revents AND EPOLLERR = 0" "rp_stage c = stage_connecting \<and> revents AND EPOLLOUT \<noteq> 0"
    | (tls) "revents AND EPOLLERR = 0" "rp_stage c = stage_tls_handshake \<and> revents AND (EPOLLIN OR EPOLLOUT) \<noteq> 0"
    | (rest) "revents AND EPOLLERR = 0" "\<not> (rp_stage c = stage_connecting \<and> revents AND EPOLLOUT \<noteq> 0)"
        "\<not> (rp_stage c = stage_tls_handshake \<and> revents AND (EPOLLIN OR EPOLLOUT) \<noteq> 0)"
    by blast
  then show ?thesis
  proof cases
    case err
    with H have "fail_reverse_proxy_attempt e spool c cbs = (c', cbs')" by simp
    with fail_attempt_progress phase refl show ?thesis by blast
  next
    case conn
    with H have "settle_attempt e spool (finish_reverse_proxy_tcp_connect e c) cbs = (c', cbs')" by simp
    with settle_attempt_progress assms(2) tcp_connect_frame tcp_connect_advances conn(2) show ?thesis by blast
  next
    case tls
    with H have "settle_attempt e spool (drive_reverse_proxy_tls_handshake e c) cbs = (c', cbs')" by simp
    with settle_attempt_progress assms(2) tls_handshake_frame tls_handshake_advances tls(2) show ?thesis by blast
  next
    case rest
    let ?w = "rp_stage c = stage_writing_request \<and> revents AND (EPOLLIN OR EPOLLOUT) \<noteq> 0"
    obtain c1 cbs1 where c1: "(if ?w then settle_attempt e spool (flush_reverse_proxy_request e c) cbs else (c, cbs)) = (c1, cbs1)"
      by fastforce
    have p1: "proxy_progress e c c1"
    proof (cases ?w)
      case True
      with c1 settle_attempt_progress assms(2) flush_request_frame flush_request_advances show ?thesis by (metis (no_types, lifting))
    qed (use c1 assms(2) proxy_progress_refl in auto)
    show ?thesis
    proof (cases "cc_phase c1 = ph_reverse_proxy")
      case False
      with H rest c1 p1 show ?thesis by auto
    next
      case True
      with p1 have run: "proxy_running c1" by (auto simp: proxy_progress_def gave_up_def answered_with_def)
      have "c' = c1 \<or> (case read_reverse_proxy_response (ce_now e) (uo_recvs (current_os e c1)) c1 of
              read_waiting c \<Rightarrow> Some (c, cbs1)
            | read_failed c \<Rightarrow> Some (fail_reverse_proxy_attempt e spool c cbs1)
            | read_finished c \<Rightarrow> finish_reverse_proxy_response e spool c cbs1) = Some (c', cbs')"
        using H rest c1 True by (simp split: if_splits)
      then show ?thesis
      proof
        assume "(case read_reverse_proxy_response (ce_now e) (uo_recvs (current_os e c1)) c1 of
              read_waiting c \<Rightarrow> Some (c, cbs1)
            | read_failed c \<Rightarrow> Some (fail_reverse_proxy_attempt e spool c cbs1)
            | read_finished c \<Rightarrow> finish_reverse_proxy_response e spool c cbs1) = Some (c', cbs')"
        from read_step_cases [OF this run] p1 run show ?thesis by (blast intro: proxy_progress_trans relayed_trans)
      qed (use p1 in simp)
    qed
  qed
qed

section \<open>Time\<close>

datatype proxy_event = upstream_event client_env u32 | clock_tick client_env

fun event_time :: "proxy_event \<Rightarrow> int" where
  "event_time (upstream_event e revents) = ce_now e"
| "event_time (clock_tick e) = ce_now e"

text \<open>The event loop hands events of the upstream's descriptor and its clock ticks to the connection; only a connection in the phase
  \<open>reverse_proxy\<close> reacts as described here.\<close>

fun proxy_step :: "(string \<Rightarrow> string option) \<Rightarrow> proxy_event \<Rightarrow> client_conn \<times> circuit_breakers \<Rightarrow> (client_conn \<times> circuit_breakers) option" where
  "proxy_step spool (upstream_event e revents) (c, cbs) =
     (if cc_phase c \<noteq> ph_reverse_proxy then Some (c, cbs) else handle_upstream_proxy e spool revents c cbs)"
| "proxy_step spool (clock_tick e) (c, cbs) =
     (if cc_phase c \<noteq> ph_reverse_proxy then Some (c, cbs) else Some (snd (expire_reverse_proxy e spool c cbs)))"

fun proxy_run :: "(string \<Rightarrow> string option) \<Rightarrow> proxy_event list \<Rightarrow> client_conn \<times> circuit_breakers \<Rightarrow> (client_conn \<times> circuit_breakers) option" where
  "proxy_run spool [] s = Some s"
| "proxy_run spool (ev # evs) s = Option.bind (proxy_step spool ev s) (proxy_run spool evs)"

definition proxy_ended :: "client_conn \<Rightarrow> bool" where
  "proxy_ended c \<longleftrightarrow> cc_phase c = ph_closed \<or> (\<exists>e. gave_up e c) \<or>
     (\<exists>e bytes resp. parse_reverse_proxy_upstream_response bytes = Some (Inr resp) \<and> answered_with e resp (rp_body_mode c) c)"

definition proxy_limit :: "client_conn \<Rightarrow> int" where
  "proxy_limit c = seconds (max (cfg_reverse_proxy_connect_timeout_seconds (cc_config c)) (cfg_reverse_proxy_read_timeout_seconds (cc_config c)))"

lemma proxy_ended_phase: "proxy_ended c \<Longrightarrow> cc_phase c \<in> {ph_closed, ph_writing}"
  by (auto simp: proxy_ended_def gave_up_def answered_with_def)

lemma proxy_run_ended: "proxy_ended c \<Longrightarrow> proxy_run spool evs (c, cbs) = Some (c, cbs)"
proof (induction evs)
  case (Cons ev evs)
  then show ?case using proxy_ended_phase [of c] by (cases ev) auto
qed simp

text \<open>How an event moves a running attempt.\<close>

definition moves :: "int \<Rightarrow> client_conn \<Rightarrow> client_conn \<Rightarrow> bool" where
  "moves now c c' \<longleftrightarrow> proxy_running c' \<and> same_client c c' \<and>
     (proxy_measure c' < proxy_measure c \<and> rp_stage_started_at c' = now \<or>
      proxy_measure c' = proxy_measure c \<and> rp_stage c' = rp_stage c \<and> rp_stage_started_at c' = rp_stage_started_at c)"

lemma progress_moves:
  assumes "proxy_progress e c c'" "proxy_running c"
  shows "proxy_ended c' \<or> moves (ce_now e) c c'"
proof -
  have "moves (ce_now e) c c'" if run: "proxy_running c'"
  proof -
    have same: "same_client c c'" and len: "rp_attempt_index c' \<le> length (rp_ordered_upstreams c')"
      using assms(1) run by (simp_all add: proxy_progress_def proxy_running_def)
    have ups: "rp_ordered_upstreams c' = rp_ordered_upstreams c" using same by (simp add: same_client_def)
    consider (other) "rp_attempt_index c < rp_attempt_index c'" "rp_stage_started_at c' = ce_now e"
      | (stay) "rp_attempt_index c' = rp_attempt_index c" "advances (ce_now e) c c'"
      using assms(1) running_not_gave_up run by (auto simp: proxy_progress_def)
    then show ?thesis
    proof cases
      case other
      then have "proxy_measure c' < proxy_measure c"
        using len ups stage_rank_le [of "rp_stage c'"] by (simp add: proxy_measure_def)
      with other run same show ?thesis by (simp add: moves_def)
    next
      case stay
      with run same ups show ?thesis by (auto simp: moves_def proxy_measure_def advances_def)
    qed
  qed
  then show ?thesis using assms(1) by (auto simp: proxy_progress_def proxy_ended_def)
qed

lemma proxy_step_moves:
  assumes "proxy_step spool ev (c, cbs) = Some (c', cbs')" "proxy_running c"
  shows "proxy_ended c' \<or> moves (event_time ev) c c'"
proof (cases ev)
  case (upstream_event e revents)
  have "proxy_ended (close_now c)" by (simp add: proxy_ended_def close_now_def)
  moreover have "proxy_progress e c c' \<or> relayed e c c'" if "handle_reverse_proxy_upstream e spool revents c cbs = Some (c', cbs')"
    using handle_proxy_cases [OF that assms(2)] .
  moreover have "relayed e c c' \<Longrightarrow> proxy_ended c'" by (auto simp: relayed_def proxy_ended_def same_client_def)
  ultimately show ?thesis
    using assms upstream_event progress_moves [of e c c']
    by (auto simp: handle_upstream_proxy_def proxy_running_def split: if_splits)
next
  case (clock_tick e)
  obtain b c2 cbs2 where x: "expire_reverse_proxy e spool c cbs = (b, c2, cbs2)" by (metis prod_cases3)
  have "proxy_progress e c c2"
  proof (cases b)
    case True
    with x have "fail_reverse_proxy_attempt e spool c cbs = (c2, cbs2)" by (auto simp: expire_reverse_proxy_def split: if_splits)
    with assms(2) show ?thesis by (intro fail_attempt_progress) (auto simp: proxy_running_def same_request_def)
  next
    case False
    with x assms(2) proxy_progress_refl show ?thesis by (auto simp: expire_reverse_proxy_def split: if_splits)
  qed
  with assms clock_tick x progress_moves [of e c c2] show ?thesis by (auto simp: proxy_running_def)
qed

lemma proxy_step_None: "proxy_step spool ev (c, cbs) = None \<Longrightarrow> \<exists>bytes. parse_reverse_proxy_upstream_response bytes = None"
  by (cases ev) (auto simp: handle_upstream_proxy_def handle_reverse_proxy_upstream_def finish_reverse_proxy_response_def
    split: if_splits prod.splits read_end.splits option.splits sum.splits)

lemma proxy_run_None: "proxy_run spool evs s = None \<Longrightarrow> \<exists>bytes. parse_reverse_proxy_upstream_response bytes = None"
proof (induction evs arbitrary: s)
  case (Cons ev evs)
  then show ?case using proxy_step_None [of spool ev "fst s" "snd s"] by (cases "proxy_step spool ev s") auto
qed simp

lemma proxy_run_append: "proxy_run spool (as @ bs) s = Option.bind (proxy_run spool as s) (proxy_run spool bs)"
  by (induction as arbitrary: s) (auto simp: Option.bind_eq_Some_conv split: bind_splits)

text \<open>Rounds: arbitrary events and then a clock tick at least \<open>limit\<close> after the end of the round before.\<close>

fun rounds :: "int \<Rightarrow> int \<Rightarrow> (proxy_event list \<times> client_env) list \<Rightarrow> bool" where
  "rounds limit t [] \<longleftrightarrow> True"
| "rounds limit t ((evs, e) # rs) \<longleftrightarrow> t \<le> ce_now e \<and> t + limit \<le> ce_now e \<and>
     list_all (\<lambda>ev. t \<le> event_time ev \<and> event_time ev \<le> ce_now e) evs \<and> rounds limit (ce_now e) rs"

definition round_events :: "(proxy_event list \<times> client_env) list \<Rightarrow> proxy_event list" where
  "round_events rs = concat (map (\<lambda>(evs, e). evs @ [clock_tick e]) rs)"

lemma proxy_run_moves:
  assumes "proxy_run spool evs (c, cbs) = Some (c', cbs')" "proxy_running c" "0 < t"
    and "list_all (\<lambda>ev. t \<le> event_time ev \<and> event_time ev \<le> t2) evs"
  shows "proxy_ended c' \<or> proxy_running c' \<and> same_client c c' \<and>
    (proxy_measure c' < proxy_measure c \<and> 0 < rp_stage_started_at c' \<and> rp_stage_started_at c' \<le> t2 \<or>
     proxy_measure c' = proxy_measure c \<and> rp_stage c' = rp_stage c \<and> rp_stage_started_at c' = rp_stage_started_at c)"
  using assms
proof (induction evs arbitrary: c cbs)
  case (Cons ev evs)
  obtain c1 cbs1 where c1: "proxy_step spool ev (c, cbs) = Some (c1, cbs1)" "proxy_run spool evs (c1, cbs1) = Some (c', cbs')"
    using Cons.prems(1) by (auto simp: Option.bind_eq_Some_conv)
  show ?case
  proof (cases "proxy_ended c1")
    case True
    then show ?thesis using proxy_run_ended c1(2) by simp
  next
    case False
    then have m: "moves (event_time ev) c c1" using proxy_step_moves [OF c1(1) Cons.prems(2)] by simp
    then have "proxy_running c1" "same_client c c1" by (simp_all add: moves_def)
    with Cons.IH [OF c1(2)] Cons.prems(3, 4) m show ?thesis by (auto simp: moves_def same_client_def)
  qed
qed simp

text \<open>A stage that a whole round did not change has timed out at its end.\<close>

lemma round_decreases:
  assumes "proxy_run spool (evs @ [clock_tick e]) (c, cbs) = Some (c', cbs')" "proxy_running c" "0 < t"
    and "0 < rp_stage_started_at c" "rp_stage_started_at c \<le> t" "t \<le> ce_now e" "t + proxy_limit c \<le> ce_now e"
    and "list_all (\<lambda>ev. t \<le> event_time ev \<and> event_time ev \<le> ce_now e) evs"
  shows "proxy_ended c' \<or> proxy_running c' \<and> same_client c c' \<and> proxy_measure c' < proxy_measure c \<and>
    0 < rp_stage_started_at c' \<and> rp_stage_started_at c' \<le> ce_now e"
proof -
  obtain c1 cbs1 where c1: "proxy_run spool evs (c, cbs) = Some (c1, cbs1)" "proxy_step spool (clock_tick e) (c1, cbs1) = Some (c', cbs')"
    using assms(1) by (auto simp: proxy_run_append Option.bind_eq_Some_conv)
  show ?thesis
  proof (cases "proxy_ended c1")
    case True
    then show ?thesis using proxy_run_ended [of c1 spool "[clock_tick e]" cbs1] c1(2) by simp
  next
    case False
    then have run: "proxy_running c1" "same_client c c1" and alt: "proxy_measure c1 < proxy_measure c \<and>
        0 < rp_stage_started_at c1 \<and> rp_stage_started_at c1 \<le> ce_now e \<or>
      proxy_measure c1 = proxy_measure c \<and> rp_stage c1 = rp_stage c \<and> rp_stage_started_at c1 = rp_stage_started_at c"
      using proxy_run_moves [OF c1(1) assms(2, 3, 8)] by blast+
    have m: "proxy_ended c' \<or> moves (ce_now e) c1 c'" using proxy_step_moves [OF c1(2) run(1)] by simp
    from alt show ?thesis
    proof
      assume "proxy_measure c1 < proxy_measure c \<and> 0 < rp_stage_started_at c1 \<and> rp_stage_started_at c1 \<le> ce_now e"
      with m run(2) assms(3, 6) show ?thesis by (auto simp: moves_def same_client_def)
    next
      assume eq: "proxy_measure c1 = proxy_measure c \<and> rp_stage c1 = rp_stage c \<and> rp_stage_started_at c1 = rp_stage_started_at c"
      have "seconds (proxy_timeout c1) \<le> proxy_limit c"
        using run(2) by (simp add: proxy_timeout_def proxy_limit_def same_client_def)
      then have "fail_reverse_proxy_attempt e spool c1 cbs1 = (c', cbs')"
        using c1(2) run(1) eq assms(4, 5, 7) by (auto simp: expire_reverse_proxy_def proxy_running_def split: if_splits)
      from fail_attempt_measure [OF this run(1)] have "proxy_ended c' \<or> proxy_measure c' < proxy_measure c1"
        by (auto simp: proxy_ended_def)
      with m eq run(2) assms(3, 6) show ?thesis by (auto simp: moves_def same_client_def)
    qed
  qed
qed

lemma rounds_end:
  assumes "proxy_run spool (round_events rs) (c, cbs) = Some (c', cbs')" "proxy_running c" "0 < t"
    and "0 < rp_stage_started_at c" "rp_stage_started_at c \<le> t" "rounds (proxy_limit c) t rs" "proxy_measure c < length rs"
  shows "proxy_ended c'"
  using assms
proof (induction rs arbitrary: c cbs t)
  case (Cons r rs)
  obtain evs e where r: "r = (evs, e)" by fastforce
  obtain c1 cbs1 where c1: "proxy_run spool (evs @ [clock_tick e]) (c, cbs) = Some (c1, cbs1)"
      "proxy_run spool (round_events rs) (c1, cbs1) = Some (c', cbs')"
    using Cons.prems(1) r by (auto simp: round_events_def proxy_run_append Option.bind_eq_Some_conv)
  show ?case
  proof (cases "proxy_ended c1")
    case True
    then show ?thesis using proxy_run_ended c1(2) by simp
  next
    case False
    then have m: "proxy_running c1" "same_client c c1" "proxy_measure c1 < proxy_measure c" "0 < rp_stage_started_at c1"
        "rp_stage_started_at c1 \<le> ce_now e"
      using round_decreases [OF c1(1) Cons.prems(2-5)] Cons.prems(6) r by auto
    have "proxy_limit c1 = proxy_limit c" using m(2) by (simp add: proxy_limit_def same_client_def)
    with Cons.IH [OF c1(2) m(1) _ m(4, 5)] Cons.prems m(3) r show ?thesis by auto
  qed
qed simp


definition sample_env :: "int \<Rightarrow> recv_io list \<Rightarrow> client_env" where
  "sample_env now ios = \<lparr>
     ce_world = \<lparr>w_files = sample_fs, w_spool = (\<lambda>_. None), w_headers_order = id, w_query_order = id,
       w_proxy = \<lparr>pe_exchange = (\<lambda>_ _ _. None), pe_clock = (\<lambda>_. (0, 0))\<rparr>\<rparr>,
     ce_sha1 = (\<lambda>_. None), ce_now = now, ce_spool_os = \<lparr>os_mkstemp = None, os_write = (\<lambda>_. write_failed)\<rparr>,
     ce_upstream = (\<lambda>_. \<lparr>uo_connect = connect_pending, uo_socket_error = False, uo_tls_setup_throws = False, uo_tls = tls_failed,
       uo_sends = [], uo_recvs = ios\<rparr>), ce_tls = tls_failed, ce_alpn = [], ce_sends = [], ce_recvs = [], ce_tunnel_sends = [],
     ce_tunnel_recvs = []\<rparr>"

definition sample_proxied :: client_conn where
  "sample_proxied = new_client\<lparr>cc_phase := ph_reverse_proxy, rp_ordered_upstreams := [upstream_sample],
     rp_current_upstream := upstream_sample, rp_attempt_index := 1, rp_attempted_upstream := True,
     rp_stage := stage_reading_response, rp_stage_started_at := 1\<rparr>"


lemma read_received:
  assumes "[] \<notin> set segs" "length (rp_response_buffer c) + length (concat segs) \<le> px_max_response_bytes (rp_settings c)"
  shows "\<exists>c1. read_reverse_proxy_response now (map received segs @ ios) c = read_reverse_proxy_response now ios c1 \<and>
    same_request c c1 \<and> rp_stage c1 = rp_stage c \<and> rp_response_buffer c1 = rp_response_buffer c @ concat segs"
  using assms
proof (induction segs arbitrary: c)
  case Nil
  then show ?case by (intro exI [of _ c]) (simp add: same_request_def)
next
  case (Cons s segs)
  let ?c = "c\<lparr>rp_response_buffer := rp_response_buffer c @ s, cc_last_activity := now,
      rp_extra_events := (if is_https c then 0 else rp_extra_events c)\<rparr>"
  from Cons.IH [of ?c] Cons.prems obtain c1 where c1:
    "read_reverse_proxy_response now (map received segs @ ios) ?c = read_reverse_proxy_response now ios c1" "same_request ?c c1"
    "rp_stage c1 = rp_stage ?c" "rp_response_buffer c1 = rp_response_buffer ?c @ concat segs" by auto
  with Cons.prems show ?case by (intro exI [of _ c1]) (auto simp: same_request_def)
qed

lemma read_event:
  assumes "cc_phase c = ph_reverse_proxy" "rp_stage c = stage_reading_response"
  shows "proxy_step spool (upstream_event e EPOLLIN) (c, cbs) =
    (case read_reverse_proxy_response (ce_now e) (uo_recvs (current_os e c)) c of
       read_waiting c \<Rightarrow> Some (c, cbs)
     | read_failed c \<Rightarrow> Some (fail_reverse_proxy_attempt e spool c cbs)
     | read_finished c \<Rightarrow> finish_reverse_proxy_response e spool c cbs)"
  using assms by (simp add: handle_upstream_proxy_def handle_reverse_proxy_upstream_def)

text \<open>C13: A response is relayed whole: when the bytes of an upstream arrive in any pieces, over any number of events, and the upstream
  then closes, the client is answered with exactly the response that these bytes parse to, and the upstream's circuit
  breaker records a success.\<close>

theorem async_proxy_relays:
  assumes "cc_phase c = ph_reverse_proxy" "rp_stage c = stage_reading_response" "[] \<notin> set segs" "[] \<notin> set (concat segss)"
    and "list_all2 (\<lambda>e segs. uo_recvs (ce_upstream e (rp_attempt_index c - 1)) = map received segs) es segss"
    and "uo_recvs (ce_upstream e (rp_attempt_index c - 1)) = map received segs @ [recv_closed]"
    and "bytes = rp_response_buffer c @ concat (concat segss) @ concat segs" "length bytes \<le> px_max_response_bytes (rp_settings c)"
    and "parse_reverse_proxy_upstream_response bytes = Some (Inr resp)"
  shows "\<exists>c'. proxy_run spool (map (\<lambda>e. upstream_event e EPOLLIN) (es @ [e])) (c, cbs) =
      Some (c', record_reverse_proxy_upstream_success (rp_current_upstream c) (rp_settings c) cbs) \<and>
    answered_with e resp (rp_body_mode c) c' \<and> same_client c c'"
  using assms
proof (induction es arbitrary: c segss)
  case Nil
  then have bytes: "bytes = rp_response_buffer c @ concat segs" by simp
  obtain c1 where c1: "read_reverse_proxy_response (ce_now e) (map received segs @ [recv_closed]) c =
      read_reverse_proxy_response (ce_now e) [recv_closed] c1" "same_request c c1" "rp_response_buffer c1 = bytes"
    using read_received [of segs c "ce_now e" "[recv_closed]"] Nil bytes by auto
  with Nil show ?case
    by (auto simp: read_event current_os_def finish_reverse_proxy_response_def answered_with_def same_client_def same_request_def
      set_response_def set_serialized_response_def simp del: proxy_step.simps)
next
  case (Cons e1 es)
  then obtain s1 ss where ss: "segss = s1 # ss" "uo_recvs (ce_upstream e1 (rp_attempt_index c - 1)) = map received s1"
    by (auto simp: list_all2_Cons1)
  obtain c1 where c1: "read_reverse_proxy_response (ce_now e1) (map received s1) c = read_reverse_proxy_response (ce_now e1) [] c1"
      "same_request c c1" "rp_stage c1 = rp_stage c" "rp_response_buffer c1 = rp_response_buffer c @ concat s1"
    using read_received [of s1 c "ce_now e1" "[]"] Cons.prems ss by auto
  let ?c = "c1\<lparr>rp_extra_events := (if is_https c1 then EPOLLIN else 0)\<rparr>"
  have step: "proxy_step spool (upstream_event e1 EPOLLIN) (c, cbs) = Some (?c, cbs)"
    using read_event [OF Cons.prems(1, 2), of spool e1 cbs] c1(1) ss(2) by (simp add: current_os_def del: proxy_step.simps)
  have "\<exists>c'. proxy_run spool (map (\<lambda>e. upstream_event e EPOLLIN) (es @ [e])) (?c, cbs) =
      Some (c', record_reverse_proxy_upstream_success (rp_current_upstream ?c) (rp_settings ?c) cbs) \<and>
    answered_with e resp (rp_body_mode ?c) c' \<and> same_client ?c c'"
    by (rule Cons.IH [of ?c ss]) (use Cons.prems c1 ss in \<open>auto simp: same_request_def\<close>)
  with step c1(2) show ?case by (auto simp: same_request_def same_client_def simp del: proxy_step.simps)
qed

definition sample_reply :: string where
  "sample_reply = ''HTTP/1.1 200 OK'' @ CRLF @ CRLF @ ''hi''"

lemma sample_reply_parsed:
  "parse_reverse_proxy_upstream_response sample_reply =
     Some (Inr \<lparr>rs_status = 200, rs_reason = ''OK'', rs_headers = [], rs_body = ''hi''\<rparr>)"
  by code_simp

theorem async_proxy_relays_witness:
  "\<exists>c'. proxy_run (\<lambda>_. None) [upstream_event (sample_env 2 [received (take 7 sample_reply)]) EPOLLIN,
      upstream_event (sample_env 3 [received (drop 7 sample_reply), recv_closed]) EPOLLIN] (sample_proxied, Map.empty) =
    Some (c', record_reverse_proxy_upstream_success upstream_sample default_reverse_proxy_settings Map.empty) \<and>
    answered_with (sample_env 3 [received (drop 7 sample_reply), recv_closed])
      \<lparr>rs_status = 200, rs_reason = ''OK'', rs_headers = [], rs_body = ''hi''\<rparr> body_included c'"
proof -
  have conn: "cc_phase sample_proxied = ph_reverse_proxy" "rp_stage sample_proxied = stage_reading_response"
      "rp_response_buffer sample_proxied = []" "rp_settings sample_proxied = default_reverse_proxy_settings"
      "rp_current_upstream sample_proxied = upstream_sample" "rp_body_mode sample_proxied = body_included"
    by (simp_all add: sample_proxied_def new_client_def)
  have os: "uo_recvs (ce_upstream (sample_env now ios) k) = ios" for now ios k by (simp add: sample_env_def)
  have reply: "take 7 sample_reply \<noteq> []" "drop 7 sample_reply \<noteq> []" "length sample_reply \<le> px_max_response_bytes default_reverse_proxy_settings"
    by (simp_all add: sample_reply_def default_reverse_proxy_settings_def)
  from reply have "[] \<notin> set [drop 7 sample_reply]" "[] \<notin> set (concat [[take 7 sample_reply]])" by auto
  from async_proxy_relays [OF conn(1, 2) this, of "[sample_env 2 [received (take 7 sample_reply)]]"
      "sample_env 3 [received (drop 7 sample_reply), recv_closed]" sample_reply
      "\<lparr>rs_status = 200, rs_reason = ''OK'', rs_headers = [], rs_body = ''hi''\<rparr>" "\<lambda>_. None" Map.empty] reply(3)
  show ?thesis unfolding conn by (auto simp: os sample_reply_parsed simp del: proxy_run.simps)
qed

end
