(* ===== verification/Ws_Tunnel.thy ===== *)
theory Ws_Tunnel
  imports Client_Proxy
begin

text \<open>
  The WebSocket proxy of \<open>src/src/core/server.cpp\<close>: the upgrade request to an upstream and the check of its answer, the attempts on
  the upstreams of a virtual host, and the tunnel that copies bytes between the two sockets afterwards. The answers of
  the sockets come from the \<open>client_env\<close>. While the handshake blocks, \<open>send_again\<close> and \<open>recv_again\<close> stand for a call that would
  block after which \<open>poll\<close> reports the descriptor ready, the end of the list for a time-out of \<open>poll\<close>.
  The operations of the tunnel return, beside the connection, the bytes the socket accepted.
\<close>

section \<open>The handshake with the upstream\<close>

definition header_value_contains_control :: "string \<Rightarrow> bool" where
  "header_value_contains_control v = list_ex (\<lambda>ch. ch \<noteq> TAB \<and> (code ch < 0x20 \<or> code ch = 0x7f)) v"

definition csv_value_has_token :: "string \<Rightarrow> string \<Rightarrow> bool" where
  "csv_value_has_token v token = list_ex (\<lambda>item. lowercase item = lowercase token) (split_csv v)"

definition websocket_proxy_response_header_allowed :: "string \<Rightarrow> bool" where
  "websocket_proxy_response_header_allowed name \<longleftrightarrow>
     name \<notin> {''content-length'', ''transfer-encoding'', ''keep-alive'', ''proxy-authenticate'', ''proxy-authorization'', ''te'', ''trailer''}"

record handshake_scan =
  hs_response :: response
  hs_upgrade :: bool
  hs_connection :: bool
  hs_accept :: bool

definition handshake_header_line :: "string \<Rightarrow> handshake_scan \<Rightarrow> handshake_scan result" where
  "handshake_header_line line h =
     (case find_char (CHR '':'') line of
        None \<Rightarrow> Inl ''websocket upstream response header is invalid''
      | Some colon \<Rightarrow>
          let name = lowercase (trim (take colon line)); v = trim (drop (colon + 1) line) in
          if \<not> is_valid_header_name name \<or> header_value_contains_control v then
            Inl ''websocket upstream response header contains invalid bytes''
          else
            let h = (if name = ''upgrade'' then h\<lparr>hs_upgrade := (lowercase v = ''websocket'')\<rparr>
                     else if name = ''connection'' then h\<lparr>hs_connection := csv_value_has_token v ''upgrade''\<rparr>
                     else if name = ''sec-websocket-accept'' then h\<lparr>hs_accept := (v \<noteq> [])\<rparr> else h)
            in Inr (if websocket_proxy_response_header_allowed name
                    then h\<lparr>hs_response := set_header name v (hs_response h)\<rparr> else h))"

function handshake_header_lines :: "string \<Rightarrow> handshake_scan \<Rightarrow> handshake_scan result" where
  "handshake_header_lines s h =
     (case getline s of
        None \<Rightarrow> Inr h
      | Some (line0, rest) \<Rightarrow>
          let line = strip_cr line0 in
          if line = [] then Inr h else
            case handshake_header_line line h of Inl e \<Rightarrow> Inl e | Inr h' \<Rightarrow> handshake_header_lines rest h')"
  by pat_completeness auto
termination
  by (relation "measure (\<lambda>(s, h). length s)") (auto dest: getline_shorter)

declare handshake_header_lines.simps [simp del]

definition parse_websocket_proxy_handshake_headers :: "string \<Rightarrow> response result" where
  "parse_websocket_proxy_handshake_headers raw_headers =
     (case getline raw_headers of
        None \<Rightarrow> Inl ''websocket upstream response missing status line''
      | Some (status_line, rest) \<Rightarrow>
          (case read_status_line (strip_cr status_line) of
             None \<Rightarrow> Inl ''websocket upstream response status line is invalid''
           | Some (version, status_code, _) \<Rightarrow>
               if \<not> starts_with version ''HTTP/'' then Inl ''websocket upstream response status line is invalid''
               else if status_code \<noteq> 101 then Inl ''websocket upstream did not switch protocols''
               else
                 r_bind (handshake_header_lines rest
                     \<lparr>hs_response = new_response\<lparr>rs_status := 101, rs_reason := reason_phrase 101\<rparr>,
                      hs_upgrade = False, hs_connection = False, hs_accept = False\<rparr>) (\<lambda>h.
                   if \<not> hs_upgrade h \<or> \<not> hs_connection h \<or> \<not> hs_accept h then
                     Inl ''websocket upstream response missing required upgrade headers''
                   else Inr (set_header ''connection'' ''Upgrade'' (set_header ''upgrade'' ''websocket'' (hs_response h))))))"

definition websocket_forwarded_headers :: "(headers \<Rightarrow> headers) \<Rightarrow> request \<Rightarrow> headers" where
  "websocket_forwarded_headers it r =
     map (\<lambda>(name, v). (lowercase name, v))
       (filter (\<lambda>(name, v). lowercase name \<notin> {''host'', ''connection'', ''upgrade'', ''content-length'', ''transfer-encoding'', ''keep-alive'',
          ''proxy-authenticate'', ''proxy-authorization'', ''te'', ''trailer''}) (it (rq_headers r)))"

definition build_websocket_proxy_request ::
    "(headers \<Rightarrow> headers) \<Rightarrow> request \<Rightarrow> reverse_proxy_target \<Rightarrow> string \<Rightarrow> bool \<Rightarrow> string" where
  "build_websocket_proxy_request it r upstream client_ip client_tls =
     rq_method r @ '' '' @ reverse_proxy_target_path upstream (rq_target r) @ '' HTTP/1.1'' @ CRLF @
     render_headers ([(''host'', pt_authority upstream), (''connection'', ''Upgrade''), (''upgrade'', ''websocket''),
        (''x-forwarded-for'', client_ip), (''x-forwarded-proto'', if client_tls then ''https'' else ''http'')] @
        (case request_header r ''host'' of None \<Rightarrow> [] | Some h \<Rightarrow> [(''x-forwarded-host'', h)]) @
        websocket_forwarded_headers it r) @ CRLF"

fun write_websocket_proxy :: "send_io list \<Rightarrow> string \<Rightarrow> nat \<Rightarrow> bool" where
  "write_websocket_proxy ios payload sent_total =
     (if sent_total < length payload then
        (case ios of
           [] \<Rightarrow> False
         | sent n # ios \<Rightarrow>
             n \<noteq> 0 \<and> write_websocket_proxy ios payload (sent_total + min n (length payload - sent_total))
         | send_again ev # ios \<Rightarrow> write_websocket_proxy ios payload sent_total
         | send_failed # ios \<Rightarrow> False)
      else True)"

declare write_websocket_proxy.simps [simp del]

definition split_websocket_proxy_handshake_buffer :: "string \<Rightarrow> (string \<times> string) option" where
  "split_websocket_proxy_handshake_buffer buffer =
     map_option (\<lambda>header_end. (take (header_end + 4) buffer, drop (header_end + 4) buffer)) (find_sub (CRLF @ CRLF) buffer)"

fun read_websocket_proxy_handshake :: "recv_io list \<Rightarrow> string \<Rightarrow> (string \<times> string) option" where
  "read_websocket_proxy_handshake ios buffer =
     (if find_sub (CRLF @ CRLF) buffer \<noteq> None then split_websocket_proxy_handshake_buffer buffer
      else case ios of
             received chunk # ios \<Rightarrow>
               if chunk = [] \<or> length (buffer @ chunk) > 64 * 1024 then None
               else read_websocket_proxy_handshake ios (buffer @ chunk)
           | recv_again ev # ios \<Rightarrow> read_websocket_proxy_handshake ios buffer
           | _ \<Rightarrow> None)"

declare read_websocket_proxy_handshake.simps [simp del]

text \<open>\<open>None\<close> is an exception; its text is only logged.\<close>

definition connect_websocket_proxy_upstream ::
    "(headers \<Rightarrow> headers) \<Rightarrow> upstream_os \<Rightarrow> request \<Rightarrow> reverse_proxy_target \<Rightarrow> reverse_proxy_settings \<Rightarrow> string \<Rightarrow> bool \<Rightarrow>
     (response \<times> string) option" where
  "connect_websocket_proxy_upstream it os r upstream settings client_ip client_tls =
     (if uo_connect os = connect_throws \<or> uo_socket_error os then None
      else if pt_scheme upstream = ''https'' \<and>
              (uo_tls_setup_throws os \<or>
               (case uo_tls os of tls_done verified \<Rightarrow> px_verify_tls_upstream settings \<and> \<not> verified | _ \<Rightarrow> True)) then None
      else if \<not> write_websocket_proxy (uo_sends os) (build_websocket_proxy_request it r upstream client_ip client_tls) 0 then None
      else case read_websocket_proxy_handshake (uo_recvs os) [] of
             None \<Rightarrow> None
           | Some (head, extra) \<Rightarrow>
               (case parse_websocket_proxy_handshake_headers head of Inl _ \<Rightarrow> None | Inr resp \<Rightarrow> Some (resp, extra)))"

section \<open>Buffers\<close>

definition websocket_proxy_buffer_limit :: "server_config \<Rightarrow> nat" where
  "websocket_proxy_buffer_limit config = max (cfg_websocket_max_frame_bytes config) (64 * 1024)"

definition compact_websocket_proxy_buffer :: "string \<Rightarrow> nat \<Rightarrow> string \<times> nat" where
  "compact_websocket_proxy_buffer buffer offset =
     (if offset = 0 then (buffer, offset) else if offset \<ge> length buffer then ([], 0) else (drop offset buffer, 0))"

definition append_client_to_upstream :: "string \<Rightarrow> client_conn \<Rightarrow> client_conn" where
  "append_client_to_upstream chunk c =
     (case compact_websocket_proxy_buffer (wp_client_to_upstream c) (wp_client_to_upstream_offset c) of
        (buffer, offset) \<Rightarrow>
          let c = c\<lparr>wp_client_to_upstream := buffer, wp_client_to_upstream_offset := offset\<rparr> in
          if length buffer + length chunk > websocket_proxy_buffer_limit (cc_config c) then close_now c
          else c\<lparr>wp_client_to_upstream := buffer @ chunk\<rparr>)"

definition append_upstream_to_client :: "string \<Rightarrow> client_conn \<Rightarrow> client_conn" where
  "append_upstream_to_client chunk c =
     (case compact_websocket_proxy_buffer (wp_upstream_to_client c) (wp_upstream_to_client_offset c) of
        (buffer, offset) \<Rightarrow>
          let c = c\<lparr>wp_upstream_to_client := buffer, wp_upstream_to_client_offset := offset\<rparr> in
          if length buffer + length chunk > websocket_proxy_buffer_limit (cc_config c) then close_now c
          else c\<lparr>wp_upstream_to_client := buffer @ chunk\<rparr>)"

fun websocket_proxy_attempts ::
    "client_env \<Rightarrow> request \<Rightarrow> reverse_proxy_settings \<Rightarrow> string \<Rightarrow> nat \<Rightarrow> reverse_proxy_target list \<Rightarrow> bool \<Rightarrow> bool \<Rightarrow>
     client_conn \<Rightarrow> circuit_breakers \<Rightarrow> client_conn \<times> circuit_breakers" where
  "websocket_proxy_attempts e r settings early k [] skipped attempted c cbs =
     (set_response (ce_it e) (if \<not> attempted \<and> skipped then service_unavailable settings else bad_gateway) body_included False c, cbs)"
| "websocket_proxy_attempts e r settings early k (upstream # upstreams) skipped attempted c cbs =
     (case reverse_proxy_upstream_available upstream settings (ce_now e) cbs of
        (available, cbs) \<Rightarrow>
          if \<not> available then websocket_proxy_attempts e r settings early (k + 1) upstreams True attempted c cbs
          else
            case connect_websocket_proxy_upstream (ce_it e) (ce_upstream e k) r upstream settings (cc_client_ip c) (cc_ssl c) of
              None \<Rightarrow>
                websocket_proxy_attempts e r settings early (k + 1) upstreams skipped True
                  (c\<lparr>wp_upstream_tls := False, wp_client_to_upstream := [], wp_upstream_to_client := [],
                     wp_client_to_upstream_offset := 0, wp_upstream_to_client_offset := 0\<rparr>)
                  (record_reverse_proxy_upstream_failure upstream settings (ce_now e) cbs)
            | Some (resp, extra) \<Rightarrow>
                let c = c\<lparr>wp_upstream_tls := (pt_scheme upstream = ''https'')\<rparr>;
                    cbs = record_reverse_proxy_upstream_success upstream settings cbs;
                    c = (if extra = [] then c else append_upstream_to_client extra c);
                    c = (if closed c \<or> early = [] then c else append_client_to_upstream early c)
                in (if closed c then c else set_websocket_proxy_handshake_response (ce_it e) resp c, cbs))"

definition try_start_websocket_proxy ::
    "client_env \<Rightarrow> request \<Rightarrow> client_conn \<Rightarrow> server_globals \<Rightarrow> (bool \<times> conn_state) run" where
  "try_start_websocket_proxy e r c g =
     (case reverse_proxy_upstreams_for_request r (cc_config c) of
        Inl _ \<Rightarrow> run_return (True, text_error (ce_it e) 500 ''Internal Server Error'' (c\<lparr>cc_request_buffer := []\<rparr>), g)
      | Inr None \<Rightarrow> run_return (False, c, g)
      | Inr (Some upstreams) \<Rightarrow>
          let c = c\<lparr>cc_requests_served := cc_requests_served c + 1\<rparr> in
          run_bind (run_lift (c, g) (config_proxy_settings (cc_config c))) (\<lambda>settings.
            case ordered_reverse_proxy_upstreams r upstreams settings (g_counter g) of
              (ordered, counter) \<Rightarrow>
                (case websocket_proxy_attempts e r settings (cc_request_buffer c) 0 ordered False False
                        (c\<lparr>cc_request_buffer := []\<rparr>) (g_breakers g) of
                   (c, cbs) \<Rightarrow> run_return (True, c, g\<lparr>g_counter := counter, g_breakers := cbs\<rparr>))))"

section \<open>The tunnel\<close>

definition flush_websocket_proxy_client :: "int \<Rightarrow> send_io list \<Rightarrow> client_conn \<Rightarrow> client_conn \<times> send_io list \<times> string" where
  "flush_websocket_proxy_client now ios c =
     (case flush_buffer ios (wp_upstream_to_client c) (wp_upstream_to_client_offset c) of
        (r, offset, rest) \<Rightarrow>
          let out = take (offset - wp_upstream_to_client_offset c) (drop (wp_upstream_to_client_offset c) (wp_upstream_to_client c));
              c = (if offset > wp_upstream_to_client_offset c
                   then c\<lparr>wp_upstream_to_client_offset := offset, cc_last_activity := now, wp_client_extra_events := 0\<rparr> else c)
          in (case r of
                flush_done \<Rightarrow> c\<lparr>wp_upstream_to_client := [], wp_upstream_to_client_offset := 0\<rparr>
              | flush_blocked ev \<Rightarrow> (if cc_ssl c then c\<lparr>wp_client_extra_events := ev\<rparr> else c)
              | flush_failed \<Rightarrow> close_now c,
              rest, out))"

definition flush_websocket_proxy_upstream :: "int \<Rightarrow> send_io list \<Rightarrow> client_conn \<Rightarrow> client_conn \<times> send_io list \<times> string" where
  "flush_websocket_proxy_upstream now ios c =
     (case flush_buffer ios (wp_client_to_upstream c) (wp_client_to_upstream_offset c) of
        (r, offset, rest) \<Rightarrow>
          let out = take (offset - wp_client_to_upstream_offset c) (drop (wp_client_to_upstream_offset c) (wp_client_to_upstream c));
              c = (if offset > wp_client_to_upstream_offset c
                   then c\<lparr>wp_client_to_upstream_offset := offset, cc_last_activity := now, wp_upstream_extra_events := 0\<rparr> else c)
          in (case r of
                flush_done \<Rightarrow> c\<lparr>wp_client_to_upstream := [], wp_client_to_upstream_offset := 0\<rparr>
              | flush_blocked ev \<Rightarrow> (if wp_upstream_tls c then c\<lparr>wp_upstream_extra_events := ev\<rparr> else c)
              | flush_failed \<Rightarrow> close_now c,
              rest, out))"

text \<open>The reading loops, for plain sockets and TLS.\<close>

fun read_websocket_proxy_client ::
    "int \<Rightarrow> recv_io list \<Rightarrow> send_io list \<Rightarrow> client_conn \<Rightarrow> client_conn \<times> send_io list \<times> string" where
  "read_websocket_proxy_client now [] sends c = (c\<lparr>wp_client_extra_events := (if cc_ssl c then EPOLLIN else 0)\<rparr>, sends, [])"
| "read_websocket_proxy_client now (received chunk # ios) sends c =
     (if chunk = [] then (close_now c, sends, [])
      else
        let c = append_client_to_upstream chunk (c\<lparr>cc_last_activity := now, wp_client_extra_events := 0\<rparr>) in
        if closed c then (c, sends, [])
        else
          case flush_websocket_proxy_upstream now sends c of
            (c, sends, out) \<Rightarrow>
              if closed c then (c, sends, out)
              else case read_websocket_proxy_client now ios sends c of (c, sends, out') \<Rightarrow> (c, sends, out @ out'))"
| "read_websocket_proxy_client now (recv_again ev # ios) sends c =
     (c\<lparr>wp_client_extra_events := (if cc_ssl c then ev else 0)\<rparr>, sends, [])"
| "read_websocket_proxy_client now (recv_closed # ios) sends c = (close_now c, sends, [])"
| "read_websocket_proxy_client now (recv_failed # ios) sends c = (close_now c, sends, [])"

fun read_websocket_proxy_upstream ::
    "int \<Rightarrow> recv_io list \<Rightarrow> send_io list \<Rightarrow> client_conn \<Rightarrow> client_conn \<times> send_io list \<times> string" where
  "read_websocket_proxy_upstream now [] sends c = (c\<lparr>wp_upstream_extra_events := (if wp_upstream_tls c then EPOLLIN else 0)\<rparr>, sends, [])"
| "read_websocket_proxy_upstream now (received chunk # ios) sends c =
     (if chunk = [] then (close_now c, sends, [])
      else
        let c = append_upstream_to_client chunk (c\<lparr>cc_last_activity := now, wp_upstream_extra_events := 0\<rparr>) in
        if closed c then (c, sends, [])
        else
          case flush_websocket_proxy_client now sends c of
            (c, sends, out) \<Rightarrow>
              if closed c then (c, sends, out)
              else case read_websocket_proxy_upstream now ios sends c of (c, sends, out') \<Rightarrow> (c, sends, out @ out'))"
| "read_websocket_proxy_upstream now (recv_again ev # ios) sends c =
     (c\<lparr>wp_upstream_extra_events := (if wp_upstream_tls c then ev else 0)\<rparr>, sends, [])"
| "read_websocket_proxy_upstream now (recv_closed # ios) sends c = (close_now c, sends, [])"
| "read_websocket_proxy_upstream now (recv_failed # ios) sends c = (close_now c, sends, [])"

definition update_websocket_proxy_events :: "client_conn \<Rightarrow> client_conn" where
  "update_websocket_proxy_events c =
     (if cc_phase c \<noteq> ph_websocket_proxy then c
      else c\<lparr>cc_events := EPOLLIN OR wp_client_extra_events c OR (if wp_upstream_to_client c = [] then 0 else EPOLLOUT)\<rparr>)"

text \<open>The bytes accepted by the upstream and by the client.\<close>

definition handle_websocket_proxy_client :: "client_env \<Rightarrow> u32 \<Rightarrow> client_conn \<Rightarrow> client_conn \<times> string \<times> string" where
  "handle_websocket_proxy_client e revents c =
     (case (if revents AND EPOLLIN \<noteq> 0 then read_websocket_proxy_client (ce_now e) (ce_recvs e) (ce_tunnel_sends e) c
            else (c, ce_tunnel_sends e, [])) of
        (c, _, up) \<Rightarrow>
          (case (if \<not> closed c \<and> (wp_upstream_to_client c \<noteq> [] \<or> revents AND EPOLLOUT \<noteq> 0)
                 then flush_websocket_proxy_client (ce_now e) (ce_sends e) c else (c, ce_sends e, [])) of
             (c, _, down) \<Rightarrow> (if closed c then c else update_websocket_proxy_events c, up, down)))"

definition handle_websocket_proxy_upstream :: "client_env \<Rightarrow> u32 \<Rightarrow> client_conn \<Rightarrow> client_conn \<times> string \<times> string" where
  "handle_websocket_proxy_upstream e revents c =
     (case (if revents AND EPOLLIN \<noteq> 0 then read_websocket_proxy_upstream (ce_now e) (ce_tunnel_recvs e) (ce_sends e) c
            else (c, ce_sends e, [])) of
        (c, _, down) \<Rightarrow>
          (case (if \<not> closed c \<and> (wp_client_to_upstream c \<noteq> [] \<or> revents AND EPOLLOUT \<noteq> 0)
                 then flush_websocket_proxy_upstream (ce_now e) (ce_tunnel_sends e) c else (c, ce_tunnel_sends e, [])) of
             (c, _, up) \<Rightarrow> (if closed c then c else update_websocket_proxy_events c, up, down)))"

definition hang_up :: "u32 \<Rightarrow> bool" where
  "hang_up revents \<longleftrightarrow> revents AND (EPOLLERR OR EPOLLHUP OR EPOLLRDHUP) \<noteq> 0 \<and> revents AND (EPOLLIN OR EPOLLOUT) = 0"

datatype tunnel_event = client_ready client_env u32 | upstream_ready client_env u32

fun tunnel_step :: "tunnel_event \<Rightarrow> client_conn \<Rightarrow> client_conn \<times> string \<times> string" where
  "tunnel_step (client_ready e revents) c =
     (if cc_phase c \<noteq> ph_websocket_proxy then (c, [], [])
      else if hang_up revents then (close_now c, [], []) else handle_websocket_proxy_client e revents c)"
| "tunnel_step (upstream_ready e revents) c =
     (if cc_phase c \<noteq> ph_websocket_proxy then (c, [], [])
      else if hang_up revents then (close_now c, [], []) else handle_websocket_proxy_upstream e revents c)"

fun tunnel_run :: "tunnel_event list \<Rightarrow> client_conn \<Rightarrow> client_conn \<times> string \<times> string" where
  "tunnel_run [] c = (c, [], [])"
| "tunnel_run (ev # evs) c =
     (case tunnel_step ev c of (c, up, down) \<Rightarrow>
        case tunnel_run evs c of (c, up', down') \<Rightarrow> (c, up @ up', down @ down'))"

section \<open>The tunnel is transparent\<close>

definition pending_up :: "client_conn \<Rightarrow> string" where
  "pending_up c = drop (wp_client_to_upstream_offset c) (wp_client_to_upstream c)"

definition pending_down :: "client_conn \<Rightarrow> string" where
  "pending_down c = drop (wp_upstream_to_client_offset c) (wp_upstream_to_client c)"

text \<open>The bytes that successive reads deliver before the first one that delivers none.\<close>

fun arrived :: "recv_io list \<Rightarrow> string" where
  "arrived (received d # ios) = (if d = [] then [] else d @ arrived ios)"
| "arrived ios = []"

text \<open>Buffer positions are valid and no more than the limit is waiting.\<close>

definition tunnel_inv :: "client_conn \<Rightarrow> bool" where
  "tunnel_inv c \<longleftrightarrow> wp_client_to_upstream_offset c \<le> length (wp_client_to_upstream c) \<and>
     wp_upstream_to_client_offset c \<le> length (wp_upstream_to_client c) \<and>
     length (pending_up c) \<le> websocket_proxy_buffer_limit (cc_config c) \<and>
     length (pending_down c) \<le> websocket_proxy_buffer_limit (cc_config c)"

text \<open>An operation leaves the other direction alone.\<close>

definition up_only :: "client_conn \<Rightarrow> client_conn \<Rightarrow> bool" where
  "up_only c c' \<longleftrightarrow> wp_upstream_to_client c' = wp_upstream_to_client c \<and>
     wp_upstream_to_client_offset c' = wp_upstream_to_client_offset c \<and> cc_config c' = cc_config c \<and>
     (cc_phase c' = cc_phase c \<or> closed c')"

definition down_only :: "client_conn \<Rightarrow> client_conn \<Rightarrow> bool" where
  "down_only c c' \<longleftrightarrow> wp_client_to_upstream c' = wp_client_to_upstream c \<and>
     wp_client_to_upstream_offset c' = wp_client_to_upstream_offset c \<and> cc_config c' = cc_config c \<and>
     (cc_phase c' = cc_phase c \<or> closed c')"

lemma take_drop_split: "i \<le> j \<Longrightarrow> drop i xs = take (j - i) (drop i xs) @ drop j xs"
  by (metis append_take_drop_id drop_drop le_add_diff_inverse2)

lemma compact_pending: "compact_websocket_proxy_buffer b n = (drop n b, 0)"
  by (simp add: compact_websocket_proxy_buffer_def)

lemmas conn_simps = close_now_def closed_def pending_up_def pending_down_def up_only_def down_only_def

lemma flush_up:
  assumes "flush_websocket_proxy_upstream now ios c = (c', rest, out)" "tunnel_inv c"
  shows "tunnel_inv c' \<and> up_only c c' \<and> pending_up c = out @ pending_up c'"
proof -
  obtain r n rest' where f: "flush_buffer ios (wp_client_to_upstream c) (wp_client_to_upstream_offset c) = (r, n, rest')"
    by (metis prod_cases3)
  have b: "wp_client_to_upstream_offset c \<le> n" "n \<le> length (wp_client_to_upstream c)" "r = flush_done \<longleftrightarrow> n = length (wp_client_to_upstream c)"
    using flush_buffer_bounds [OF f] assms(2) by (simp_all add: tunnel_inv_def)
  let ?b = "wp_client_to_upstream c" and ?o = "wp_client_to_upstream_offset c"
  have out: "out = take (n - ?o) (drop ?o ?b)" and state: "wp_client_to_upstream c' = ?b \<and> wp_client_to_upstream_offset c' = n \<or>
      n = length ?b \<and> wp_client_to_upstream c' = [] \<and> wp_client_to_upstream_offset c' = 0" and up: "up_only c c'"
    using assms(1) b f by (auto simp: flush_websocket_proxy_upstream_def conn_simps Let_def split: flush_end.splits if_splits)
  have pend: "pending_up c = out @ pending_up c'"
    using state take_drop_split [OF b(1), of ?b] out by (auto simp: pending_up_def)
  have "length (pending_up c') \<le> length (pending_up c)" using pend by simp
  with assms(2) up state b(2) pend show ?thesis by (auto simp: tunnel_inv_def up_only_def pending_down_def)
qed

lemma flush_down:
  assumes "flush_websocket_proxy_client now ios c = (c', rest, out)" "tunnel_inv c"
  shows "tunnel_inv c' \<and> down_only c c' \<and> pending_down c = out @ pending_down c'"
proof -
  obtain r n rest' where f: "flush_buffer ios (wp_upstream_to_client c) (wp_upstream_to_client_offset c) = (r, n, rest')"
    by (metis prod_cases3)
  have b: "wp_upstream_to_client_offset c \<le> n" "n \<le> length (wp_upstream_to_client c)" "r = flush_done \<longleftrightarrow> n = length (wp_upstream_to_client c)"
    using flush_buffer_bounds [OF f] assms(2) by (simp_all add: tunnel_inv_def)
  let ?b = "wp_upstream_to_client c" and ?o = "wp_upstream_to_client_offset c"
  have out: "out = take (n - ?o) (drop ?o ?b)" and state: "wp_upstream_to_client c' = ?b \<and> wp_upstream_to_client_offset c' = n \<or>
      n = length ?b \<and> wp_upstream_to_client c' = [] \<and> wp_upstream_to_client_offset c' = 0" and down: "down_only c c'"
    using assms(1) b f by (auto simp: flush_websocket_proxy_client_def conn_simps Let_def split: flush_end.splits if_splits)
  have pend: "pending_down c = out @ pending_down c'"
    using state take_drop_split [OF b(1), of ?b] out by (auto simp: pending_down_def)
  have "length (pending_down c') \<le> length (pending_down c)" using pend by simp
  with assms(2) down state b(2) pend show ?thesis by (auto simp: tunnel_inv_def down_only_def pending_up_def)
qed

lemma append_up:
  assumes "tunnel_inv c" "c' = append_client_to_upstream d c"
  shows "tunnel_inv c' \<and> up_only c c' \<and> (\<not> closed c' \<longrightarrow> pending_up c' = pending_up c @ d)"
  using assms by (auto simp: append_client_to_upstream_def compact_pending Let_def conn_simps tunnel_inv_def)

lemma append_down:
  assumes "tunnel_inv c" "c' = append_upstream_to_client d c"
  shows "tunnel_inv c' \<and> down_only c c' \<and> (\<not> closed c' \<longrightarrow> pending_down c' = pending_down c @ d)"
  using assms by (auto simp: append_upstream_to_client_def compact_pending Let_def conn_simps tunnel_inv_def)

text \<open>Both directions of the tunnel read, append and flush in the same way: what a direction promises, and what its reading loop then
  achieves.\<close>

locale tunnel_direction =
  fixes pending :: "client_conn \<Rightarrow> string"
    and keeps :: "client_conn \<Rightarrow> client_conn \<Rightarrow> bool"
    and touch :: "int \<Rightarrow> client_conn \<Rightarrow> client_conn"
    and add :: "string \<Rightarrow> client_conn \<Rightarrow> client_conn"
    and flush :: "int \<Rightarrow> send_io list \<Rightarrow> client_conn \<Rightarrow> client_conn \<times> send_io list \<times> string"
    and loop :: "int \<Rightarrow> recv_io list \<Rightarrow> send_io list \<Rightarrow> client_conn \<Rightarrow> client_conn \<times> send_io list \<times> string"
  assumes keeps_trans: "keeps a b \<Longrightarrow> keeps b c \<Longrightarrow> \<not> closed b \<Longrightarrow> keeps a c"
    and touch_keeps: "tunnel_inv c \<Longrightarrow> tunnel_inv (touch now c) \<and> keeps c (touch now c) \<and> pending (touch now c) = pending c \<and>
      closed (touch now c) = closed c"
    and add_pending: "tunnel_inv c \<Longrightarrow> tunnel_inv (add d c) \<and> keeps c (add d c) \<and> (\<not> closed (add d c) \<longrightarrow> pending (add d c) = pending c @ d)"
    and flush_pending: "flush now sends c = (c', rest, out) \<Longrightarrow> tunnel_inv c \<Longrightarrow> tunnel_inv c' \<and> keeps c c' \<and> pending c = out @ pending c'"
    and loop_received: "d \<noteq> [] \<Longrightarrow> loop now (received d # ios) sends c =
      (let c = add d (touch now c) in
       if closed c then (c, sends, [])
       else case flush now sends c of (c, sends, out) \<Rightarrow>
         if closed c then (c, sends, out)
         else case loop now ios sends c of (c, sends, out') \<Rightarrow> (c, sends, out @ out'))"
    and loop_stops: "loop now ios sends c = (c', rest, out) \<Longrightarrow> tunnel_inv c \<Longrightarrow> \<nexists>d ios'. ios = received d # ios' \<and> d \<noteq> [] \<Longrightarrow>
      tunnel_inv c' \<and> keeps c c' \<and> pending c' = pending c \<and> out = []"
begin

lemma loop_relays:
  assumes "loop now ios sends c = (c', rest, out)" "tunnel_inv c" "\<not> closed c"
  shows "tunnel_inv c' \<and> keeps c c' \<and> prefix out (pending c @ arrived ios) \<and>
    (\<not> closed c' \<longrightarrow> pending c @ arrived ios = out @ pending c')"
  using assms
proof (induction ios arbitrary: sends c out)
  case Nil
  then show ?case using loop_stops [OF Nil.prems(1, 2)] by simp
next
  case (Cons io ios)
  show ?case
  proof (cases "\<exists>d. io = received d \<and> d \<noteq> []")
    case False
    then have "arrived (io # ios) = []" by (cases io) auto
    with loop_stops [OF Cons.prems(1, 2)] False show ?thesis by simp
  next
    case True
    then obtain d where d: "io = received d" "d \<noteq> []" by blast
    define c1 where "c1 = add d (touch now c)"
    have t: "tunnel_inv (touch now c)" "keeps c (touch now c)" "pending (touch now c) = pending c" "\<not> closed (touch now c)"
      using touch_keeps [OF Cons.prems(2)] Cons.prems(3) by auto
    have c1: "tunnel_inv c1" "keeps c c1" "\<not> closed c1 \<Longrightarrow> pending c1 = pending c @ d"
      using add_pending [OF t(1), of d] keeps_trans [OF t(2)] t(3, 4) by (auto simp: c1_def)
    obtain c2 sends2 out2 where f: "flush now sends c1 = (c2, sends2, out2)" by (metis prod_cases3)
    note c2 = flush_pending [OF f c1(1)]
    note eq = Cons.prems(1) [unfolded d(1) loop_received [OF d(2)] c1_def [symmetric] Let_def f prod.case]
    consider (full) "closed c1" | (failed) "\<not> closed c1" "closed c2" | (go) "\<not> closed c1" "\<not> closed c2" by blast
    then show ?thesis
    proof cases
      case full
      with eq c1 show ?thesis by auto
    next
      case failed
      then have res: "c' = c2" "out = out2" using eq by auto
      have "pending c @ arrived (io # ios) = out @ pending c2 @ arrived ios" using c2 c1(3) failed res d by simp
      then have "prefix out (pending c @ arrived (io # ios))" by simp
      moreover have "keeps c c'" using keeps_trans [OF c1(2)] c2 failed res by blast
      ultimately show ?thesis using c2 failed res by simp
    next
      case go
      obtain c3 sends3 out3 where r: "loop now ios sends2 c2 = (c3, sends3, out3)" by (metis prod_cases3)
      with eq go have res: "c' = c3" "out = out2 @ out3" "rest = sends3" by auto
      have IH: "tunnel_inv c' \<and> keeps c2 c' \<and> prefix out3 (pending c2 @ arrived ios) \<and>
          (\<not> closed c' \<longrightarrow> pending c2 @ arrived ios = out3 @ pending c')"
        using Cons.IH [of sends2 c2 out3] r res go c2 by auto
      have "pending c @ arrived (io # ios) = out2 @ pending c2 @ arrived ios" using c2 c1(3) [OF go(1)] d by simp
      moreover have "keeps c c'" using keeps_trans [OF keeps_trans [OF c1(2)]] c2 go IH by blast
      ultimately show ?thesis using IH res by (auto simp: same_prefix_prefix)
    qed
  qed
qed

end

interpretation upward: tunnel_direction pending_up up_only "\<lambda>now c. c\<lparr>cc_last_activity := now, wp_client_extra_events := 0\<rparr>"
    append_client_to_upstream flush_websocket_proxy_upstream read_websocket_proxy_client
proof (unfold_locales, goal_cases)
  case (1 a b c)
  then show ?case by (auto simp: up_only_def)
next
  case (2 c now)
  then show ?case by (simp add: tunnel_inv_def conn_simps)
next
  case (3 c d)
  then show ?case using append_up by blast
next
  case (4 now sends c c' rest out)
  then show ?case using flush_up by blast
next
  case (5 d now ios sends c)
  then show ?case by simp
next
  case (6 now ios sends c c' rest out)
  then show ?case
    by (cases "(now, ios, sends, c)" rule: read_websocket_proxy_client.cases) (auto simp: tunnel_inv_def conn_simps)
qed

interpretation downward: tunnel_direction pending_down down_only "\<lambda>now c. c\<lparr>cc_last_activity := now, wp_upstream_extra_events := 0\<rparr>"
    append_upstream_to_client flush_websocket_proxy_client read_websocket_proxy_upstream
proof (unfold_locales, goal_cases)
  case (1 a b c)
  then show ?case by (auto simp: down_only_def)
next
  case (2 c now)
  then show ?case by (simp add: tunnel_inv_def conn_simps)
next
  case (3 c d)
  then show ?case using append_down by blast
next
  case (4 now sends c c' rest out)
  then show ?case using flush_down by blast
next
  case (5 d now ios sends c)
  then show ?case by simp
next
  case (6 now ios sends c c' rest out)
  then show ?case
    by (cases "(now, ios, sends, c)" rule: read_websocket_proxy_upstream.cases) (auto simp: tunnel_inv_def conn_simps)
qed

fun arrived_up :: "tunnel_event \<Rightarrow> string" where
  "arrived_up (client_ready e revents) = (if hang_up revents \<or> revents AND EPOLLIN = 0 then [] else arrived (ce_recvs e))"
| "arrived_up (upstream_ready e revents) = []"

fun arrived_down :: "tunnel_event \<Rightarrow> string" where
  "arrived_down (client_ready e revents) = []"
| "arrived_down (upstream_ready e revents) = (if hang_up revents \<or> revents AND EPOLLIN = 0 then [] else arrived (ce_tunnel_recvs e))"

text \<open>What one event transfers.\<close>

definition transfers :: "client_conn \<Rightarrow> string \<Rightarrow> string \<Rightarrow> client_conn \<Rightarrow> string \<Rightarrow> string \<Rightarrow> bool" where
  "transfers c in_up in_down c' up down \<longleftrightarrow> tunnel_inv c' \<and> (cc_phase c' = cc_phase c \<or> closed c') \<and> cc_config c' = cc_config c \<and>
     prefix up (pending_up c @ in_up) \<and> prefix down (pending_down c @ in_down) \<and>
     (\<not> closed c' \<longrightarrow> pending_up c @ in_up = up @ pending_up c' \<and> pending_down c @ in_down = down @ pending_down c')"

lemma pending_only:
  "up_only c c' \<Longrightarrow> pending_down c' = pending_down c" "down_only c c' \<Longrightarrow> pending_up c' = pending_up c"
  by (simp_all add: conn_simps)

lemma update_events_transfers: "transfers c iu id' (update_websocket_proxy_events c') up down = transfers c iu id' c' up down"
  by (auto simp: transfers_def update_websocket_proxy_events_def tunnel_inv_def conn_simps)

lemma handle_client_transfers:
  assumes "handle_websocket_proxy_client e revents c = (c', up, down)" "tunnel_inv c" "\<not> closed c"
  shows "transfers c (if revents AND EPOLLIN \<noteq> 0 then arrived (ce_recvs e) else []) [] c' up down"
proof -
  let ?in = "if revents AND EPOLLIN \<noteq> 0 then arrived (ce_recvs e) else []"
  obtain c1 s1 up1 where r: "(if revents AND EPOLLIN \<noteq> 0 then read_websocket_proxy_client (ce_now e) (ce_recvs e) (ce_tunnel_sends e) c
      else (c, ce_tunnel_sends e, [])) = (c1, s1, up1)" by (metis prod_cases3)
  have c1: "tunnel_inv c1" "up_only c c1" "prefix up1 (pending_up c @ ?in)" "\<not> closed c1 \<Longrightarrow> pending_up c @ ?in = up1 @ pending_up c1"
    using r upward.loop_relays [of "ce_now e" "ce_recvs e" "ce_tunnel_sends e" c c1 s1 up1] assms(2, 3)
    by (auto simp: up_only_def split: if_splits)
  let ?f = "\<not> closed c1 \<and> (wp_upstream_to_client c1 \<noteq> [] \<or> revents AND EPOLLOUT \<noteq> 0)"
  obtain c2 s2 down1 where f: "(if ?f then flush_websocket_proxy_client (ce_now e) (ce_sends e) c1 else (c1, ce_sends e, [])) = (c2, s2, down1)"
    by (metis prod_cases3)
  have c2: "tunnel_inv c2" "down_only c1 c2" "pending_down c1 = down1 @ pending_down c2"
    using f flush_down [of "ce_now e" "ce_sends e" c1 c2 s2 down1] c1(1) by (auto simp: down_only_def split: if_splits)
  have "closed c1 \<Longrightarrow> closed c2" using f by auto
  then have "transfers c ?in [] c2 up1 down1"
    using c1 c2 pending_only(1) [OF c1(2)] pending_only(2) [OF c2(2)]
    by (cases "closed c1") (auto simp: transfers_def up_only_def down_only_def)
  moreover have "c' = (if closed c2 then c2 else update_websocket_proxy_events c2)" "up = up1" "down = down1"
    using assms(1) r f by (auto simp: handle_websocket_proxy_client_def simp del: if_split)
  ultimately show ?thesis by (simp add: update_events_transfers)
qed

lemma handle_upstream_transfers:
  assumes "handle_websocket_proxy_upstream e revents c = (c', up, down)" "tunnel_inv c" "\<not> closed c"
  shows "transfers c [] (if revents AND EPOLLIN \<noteq> 0 then arrived (ce_tunnel_recvs e) else []) c' up down"
proof -
  let ?in = "if revents AND EPOLLIN \<noteq> 0 then arrived (ce_tunnel_recvs e) else []"
  obtain c1 s1 down1 where r: "(if revents AND EPOLLIN \<noteq> 0 then read_websocket_proxy_upstream (ce_now e) (ce_tunnel_recvs e) (ce_sends e) c
      else (c, ce_sends e, [])) = (c1, s1, down1)" by (metis prod_cases3)
  have c1: "tunnel_inv c1" "down_only c c1" "prefix down1 (pending_down c @ ?in)" "\<not> closed c1 \<Longrightarrow> pending_down c @ ?in = down1 @ pending_down c1"
    using r downward.loop_relays [of "ce_now e" "ce_tunnel_recvs e" "ce_sends e" c c1 s1 down1] assms(2, 3)
    by (auto simp: down_only_def split: if_splits)
  let ?f = "\<not> closed c1 \<and> (wp_client_to_upstream c1 \<noteq> [] \<or> revents AND EPOLLOUT \<noteq> 0)"
  obtain c2 s2 up1 where f: "(if ?f then flush_websocket_proxy_upstream (ce_now e) (ce_tunnel_sends e) c1 else (c1, ce_tunnel_sends e, [])) = (c2, s2, up1)"
    by (metis prod_cases3)
  have c2: "tunnel_inv c2" "up_only c1 c2" "pending_up c1 = up1 @ pending_up c2"
    using f flush_up [of "ce_now e" "ce_tunnel_sends e" c1 c2 s2 up1] c1(1) by (auto simp: up_only_def split: if_splits)
  have "closed c1 \<Longrightarrow> closed c2" using f by auto
  then have "transfers c [] ?in c2 up1 down1"
    using c1 c2 pending_only(2) [OF c1(2)] pending_only(1) [OF c2(2)]
    by (cases "closed c1") (auto simp: transfers_def up_only_def down_only_def)
  moreover have "c' = (if closed c2 then c2 else update_websocket_proxy_events c2)" "up = up1" "down = down1"
    using assms(1) r f by (auto simp: handle_websocket_proxy_upstream_def simp del: if_split)
  ultimately show ?thesis by (simp add: update_events_transfers)
qed

lemma tunnel_step_transfers:
  assumes "tunnel_step ev c = (c', up, down)" "tunnel_inv c" "cc_phase c = ph_websocket_proxy"
  shows "transfers c (arrived_up ev) (arrived_down ev) c' up down"
proof -
  have "transfers c [] [] (close_now c) [] []" using assms(2) by (simp add: transfers_def tunnel_inv_def conn_simps)
  moreover have open': "\<not> closed c" using assms(3) by (simp add: closed_def)
  ultimately show ?thesis
  proof (cases ev)
    case (client_ready e revents)
    with \<open>transfers c [] [] (close_now c) [] []\<close> assms(1, 3) handle_client_transfers [of e revents c c' up down, OF _ assms(2) open']
    show ?thesis by (cases "hang_up revents") auto
  next
    case (upstream_ready e revents)
    with \<open>transfers c [] [] (close_now c) [] []\<close> assms(1, 3) handle_upstream_transfers [of e revents c c' up down, OF _ assms(2) open']
    show ?thesis by (cases "hang_up revents") auto
  qed
qed

text \<open>C14: The tunnel is transparent in both directions: over every sequence of events, whatever the sockets accept and however they
  block, the bytes the upstream gets are a prefix of what was waiting and what the client sent, in this order, and the bytes the client
  gets a prefix of what was waiting and what the upstream sent; as long as the tunnel is open the rest is exactly what
  the buffers hold, which stay within the configured limit. Nothing is lost, repeated or reordered.\<close>

theorem tunnel_transparent:
  assumes "tunnel_run evs c = (c', up, down)" "tunnel_inv c" "cc_phase c = ph_websocket_proxy"
  shows "tunnel_inv c' \<and> prefix up (pending_up c @ concat (map arrived_up evs)) \<and>
    prefix down (pending_down c @ concat (map arrived_down evs)) \<and>
    (cc_phase c' = ph_websocket_proxy \<longrightarrow>
       pending_up c @ concat (map arrived_up evs) = up @ pending_up c' \<and>
       pending_down c @ concat (map arrived_down evs) = down @ pending_down c')"
  using assms
proof (induction evs arbitrary: c up down)
  case (Cons ev evs)
  obtain c1 up1 down1 where s: "tunnel_step ev c = (c1, up1, down1)" by (metis prod_cases3)
  obtain up2 down2 where r: "tunnel_run evs c1 = (c', up2, down2)" "up = up1 @ up2" "down = down1 @ down2"
    using Cons.prems(1) s by (auto split: prod.splits)
  have t: "transfers c (arrived_up ev) (arrived_down ev) c1 up1 down1" by (rule tunnel_step_transfers [OF s Cons.prems(2, 3)])
  show ?case
  proof (cases "closed c1")
    case True
    have stay: "tunnel_run es c1 = (c1, [], [])" for es
    proof (induction es)
      case (Cons ev es)
      then show ?case using True by (cases ev) (auto simp: closed_def)
    qed simp
    with r have "c' = c1" "up2 = []" "down2 = []" by auto
    with t r True show ?thesis
      by (simp add: transfers_def closed_def) (metis append.assoc prefix_append prefix_order.trans prefixI)
  next
    case False
    with t have p: "cc_phase c1 = ph_websocket_proxy" "tunnel_inv c1" "pending_up c @ arrived_up ev = up1 @ pending_up c1"
        "pending_down c @ arrived_down ev = down1 @ pending_down c1"
      using Cons.prems(3) by (auto simp: transfers_def)
    have eq: "pending_up c @ concat (map arrived_up (ev # evs)) = up1 @ pending_up c1 @ concat (map arrived_up evs)"
      "pending_down c @ concat (map arrived_down (ev # evs)) = down1 @ pending_down c1 @ concat (map arrived_down evs)"
      using p(3, 4) by (metis append.assoc concat.simps(2) list.simps(9))+
    from Cons.IH [OF r(1) p(2, 1)] show ?thesis unfolding eq r(2, 3) append.assoc same_prefix_prefix by simp
  qed
qed simp

definition sample_tunnel :: client_conn where
  "sample_tunnel = new_client\<lparr>cc_phase := ph_websocket_proxy, wp_client_to_upstream := ''ab'', wp_client_to_upstream_offset := 1\<rparr>"

definition sample_tunnel_event :: tunnel_event where
  "sample_tunnel_event = client_ready ((sample_env 5 [])\<lparr>ce_recvs := [received ''cd'', received ''e'', recv_again EPOLLIN],
     ce_tunnel_sends := [sent 1, send_again EPOLLOUT, sent 9]\<rparr>) EPOLLIN"

theorem tunnel_transparent_witness:
  "\<exists>c' down. tunnel_run [sample_tunnel_event] sample_tunnel = (c', ''bcde'', down) \<and> prefix ''bcde'' (''b'' @ ''cde'')"
proof -
  have inv: "tunnel_inv sample_tunnel" "cc_phase sample_tunnel = ph_websocket_proxy" "pending_up sample_tunnel = ''b''"
    by (simp_all add: sample_tunnel_def new_client_def tunnel_inv_def pending_up_def pending_down_def websocket_proxy_buffer_limit_def)
  have arr: "concat (map arrived_up [sample_tunnel_event]) = ''cde''" by (simp add: sample_tunnel_event_def hang_up_def)
  have run: "\<exists>c' down. tunnel_run [sample_tunnel_event] sample_tunnel = (c', ''bcde'', down)"
    by (simp add: sample_tunnel_event_def sample_tunnel_def sample_env_def new_client_def hang_up_def handle_websocket_proxy_client_def
      append_client_to_upstream_def compact_pending flush_websocket_proxy_upstream_def flush_buffer.simps closed_def
      websocket_proxy_buffer_limit_def Let_def)
  then obtain c' down where r: "tunnel_run [sample_tunnel_event] sample_tunnel = (c', ''bcde'', down)" by blast
  with tunnel_transparent [OF r inv(1, 2)] show ?thesis unfolding arr inv(3) by auto
qed

end
