(* ===== verification/Client_Connection.thy ===== *)
theory Client_Connection
  imports Ws_Tunnel
begin

text \<open>
  The event handlers of a client connection (\<open>ClientConnection\<close> in \<open>src/src/core/server.cpp\<close>): reading, recognising the protocol,
  framing HTTP/1 requests and streaming their bodies, serving HTTP/2 streams, dispatching requests, writing responses,
  keep-alive, the WebSocket endpoint and the time-outs. An operation returns the connection and the state shared by all
  connections, the exception that leaves it, or nothing when it does not return.
\<close>

section \<open>Dispatching a request\<close>

definition request_should_keep_alive :: "server_config \<Rightarrow> request \<Rightarrow> bool" where
  "request_should_keep_alive config r \<longleftrightarrow>
     cfg_http_keep_alive_enabled config \<and> \<not> connection_header_has_token r ''close'' \<and>
     (rq_version r = ''HTTP/1.1'' \<or> rq_version r = ''HTTP/1.0'' \<and> connection_header_has_token r ''keep-alive'')"

definition world_of :: "client_env \<Rightarrow> server_globals \<Rightarrow> world" where
  "world_of e g = (ce_world e)\<lparr>w_spool := g_spool g\<rparr>"

text \<open>A request through a fresh handler factory, transaction and sink, as both protocols do it.\<close>

definition run_transaction :: "client_env \<Rightarrow> request \<Rightarrow> conn_state \<Rightarrow> (buffered_sink \<times> conn_state) run" where
  "run_transaction e r s =
     (case s of (c, g) \<Rightarrow>
        run_bind (run_lift s (r_bind (config_proxy_settings (cc_config c)) (\<lambda>settings.
            new_virtual_host_factory (cfg_document_root (cc_config c))
              (if cfg_virtual_hosts_enabled (cc_config c) then cfg_virtual_hosts (cc_config c) else [])
              settings (config_static_file_options (cc_config c))))) (\<lambda>factory.
          case dispatch buffered (virtual_host_create buffered (world_of e g) factory)
                 (new_transaction (of_int (cc_requests_served c)) r) new_buffered_sink (g_counter g, g_breakers g) of
            None \<Rightarrow> None
          | Some (tx, sink, counter, cbs) \<Rightarrow> run_return (sink, c, g\<lparr>g_counter := counter, g_breakers := cbs\<rparr>)))"

definition serve_request :: "client_env \<Rightarrow> request \<Rightarrow> bool \<Rightarrow> conn_state \<Rightarrow> conn_state run" where
  "serve_request e r keep_alive s =
     run_bind (run_transaction e r s) (\<lambda>(sink, c, g).
       if \<not> bs_sent sink then run_return (text_error (ce_it e) 500 ''Internal Server Error'' c, g)
       else run_return (set_serialized_response
              (sink_payload (ce_it e) (cc_config c) keep_alive (cfg_http_keep_alive_timeout_seconds (cc_config c))
                 (max 0 (cfg_http_keep_alive_max_requests (cc_config c) - cc_requests_served c)) sink) keep_alive c, g))"

definition dispatch_request :: "client_env \<Rightarrow> request \<Rightarrow> conn_state \<Rightarrow> conn_state run" where
  "dispatch_request e r s =
     (case s of (c, g) \<Rightarrow>
        case allow_request (cc_client_ip c) (cc_config c) (ce_now e) (g_security g) of
          (permitted, sec) \<Rightarrow>
            let g = g\<lparr>g_security := sec\<rparr> in
            if \<not> permitted then run_return (text_error (ce_it e) 429 ''Too Many Requests'' c, g)
            else
              run_bind (run_lift (c, g) (inspect_waf (world_of e g) (cc_config c) r)) (\<lambda>waf_response.
                case waf_response of
                  Some resp \<Rightarrow> run_return (set_response (ce_it e) resp body_included False c, g)
                | None \<Rightarrow>
                    let c = c\<lparr>cc_requests_served := cc_requests_served c + 1\<rparr>;
                        keep_alive = (request_should_keep_alive (cc_config c) r \<and>
                          \<not> cc_requests_served c \<ge> cfg_http_keep_alive_max_requests (cc_config c))
                    in run_bind (try_start_reverse_proxy e r keep_alive c g) (\<lambda>(started, s).
                         if started then run_return s else serve_request e r keep_alive s)))"

definition process_request :: "client_env \<Rightarrow> string \<Rightarrow> conn_state \<Rightarrow> conn_state run" where
  "process_request e raw_request s =
     (case s of (c, g) \<Rightarrow>
        case pr_request (parse_request raw_request) of
          None \<Rightarrow> run_return (text_error (ce_it e) 400 ''Bad Request'' c, g)
        | Some r \<Rightarrow> dispatch_request e r s)"

section \<open>HTTP/2\<close>

definition http2_goaway_frame :: "u32 \<Rightarrow> string \<Rightarrow> string result" where
  "http2_goaway_frame error_code debug_data =
     r_bind (serialize_frame (empty_frame\<lparr>fr_type := frame_type_value FT_goaway, fr_stream_id := 0,
        fr_payload := u32_payload 0 @ u32_payload error_code @ string_to_bytes debug_data\<rparr>) default_max_frame_size)
       (\<lambda>b. Inr (bytes_to_string b))"

definition error_no_error :: u32 where
  "error_no_error = 0x0"

definition set_http2_response :: "client_env \<Rightarrow> u32 \<Rightarrow> response \<Rightarrow> body_mode \<Rightarrow> string \<Rightarrow> conn_state \<Rightarrow> conn_state run" where
  "set_http2_response e stream_id resp mode before s =
     (case s of (c, g) \<Rightarrow>
        run_bind (run_lift s (serialize_response (ce_it e) stream_id resp mode (response_serialization_options (cc_config c))))
          (\<lambda>text. run_return (set_serialized_response (before @ text) True c, g)))"

definition dispatch_http2_request :: "client_env \<Rightarrow> u32 \<Rightarrow> request \<Rightarrow> string \<Rightarrow> conn_state \<Rightarrow> conn_state run" where
  "dispatch_http2_request e stream_id r before s =
     (case s of (c, g) \<Rightarrow>
        case allow_request (cc_client_ip c) (cc_config c) (ce_now e) (g_security g) of
          (permitted, sec) \<Rightarrow>
            let g = g\<lparr>g_security := sec\<rparr> in
            if \<not> permitted then
              set_http2_response e stream_id (text_response 429 (''Too Many Requests'' @ [LF]) plain_text) body_included before (c, g)
            else
              run_bind (run_lift (c, g) (inspect_waf (world_of e g) (cc_config c) r)) (\<lambda>waf_response.
                case waf_response of
                  Some resp \<Rightarrow> set_http2_response e stream_id resp body_included before (c, g)
                | None \<Rightarrow>
                    run_bind (run_transaction e r (c\<lparr>cc_requests_served := cc_requests_served c + 1\<rparr>, g)) (\<lambda>(sink, c, g).
                      if \<not> bs_sent sink then
                        set_http2_response e stream_id (text_response 500 (''Internal Server Error'' @ [LF]) plain_text) body_included before (c, g)
                      else
                        run_bind (run_lift (c, g) (serialize_response (ce_it e) stream_id (bs_response sink) (bs_body_mode sink)
                            (response_serialization_options (cc_config c)))) (\<lambda>text.
                          if cfg_http_keep_alive_max_requests (cc_config c) > 0 \<and>
                             cc_requests_served c \<ge> cfg_http_keep_alive_max_requests (cc_config c) then
                            run_bind (run_lift (c, g) (goaway_frame error_no_error ''Rimau HTTP/2 max requests reached'')) (\<lambda>goaway.
                              run_return (set_serialized_response (before @ text @ goaway) False c, g))
                          else run_return (set_serialized_response (before @ text) True c, g)))))"

text \<open>The flag says whether the caller may go on with the buffer.\<close>

definition handle_http2_session_result :: "client_env \<Rightarrow> session_result \<Rightarrow> conn_state \<Rightarrow> (bool \<times> conn_state) run" where
  "handle_http2_session_result e res s =
     (case s of (c, g) \<Rightarrow>
        if sr_close_now res then run_return (False, close_now c, g)
        else
          case sr_error_response res of
            Some resp \<Rightarrow>
              run_bind (set_http2_response e (sr_error_stream_id res) resp body_included (sr_output res) s) (\<lambda>s. run_return (False, s))
          | None \<Rightarrow>
              (case sr_completed_stream res of
                 Some stream \<Rightarrow>
                   run_bind (dispatch_http2_request e (cs_stream_id stream) (cs_request stream) (sr_output res) s) (\<lambda>s. run_return (False, s))
               | None \<Rightarrow>
                   if sr_output res \<noteq> [] then
                     run_return (False, set_serialized_response (sr_output res) (sr_keep_connection res) c, g)
                   else run_return (True, s)))"

text \<open>\<open>handle_http2_session_result\<close> lets the loop go on only for a result that made no progress, after which the loop ends: it
  runs once.\<close>

lemma session_result_continues:
  "handle_http2_session_result e res s = run_return (True, s') \<Longrightarrow>
   sr_output res = [] \<and> \<not> sr_close_now res \<and> sr_completed_stream res = None \<and> sr_error_response res = None \<and> s' = s"
  by (auto simp: handle_http2_session_result_def run_bind_def split: prod.splits if_splits option.splits sum.splits)

definition no_progress :: "session_result \<Rightarrow> bool" where
  "no_progress res \<longleftrightarrow> sr_output res = [] \<and> \<not> sr_close_now res \<and> sr_completed_stream res = None \<and> sr_error_response res = None"

function process_http2_frames :: "client_env \<Rightarrow> conn_state \<Rightarrow> conn_state run" where
  "process_http2_frames e s =
     (if cc_phase (fst s) = ph_reading \<and> cc_request_buffer (fst s) \<noteq> [] then
        case process_input (ce_it e) (cc_request_buffer (fst s)) (cfg_max_request_bytes (cc_config (fst s))) (cc_http2_session (fst s)) of
          (session, buffer, res) \<Rightarrow>
            (case res of
               Inl m \<Rightarrow> Some (Inl (m, (fst s)\<lparr>cc_http2_session := session, cc_request_buffer := buffer\<rparr>, snd s))
             | Inr res \<Rightarrow>
                 (case handle_http2_session_result e res ((fst s)\<lparr>cc_http2_session := session, cc_request_buffer := buffer\<rparr>, snd s) of
                    None \<Rightarrow> None
                  | Some (Inl x) \<Rightarrow> Some (Inl x)
                  | Some (Inr (go_on, s)) \<Rightarrow> if \<not> go_on \<or> no_progress res then run_return s else process_http2_frames e s))
      else run_return s)"
  by pat_completeness auto
termination
  by (relation "{}") (auto simp: no_progress_def dest: session_result_continues)

declare process_http2_frames.simps [simp del]

definition process_http2_prior_knowledge :: "client_env \<Rightarrow> conn_state \<Rightarrow> (bool \<times> conn_state) run" where
  "process_http2_prior_knowledge e s =
     (case s of (c, g) \<Rightarrow>
        if cc_ssl c \<and> \<not> cc_http2_tls_selected c then run_return (False, s)
        else
          case (if cfg_http2_enabled (cc_config c) then allow_request (cc_client_ip c) (cc_config c) (ce_now e) (g_security g)
                else (True, g_security g)) of
            (request_permitted, sec) \<Rightarrow>
              let g = g\<lparr>g_security := sec\<rparr> in
              case accept_preface (cc_request_buffer c) (cfg_max_request_bytes (cc_config c)) (cfg_http2_enabled (cc_config c))
                     request_permitted (cc_http2_session c) of
                (session, buffer, res) \<Rightarrow>
                  let c = c\<lparr>cc_http2_session := session, cc_request_buffer := buffer\<rparr> in
                  run_bind (run_lift (c, g) res) (\<lambda>res.
                    case pf_status res of
                      preface_not_http2 \<Rightarrow> run_return (False, c, g)
                    | preface_need_more \<Rightarrow> run_return (True, c, g)
                    | preface_rejected \<Rightarrow>
                        run_return (True, set_serialized_response (pf_output res) (pf_keep_connection res)
                          (c\<lparr>cc_request_started_at := 0, cc_body_started_at := 0, cc_waiting_for_body := False\<rparr>), g)
                    | preface_accepted \<Rightarrow>
                        run_return (True, set_serialized_response (pf_output res) (pf_keep_connection res)
                          (c\<lparr>cc_request_started_at := 0, cc_body_started_at := 0, cc_waiting_for_body := False, cc_http2_active := True\<rparr>), g)))"

section \<open>HTTP/1 requests\<close>

definition started_at :: "client_env \<Rightarrow> string \<Rightarrow> int" where
  "started_at e buffer = (if buffer = [] then 0 else ce_now e)"

definition try_handle_websocket_upgrade :: "client_env \<Rightarrow> request \<Rightarrow> nat \<Rightarrow> conn_state \<Rightarrow> (bool \<times> conn_state) run" where
  "try_handle_websocket_upgrade e r consumed s =
     (case s of (c, g) \<Rightarrow>
        if \<not> is_websocket_upgrade_request r then run_return (False, s)
        else
          let buffer = drop (min (length (cc_request_buffer c)) consumed) (cc_request_buffer c);
              c = c\<lparr>cc_request_buffer := buffer, cc_request_started_at := started_at e buffer\<rparr>
          in case allow_request (cc_client_ip c) (cc_config c) (ce_now e) (g_security g) of
               (permitted, sec) \<Rightarrow>
                 let g = g\<lparr>g_security := sec\<rparr> in
                 if \<not> permitted then run_return (True, text_error (ce_it e) 429 ''Too Many Requests'' c, g)
                 else
                   run_bind (run_lift (c, g) (inspect_waf (world_of e g) (cc_config c) r)) (\<lambda>waf_response.
                     case waf_response of
                       Some resp \<Rightarrow> run_return (True, set_response (ce_it e) resp body_included False c, g)
                     | None \<Rightarrow>
                         run_bind (try_start_websocket_proxy e r c g) (\<lambda>(started, c, g).
                           if started then run_return (True, c, g)
                           else
                             let c = c\<lparr>cc_requests_served := cc_requests_served c + 1\<rparr> in
                             run_bind (run_lift (c, g) (websocket_handshake_response (ce_sha1 e) r)) (\<lambda>resp.
                               run_return (True, set_websocket_handshake_response (ce_it e) resp c, g)))))"

definition start_http1_body_stream :: "client_env \<Rightarrow> request \<Rightarrow> http1_frame \<Rightarrow> client_conn \<Rightarrow> client_conn" where
  "start_http1_body_stream e r frame c =
     c\<lparr>cc_http1_body_stream := Some ((new_body_stream (16 * 1024))\<lparr>
         st_request := r, st_chunked := hf_chunked frame, st_header_bytes := hf_consumed frame,
         st_max_body_bytes := (if cfg_max_request_bytes (cc_config c) > hf_consumed frame
                               then cfg_max_request_bytes (cc_config c) - hf_consumed frame else 0),
         st_content_length := (case hf_content_length frame of None \<Rightarrow> 0 | Some n \<Rightarrow> n)\<rparr>),
       cc_request_buffer := drop (min (length (cc_request_buffer c)) (hf_consumed frame)) (cc_request_buffer c),
       cc_waiting_for_body := True,
       cc_body_started_at := (if cc_body_started_at c = 0 then ce_now e else cc_body_started_at c)\<rparr>"

definition fail_http1_body_stream :: "client_env \<Rightarrow> int \<Rightarrow> string \<Rightarrow> client_conn \<Rightarrow> client_conn" where
  "fail_http1_body_stream e status message c =
     set_response (ce_it e) (text_response status message plain_text) body_included False
       (c\<lparr>cc_http1_body_stream := None, cc_request_buffer := [], cc_waiting_for_body := False, cc_body_started_at := 0\<rparr>)"

definition finish_http1_body_stream :: "client_env \<Rightarrow> body_stream \<Rightarrow> string \<Rightarrow> conn_state \<Rightarrow> conn_state run" where
  "finish_http1_body_stream e st rest s =
     (case s of (c, g) \<Rightarrow>
        dispatch_request e (accumulator_finish (st_accumulator st) (st_request st))
          (c\<lparr>cc_http1_body_stream := None, cc_request_buffer := rest, cc_waiting_for_body := False, cc_body_started_at := 0,
             cc_request_started_at := started_at e rest\<rparr>, g\<lparr>g_spool := spooled (st_accumulator st) (g_spool g)\<rparr>))"

text \<open>The handler around a streamed body, which catches what reading the body and serving the request throw.\<close>

definition body_stream_exception :: "client_env \<Rightarrow> client_conn \<Rightarrow> client_conn" where
  "body_stream_exception e c =
     text_error (ce_it e) 500 ''Internal Server Error'' (c\<lparr>cc_http1_body_stream := None, cc_request_buffer := []\<rparr>)"

definition process_http1_body_stream :: "client_env \<Rightarrow> conn_state \<Rightarrow> conn_state run" where
  "process_http1_body_stream e s =
     (case s of (c, g) \<Rightarrow>
        case cc_http1_body_stream c of
          None \<Rightarrow> run_return s
        | Some st \<Rightarrow>
            (case process_body_stream (ce_spool_os e) st (cc_request_buffer c) of
               None \<Rightarrow> None
             | Some (stream_waiting st) \<Rightarrow> run_return (c\<lparr>cc_http1_body_stream := Some st, cc_request_buffer := []\<rparr>, g)
             | Some (stream_refused status message) \<Rightarrow> run_return (fail_http1_body_stream e status message c, g)
             | Some (stream_threw m) \<Rightarrow> run_return (body_stream_exception e c, g)
             | Some (stream_finished st rest) \<Rightarrow>
                 (case finish_http1_body_stream e st rest s of
                    None \<Rightarrow> None
                  | Some (Inl (m, c, g)) \<Rightarrow> run_return (body_stream_exception e c, g)
                  | Some (Inr s) \<Rightarrow> run_return s)))"

definition handle_http1_frame :: "client_env \<Rightarrow> http1_frame \<Rightarrow> conn_state \<Rightarrow> conn_state run" where
  "handle_http1_frame e frame s =
     (case s of (c, g) \<Rightarrow>
        case hf_state frame of
          frame_incomplete \<Rightarrow> run_return (c\<lparr>cc_waiting_for_body := hf_waiting_for_body frame\<rparr>, g)
        | frame_error \<Rightarrow>
            let c = (if hf_discard_buffer frame then c\<lparr>cc_request_buffer := []\<rparr>
                     else c\<lparr>cc_request_buffer := drop (min (length (cc_request_buffer c)) (hf_consumed frame)) (cc_request_buffer c)\<rparr>)
            in run_return (set_response (ce_it e) (text_response (hf_error_status frame) (hf_error_message frame) plain_text) body_included False c, g)
        | state \<Rightarrow>
            run_bind (case hf_request frame of None \<Rightarrow> run_return (False, s)
                      | Some r \<Rightarrow> try_handle_websocket_upgrade e r (hf_consumed frame) s) (\<lambda>(upgraded, c, g).
              if upgraded then run_return (c, g)
              else if state = frame_header_complete then
                (case hf_request frame of
                   Some r \<Rightarrow>
                     if hf_waiting_for_body frame then process_http1_body_stream e (start_http1_body_stream e r frame c, g)
                     else run_return (c\<lparr>cc_waiting_for_body := False\<rparr>, g)
                 | None \<Rightarrow>
                     run_return (c\<lparr>cc_waiting_for_body := hf_waiting_for_body frame,
                       cc_body_started_at := (if hf_waiting_for_body frame \<and> cc_body_started_at c = 0 then ce_now e else cc_body_started_at c)\<rparr>, g))
              else
                let rest = drop (hf_consumed frame) (cc_request_buffer c) in
                process_request e (hf_raw_request frame)
                  (c\<lparr>cc_request_buffer := rest, cc_waiting_for_body := False, cc_body_started_at := 0,
                     cc_request_started_at := started_at e rest\<rparr>, g)))"

definition process_buffered_request :: "client_env \<Rightarrow> conn_state \<Rightarrow> conn_state run" where
  "process_buffered_request e s =
     (if cc_phase (fst s) \<noteq> ph_reading then run_return s
      else if cc_http2_active (fst s) then process_http2_frames e s
      else
        run_bind (process_http2_prior_knowledge e s) (\<lambda>(handled, c, g).
          if handled then run_return (c, g)
          else if cc_http2_tls_selected c then
            run_bind (run_lift (c\<lparr>cc_request_buffer := []\<rparr>, g)
                (http2_goaway_frame error_protocol ''HTTP/2 TLS connection expected client connection preface'')) (\<lambda>goaway.
              run_return (set_serialized_response goaway False (c\<lparr>cc_request_buffer := []\<rparr>), g))
          else if \<not> cfg_http1_enabled (cc_config c) then
            run_return (text_error (ce_it e) 400 ''HTTP/1.1 is disabled in Rimau SQLite config'' (c\<lparr>cc_request_buffer := []\<rparr>), g)
          else
            case next_http1_request_frame (cfg_max_request_bytes (cc_config c)) (cc_request_buffer c) of
              None \<Rightarrow> None
            | Some frame \<Rightarrow> run_bind (run_lift (c, g) frame) (\<lambda>frame. handle_http1_frame e frame (c, g))))"

definition append_request_bytes :: "client_env \<Rightarrow> string \<Rightarrow> conn_state \<Rightarrow> conn_state run" where
  "append_request_bytes e chunk s =
     (case s of (c, g) \<Rightarrow>
        let c = (if cc_request_buffer c = []
                 then c\<lparr>cc_request_started_at := ce_now e, cc_body_started_at := 0, cc_waiting_for_body := False\<rparr> else c);
            c = c\<lparr>cc_request_buffer := cc_request_buffer c @ chunk\<rparr>
        in if cc_http1_body_stream c \<noteq> None then process_http1_body_stream e (c, g)
           else process_buffered_request e (c, g))"

section \<open>Reading and writing\<close>

fun read_request :: "client_env \<Rightarrow> recv_io list \<Rightarrow> conn_state \<Rightarrow> conn_state run" where
  "read_request e [] s = run_return ((fst s)\<lparr>cc_events := EPOLLIN\<rparr>, snd s)"
| "read_request e (received chunk # ios) s =
     (if chunk = [] then run_return (close_now (fst s), snd s)
      else run_bind (append_request_bytes e chunk ((fst s)\<lparr>cc_last_activity := ce_now e\<rparr>, snd s)) (\<lambda>s.
        if cc_phase (fst s) \<noteq> ph_reading then run_return s else read_request e ios s))"
| "read_request e (recv_again ev # ios) s = run_return ((fst s)\<lparr>cc_events := (if cc_ssl (fst s) then ev else EPOLLIN)\<rparr>, snd s)"
| "read_request e (recv_closed # ios) s = run_return (close_now (fst s), snd s)"
| "read_request e (recv_failed # ios) s = run_return (close_now (fst s), snd s)"

definition do_tls_handshake :: "client_env \<Rightarrow> client_conn \<Rightarrow> client_conn" where
  "do_tls_handshake e c =
     (case ce_tls e of
        tls_done _ \<Rightarrow> c\<lparr>cc_http2_tls_selected := (ce_alpn e = ''h2''), cc_phase := ph_reading, cc_events := EPOLLIN\<rparr>
      | tls_want ev \<Rightarrow> c\<lparr>cc_events := ev\<rparr>
      | tls_failed \<Rightarrow> close_now c)"

definition do_tls_shutdown :: "client_env \<Rightarrow> client_conn \<Rightarrow> client_conn" where
  "do_tls_shutdown e c = (case ce_tls e of tls_want ev \<Rightarrow> c\<lparr>cc_events := ev\<rparr> | _ \<Rightarrow> close_now c)"

definition websocket_of :: "client_conn \<Rightarrow> websocket_state" where
  "websocket_of c = \<lparr>ws_in = cc_request_buffer c, ws_out = cc_response_buffer c, ws_close_after_write = cc_websocket_close_after_write c\<rparr>"

definition connection_websocket_frames :: "conn_state \<Rightarrow> conn_state run" where
  "connection_websocket_frames s =
     (case s of (c, g) \<Rightarrow>
        run_bind (run_lift s (process_websocket_frames (cfg_websocket_max_frame_bytes (cc_config c)) (websocket_of c))) (\<lambda>w.
          run_return (c\<lparr>cc_request_buffer := ws_in w, cc_response_buffer := ws_out w,
            cc_websocket_close_after_write := ws_close_after_write w,
            cc_events := (if ws_out w = cc_response_buffer c then cc_events c else EPOLLIN OR EPOLLOUT)\<rparr>, g)))"

definition flush_websocket_writes :: "send_io list \<Rightarrow> client_conn \<Rightarrow> client_conn" where
  "flush_websocket_writes ios c =
     (case flush_buffer ios (cc_response_buffer c) (cc_response_offset c) of
        (r, offset, _) \<Rightarrow>
          (case r of
             flush_done \<Rightarrow>
               if cc_websocket_close_after_write c then close_now (c\<lparr>cc_response_buffer := [], cc_response_offset := 0\<rparr>)
               else c\<lparr>cc_response_buffer := [], cc_response_offset := 0, cc_events := EPOLLIN\<rparr>
           | flush_blocked ev \<Rightarrow>
               c\<lparr>cc_response_offset := offset, cc_events := (if cc_ssl c then ev OR EPOLLIN else EPOLLIN OR EPOLLOUT)\<rparr>
           | flush_failed \<Rightarrow> close_now (c\<lparr>cc_response_offset := offset\<rparr>)))"

fun read_websocket :: "client_env \<Rightarrow> recv_io list \<Rightarrow> conn_state \<Rightarrow> conn_state run" where
  "read_websocket e [] s =
     run_return ((fst s)\<lparr>cc_events := EPOLLIN OR (if cc_response_buffer (fst s) = [] then 0 else EPOLLOUT)\<rparr>, snd s)"
| "read_websocket e (received chunk # ios) s =
     (if chunk = [] then run_return (close_now (fst s), snd s)
      else run_bind (connection_websocket_frames
             ((fst s)\<lparr>cc_last_activity := ce_now e, cc_request_buffer := cc_request_buffer (fst s) @ chunk\<rparr>, snd s)) (\<lambda>s.
        if closed (fst s) then run_return s else read_websocket e ios s))"
| "read_websocket e (recv_again ev # ios) s =
     run_return ((fst s)\<lparr>cc_events :=
       (if cc_ssl (fst s) then ev else EPOLLIN) OR (if cc_response_buffer (fst s) = [] then 0 else EPOLLOUT)\<rparr>, snd s)"
| "read_websocket e (recv_closed # ios) s = run_return (close_now (fst s), snd s)"
| "read_websocket e (recv_failed # ios) s = run_return (close_now (fst s), snd s)"

definition handle_websocket :: "client_env \<Rightarrow> u32 \<Rightarrow> conn_state \<Rightarrow> conn_state run" where
  "handle_websocket e revents s =
     run_bind (if revents AND EPOLLIN \<noteq> 0 then read_websocket e (ce_recvs e) s else run_return s) (\<lambda>(c, g).
       run_return (if \<not> closed c \<and> (cc_response_buffer c \<noteq> [] \<or> revents AND EPOLLOUT \<noteq> 0)
                   then flush_websocket_writes (ce_sends e) c else c, g))"

definition enter_tunnel :: "client_env \<Rightarrow> send_io list \<Rightarrow> client_conn \<Rightarrow> client_conn" where
  "enter_tunnel e ios c =
     (let c = update_websocket_proxy_events c;
          c = (if wp_upstream_to_client c \<noteq> [] then fst (flush_websocket_proxy_client (ce_now e) ios c) else c);
          c = (if \<not> closed c \<and> wp_client_to_upstream c \<noteq> []
               then fst (flush_websocket_proxy_upstream (ce_now e) (ce_tunnel_sends e) c) else c)
      in if closed c then c else update_websocket_proxy_events c)"

definition finish_response :: "client_env \<Rightarrow> send_io list \<Rightarrow> conn_state \<Rightarrow> conn_state run" where
  "finish_response e ios s =
     (case s of (c, g) \<Rightarrow>
        if cc_websocket_after_response c then
          run_bind (connection_websocket_frames
              (c\<lparr>cc_websocket_after_response := False, cc_response_buffer := [], cc_response_offset := 0, cc_phase := ph_websocket,
                 cc_events := EPOLLIN, cc_last_activity := ce_now e\<rparr>, g)) (\<lambda>(c, g).
            run_return (if cc_response_buffer c \<noteq> [] then flush_websocket_writes ios c else c, g))
        else if cc_websocket_proxy_after_response c then
          run_return (enter_tunnel e ios
            (c\<lparr>cc_websocket_proxy_after_response := False, cc_response_buffer := [], cc_response_offset := 0,
               cc_phase := ph_websocket_proxy, cc_last_activity := ce_now e\<rparr>), g)
        else if cc_keep_alive_after_response c then
          process_buffered_request e
            (c\<lparr>cc_keep_alive_after_response := False, cc_response_buffer := [], cc_response_offset := 0, cc_phase := ph_reading,
               cc_events := EPOLLIN, cc_last_activity := ce_now e, cc_request_started_at := started_at e (cc_request_buffer c),
               cc_body_started_at := 0, cc_waiting_for_body := False\<rparr>, g)
        else if cc_ssl c then run_return (do_tls_shutdown e (c\<lparr>cc_phase := ph_tls_shutdown, cc_events := EPOLLOUT\<rparr>), g)
        else run_return (close_now c, g))"

definition write_response :: "client_env \<Rightarrow> conn_state \<Rightarrow> conn_state run" where
  "write_response e s =
     (case s of (c, g) \<Rightarrow>
        case flush_buffer (ce_sends e) (cc_response_buffer c) (cc_response_offset c) of
          (r, offset, ios) \<Rightarrow>
            let c = c\<lparr>cc_response_offset := offset\<rparr> in
            (case r of
               flush_done \<Rightarrow> finish_response e ios (c, g)
             | flush_blocked ev \<Rightarrow> run_return (c\<lparr>cc_events := (if cc_ssl c then ev else EPOLLOUT)\<rparr>, g)
             | flush_failed \<Rightarrow> run_return (close_now c, g)))"

section \<open>Events\<close>

definition handle_event :: "client_env \<Rightarrow> u32 \<Rightarrow> conn_state \<Rightarrow> conn_state run" where
  "handle_event e revents s =
     (case s of (c, g) \<Rightarrow>
        if closed c then run_return s
        else if cc_phase c \<noteq> ph_reverse_proxy \<and> hang_up revents then run_return (close_now c, g)
        else
          let ready = (revents AND (EPOLLIN OR EPOLLOUT OR EPOLLRDHUP) \<noteq> 0) in
          (case cc_phase c of
             ph_tls_handshake \<Rightarrow> run_return (do_tls_handshake e c, g)
           | ph_reading \<Rightarrow> if ready then read_request e (ce_recvs e) s else run_return s
           | ph_writing \<Rightarrow> if ready then write_response e s else run_return s
           | ph_websocket \<Rightarrow> handle_websocket e revents s
           | ph_websocket_proxy \<Rightarrow> run_return (fst (handle_websocket_proxy_client e revents c), g)
           | ph_reverse_proxy \<Rightarrow> run_return s
           | ph_tls_shutdown \<Rightarrow> run_return (do_tls_shutdown e c, g)
           | ph_closed \<Rightarrow> run_return s))"

definition handle_upstream :: "client_env \<Rightarrow> u32 \<Rightarrow> conn_state \<Rightarrow> conn_state run" where
  "handle_upstream e revents s =
     (case s of (c, g) \<Rightarrow>
        if cc_phase c = ph_reverse_proxy then
          (case handle_upstream_proxy e (g_spool g) revents c (g_breakers g) of
             None \<Rightarrow> None
           | Some (c, cbs) \<Rightarrow> run_return (c, g\<lparr>g_breakers := cbs\<rparr>))
        else if cc_phase c = ph_websocket_proxy then
          run_return (if hang_up revents then close_now c else fst (handle_websocket_proxy_upstream e revents c), g)
        else run_return s)"

definition idle_for :: "client_env \<Rightarrow> int \<Rightarrow> int \<Rightarrow> bool" where
  "idle_for e since limit \<longleftrightarrow> ce_now e - since \<ge> seconds limit"

definition expire_reading :: "client_env \<Rightarrow> client_conn \<Rightarrow> bool \<times> client_conn" where
  "expire_reading e c =
     (let config = cc_config c; timeout = text_error (ce_it e) 408 ''Request Timeout'' c in
      if cc_waiting_for_body c \<and> cc_body_started_at c \<noteq> 0 \<and> idle_for e (cc_body_started_at c) (cfg_body_timeout_seconds config) then
        (True, timeout)
      else if cc_requests_served c > 0 \<and> cc_request_buffer c = [] then
        (if \<not> cfg_http_keep_alive_enabled config \<or> idle_for e (cc_last_activity c) (cfg_idle_timeout_seconds config)
         then (True, close_now c) else (False, c))
      else if cc_request_buffer c = [] \<or> cc_request_started_at c = 0 then (False, c)
      else if idle_for e (cc_request_started_at c) (cfg_request_timeout_seconds config) then (True, timeout)
      else if \<not> cc_waiting_for_body c \<and> idle_for e (cc_request_started_at c) (cfg_header_timeout_seconds config) then (True, timeout)
      else (False, c))"

definition expire_if_timed_out :: "client_env \<Rightarrow> conn_state \<Rightarrow> (bool \<times> conn_state) run" where
  "expire_if_timed_out e s =
     (case s of (c, g) \<Rightarrow>
        let config = cc_config c; stale = (\<lambda>limit. idle_for e (cc_last_activity c) limit) in
        if closed c then run_return (False, s)
        else if cc_phase c = ph_tls_handshake \<and> stale (cfg_request_timeout_seconds config) then run_return (True, close_now c, g)
        else if cc_phase c = ph_websocket \<and> stale (cfg_idle_timeout_seconds config) then run_return (True, close_now c, g)
        else if cc_phase c = ph_websocket_proxy \<and> stale (cfg_idle_timeout_seconds config) then run_return (True, close_now c, g)
        else if cc_phase c = ph_reverse_proxy then
          (case expire_reverse_proxy e (g_spool g) c (g_breakers g) of
             (expired, c, cbs) \<Rightarrow> run_return (expired, c, g\<lparr>g_breakers := cbs\<rparr>))
        else if cc_phase c \<noteq> ph_reading then run_return (False, s)
        else if cc_http2_active c then
          (if cc_request_buffer c = [] then
             (if stale (cfg_idle_timeout_seconds config) then run_return (True, close_now c, g) else run_return (False, s))
           else if cc_request_started_at c \<noteq> 0 \<and> idle_for e (cc_request_started_at c) (cfg_request_timeout_seconds config) then
             run_bind (run_lift s (goaway_frame error_enhance_your_calm ''HTTP/2 request timeout'')) (\<lambda>goaway.
               run_return (True, set_serialized_response goaway False c, g))
           else run_return (False, s))
        else run_return (case expire_reading e c of (expired, c) \<Rightarrow> (expired, c, g)))"

end
