(* ===== verification/Connection_Service.thy ===== *)
theory Connection_Service
  imports Client_Connection
begin

text \<open>
  Properties of the client connection of \<open>Client_Connection\<close>: how bytes that arrive in pieces become one dispatched request and its
  response, which connections time out, and how many requests one connection serves.
\<close>

section \<open>A request without a body\<close>

definition idle_http1 :: "server_config \<Rightarrow> int \<Rightarrow> string \<Rightarrow> client_conn \<Rightarrow> bool" where
  "idle_http1 config served buffer c \<longleftrightarrow> cc_phase c = ph_reading \<and> \<not> cc_ssl c \<and> \<not> cc_http2_active c \<and> \<not> cc_http2_tls_selected c \<and>
     cc_http1_body_stream c = None \<and> cc_config c = config \<and> cc_requests_served c = served \<and> cc_request_buffer c = buffer"

text \<open>A raw that is one complete request head and nothing else.\<close>

definition bare_request :: "string \<Rightarrow> request \<Rightarrow> bool" where
  "bare_request raw r \<longleftrightarrow> find_sub (CRLF @ CRLF) raw = Some (length raw - 4) \<and> 4 \<le> length raw \<and>
     analyze_header_frame raw = new_analysis \<and> pr_request (parse_request raw) = Some r \<and> \<not> starts_with raw ''PRI''"

lemma find_sub_strict_prefix:
  assumes "find_sub n raw = Some (length raw - length n)" "raw = b @ d" "d \<noteq> []" "n \<noteq> []"
  shows "find_sub n b = None"
proof (rule ccontr)
  assume "find_sub n b \<noteq> None"
  then obtain i where i: "find_sub n b = Some i" by blast
  from find_sub_Some [OF this] have p: "prefix n (drop i b)" "i + length n \<le> length b" by auto
  then have "prefix n (drop i raw)" using assms(2) by (auto simp: prefix_def)
  moreover have "i < length raw - length n" using p(2) assms(2, 3, 4) by (cases d) auto
  ultimately show False using find_sub_least [OF assms(1)] by blast
qed

lemma preface_start: "client_connection_preface = ''PRI'' @ drop 3 client_connection_preface" "length client_connection_preface = 24"
  by (simp_all add: client_connection_preface_def)

lemma not_preface:
  assumes "\<not> starts_with raw ''PRI''" "prefix b raw" "b \<noteq> []"
    and "take (min (length b) 24) b = take (min (length b) 24) client_connection_preface"
  shows "length b < 3"
proof (rule ccontr)
  assume "\<not> length b < 3"
  then have "take 3 b = take 3 client_connection_preface"
    using arg_cong [OF assms(4), of "take 3"] by (simp add: min.assoc [symmetric] min_absorb1)
  then have "take 3 b = ''PRI''" by (subst (asm) preface_start) simp
  then show False using assms(1, 2) \<open>\<not> length b < 3\<close> by (auto simp: starts_with_def prefix_def) (metis append_take_drop_id append.assoc append_Cons append_Nil)
qed

lemma prior_knowledge_http1:
  assumes "idle_http1 config n b c" "\<not> cfg_rate_limit_enabled config" "\<not> starts_with raw ''PRI''" "prefix b raw" "b \<noteq> []"
  shows "\<exists>h. process_http2_prior_knowledge e (c, g) = run_return (h, c, g) \<and> (3 \<le> length b \<longrightarrow> \<not> h)"
proof -
  have allow: "allow_request ip config now s = (True, s)" for ip now s using assms(2) by (simp add: allow_request_def)
  let ?eq = "take (min (length b) 24) b = take (min (length b) 24) client_connection_preface"
  have "accept_preface b m h2 True s = (s, b, Inr (if ?eq then need_more_preface else no_preface))" for m h2 s
    using not_preface [OF assms(3-5)] assms(5) by (auto simp: accept_preface_def preface_start(2) Let_def)
  moreover have "\<not> (?eq \<and> 3 \<le> length b)" using not_preface [OF assms(3-5)] by auto
  ultimately show ?thesis
    using assms(1) allow
    by (auto simp: process_http2_prior_knowledge_def idle_http1_def need_more_preface_def no_preface_def)
qed

text \<open>Every proper prefix leaves the connection waiting.\<close>

lemma append_partial:
  assumes idle: "idle_http1 config n b c" and conf: "\<not> cfg_rate_limit_enabled config" "cfg_http1_enabled config"
    and whole: "bare_request raw r" "raw = b @ d @ rest" "rest \<noteq> []" "d \<noteq> []" "length raw \<le> cfg_max_request_bytes config"
  shows "\<exists>c'. append_request_bytes e d (c, g) = run_return (c', g) \<and> idle_http1 config n (b @ d) c'"
proof -
  define c1 where "c1 = (if cc_request_buffer c = []
      then c\<lparr>cc_request_started_at := ce_now e, cc_body_started_at := 0, cc_waiting_for_body := False\<rparr> else c)
      \<lparr>cc_request_buffer := b @ d\<rparr>"
  have idle1: "idle_http1 config n (b @ d) c1" using idle by (simp add: idle_http1_def c1_def)
  have "find_sub (CRLF @ CRLF) (b @ d) = None"
    using find_sub_strict_prefix [of "CRLF @ CRLF" raw "b @ d" rest] whole by (simp add: bare_request_def)
  then have frame: "next_http1_request_frame (cfg_max_request_bytes config) (b @ d) = Some (Inr (incomplete_frame False))"
    using whole(2, 5) by (simp add: next_http1_request_frame_def)
  obtain h where h: "process_http2_prior_knowledge e (c1, g) = run_return (h, c1, g)"
    using prior_knowledge_http1 [OF idle1 conf(1), of raw] whole by (auto simp: bare_request_def prefix_def)
  have app: "append_request_bytes e d (c, g) = process_buffered_request e (c1, g)"
    using idle by (simp add: append_request_bytes_def idle_http1_def c1_def Let_def)
  show ?thesis
    unfolding app using h frame idle1 conf(2)
    by (auto simp: process_buffered_request_def idle_http1_def handle_http1_frame_def incomplete_frame_def new_frame_def)
qed

lemma bare_request_frame:
  assumes "bare_request raw r" "length raw \<le> m"
  shows "next_http1_request_frame m raw =
    Some (Inr (new_frame\<lparr>hf_state := frame_complete, hf_request := Some r, hf_content_length := Some 0, hf_raw_request := raw,
       hf_consumed := length raw\<rparr>))"
  using assms by (auto simp: next_http1_request_frame_def bare_request_def new_analysis_def sized_frame_def Let_def)

text \<open>The whole request is dispatched once.\<close>

lemma append_complete:
  assumes idle: "idle_http1 config n b c" and conf: "\<not> cfg_rate_limit_enabled config" "cfg_http1_enabled config"
    and whole: "bare_request raw r" "raw = b @ d" "d \<noteq> []" "length raw \<le> cfg_max_request_bytes config"
    and upgrade: "\<not> is_websocket_upgrade_request r"
  shows "\<exists>c1. idle_http1 config n [] c1 \<and> cc_client_ip c1 = cc_client_ip c \<and> append_request_bytes e d (c, g) = dispatch_request e r (c1, g)"
proof -
  define c1 where "c1 = (if cc_request_buffer c = []
      then c\<lparr>cc_request_started_at := ce_now e, cc_body_started_at := 0, cc_waiting_for_body := False\<rparr> else c)
      \<lparr>cc_request_buffer := b @ d\<rparr>"
  have idle1: "idle_http1 config n (b @ d) c1" using idle by (simp add: idle_http1_def c1_def)
  have "3 \<le> length (b @ d)" "b @ d \<noteq> []" using whole by (auto simp: bare_request_def)
  then have h: "process_http2_prior_knowledge e (c1, g) = run_return (False, c1, g)"
    using prior_knowledge_http1 [OF idle1 conf(1), of raw e g] whole by (auto simp: bare_request_def)
  have app: "append_request_bytes e d (c, g) = process_buffered_request e (c1, g)"
    using idle by (simp add: append_request_bytes_def idle_http1_def c1_def Let_def)
  let ?c = "c1\<lparr>cc_request_buffer := [], cc_waiting_for_body := False, cc_body_started_at := 0, cc_request_started_at := 0\<rparr>"
  have parsed: "pr_request (parse_request raw) = Some r" using whole(1) by (simp add: bare_request_def)
  have "append_request_bytes e d (c, g) = dispatch_request e r (?c, g)"
    unfolding app using h bare_request_frame [OF whole(1, 4)] idle1 conf(2) upgrade whole(2) parsed
    by (simp add: process_buffered_request_def idle_http1_def handle_http1_frame_def new_frame_def try_handle_websocket_upgrade_def
      process_request_def started_at_def)
  moreover have "idle_http1 config n [] ?c" "cc_client_ip ?c = cc_client_ip c" using idle1 by (simp_all add: idle_http1_def c1_def)
  ultimately show ?thesis by blast
qed

lemma read_segments:
  assumes "idle_http1 config n b c" "\<not> cfg_rate_limit_enabled config" "cfg_http1_enabled config"
    and "bare_request raw r" "raw = b @ concat segs" "[] \<notin> set segs" "segs \<noteq> []" "length raw \<le> cfg_max_request_bytes config"
    and "\<not> is_websocket_upgrade_request r"
  shows "\<exists>c1. idle_http1 config n [] c1 \<and>
    read_request e (map received segs @ ios) (c, g) =
      run_bind (dispatch_request e r (c1, g)) (\<lambda>s. if cc_phase (fst s) \<noteq> ph_reading then run_return s else read_request e ios s)"
  using assms
proof (induction segs arbitrary: b c)
  case (Cons d segs)
  let ?c = "c\<lparr>cc_last_activity := ce_now e\<rparr>"
  have idle: "idle_http1 config n b ?c" using Cons.prems(1) by (simp add: idle_http1_def)
  show ?case
  proof (cases "segs = []")
    case True
    then obtain c1 where "idle_http1 config n [] c1" "append_request_bytes e d (?c, g) = dispatch_request e r (c1, g)"
      using append_complete [OF idle Cons.prems(2-4), of d e g] Cons.prems by auto
    with Cons.prems(6) True show ?thesis by auto
  next
    case False
    then obtain c1 where c1: "append_request_bytes e d (?c, g) = run_return (c1, g)" "idle_http1 config n (b @ d) c1"
      using append_partial [OF idle Cons.prems(2-4), of d "concat segs" e g] Cons.prems by (cases segs) auto
    moreover have "cc_phase c1 = ph_reading" using c1(2) by (simp add: idle_http1_def)
    ultimately show ?thesis using Cons.IH [OF c1(2) Cons.prems(2-4)] Cons.prems False by auto
  qed
qed simp

section \<open>The response\<close>

text \<open>A configuration without virtual hosts, WAF and rate limit.\<close>

definition plain_config :: "server_config \<Rightarrow> bool" where
  "plain_config config \<longleftrightarrow> cfg_http1_enabled config \<and> \<not> cfg_rate_limit_enabled config \<and> \<not> cfg_modsecurity_enabled config \<and>
     \<not> cfg_virtual_hosts_enabled config \<and> (\<exists>settings. config_proxy_settings config = Inr settings)"

lemma inspect_waf_off:
  "\<not> cfg_modsecurity_enabled config \<Longrightarrow> \<not> cfg_virtual_hosts_enabled config \<Longrightarrow> inspect_waf w config r = Inr None"
  by (simp add: inspect_waf_def config_waf_settings_def inspect_request_def new_waf_result_def Let_def default_waf_settings_def)

lemma sink_payload_text:
  "\<not> bs_chunked s \<Longrightarrow>
   sink_payload it config k (cfg_http_keep_alive_timeout_seconds config) (max 0 (cfg_http_keep_alive_max_requests config - served)) s =
   response_text it config served (bs_response s) (bs_body_mode s) k"
  by (simp add: sink_payload_def response_text_def Let_def)

lemma run_transaction_static:
  assumes "\<not> cfg_virtual_hosts_enabled (cc_config c)" "config_proxy_settings (cc_config c) = Inr settings"
    and "static_file_answer (world_of e g) (cfg_document_root (cc_config c)) (config_static_file_options (cc_config c)) r = (resp, m)"
  shows "run_transaction e r (c, g) = run_return (new_buffered_sink\<lparr>bs_sent := True, bs_last_status := rs_status resp,
    bs_response := resp, bs_body_mode := m\<rparr>, c, g)"
proof -
  have rules: "parse_virtual_host_rules [] = Inr []" by (simp add: parse_virtual_host_rules_def split_delimited_def getlines.simps)
  have none: "select_virtual_host_rule r [] = None"
    by (simp add: select_virtual_host_rule_def select_by_host_def Let_def split: option.split)
  have new: "buffered_answer new_buffered_sink = None" by (simp add: buffered_answer_def new_buffered_sink_def)
  let ?h = "static_file_handler buffered (world_of e g) (cfg_document_root (cc_config c)) (config_static_file_options (cc_config c)) ::
    (buffered_sink, proxy_globals) handler"
  have "run_handler buffered ?h r new_buffered_sink (g_counter g, g_breakers g) =
      Some (sk_send buffered resp m new_buffered_sink, (g_counter g, g_breakers g), tx_complete)"
    by (rule bsink.run_handler_sends [OF new]) (simp_all add: static_file_handler_def assms(3))
  then show ?thesis
    using assms(1, 2) rules none
    by (simp add: run_transaction_def new_virtual_host_factory_def dispatch_def virtual_host_create_def
      new_transaction_def buffered_def buffered_send_def new_buffered_sink_def)
qed

lemma dispatch_request_static:
  assumes idle: "idle_http1 config n b c" and conf: "plain_config config"
    and answer: "static_file_answer (world_of e g) (cfg_document_root config) (config_static_file_options config) r = (resp, m)"
    and keep: "k = (request_should_keep_alive config r \<and> n + 1 < cfg_http_keep_alive_max_requests config)"
  shows "\<exists>c'. dispatch_request e r (c, g) = run_return (c', g) \<and> cc_phase c' = ph_writing \<and> cc_response_offset c' = 0 \<and>
    cc_response_buffer c' = response_text (ce_it e) config (n + 1) resp m k \<and> cc_keep_alive_after_response c' = k \<and>
    cc_request_buffer c' = b \<and> cc_requests_served c' = n + 1"
proof -
  let ?c = "c\<lparr>cc_requests_served := n + 1\<rparr>"
  obtain settings where conf': "\<not> cfg_rate_limit_enabled config" "\<not> cfg_modsecurity_enabled config" "\<not> cfg_virtual_hosts_enabled config"
      "config_proxy_settings config = Inr settings"
    using conf by (auto simp: plain_config_def)
  have c: "cc_config c = config" "cc_requests_served c = n" "cc_request_buffer c = b" using idle by (simp_all add: idle_http1_def)
  have allow: "allow_request ip config now s = (True, s)" for ip now s using conf'(1) by (simp add: allow_request_def)
  have proxy: "try_start_reverse_proxy e r k ?c g = run_return (False, ?c, g)"
    using conf'(3) c(1) by (simp add: try_start_reverse_proxy_def reverse_proxy_upstreams_for_request_def)
  have "dispatch_request e r (c, g) = serve_request e r k (?c, g)"
    using c allow inspect_waf_off [OF conf'(2, 3)] proxy keep by (simp add: dispatch_request_def not_le)
  moreover have "run_transaction e r (?c, g) = run_return (new_buffered_sink\<lparr>bs_sent := True, bs_last_status := rs_status resp,
      bs_response := resp, bs_body_mode := m\<rparr>, ?c, g)"
    by (rule run_transaction_static) (use c conf' answer in simp_all)
  ultimately show ?thesis
    using c by (simp add: serve_request_def sink_payload_text new_buffered_sink_def set_serialized_response_def)
qed


definition sample_get :: string where
  "sample_get = ''GET /a.txt HTTP/1.1'' @ CRLF @ ''Host: x'' @ CRLF @ CRLF"

definition sample_globals :: server_globals where
  "sample_globals = \<lparr>g_security = new_security_state, g_counter = 0, g_breakers = Map.empty, g_spool = Map.empty\<rparr>"

definition sample_config :: server_config where
  "sample_config = default_server_config\<lparr>cfg_http1_enabled := True, cfg_rate_limit_enabled := False, cfg_modsecurity_enabled := False,
     cfg_virtual_hosts_enabled := False, cfg_document_root := ''/srv'', cfg_max_request_bytes := 1000,
     cfg_reverse_proxy_load_balancing_policy := ''failover''\<rparr>"

lemma sample_get_bare:
  "bare_request sample_get (the (pr_request (parse_request sample_get)))" "\<not> is_websocket_upgrade_request (the (pr_request (parse_request sample_get)))"
proof -
  have "find_sub (CRLF @ CRLF) sample_get = Some (length sample_get - 4)" "analyze_header_frame sample_get = new_analysis"
    "pr_request (parse_request sample_get) \<noteq> None" "\<not> starts_with sample_get ''PRI''" "4 \<le> length sample_get"
    by code_simp+
  then show "bare_request sample_get (the (pr_request (parse_request sample_get)))" by (auto simp: bare_request_def)
  show "\<not> is_websocket_upgrade_request (the (pr_request (parse_request sample_get)))" by code_simp
qed

lemma sample_config_plain: "plain_config sample_config" "cfg_max_request_bytes sample_config = 1000"
proof -
  have "parse_reverse_proxy_load_balancing_policy ''failover'' = Inr failover" by code_simp
  then show "plain_config sample_config" "cfg_max_request_bytes sample_config = 1000"
    by (simp_all add: plain_config_def sample_config_def config_proxy_settings_def)
qed


section \<open>What a dispatched request leaves behind\<close>

text \<open>The parts of a connection that no answer touches, and the ways a request can be answered: at once, or by the proxy later. A
  response keeps the connection only while the number of requests is below the limit.\<close>

definition same_session :: "client_conn \<Rightarrow> client_conn \<Rightarrow> bool" where
  "same_session c c' \<longleftrightarrow> cc_config c' = cc_config c \<and> cc_http1_body_stream c' = cc_http1_body_stream c \<and>
     cc_http2_active c' = cc_http2_active c \<and> cc_request_buffer c' = cc_request_buffer c"

abbreviation max_requests :: "client_conn \<Rightarrow> int" where
  "max_requests c \<equiv> cfg_http_keep_alive_max_requests (cc_config c)"

definition request_answered :: "client_conn \<Rightarrow> client_conn \<Rightarrow> bool" where
  "request_answered c c' \<longleftrightarrow>
     cc_phase c' = ph_writing \<and> cc_requests_served c' = cc_requests_served c \<and> \<not> cc_keep_alive_after_response c' \<or>
     cc_phase c' = ph_writing \<and> cc_requests_served c' = cc_requests_served c + 1 \<and>
       (cc_keep_alive_after_response c' \<longrightarrow> cc_requests_served c' < max_requests c') \<or>
     proxy_running c' \<and> cc_requests_served c' = cc_requests_served c + 1 \<and>
       (rp_keep_alive c' \<longrightarrow> cc_requests_served c' < max_requests c')"

lemmas response_defs = text_error_def set_response_def set_serialized_response_def set_websocket_handshake_response_def
  set_websocket_proxy_handshake_response_def

lemma try_start_reverse_proxy_cases:
  assumes "try_start_reverse_proxy e r keep c g = run_return (started, c', g')"
  shows "if started then same_session c c' \<and> cc_requests_served c' = cc_requests_served c \<and>
      (cc_phase c' = ph_writing \<and> (cc_keep_alive_after_response c' \<longrightarrow> keep) \<or> proxy_running c' \<and> (rp_keep_alive c' \<longrightarrow> keep))
    else c' = c \<and> g' = g"
proof (cases "reverse_proxy_upstreams_for_request r (cc_config c)")
  case (Inl m)
  with assms show ?thesis by (auto simp: try_start_reverse_proxy_def response_defs same_session_def)
next
  case (Inr ups)
  show ?thesis
  proof (cases ups)
    case None
    with assms Inr show ?thesis by (auto simp: try_start_reverse_proxy_def)
  next
    case (Some upstreams)
    obtain settings where settings: "config_proxy_settings (cc_config c) = Inr settings"
      using assms Inr Some by (cases "config_proxy_settings (cc_config c)") (auto simp: try_start_reverse_proxy_def)
    obtain ordered counter where ord: "ordered_reverse_proxy_upstreams r upstreams settings (g_counter g) = (ordered, counter)" by fastforce
    define c1 where "c1 = c\<lparr>rp_request := Some r, rp_settings := settings, rp_ordered_upstreams := ordered,
                      rp_keep_alive := keep,
                      rp_body_mode := (if rq_method r = ''HEAD'' then headers_only else body_included),
                      rp_attempt_index := 0, rp_skipped_open_circuit := False, rp_attempted_upstream := False,
                      rp_response_buffer := [], rp_upstream_request := [], rp_upstream_request_offset := 0,
                      rp_stage := stage_idle, rp_stage_started_at := ce_now e, cc_phase := ph_reverse_proxy, cc_events := 0\<rparr>"
    obtain c2 cbs where n: "start_next_reverse_proxy_attempt e (g_spool g) c1 (g_breakers g) = (c2, cbs)" by fastforce
    have c': "started" "c' = c2"
      using assms Inr Some settings ord n by (simp_all add: try_start_reverse_proxy_def Let_def c1_def)
    have "same_client c1 c2 \<and> (proxy_running c2 \<or> gave_up e c2)"
      using start_next_cases [OF n] by (auto simp: c1_def)
    with c' show ?thesis
      by (auto simp: same_client_def same_session_def c1_def gave_up_def answered_with_def)
  qed
qed

lemma run_bind_Inr: "run_bind m k = run_return y \<longleftrightarrow> (\<exists>x. m = run_return x \<and> k x = run_return y)"
  by (auto simp: run_bind_def split: option.split sum.split)

lemma run_lift_Inr: "run_lift s m = run_return x \<longleftrightarrow> m = Inr x"
  by (cases m) auto

lemma run_transaction_conn:
  "run_transaction e r (c, g) = run_return (sink, c', g') \<Longrightarrow> c' = c"
  by (auto simp: run_transaction_def run_bind_Inr split: option.splits prod.splits)

lemma serve_request_cases:
  assumes "serve_request e r keep (c, g) = run_return (c', g')"
  shows "same_session c c' \<and> cc_requests_served c' = cc_requests_served c \<and> cc_phase c' = ph_writing \<and> (cc_keep_alive_after_response c' \<longrightarrow> keep)"
  using assms
  by (auto simp: serve_request_def run_bind_Inr response_defs same_session_def dest!: run_transaction_conn split: if_splits)

lemma dispatch_request_cases:
  assumes "dispatch_request e r (c, g) = run_return (c', g')"
  shows "same_session c c' \<and> request_answered c c'"
proof -
  obtain ok sec where a: "allow_request (cc_client_ip c) (cc_config c) (ce_now e) (g_security g) = (ok, sec)" by fastforce
  let ?g = "g\<lparr>g_security := sec\<rparr>" and ?c = "c\<lparr>cc_requests_served := cc_requests_served c + 1\<rparr>"
  let ?k = "request_should_keep_alive (cc_config ?c) r \<and> \<not> cc_requests_served ?c \<ge> cfg_http_keep_alive_max_requests (cc_config ?c)"
  show ?thesis
  proof (cases ok)
    case False
    with assms a show ?thesis by (auto simp: dispatch_request_def response_defs same_session_def request_answered_def)
  next
    case True
    then obtain waf where w: "inspect_waf (world_of e ?g) (cc_config c) r = Inr waf"
      using assms a by (auto simp: dispatch_request_def run_bind_Inr run_lift_Inr Let_def)
    show ?thesis
    proof (cases waf)
      case (Some resp)
      with assms a True w show ?thesis by (auto simp: dispatch_request_def response_defs same_session_def request_answered_def)
    next
      case None
      then obtain started c1 g1 where t: "try_start_reverse_proxy e r ?k ?c ?g = run_return (started, c1, g1)"
          and rest: "(if started then run_return (c1, g1) else serve_request e r ?k (c1, g1)) = run_return (c', g')"
        using assms a True w by (auto simp: dispatch_request_def run_bind_Inr Let_def)
      from try_start_reverse_proxy_cases [OF t] rest serve_request_cases [of e r ?k c1 g1 c' g'] show ?thesis
        by (cases started) (auto simp: same_session_def request_answered_def)
    qed
  qed
qed

section \<open>Time-outs\<close>

text \<open>While the connection waits for the request head the clock is watched: once the header time-out has passed since the first byte, the
  next tick answers 408 and the connection closes after it. A request that is idle between two requests of a kept connection is
  closed.\<close>

lemma expire_head:
  assumes "idle_http1 config n b c" "b \<noteq> []" "cc_request_started_at c \<noteq> 0" "\<not> cc_waiting_for_body c"
    and "idle_for e (cc_request_started_at c) (cfg_header_timeout_seconds config)"
  shows "expire_if_timed_out e (c, g) = run_return (True, text_error (ce_it e) 408 ''Request Timeout'' c, g)"
  using assms by (simp add: expire_if_timed_out_def expire_reading_def idle_http1_def closed_def Let_def)

text \<open>C20: The body of a request is not watched. Each piece of a streamed body that finds the buffer empty, which every piece but the first
  does, resets \<open>waiting_for_body_\<close> and \<open>body_started_at_\<close>; as long as the first request of a connection is unfinished no
  clock tick ends it any more, however long the client waits.\<close>

theorem slow_body_never_expires:
  assumes "cc_phase c = ph_reading" "\<not> cc_http2_active c" "cc_requests_served c = 0" "cc_http1_body_stream c \<noteq> None" "cc_request_buffer c = []"
    and "append_request_bytes e chunk (c, g) = run_return (c1, g1)" "cc_http1_body_stream c1 \<noteq> None"
  shows "expire_if_timed_out e' (c1, g1) = run_return (False, c1, g1)"
proof -
  let ?c = "c\<lparr>cc_request_started_at := ce_now e, cc_body_started_at := 0, cc_waiting_for_body := False, cc_request_buffer := chunk\<rparr>"
  obtain st where st: "cc_http1_body_stream c = Some st" using assms(4) by blast
  have "process_http1_body_stream e (?c, g) = run_return (c1, g1)"
    using assms(5, 6) st by (simp add: append_request_bytes_def Let_def)
  then obtain st' where "c1 = ?c\<lparr>cc_http1_body_stream := Some st', cc_request_buffer := []\<rparr>"
    using st assms(7) dispatch_request_cases
    by (auto simp: process_http1_body_stream_def finish_http1_body_stream_def fail_http1_body_stream_def body_stream_exception_def
      response_defs same_session_def split: option.splits stream_outcome.splits sum.splits)
  then show ?thesis
    using assms(1-3) by (simp add: expire_if_timed_out_def expire_reading_def closed_def Let_def)
qed

definition sample_upload :: client_conn where
  "sample_upload = new_client\<lparr>cc_phase := ph_reading,
     cc_http1_body_stream := Some ((new_body_stream 16)\<lparr>st_content_length := 9\<rparr>)\<rparr>"

theorem slow_body_never_expires_witness:
  "\<exists>c1. append_request_bytes (sample_env 5 []) ''ab'' (sample_upload, sample_globals) = run_return (c1, sample_globals) \<and>
    expire_if_timed_out (sample_env 1000000000000000 []) (c1, sample_globals) = run_return (False, c1, sample_globals)"
proof -
  have stream: "\<exists>c1. append_request_bytes (sample_env 5 []) ''ab'' (sample_upload, sample_globals) = run_return (c1, sample_globals) \<and>
      cc_http1_body_stream c1 \<noteq> None"
    by (simp add: append_request_bytes_def sample_upload_def new_client_def process_http1_body_stream_def process_body_stream_def
      new_body_stream_def new_accumulator_def process_content_length_http1_body_stream.simps accumulator_append_def Let_def)
  then obtain c1 where "append_request_bytes (sample_env 5 []) ''ab'' (sample_upload, sample_globals) = run_return (c1, sample_globals)"
      "cc_http1_body_stream c1 \<noteq> None" by blast
  moreover have "cc_phase sample_upload = ph_reading" "\<not> cc_http2_active sample_upload" "cc_requests_served sample_upload = 0"
      "cc_http1_body_stream sample_upload \<noteq> None" "cc_request_buffer sample_upload = []"
    by (simp_all add: sample_upload_def new_client_def)
  ultimately show ?thesis using slow_body_never_expires by blast
qed

end
