(* ===== verification/Connection_Frame.thy ===== *)
theory Connection_Frame
  imports Connection_Service
begin

text \<open>
  What no event handler of a client connection changes: the address the connection was accepted from, its configuration and the
  counters of open connections. The event loop relies on it when it gives a connection back.
\<close>

section \<open>The frame\<close>

definition conn_owner :: "client_conn \<Rightarrow> string \<times> server_config" where
  "conn_owner c = (cc_client_ip c, cc_config c)"

lemma conn_owner_update [simp]:
  "conn_owner (c\<lparr>cc_ssl := x_0\<rparr>) = conn_owner c" "conn_owner (c\<lparr>cc_http2_tls_selected := x_1\<rparr>) = conn_owner c"
  "conn_owner (c\<lparr>cc_phase := x_2\<rparr>) = conn_owner c" "conn_owner (c\<lparr>cc_events := x_3\<rparr>) = conn_owner c"
  "conn_owner (c\<lparr>cc_request_buffer := x_4\<rparr>) = conn_owner c" "conn_owner (c\<lparr>cc_response_buffer := x_5\<rparr>) = conn_owner c"
  "conn_owner (c\<lparr>cc_response_offset := x_6\<rparr>) = conn_owner c" "conn_owner (c\<lparr>cc_keep_alive_after_response := x_7\<rparr>) = conn_owner c"
  "conn_owner (c\<lparr>cc_websocket_after_response := x_8\<rparr>) = conn_owner c" "conn_owner (c\<lparr>cc_websocket_proxy_after_response := x_9\<rparr>) = conn_owner c"
  "conn_owner (c\<lparr>cc_websocket_close_after_write := x_10\<rparr>) = conn_owner c" "conn_owner (c\<lparr>wp_client_to_upstream := x_11\<rparr>) = conn_owner c"
  "conn_owner (c\<lparr>wp_upstream_to_client := x_12\<rparr>) = conn_owner c" "conn_owner (c\<lparr>wp_client_to_upstream_offset := x_13\<rparr>) = conn_owner c"
  "conn_owner (c\<lparr>wp_upstream_to_client_offset := x_14\<rparr>) = conn_owner c" "conn_owner (c\<lparr>wp_client_extra_events := x_15\<rparr>) = conn_owner c"
  "conn_owner (c\<lparr>wp_upstream_extra_events := x_16\<rparr>) = conn_owner c" "conn_owner (c\<lparr>wp_upstream_tls := x_17\<rparr>) = conn_owner c"
  "conn_owner (c\<lparr>cc_http2_active := x_18\<rparr>) = conn_owner c" "conn_owner (c\<lparr>cc_http2_session := x_19\<rparr>) = conn_owner c"
  "conn_owner (c\<lparr>cc_http1_body_stream := x_20\<rparr>) = conn_owner c" "conn_owner (c\<lparr>cc_requests_served := x_21\<rparr>) = conn_owner c"
  "conn_owner (c\<lparr>cc_last_activity := x_22\<rparr>) = conn_owner c" "conn_owner (c\<lparr>cc_request_started_at := x_23\<rparr>) = conn_owner c"
  "conn_owner (c\<lparr>cc_body_started_at := x_24\<rparr>) = conn_owner c" "conn_owner (c\<lparr>cc_waiting_for_body := x_25\<rparr>) = conn_owner c"
  "conn_owner (c\<lparr>rp_request := x_26\<rparr>) = conn_owner c" "conn_owner (c\<lparr>rp_ordered_upstreams := x_27\<rparr>) = conn_owner c"
  "conn_owner (c\<lparr>rp_settings := x_28\<rparr>) = conn_owner c" "conn_owner (c\<lparr>rp_current_upstream := x_29\<rparr>) = conn_owner c"
  "conn_owner (c\<lparr>rp_upstream_request := x_30\<rparr>) = conn_owner c" "conn_owner (c\<lparr>rp_upstream_request_offset := x_31\<rparr>) = conn_owner c"
  "conn_owner (c\<lparr>rp_response_buffer := x_32\<rparr>) = conn_owner c" "conn_owner (c\<lparr>rp_keep_alive := x_33\<rparr>) = conn_owner c"
  "conn_owner (c\<lparr>rp_body_mode := x_34\<rparr>) = conn_owner c" "conn_owner (c\<lparr>rp_stage := x_35\<rparr>) = conn_owner c"
  "conn_owner (c\<lparr>rp_attempt_index := x_36\<rparr>) = conn_owner c" "conn_owner (c\<lparr>rp_skipped_open_circuit := x_37\<rparr>) = conn_owner c"
  "conn_owner (c\<lparr>rp_attempted_upstream := x_38\<rparr>) = conn_owner c" "conn_owner (c\<lparr>rp_extra_events := x_39\<rparr>) = conn_owner c"
  "conn_owner (c\<lparr>rp_stage_started_at := x_40\<rparr>) = conn_owner c"
  by (simp_all add: conn_owner_def)

definition conn_frame :: "conn_state \<Rightarrow> conn_state \<Rightarrow> bool" where
  "conn_frame s s' \<longleftrightarrow> conn_owner (fst s') = conn_owner (fst s) \<and>
     sec_active_connections_by_ip (g_security (snd s')) = sec_active_connections_by_ip (g_security (snd s)) \<and>
     sec_total_connections (g_security (snd s')) = sec_total_connections (g_security (snd s))"

lemma conn_frame_refl [simp, intro]: "conn_frame s s"
  by (simp add: conn_frame_def)

lemma conn_frame_trans [trans]: "conn_frame r s \<Longrightarrow> conn_frame s t \<Longrightarrow> conn_frame r t"
  by (simp add: conn_frame_def)

text \<open>A property of every state a call can end in, with a result or with an exception.\<close>

definition run_all :: "('a \<Rightarrow> conn_state) \<Rightarrow> (conn_state \<Rightarrow> bool) \<Rightarrow> 'a run \<Rightarrow> bool" where
  "run_all st P r \<longleftrightarrow> (case r of None \<Rightarrow> True | Some (Inl (m, s)) \<Rightarrow> P s | Some (Inr x) \<Rightarrow> P (st x))"

lemma run_all_simps [simp]:
  "run_all st P None" "run_all st P (Some (Inl y)) = P (snd y)" "run_all st P (run_return x) = P (st x)"
  by (auto simp: run_all_def split: prod.split)

lemma run_all_bind:
  assumes "run_all st P m" "\<And>x. m = run_return x \<Longrightarrow> P (st x) \<Longrightarrow> run_all st' P (k x)"
  shows "run_all st' P (run_bind m k)"
  using assms by (auto simp: run_all_def run_bind_def split: option.splits sum.splits)

lemma run_all_lift:
  assumes "P s" "\<And>x. m = Inr x \<Longrightarrow> run_all st P (k x)"
  shows "run_all st P (run_bind (run_lift s m) k)"
  using assms by (cases m) auto

abbreviation framed :: "conn_state \<Rightarrow> conn_state run \<Rightarrow> bool" where
  "framed s \<equiv> run_all (\<lambda>s. s) (conn_frame s)"

abbreviation framed_flag :: "conn_state \<Rightarrow> (bool \<times> conn_state) run \<Rightarrow> bool" where
  "framed_flag s \<equiv> run_all snd (conn_frame s)"

lemma run_all_mono: "run_all st P r \<Longrightarrow> (\<And>s. P s \<Longrightarrow> Q s) \<Longrightarrow> run_all st Q r"
  by (auto simp: run_all_def split: option.splits sum.splits)

lemma framed_from: "conn_frame s s' \<Longrightarrow> run_all st (conn_frame s') r \<Longrightarrow> run_all st (conn_frame s) r"
  by (erule run_all_mono) (rule conn_frame_trans)

section \<open>Responses and limits\<close>

lemma allow_request_counts:
  assumes "allow_request ip config now sec = (ok, sec')"
  shows "sec_active_connections_by_ip sec' = sec_active_connections_by_ip sec \<and> sec_total_connections sec' = sec_total_connections sec"
  using assms by (auto simp: allow_request_def Let_def split: if_splits)

lemma response_ip [simp]:
  "conn_owner (close_now c) = conn_owner c" "conn_owner (set_serialized_response t k c) = conn_owner c"
  "conn_owner (set_response it resp m k c) = conn_owner c" "conn_owner (text_error it n t c) = conn_owner c"
  "conn_owner (set_websocket_handshake_response it resp c) = conn_owner c"
  "conn_owner (set_websocket_proxy_handshake_response it resp c) = conn_owner c"
  by (simp_all add: close_now_def response_defs)

section \<open>The proxy\<close>

lemma flush_request_ip: "conn_owner (attempt_conn (flush_reverse_proxy_request e c)) = conn_owner c"
  by (auto simp: flush_reverse_proxy_request_def Let_def split: prod.split flush_end.split)

lemma start_writing_ip: "conn_owner (attempt_conn (start_writing e c)) = conn_owner c"
  by (simp add: start_writing_def flush_request_ip)

lemma tls_handshake_ip: "conn_owner (attempt_conn (drive_reverse_proxy_tls_handshake e c)) = conn_owner c"
  by (simp add: drive_reverse_proxy_tls_handshake_def start_writing_ip split: tls_outcome.split)

lemma tcp_connect_ip: "conn_owner (attempt_conn (finish_reverse_proxy_tcp_connect e c)) = conn_owner c"
  by (simp add: finish_reverse_proxy_tcp_connect_def start_writing_ip tls_handshake_ip)

lemma begin_attempt_ip: "conn_owner (attempt_conn (begin_attempt e spool u c)) = conn_owner c"
  by (simp add: begin_attempt_def Let_def tcp_connect_ip split: connect_outcome.split)

lemma start_next_ip: "conn_owner (fst (start_next_reverse_proxy_attempt e spool c cbs)) = conn_owner c"
proof (induction e spool c cbs rule: start_next_reverse_proxy_attempt.induct)
  case (1 e spool c cbs)
  show ?case
  proof (cases "cc_phase c = ph_reverse_proxy \<and> rp_attempt_index c < length (rp_ordered_upstreams c)")
    case True
    let ?u = "rp_ordered_upstreams c ! rp_attempt_index c" and ?c = "c\<lparr>rp_attempt_index := rp_attempt_index c + 1\<rparr>"
    obtain av cbs' where av: "reverse_proxy_upstream_available ?u (rp_settings ?c) (ce_now e) cbs = (av, cbs')" by fastforce
    have "conn_owner (attempt_conn (begin_attempt e spool ?u ?c)) = conn_owner c" by (simp add: begin_attempt_ip)
    then show ?thesis
      using 1 [OF True refl refl av [symmetric]] True av
      by (subst start_next_reverse_proxy_attempt.simps) (auto simp: Let_def split: attempt.split)
  next
    case False
    then show ?thesis by (subst start_next_reverse_proxy_attempt.simps) (auto simp: finish_reverse_proxy_failure_response_def)
  qed
qed

lemma fail_attempt_ip: "conn_owner (fst (fail_reverse_proxy_attempt e spool c cbs)) = conn_owner c"
  by (simp add: fail_reverse_proxy_attempt_def start_next_ip)

lemma settle_attempt_ip: "conn_owner (fst (settle_attempt e spool a cbs)) = conn_owner (attempt_conn a)"
  by (simp add: settle_attempt_def fail_attempt_ip split: attempt.split)

lemma read_proxy_ip: "conn_owner (read_conn (read_reverse_proxy_response now ios c)) = conn_owner c"
  by (induction now ios c rule: read_reverse_proxy_response.induct) auto

lemma finish_proxy_ip:
  "finish_reverse_proxy_response e spool c cbs = Some (c', cbs') \<Longrightarrow> conn_owner c' = conn_owner c"
  using fail_attempt_ip [of e spool "c\<lparr>rp_response_buffer := []\<rparr>" cbs]
  by (auto simp: finish_reverse_proxy_response_def split: option.splits sum.splits)

lemma handle_proxy_ip:
  assumes "handle_upstream_proxy e spool revents c cbs = Some (c', cbs')"
  shows "conn_owner c' = conn_owner c"
proof -
  obtain c1 cbs1 where s: "(if rp_stage c = stage_writing_request \<and> revents AND (EPOLLIN OR EPOLLOUT) \<noteq> 0
      then settle_attempt e spool (flush_reverse_proxy_request e c) cbs else (c, cbs)) = (c1, cbs1)" by fastforce
  have c1: "conn_owner c1 = conn_owner c"
    using settle_attempt_ip [of e spool "flush_reverse_proxy_request e c" cbs] flush_request_ip [of e c] s by (auto split: if_splits)
  let ?r = "read_reverse_proxy_response (ce_now e) (uo_recvs (current_os e c1)) c1"
  have r: "conn_owner (read_conn ?r) = conn_owner c" using c1 by (simp add: read_proxy_ip)
  have settled: "conn_owner c' = conn_owner (attempt_conn a)" if "settle_attempt e spool a cbs0 = (c', cbs')" for a cbs0
    using settle_attempt_ip [of e spool a cbs0] that by simp
  have failed: "conn_owner c' = conn_owner c0" if "fail_reverse_proxy_attempt e spool c0 cbs0 = (c', cbs')" for c0 cbs0
    using fail_attempt_ip [of e spool c0 cbs0] that by simp
  show ?thesis
    using assms r c1 unfolding handle_upstream_proxy_def handle_reverse_proxy_upstream_def s prod.case
    by (auto simp: tcp_connect_ip tls_handshake_ip split: if_splits read_end.splits dest!: finish_proxy_ip settled failed)
qed

lemma expire_proxy_ip:
  "expire_reverse_proxy e spool c cbs = (x, c', cbs') \<Longrightarrow> conn_owner c' = conn_owner c"
  using fail_attempt_ip [of e spool c cbs] by (auto simp: expire_reverse_proxy_def split: if_splits)

lemma try_start_reverse_proxy_framed: "framed_flag (c, g) (try_start_reverse_proxy e r keep c g)"
proof -
  have next_ip: "conn_owner c'' = conn_owner c'" if "start_next_reverse_proxy_attempt e spool c' cbs = (c'', cbs')" for spool c' c'' cbs cbs'
    using start_next_ip [of e spool c' cbs] that by simp
  show ?thesis unfolding try_start_reverse_proxy_def
    by (auto simp: conn_frame_def Let_def intro!: run_all_lift dest!: next_ip split: sum.split option.split prod.split)
qed

section \<open>The tunnel\<close>

lemma append_ip [simp]:
  "conn_owner (append_client_to_upstream chunk c) = conn_owner c" "conn_owner (append_upstream_to_client chunk c) = conn_owner c"
  by (simp_all add: append_client_to_upstream_def append_upstream_to_client_def Let_def split: prod.split)

lemma websocket_attempts_ip:
  "conn_owner (fst (websocket_proxy_attempts e r settings early k us skipped attempted c cbs)) = conn_owner c"
  by (induction e r settings early k us skipped attempted c cbs rule: websocket_proxy_attempts.induct)
    (auto simp: Let_def split: prod.split option.split)

lemma try_start_websocket_proxy_framed: "framed_flag (c, g) (try_start_websocket_proxy e r c g)"
proof -
  have ip: "conn_owner c'' = conn_owner c'"
    if "websocket_proxy_attempts e r settings early k us skipped attempted c' cbs = (c'', cbs')"
    for settings early k us skipped attempted c' cbs c'' cbs'
    using websocket_attempts_ip [of e r settings early k us skipped attempted c' cbs] that by simp
  show ?thesis unfolding try_start_websocket_proxy_def
    by (auto simp: conn_frame_def Let_def intro!: run_all_lift dest!: ip split: sum.split option.split prod.split)
qed

lemma flush_tunnel_ip:
  "conn_owner (fst (flush_websocket_proxy_client now ios c)) = conn_owner c"
  "conn_owner (fst (flush_websocket_proxy_upstream now ios c)) = conn_owner c"
  by (auto simp: flush_websocket_proxy_client_def flush_websocket_proxy_upstream_def Let_def split: prod.split flush_end.split)

lemma flush_tunnel_ipD:
  "flush_websocket_proxy_client now ios c = (c', x) \<Longrightarrow> conn_owner c' = conn_owner c"
  "flush_websocket_proxy_upstream now ios c = (c', x) \<Longrightarrow> conn_owner c' = conn_owner c"
  using flush_tunnel_ip [of now ios c] by simp_all

lemma read_tunnel_client_ip: "conn_owner (fst (read_websocket_proxy_client now ios sends c)) = conn_owner c"
proof (induction now ios sends c rule: read_websocket_proxy_client.induct)
  case (2 now chunk ios sends c)
  let ?c = "append_client_to_upstream chunk (c\<lparr>cc_last_activity := now, wp_client_extra_events := 0\<rparr>)"
  obtain c1 s1 out where f: "flush_websocket_proxy_upstream now sends ?c = (c1, s1, out)" by (metis prod_cases3)
  have "conn_owner c1 = conn_owner c" using flush_tunnel_ipD(2) [OF f] by simp
  with 2 [OF _ refl _ f [symmetric] refl] f show ?case by (auto simp: Let_def split: prod.split)
qed simp_all

lemma read_tunnel_upstream_ip: "conn_owner (fst (read_websocket_proxy_upstream now ios sends c)) = conn_owner c"
proof (induction now ios sends c rule: read_websocket_proxy_upstream.induct)
  case (2 now chunk ios sends c)
  let ?c = "append_upstream_to_client chunk (c\<lparr>cc_last_activity := now, wp_upstream_extra_events := 0\<rparr>)"
  obtain c1 s1 out where f: "flush_websocket_proxy_client now sends ?c = (c1, s1, out)" by (metis prod_cases3)
  have "conn_owner c1 = conn_owner c" using flush_tunnel_ipD(1) [OF f] by simp
  with 2 [OF _ refl _ f [symmetric] refl] f show ?case by (auto simp: Let_def split: prod.split)
qed simp_all

lemma handle_tunnel_ip:
  "conn_owner (fst (handle_websocket_proxy_client e revents c)) = conn_owner c"
  "conn_owner (fst (handle_websocket_proxy_upstream e revents c)) = conn_owner c"
proof -
  have read: "conn_owner c2 = conn_owner c1"
    if "(if b then read_websocket_proxy_client now ios sends c1 else (c1, x)) = (c2, y) \<or>
      (if b then read_websocket_proxy_upstream now ios sends c1 else (c1, x)) = (c2, y)" for b now ios sends c1 c2 x y
    using that read_tunnel_client_ip [of now ios sends c1] read_tunnel_upstream_ip [of now ios sends c1] by (auto split: if_splits)
  have update: "conn_owner (update_websocket_proxy_events c1) = conn_owner c1" for c1
    by (simp add: update_websocket_proxy_events_def)
  show "conn_owner (fst (handle_websocket_proxy_client e revents c)) = conn_owner c"
    unfolding handle_websocket_proxy_client_def by (split prod.split, intro allI impI)
      (auto simp: update dest!: read [OF disjI1] flush_tunnel_ipD split: prod.split)
  show "conn_owner (fst (handle_websocket_proxy_upstream e revents c)) = conn_owner c"
    unfolding handle_websocket_proxy_upstream_def by (split prod.split, intro allI impI)
      (auto simp: update dest!: read [OF disjI2] flush_tunnel_ipD split: prod.split)
qed

section \<open>Requests\<close>

lemma run_transaction_framed: "run_all snd (conn_frame s) (run_transaction e r s)"
  by (cases s) (auto simp: run_transaction_def conn_frame_def intro!: run_all_lift split: option.split)

lemma serve_request_framed: "framed s (serve_request e r keep s)"
  unfolding serve_request_def
  by (rule run_all_bind [OF run_transaction_framed]) (auto simp: conn_frame_def)

lemma dispatch_request_framed: "framed s (dispatch_request e r s)"
proof -
  obtain c g where s: "s = (c, g)" by fastforce
  obtain ok sec where a: "allow_request (cc_client_ip c) (cc_config c) (ce_now e) (g_security g) = (ok, sec)" by fastforce
  let ?g = "g\<lparr>g_security := sec\<rparr>" and ?c = "c\<lparr>cc_requests_served := cc_requests_served c + 1\<rparr>"
  have frame: "conn_frame (c, g) (c, ?g)" "conn_frame (c, g) (?c, ?g)"
    using allow_request_counts [OF a] by (simp_all add: conn_frame_def)
  have start: "framed_flag (c, g) (try_start_reverse_proxy e r keep ?c ?g)" for keep
    by (rule framed_from [OF frame(2) try_start_reverse_proxy_framed])
  have "framed (c, g) (run_bind (try_start_reverse_proxy e r keep ?c ?g) (\<lambda>(started, s).
      if started then run_return s else serve_request e r keep' s))" for keep keep'
    by (rule run_all_bind [OF start]) (auto intro: framed_from [OF _ serve_request_framed])
  with frame show ?thesis
    by (auto simp: s a dispatch_request_def Let_def conn_frame_def intro!: run_all_lift split: option.split)
qed

lemma process_request_framed: "framed s (process_request e raw s)"
  by (cases s) (auto simp: process_request_def dispatch_request_framed conn_frame_def [of _ "(text_error _ _ _ _, _)"] split: option.split)

lemma set_http2_response_framed: "framed s (set_http2_response e sid resp m before s)"
  by (cases s) (auto simp: set_http2_response_def conn_frame_def intro!: run_all_lift)

lemma dispatch_http2_framed: "framed s (dispatch_http2_request e sid r before s)"
proof -
  obtain c g where s: "s = (c, g)" by fastforce
  obtain ok sec where a: "allow_request (cc_client_ip c) (cc_config c) (ce_now e) (g_security g) = (ok, sec)" by fastforce
  let ?g = "g\<lparr>g_security := sec\<rparr>" and ?c = "c\<lparr>cc_requests_served := cc_requests_served c + 1\<rparr>"
  have frame: "conn_frame s (c, ?g)" "conn_frame s (?c, ?g)"
    using allow_request_counts [OF a] by (simp_all add: s conn_frame_def)
  have error: "framed s (set_http2_response e sid resp m before s')" if "conn_frame s s'" for resp m s'
    by (rule framed_from [OF that set_http2_response_framed])
  have set: "conn_frame s (set_serialized_response t k c', g') = conn_frame s (c', g')" for t k c' g'
    by (simp add: conn_frame_def)
  have served: "framed s (run_bind (run_transaction e r (?c, ?g)) k)" if "\<And>sink c' g'. conn_frame s (c', g') \<Longrightarrow> framed s (k (sink, c', g'))" for k
    by (rule run_all_bind [OF framed_from [OF frame(2) run_transaction_framed]]) (auto intro: that)
  have rest: "framed s (if \<not> bs_sent sink then
                        set_http2_response e sid (text_response 500 (''Internal Server Error'' @ [LF]) plain_text) body_included before (c', g')
                      else
                        run_bind (run_lift (c', g') (serialize_response (ce_it e) sid (bs_response sink) (bs_body_mode sink)
                            (response_serialization_options (cc_config c')))) (\<lambda>text.
                          if cfg_http_keep_alive_max_requests (cc_config c') > 0 \<and>
                             cc_requests_served c' \<ge> cfg_http_keep_alive_max_requests (cc_config c') then
                            run_bind (run_lift (c', g') (goaway_frame error_no_error ''Rimau HTTP/2 max requests reached'')) (\<lambda>goaway.
                              run_return (set_serialized_response (before @ text @ goaway) False c', g'))
                          else run_return (set_serialized_response (before @ text) True c', g')))" if "conn_frame s (c', g')" for sink c' g'
    using that error set by (auto intro!: run_all_lift)
  show ?thesis
  proof (cases ok)
    case False
    then show ?thesis using error [OF frame(1)] by (simp add: s a dispatch_http2_request_def)
  next
    case True
    have bind: "framed s (run_bind (run_transaction e r (?c, ?g)) (\<lambda>(sink, c', g'). k sink c' g'))"
      if "\<And>sink c' g'. conn_frame s (c', g') \<Longrightarrow> framed s (k sink c' g')" for k
      by (rule served) (simp add: that)
    have "framed s (case waf of None \<Rightarrow> run_bind (run_transaction e r (?c, ?g)) (\<lambda>(sink, c', g'). k sink c' g')
        | Some resp \<Rightarrow> set_http2_response e sid resp body_included before (c, ?g))"
      if "\<And>sink c' g'. conn_frame s (c', g') \<Longrightarrow> framed s (k sink c' g')" for waf k
      using error [OF frame(1)] bind [OF that] by (auto split: option.split)
    from run_all_lift [OF frame(1) this, OF rest] True show ?thesis
      by (simp only: s a dispatch_http2_request_def prod.case Let_def not_True_eq_False if_False)
  qed
qed


lemma session_result_framed: "framed_flag s (handle_http2_session_result e res s)"
proof -
  obtain c g where s: "s = (c, g)" by fastforce
  have "framed_flag s (run_bind r (\<lambda>s. run_return (False, s)))" if "framed s r" for r
    by (rule run_all_bind [OF that]) auto
  note flag = this [OF set_http2_response_framed] this [OF dispatch_http2_framed]
  show ?thesis using flag
    by (auto simp: handle_http2_session_result_def s conn_frame_def [of _ "(close_now _, _)"]
      conn_frame_def [of _ "(set_serialized_response _ _ _, _)"] split: option.split)
qed

text \<open>The loop over the buffer runs once.\<close>

lemma process_http2_frames_once:
  "process_http2_frames e s =
     (if cc_phase (fst s) = ph_reading \<and> cc_request_buffer (fst s) \<noteq> [] then
        case process_input (ce_it e) (cc_request_buffer (fst s)) (cfg_max_request_bytes (cc_config (fst s))) (cc_http2_session (fst s)) of
          (session, buffer, res) \<Rightarrow>
            let s1 = ((fst s)\<lparr>cc_http2_session := session, cc_request_buffer := buffer\<rparr>, snd s) in
            run_bind (run_lift s1 res) (\<lambda>res. run_bind (handle_http2_session_result e res s1) (\<lambda>(go_on, s). run_return s))
      else run_return s)"
proof -
  have stop: "no_progress res" if "handle_http2_session_result e res s1 = run_return (True, s2)" for res s1 s2
    using session_result_continues [OF that] by (simp add: no_progress_def)
  show ?thesis
    by (subst process_http2_frames.simps) (auto simp: Let_def run_bind_def dest: stop split: prod.split sum.split option.split)
qed

lemma process_http2_frames_framed: "framed s (process_http2_frames e s)"
proof -
  have frame: "conn_frame s ((fst s)\<lparr>cc_http2_session := session, cc_request_buffer := buffer\<rparr>, snd s)" for session buffer
    by (simp add: conn_frame_def)
  have "framed s (run_bind (handle_http2_session_result e res s1) (\<lambda>(go_on, s). run_return s))" if "conn_frame s s1" for res s1
    by (rule run_all_bind [OF framed_from [OF that session_result_framed]]) auto
  with frame show ?thesis
    unfolding process_http2_frames_once by (auto simp: Let_def intro!: run_all_lift split: prod.split)
qed

lemma prior_knowledge_framed: "framed_flag s (process_http2_prior_knowledge e s)"
proof -
  obtain c g where s: "s = (c, g)" by fastforce
  obtain ok sec where a: "(if cfg_http2_enabled (cc_config c) then allow_request (cc_client_ip c) (cc_config c) (ce_now e) (g_security g)
                else (True, g_security g)) = (ok, sec)" by fastforce
  have "sec_active_connections_by_ip sec = sec_active_connections_by_ip (g_security g)" "sec_total_connections sec = sec_total_connections (g_security g)"
    using a allow_request_counts by (auto split: if_splits)
  then show ?thesis unfolding s process_http2_prior_knowledge_def prod.case a
    by (auto simp: Let_def conn_frame_def intro!: run_all_lift split: prod.split preface_status.split)
qed

lemma upgrade_framed: "framed_flag s (try_handle_websocket_upgrade e r consumed s)"
proof -
  obtain c g where s: "s = (c, g)" by fastforce
  define c1 where "c1 = c\<lparr>cc_request_buffer := drop (min (length (cc_request_buffer c)) consumed) (cc_request_buffer c),
    cc_request_started_at := started_at e (drop (min (length (cc_request_buffer c)) consumed) (cc_request_buffer c))\<rparr>"
  obtain ok sec where a: "allow_request (cc_client_ip c1) (cc_config c1) (ce_now e) (g_security g) = (ok, sec)" by fastforce
  let ?g = "g\<lparr>g_security := sec\<rparr>"
  have frame: "conn_frame s (c1, ?g)" using allow_request_counts [OF a] by (simp add: s c1_def conn_frame_def)
  have ip: "conn_frame s (text_error it n t c', g') = conn_frame s (c', g')" "conn_frame s (set_response it resp m k c', g') = conn_frame s (c', g')"
      "conn_frame s (set_websocket_handshake_response it resp c', g') = conn_frame s (c', g')"
      "conn_frame s (c'\<lparr>cc_requests_served := n'\<rparr>, g') = conn_frame s (c', g')" for it n t resp m k c' g' n'
    by (simp_all add: conn_frame_def)
  have bind: "framed_flag s (run_bind (try_start_websocket_proxy e r c1 ?g) (\<lambda>(started, c, g). k started c g))"
    if "\<And>started c' g'. conn_frame s (c', g') \<Longrightarrow> framed_flag s (k started c' g')" for k
    by (rule run_all_bind [OF framed_from [OF frame try_start_websocket_proxy_framed]]) (auto intro: that)
  show ?thesis
    unfolding s try_handle_websocket_upgrade_def prod.case Let_def c1_def [symmetric] a using frame
    by (auto simp: ip s [symmetric] intro!: run_all_lift bind split: option.split)
qed

lemma body_stream_framed: "framed s (process_http1_body_stream e s)"
proof -
  obtain c g where s: "s = (c, g)" by fastforce
  have finish: "framed s (finish_http1_body_stream e st rest s)" for st rest
    unfolding s finish_http1_body_stream_def prod.case
    by (rule framed_from [OF _ dispatch_request_framed]) (simp add: conn_frame_def)
  have "conn_frame s (body_stream_exception e c', g') = conn_frame s (c', g')" "conn_frame s (fail_http1_body_stream e n t c', g') = conn_frame s (c', g')"
    for c' g' n t by (simp_all add: body_stream_exception_def fail_http1_body_stream_def conn_frame_def)
  moreover have "conn_frame s (c\<lparr>cc_http1_body_stream := x, cc_request_buffer := y\<rparr>, g)" for x y by (simp add: s conn_frame_def)
  moreover have "framed s (case finish_http1_body_stream e st rest s of None \<Rightarrow> None
      | Some (Inl (m, c, g)) \<Rightarrow> run_return (body_stream_exception e c, g) | Some (Inr s) \<Rightarrow> run_return s)" for st rest
    using finish [of st rest] calculation(1) by (auto split: option.split sum.split)
  ultimately show ?thesis
    by (simp add: process_http1_body_stream_def s split: option.split stream_outcome.split)
qed

lemma http1_frame_framed: "framed s (handle_http1_frame e frame s)"
proof -
  obtain c g where s: "s = (c, g)" by fastforce
  have ip: "conn_frame s (set_response it resp m k c', g') = conn_frame s (c', g')"
      "conn_frame s (c'\<lparr>cc_waiting_for_body := w\<rparr>, g') = conn_frame s (c', g')"
      "conn_frame s (c'\<lparr>cc_waiting_for_body := w, cc_body_started_at := t\<rparr>, g') = conn_frame s (c', g')"
      "conn_frame s (c'\<lparr>cc_request_buffer := b\<rparr>, g') = conn_frame s (c', g')"
      "conn_frame s (start_http1_body_stream e r f c', g') = conn_frame s (c', g')"
      "conn_frame s (c'\<lparr>cc_request_buffer := b, cc_waiting_for_body := w, cc_body_started_at := t, cc_request_started_at := t'\<rparr>, g') =
         conn_frame s (c', g')"
    for it resp m k c' g' w t b r f t' by (simp_all add: conn_frame_def start_http1_body_stream_def)
  have stream: "framed s (process_http1_body_stream e s')" "framed s (process_request e raw s')" if "conn_frame s s'" for s' raw
    using framed_from [OF that] body_stream_framed process_request_framed by blast+
  have bind: "framed s (run_bind (case hf_request frame of None \<Rightarrow> run_return (False, s)
      | Some r \<Rightarrow> try_handle_websocket_upgrade e r (hf_consumed frame) s) (\<lambda>(upgraded, c, g). k upgraded c g))"
    if "\<And>up c' g'. conn_frame s (c', g') \<Longrightarrow> framed s (k up c' g')" for k
    by (rule run_all_bind [where st = snd]) (use upgrade_framed [of s e] that in \<open>auto split: option.split\<close>)
  have rest: "framed s (if up then run_return (c', g')
      else if st = frame_header_complete then
        (case hf_request frame of
           Some r \<Rightarrow>
             if hf_waiting_for_body frame then process_http1_body_stream e (start_http1_body_stream e r frame c', g')
             else run_return (c'\<lparr>cc_waiting_for_body := False\<rparr>, g')
         | None \<Rightarrow>
             run_return (c'\<lparr>cc_waiting_for_body := hf_waiting_for_body frame,
               cc_body_started_at := (if hf_waiting_for_body frame \<and> cc_body_started_at c' = 0 then ce_now e else cc_body_started_at c')\<rparr>, g'))
      else
        let rest = drop (hf_consumed frame) (cc_request_buffer c') in
        process_request e (hf_raw_request frame)
          (c'\<lparr>cc_request_buffer := rest, cc_waiting_for_body := False, cc_body_started_at := 0,
             cc_request_started_at := started_at e rest\<rparr>, g'))" if "conn_frame s (c', g')" for up st c' g'
    using that by (auto simp: Let_def ip intro!: stream split: option.split)
  show ?thesis unfolding s handle_http1_frame_def prod.case
    using bind [OF rest, unfolded s] by (auto simp: ip [unfolded s] Let_def split: frame_state.split)
qed

lemma process_buffered_framed: "framed s (process_buffered_request e s)"
proof -
  have bind: "framed s (run_bind (process_http2_prior_knowledge e s) (\<lambda>(handled, c, g). k handled c g))"
    if "\<And>h c' g'. conn_frame s (c', g') \<Longrightarrow> framed s (k h c' g')" for k
    by (rule run_all_bind [OF prior_knowledge_framed]) (auto intro: that)
  have ip: "conn_frame s (text_error it n t c', g') = conn_frame s (c', g')" "conn_frame s (set_serialized_response t k c', g') = conn_frame s (c', g')"
      "conn_frame s (c'\<lparr>cc_request_buffer := b\<rparr>, g') = conn_frame s (c', g')" for it n t k c' g' b
    by (simp_all add: conn_frame_def)
  have frame: "framed s (handle_http1_frame e f s')" if "conn_frame s s'" for f s'
    by (rule framed_from [OF that http1_frame_framed])
  show ?thesis unfolding process_buffered_request_def
    by (auto simp: process_http2_frames_framed ip intro!: bind run_all_lift frame split: option.split)
qed

lemma append_bytes_framed: "framed s (append_request_bytes e chunk s)"
  by (cases s) (auto simp: append_request_bytes_def Let_def intro!: framed_from [OF _ body_stream_framed] framed_from [OF _ process_buffered_framed],
    auto simp: conn_frame_def)

section \<open>Events\<close>

lemma read_request_framed: "framed s (read_request e ios s)"
proof (induction e ios s rule: read_request.induct)
  case (2 e chunk ios s)
  have frame: "conn_frame s ((fst s)\<lparr>cc_last_activity := ce_now e\<rparr>, snd s)" "conn_frame s (close_now (fst s), snd s)" by (simp_all add: conn_frame_def)
  have "framed s (run_bind (append_request_bytes e chunk ((fst s)\<lparr>cc_last_activity := ce_now e\<rparr>, snd s)) (\<lambda>s.
      if cc_phase (fst s) \<noteq> ph_reading then run_return s else read_request e ios s))" if "chunk \<noteq> []"
    by (rule run_all_bind [OF framed_from [OF frame(1) append_bytes_framed]]) (use 2 [OF that] in \<open>auto intro: framed_from\<close>)
  with frame show ?case by simp
qed (simp_all add: conn_frame_def)

lemma websocket_frames_framed: "framed s (connection_websocket_frames s)"
  by (cases s) (auto simp: connection_websocket_frames_def conn_frame_def intro!: run_all_lift)

lemma flush_websocket_ip [simp]: "conn_owner (flush_websocket_writes ios c) = conn_owner c"
  by (simp add: flush_websocket_writes_def split: prod.split flush_end.split)

lemma read_websocket_framed: "framed s (read_websocket e ios s)"
proof (induction e ios s rule: read_websocket.induct)
  case (2 e chunk ios s)
  let ?s = "((fst s)\<lparr>cc_last_activity := ce_now e, cc_request_buffer := cc_request_buffer (fst s) @ chunk\<rparr>, snd s)"
  have frame: "conn_frame s ?s" "conn_frame s (close_now (fst s), snd s)" by (simp_all add: conn_frame_def)
  have "framed s (run_bind (connection_websocket_frames ?s) (\<lambda>s. if closed (fst s) then run_return s else read_websocket e ios s))" if "chunk \<noteq> []"
    by (rule run_all_bind [OF framed_from [OF frame(1) websocket_frames_framed]]) (use 2 [OF that] in \<open>auto intro: framed_from\<close>)
  with frame show ?case by simp
qed (simp_all add: conn_frame_def)

lemma handle_websocket_framed: "framed s (handle_websocket e revents s)"
  unfolding handle_websocket_def
  by (rule run_all_bind [where st = "\<lambda>s. s"]) (use read_websocket_framed [of s e] in \<open>auto simp: conn_frame_def [of _ "(flush_websocket_writes _ _, _)"], auto simp: conn_frame_def\<close>)

lemma enter_tunnel_ip [simp]: "conn_owner (enter_tunnel e ios c) = conn_owner c"
  by (simp add: enter_tunnel_def Let_def update_websocket_proxy_events_def flush_tunnel_ip)

lemma do_tls_ip [simp]: "conn_owner (do_tls_shutdown e c) = conn_owner c" "conn_owner (do_tls_handshake e c) = conn_owner c"
  by (simp_all add: do_tls_shutdown_def do_tls_handshake_def split: tls_outcome.split)

lemma finish_response_framed: "framed s (finish_response e ios s)"
proof -
  obtain c g where s: "s = (c, g)" by fastforce
  have bind: "framed s (run_bind (connection_websocket_frames s') (\<lambda>(c, g). run_return (if cc_response_buffer c \<noteq> [] then flush_websocket_writes ios c else c, g)))"
    if "conn_frame s s'" for s'
    by (rule run_all_bind [OF framed_from [OF that websocket_frames_framed]]) (auto simp: conn_frame_def)
  show ?thesis unfolding s finish_response_def prod.case
    by (auto intro!: bind [unfolded s] framed_from [OF _ process_buffered_framed]) (auto simp: conn_frame_def)
qed

lemma write_response_framed: "framed s (write_response e s)"
  by (cases s) (auto simp: write_response_def Let_def intro!: framed_from [OF _ finish_response_framed] split: prod.split flush_end.split,
    auto simp: conn_frame_def)

lemma handle_event_framed: "framed s (handle_event e revents s)"
  by (cases s) (auto simp: handle_event_def Let_def read_request_framed write_response_framed handle_websocket_framed split: client_phase.split,
    auto simp: conn_frame_def handle_tunnel_ip)

lemma handle_upstream_framed: "framed s (handle_upstream e revents s)"
  by (cases s) (auto simp: handle_upstream_def conn_frame_def handle_tunnel_ip dest!: handle_proxy_ip split: option.split)

lemma expire_framed: "framed_flag s (expire_if_timed_out e s)"
proof -
  obtain c g where s: "s = (c, g)" by fastforce
  have "conn_owner (snd (expire_reading e c)) = conn_owner c" by (simp add: expire_reading_def Let_def)
  then show ?thesis
    by (auto simp: s expire_if_timed_out_def Let_def conn_frame_def intro!: run_all_lift dest!: expire_proxy_ip split: prod.split)
qed

end
