(* ===== verification/Tls_Context.thy ===== *)
theory Tls_Context
  imports Config_Valid Access_Control
begin

text \<open>
  The TLS set-up of the server (\<open>TlsContext\<close> and its helpers in \<open>src/src/core/server.cpp\<close>): the ALPN list, the TLS versions,
  the certificates of the SNI map, and the callbacks that negotiate a protocol and choose a certificate. What OpenSSL
  accepts and reads from the certificate files is a parameter.
\<close>

section \<open>Settings\<close>

definition TLS1_2_VERSION :: int where "TLS1_2_VERSION = 0x0303"

definition TLS1_3_VERSION :: int where "TLS1_3_VERSION = 0x0304"

definition tls_version_number :: "string \<Rightarrow> int result" where
  "tls_version_number version =
     (if version = ''TLSv1.2'' then Inr TLS1_2_VERSION
      else if version = ''TLSv1.3'' then Inr TLS1_3_VERSION
      else Inl (''unsupported TLS version: '' @ version))"

definition wire_protocol :: "string \<Rightarrow> string" where
  "wire_protocol protocol = char_of (length protocol) # protocol"

fun alpn_wire :: "server_config \<Rightarrow> string list \<Rightarrow> string result" where
  "alpn_wire config [] = Inr []"
| "alpn_wire config (protocol # protocols) =
     (if protocol = [] \<or> length protocol > 255 then Inl ''invalid ALPN protocol length''
      else if protocol = ''http/1.1'' \<and> cfg_http1_enabled config \<or> protocol = ''h2'' \<and> cfg_http2_enabled config then
        r_bind (alpn_wire config protocols) (\<lambda>wire. Inr (wire_protocol protocol @ wire))
      else if protocol = ''h3'' then Inl (''unsupported ALPN protocol until HTTP/3 serving is implemented: '' @ protocol)
      else if protocol = ''http/1.1'' \<or> protocol = ''h2'' then alpn_wire config protocols
      else Inl (''unsupported ALPN protocol: '' @ protocol))"

definition build_alpn_wire_list :: "server_config \<Rightarrow> string result" where
  "build_alpn_wire_list config =
     r_bind (alpn_wire config (split_csv (cfg_tls_alpn_protocols config))) (\<lambda>wire.
       if wire = [] then Inl ''tls_alpn_protocols does not contain a protocol enabled by Rimau SQLite config'' else Inr wire)"

definition alpn_protocol_configured :: "string \<Rightarrow> string \<Rightarrow> bool" where
  "alpn_protocol_configured protocols expected \<longleftrightarrow> list_ex (\<lambda>protocol. protocol = expected) (split_csv protocols)"

record sni_certificate_spec =
  sc_pattern :: string
  sc_certificate_file :: string
  sc_private_key_file :: string

definition parse_sni_certificate_spec :: "string \<Rightarrow> sni_certificate_spec result" where
  "parse_sni_certificate_spec entry =
     (let equals = find_char (CHR ''='') entry;
          bar = find_from entry ''|'' (case equals of None \<Rightarrow> 0 | Some e \<Rightarrow> e + 1)
      in case (equals, bar) of
           (Some e, Some b) \<Rightarrow>
             let spec = \<lparr>sc_pattern = trim (take e entry), sc_certificate_file = trim (substr entry (e + 1) (b - e - 1)),
                         sc_private_key_file = trim (drop (b + 1) entry)\<rparr>
             in if sc_pattern spec = [] \<or> sc_certificate_file spec = [] \<or> sc_private_key_file spec = []
                then Inl ''tls_sni_certificates contains an empty hostname, certificate, or private key path'' else Inr spec
         | _ \<Rightarrow> Inl ''tls_sni_certificates must use hostname=certificate.pem|private-key.pem entries separated by semicolons'')"

definition parse_sni_certificate_specs :: "string \<Rightarrow> sni_certificate_spec list result" where
  "parse_sni_certificate_specs value = map_result parse_sni_certificate_spec (split_delimited value (CHR '';''))"

definition sni_hostname_matches :: "string \<Rightarrow> string \<Rightarrow> bool" where
  "sni_hostname_matches hostname pattern =
     (let hostname = lowercase hostname; pattern = lowercase pattern in
      if starts_with pattern ''*.'' then
        let ending = drop 1 pattern in length hostname > length ending \<and> ends_with hostname ending
      else hostname = pattern)"

section \<open>The context\<close>

text \<open>What OpenSSL does with the settings and files, and its error text.\<close>

record openssl =
  os_ctx_new :: bool
  os_min_version :: "int \<Rightarrow> bool"
  os_max_version :: "int \<Rightarrow> bool"
  os_cipher_list :: "string \<Rightarrow> bool"
  os_ciphersuites :: "string \<Rightarrow> bool"
  os_certificate :: "string \<Rightarrow> string option"
  os_private_key :: "string \<Rightarrow> string option"
  os_check_private_key :: "string \<Rightarrow> string \<Rightarrow> bool"
  os_error :: string

record ssl_ctx =
  sx_min_version :: int
  sx_max_version :: int
  sx_cipher_list :: string
  sx_ciphersuites :: string
  sx_certificate :: string
  sx_private_key :: string

record tls_context =
  tc_alpn_protocols :: string
  tc_sni_hosts :: "string list"
  tc_sni_certificates :: "(string \<times> ssl_ctx) list"
  tc_sni_required :: bool
  tc_ctx :: ssl_ctx

definition require_ok :: "bool \<Rightarrow> string \<Rightarrow> unit result" where
  "require_ok ok message = (if ok then Inr () else Inl message)"

definition ssl_error :: "openssl \<Rightarrow> string \<Rightarrow> string \<Rightarrow> string" where
  "ssl_error os what label = what @ label @ '': '' @ os_error os"

definition make_ssl_context :: "openssl \<Rightarrow> int \<Rightarrow> int \<Rightarrow> string \<Rightarrow> string \<Rightarrow> string \<Rightarrow> string \<Rightarrow> string \<Rightarrow> ssl_ctx result" where
  "make_ssl_context os min_version max_version cipher_list ciphersuites certificate_file private_key_file label =
     r_bind (require_ok (os_ctx_new os) (ssl_error os ''SSL_CTX_new failed for '' label)) (\<lambda>_.
     r_bind (require_ok (os_min_version os min_version)
       (ssl_error os ''failed to set TLS minimum version for '' label)) (\<lambda>_.
     r_bind (require_ok (os_max_version os max_version)
       (ssl_error os ''failed to set TLS maximum version for '' label)) (\<lambda>_.
     r_bind (require_ok (os_cipher_list os cipher_list)
       (ssl_error os ''failed to set TLS 1.2 cipher list for '' label)) (\<lambda>_.
     r_bind (require_ok (os_ciphersuites os ciphersuites)
       (ssl_error os ''failed to set TLS 1.3 cipher suites for '' label)) (\<lambda>_.
     case os_certificate os certificate_file of
       None \<Rightarrow> Inl (ssl_error os ''failed to load '' label)
     | Some certificate \<Rightarrow>
         (case os_private_key os private_key_file of
            None \<Rightarrow> Inl (ssl_error os ''failed to load private key for '' label)
          | Some key \<Rightarrow>
              r_bind (require_ok (os_check_private_key os certificate key)
                (ssl_error os ''TLS private key does not match '' label)) (\<lambda>_.
              Inr \<lparr>sx_min_version = min_version, sx_max_version = max_version, sx_cipher_list = cipher_list,
                   sx_ciphersuites = ciphersuites, sx_certificate = certificate, sx_private_key = key\<rparr>)))))))"

definition new_tls_context :: "openssl \<Rightarrow> server_config \<Rightarrow> tls_context result" where
  "new_tls_context os config =
     r_bind (build_alpn_wire_list config) (\<lambda>alpn.
     r_bind (tls_version_number (cfg_tls_min_version config)) (\<lambda>min_version.
     r_bind (tls_version_number (cfg_tls_max_version config)) (\<lambda>max_version.
     let make = make_ssl_context os min_version max_version (cfg_tls_cipher_list config) (cfg_tls_ciphersuites config) in
     r_bind (make (cfg_tls_certificate_file config) (cfg_tls_private_key_file config) ''default TLS certificate'') (\<lambda>ctx.
     r_bind (parse_sni_certificate_specs (cfg_tls_sni_certificates config)) (\<lambda>specs.
     r_bind (map_result (\<lambda>spec. r_bind (make (sc_certificate_file spec) (sc_private_key_file spec) (''SNI certificate for '' @ sc_pattern spec))
         (\<lambda>ctx. Inr (sc_pattern spec, ctx))) specs) (\<lambda>certificates.
     Inr \<lparr>tc_alpn_protocols = alpn, tc_sni_hosts = split_csv (cfg_tls_sni_hosts config), tc_sni_certificates = certificates,
          tc_sni_required = cfg_tls_sni_required config, tc_ctx = ctx\<rparr>))))))"

section \<open>Callbacks of the handshake\<close>

text \<open>\<open>SSL_select_next_proto\<close> gets the list of the server and the list of the client.\<close>

definition select_alpn :: "(string \<Rightarrow> string \<Rightarrow> string option) \<Rightarrow> tls_context \<Rightarrow> string \<Rightarrow> string option" where
  "select_alpn select_next_proto self client_protocols =
     (if tc_alpn_protocols self = [] then None else select_next_proto (tc_alpn_protocols self) client_protocols)"

datatype sni_answer = SNI_OK | SNI_ALERT_FATAL

text \<open>The answer and the context the connection is switched to, when it is switched.\<close>

definition servername_callback :: "tls_context \<Rightarrow> string option \<Rightarrow> sni_answer \<times> ssl_ctx option" where
  "servername_callback self raw_name =
     (if raw_name = None \<or> raw_name = Some [] then (if tc_sni_required self then SNI_ALERT_FATAL else SNI_OK, None)
      else
        let hostname = the raw_name;
            matched_certificate = find (\<lambda>(pattern, ctx). sni_hostname_matches hostname pattern) (tc_sni_certificates self);
            matched_host = list_ex (\<lambda>pattern. sni_hostname_matches hostname pattern) (tc_sni_hosts self)
        in (if tc_sni_hosts self = [] \<or> matched_host \<or> matched_certificate \<noteq> None then SNI_OK else SNI_ALERT_FATAL,
            map_option snd matched_certificate))"


section \<open>The negotiated protocol\<close>

text \<open>A list of protocols as it stands on the wire: each name after its length.\<close>

function wire_names :: "string \<Rightarrow> string list" where
  "wire_names [] = []"
| "wire_names (c # rest) = take (code c) rest # wire_names (drop (code c) rest)"
  by pat_completeness auto
termination by (relation "measure length") auto

definition protocol_enabled :: "server_config \<Rightarrow> string \<Rightarrow> bool" where
  "protocol_enabled config p \<longleftrightarrow> p = ''http/1.1'' \<and> cfg_http1_enabled config \<or> p = ''h2'' \<and> cfg_http2_enabled config"

lemma wire_names_protocol: "length p \<le> 255 \<Longrightarrow> wire_names (wire_protocol p @ wire) = p # wire_names wire"
  by (simp add: wire_protocol_def)

lemma alpn_wire_names: "alpn_wire config ps = Inr wire \<Longrightarrow> wire_names wire = filter (protocol_enabled config) ps"
  by (induction ps arbitrary: wire) (auto simp: protocol_enabled_def wire_names_protocol r_bind_Inr_iff split: if_splits)

lemma new_tls_context_Inr:
  assumes "new_tls_context os config = Inr ctx"
  shows "build_alpn_wire_list config = Inr (tc_alpn_protocols ctx)" "tc_sni_hosts ctx = split_csv (cfg_tls_sni_hosts config)"
    "tc_sni_required ctx = cfg_tls_sni_required config"
  using assms by (auto simp: new_tls_context_def r_bind_Inr_iff Let_def)

text \<open>What OpenSSL documents of \<open>SSL_select_next_proto\<close> when it negotiates: the protocol stands in both lists.\<close>

definition select_next_ok :: "(string \<Rightarrow> string \<Rightarrow> string option) \<Rightarrow> bool" where
  "select_next_ok sel \<longleftrightarrow> (\<forall>server client p. sel server client = Some p \<longrightarrow> p \<in> set (wire_names server) \<and> p \<in> set (wire_names client))"

text \<open>C28: A TLS connection negotiates a protocol only if the configuration enables it: the list the server offers holds exactly the
  enabled protocols of \<open>tls_alpn_protocols\<close>, in their order, so whatever a client asks for, HTTP/2 is chosen only
  with \<open>http2_enabled\<close> and HTTP/1.1 only with \<open>http1_enabled\<close>.\<close>

theorem alpn_negotiates_enabled:
  assumes "new_tls_context os config = Inr ctx" "select_next_ok sel"
  shows "wire_names (tc_alpn_protocols ctx) = filter (protocol_enabled config) (split_csv (cfg_tls_alpn_protocols config)) \<and>
    (select_alpn sel ctx client = Some p \<longrightarrow>
       p \<in> set (wire_names client) \<and> p \<in> set (split_csv (cfg_tls_alpn_protocols config)) \<and> protocol_enabled config p)"
proof -
  have "wire_names (tc_alpn_protocols ctx) = filter (protocol_enabled config) (split_csv (cfg_tls_alpn_protocols config))"
    using new_tls_context_Inr(1) [OF assms(1)] alpn_wire_names by (auto simp: build_alpn_wire_list_def r_bind_Inr_iff split: if_splits)
  moreover have "p \<in> set (wire_names (tc_alpn_protocols ctx)) \<and> p \<in> set (wire_names client)" if "select_alpn sel ctx client = Some p"
    using assms(2) that by (auto simp: select_alpn_def select_next_ok_def split: if_splits)
  ultimately show ?thesis by auto
qed

section \<open>Failures\<close>

lemma require_ok_Inl: "require_ok ok m = Inl x \<longleftrightarrow> \<not> ok \<and> x = m"
  by (auto simp: require_ok_def)

definition openssl_failed :: "openssl \<Rightarrow> string \<Rightarrow> bool" where
  "openssl_failed os m \<longleftrightarrow> suffix ('': '' @ os_error os) m"

lemma openssl_failed_ssl_error [simp]: "openssl_failed os (ssl_error os what label)"
  unfolding openssl_failed_def ssl_error_def by (metis append.assoc suffixI)

lemma make_ssl_context_Inl:
  "make_ssl_context os mi ma cl cs cert key label = Inl m \<Longrightarrow> openssl_failed os m"
  by (auto simp: make_ssl_context_def r_bind_Inl_iff require_ok_Inl split: option.splits)

lemma map_result_Inl: "map_result f xs = Inl m \<Longrightarrow> \<exists>x \<in> set xs. f x = Inl m"
  by (induction xs) (auto simp: r_bind_Inl_iff)

lemma validated_alpn_wire:
  assumes "\<And>p. p \<in> set ps \<Longrightarrow> check_alpn_protocol config p = Inr ()" "cfg_tls_enabled config" "[] \<notin> set ps"
  shows "\<exists>wire. alpn_wire config ps = Inr wire \<and> (wire = [] \<longleftrightarrow> ps = [])"
  using assms
proof (induction ps)
  case (Cons p ps)
  then obtain wire where wire: "alpn_wire config ps = Inr wire" by auto
  have "check_alpn_protocol config p = Inr ()" using Cons.prems by simp
  then have "p = ''http/1.1'' \<and> cfg_http1_enabled config \<or> p = ''h2'' \<and> cfg_http2_enabled config"
    using Cons.prems(2) by (auto simp: check_alpn_protocol_def throw_if_def split: if_splits)
  with wire show ?case by (auto simp: wire_protocol_def)
qed simp

lemma validated_sni_specs:
  assumes "valid_sni_certificate_map v"
  shows "\<exists>specs. parse_sni_certificate_specs v = Inr specs"
proof (cases "parse_sni_certificate_specs v")
  case (Inl m)
  then obtain entry where "entry \<in> set (split_delimited v (CHR '';''))" "parse_sni_certificate_spec entry = Inl m"
    using map_result_Inl unfolding parse_sni_certificate_specs_def by blast
  with assms show ?thesis
    by (fastforce simp: valid_sni_certificate_map_def list_all_iff sni_entry_def parse_sni_certificate_spec_def Let_def
      split: option.splits if_splits)
qed simp

text \<open>C27: With a configuration that \<open>build_config\<close> accepted the TLS context can only fail in OpenSSL: the protocol list, the versions and
  the SNI map, which \<open>TlsContext\<close> parses again with code of its own, never throw.\<close>

theorem tls_context_fails_in_openssl:
  assumes "build_config inet is_regular_file values = Inr config" "cfg_tls_enabled config" "new_tls_context os config = Inl m"
  shows "openssl_failed os m"
proof -
  have checks: "in_order (config_checks inet config) = Inr ()"
    using assms(1) by (auto simp: build_config_def r_bind_Inr_iff in_order_append)
  note ok = checks [unfolded config_checks_iff]
  let ?ps = "split_csv (cfg_tls_alpn_protocols config)"
  have "validate_alpn_protocols config = Inr ()" using ok by blast
  then have ps: "\<And>p. p \<in> set ?ps \<Longrightarrow> check_alpn_protocol config p = Inr ()" "?ps \<noteq> []"
    by (auto simp: validate_alpn_protocols_def Let_def in_order_Inr list_all_iff split_csv_def throw_if_Inr)
  have "[] \<notin> set ?ps" by (auto simp: split_csv_def split_delimited_def)
  from validated_alpn_wire [OF ps(1) assms(2) this] ps(2) obtain wire where wire: "build_alpn_wire_list config = Inr wire"
    by (auto simp: build_alpn_wire_list_def)
  have versions: "\<exists>n. tls_version_number (cfg_tls_min_version config) = Inr n" "\<exists>n. tls_version_number (cfg_tls_max_version config) = Inr n"
    using ok by (auto simp: valid_tls_version_def tls_version_number_def)
  from ok validated_sni_specs obtain specs where specs: "parse_sni_certificate_specs (cfg_tls_sni_certificates config) = Inr specs"
    by blast
  show ?thesis using assms(3) wire versions specs
    by (auto simp: new_tls_context_def Let_def r_bind_Inl_iff dest!: map_result_Inl intro: make_ssl_context_Inl)
qed

section \<open>Certificates by server name\<close>

definition sni_entry_text :: "sni_certificate_spec \<Rightarrow> string" where
  "sni_entry_text spec = sc_pattern spec @ ''='' @ sc_certificate_file spec @ ''|'' @ sc_private_key_file spec"

definition sni_text :: "sni_certificate_spec list \<Rightarrow> string" where
  "sni_text specs = concat (map (\<lambda>spec. sni_entry_text spec @ '';'') specs)"

definition plain_spec :: "sni_certificate_spec \<Rightarrow> bool" where
  "plain_spec spec \<longleftrightarrow> list_all (\<lambda>t. t \<noteq> [] \<and> \<not> list_ex isspace t \<and> CHR '';'' \<notin> set t \<and> CHR ''='' \<notin> set t \<and> CHR ''|'' \<notin> set t)
     [sc_pattern spec, sc_certificate_file spec, sc_private_key_file spec]"

lemma parse_sni_entry_text:
  assumes "plain_spec spec"
  shows "parse_sni_certificate_spec (sni_entry_text spec) = Inr spec"
proof -
  let ?p = "sc_pattern spec" and ?c = "sc_certificate_file spec" and ?k = "sc_private_key_file spec"
  have equals: "find_char (CHR ''='') (sni_entry_text spec) = Some (length ?p)"
    using assms by (simp add: sni_entry_text_def plain_spec_def find_char_append)
  have rest: "drop (length ?p + 1) (sni_entry_text spec) = ?c @ CHR ''|'' # ?k" by (simp add: sni_entry_text_def)
  have "find_sub ''|'' (?c @ CHR ''|'' # ?k) = Some (length ?c)"
    using assms find_char_append [of "CHR ''|''" ?c ?k] by (simp add: plain_spec_def find_char_def)
  then have bar: "find_from (sni_entry_text spec) ''|'' (length ?p + 1) = Some (length ?p + 1 + length ?c)"
    using rest by (simp add: find_from_def) (simp add: sni_entry_text_def)
  have parts: "take (length ?p) (sni_entry_text spec) = ?p" "substr (sni_entry_text spec) (length ?p + 1) (length ?c) = ?c"
    "drop (length ?p + 1 + length ?c + 1) (sni_entry_text spec) = ?k"
    by (simp_all add: sni_entry_text_def substr_def)
  show ?thesis using assms equals bar parts
    by (simp add: parse_sni_certificate_spec_def Let_def plain_spec_def no_space_trim)
qed

lemma split_sni_text: "list_all plain_spec specs \<Longrightarrow> split_delimited (sni_text specs) (CHR '';'') = map sni_entry_text specs"
proof (induction specs)
  case (Cons spec specs)
  have entry: "CHR '';'' \<notin> set (sni_entry_text spec)" "\<not> list_ex isspace (sni_entry_text spec)" "sni_entry_text spec \<noteq> []"
    using Cons.prems by (auto simp: sni_entry_text_def plain_spec_def isspace_def)
  have "sni_text (spec # specs) = sni_entry_text spec @ CHR '';'' # sni_text specs" by (simp add: sni_text_def)
  with Cons entry show ?case by (simp add: split_delimited_def getlines_item no_space_trim)
qed (simp add: sni_text_def split_delimited_def)

lemma parse_sni_text: "list_all plain_spec specs \<Longrightarrow> parse_sni_certificate_specs (sni_text specs) = Inr specs"
  by (auto simp: parse_sni_certificate_specs_def split_sni_text map_result_Inr list_all2_conv_all_nth list_all_length parse_sni_entry_text)

definition loaded_from :: "openssl \<Rightarrow> sni_certificate_spec \<Rightarrow> ssl_ctx \<Rightarrow> bool" where
  "loaded_from os spec ctx \<longleftrightarrow> os_certificate os (sc_certificate_file spec) = Some (sx_certificate ctx) \<and>
     os_private_key os (sc_private_key_file spec) = Some (sx_private_key ctx) \<and> os_check_private_key os (sx_certificate ctx) (sx_private_key ctx)"

lemma make_ssl_context_loaded:
  "make_ssl_context os mi ma cl cs (sc_certificate_file spec) (sc_private_key_file spec) label = Inr ctx \<Longrightarrow> loaded_from os spec ctx"
  by (auto simp: make_ssl_context_def loaded_from_def r_bind_Inr_iff require_ok_def split: option.splits if_splits)

lemma find_list_all2:
  assumes "list_all2 R xs ys" "\<And>x y. R x y \<Longrightarrow> Q y = P x"
  shows "rel_option R (find P xs) (find Q ys)"
  using assms by (induction rule: list_all2_induct) auto

text \<open>C23: The certificate a client gets is the one its server name asks for: with the SNI map written as a list of entries, the first
  entry whose pattern matches the name (in any letter case, a leading wildcard covering the names below it) gives
  the certificate and key, which were read from its two files and belong together; the handshake is then accepted. A
  name without entry keeps the default certificate and is refused exactly when \<open>tls_sni_hosts\<close> is set and has no match.\<close>

theorem sni_certificate_chosen:
  assumes "cfg_tls_sni_certificates config = sni_text specs" "list_all plain_spec specs" "new_tls_context os config = Inr tls" "name \<noteq> []"
  shows "case find (\<lambda>spec. sni_hostname_matches name (sc_pattern spec)) specs of
      Some spec \<Rightarrow> (\<exists>ctx. servername_callback tls (Some name) = (SNI_OK, Some ctx) \<and> loaded_from os spec ctx)
    | None \<Rightarrow> servername_callback tls (Some name) =
        (if split_csv (cfg_tls_sni_hosts config) = [] \<or> list_ex (sni_hostname_matches name) (split_csv (cfg_tls_sni_hosts config))
         then SNI_OK else SNI_ALERT_FATAL, None)"
proof -
  have "list_all2 (\<lambda>spec y. fst y = sc_pattern spec \<and> loaded_from os spec (snd y)) specs (tc_sni_certificates tls)"
    using assms(3) parse_sni_text [OF assms(2)] make_ssl_context_loaded
    by (fastforce simp: new_tls_context_def assms(1) r_bind_Inr_iff Let_def map_result_Inr elim!: list_all2_mono)
  then have "rel_option (\<lambda>spec y. fst y = sc_pattern spec \<and> loaded_from os spec (snd y))
      (find (\<lambda>spec. sni_hostname_matches name (sc_pattern spec)) specs)
      (find (\<lambda>(pattern, ctx). sni_hostname_matches name pattern) (tc_sni_certificates tls))"
    by (rule find_list_all2) auto
  then show ?thesis using assms(4) new_tls_context_Inr(2) [OF assms(3)]
    by (cases "find (\<lambda>spec. sni_hostname_matches name (sc_pattern spec)) specs")
      (auto simp: servername_callback_def option_rel_Some1 Let_def)
qed

section \<open>Concrete instances\<close>

definition sample_openssl :: openssl where
  "sample_openssl = \<lparr>os_ctx_new = True, os_min_version = (\<lambda>_. True), os_max_version = (\<lambda>_. True), os_cipher_list = (\<lambda>_. True),
     os_ciphersuites = (\<lambda>_. True), os_certificate = Some, os_private_key = (\<lambda>f. Some f), os_check_private_key = (\<lambda>c k. True),
     os_error = ''no error''\<rparr>"

definition sample_specs :: "sni_certificate_spec list" where
  "sample_specs = [\<lparr>sc_pattern = ''*.a.org'', sc_certificate_file = ''a.pem'', sc_private_key_file = ''a.key''\<rparr>]"

definition sample_tls_config :: server_config where
  "sample_tls_config = default_server_config\<lparr>cfg_tls_enabled := True, cfg_http1_enabled := True, cfg_http2_enabled := True,
     cfg_tls_alpn_protocols := ''h2,http/1.1'', cfg_tls_min_version := ''TLSv1.2'', cfg_tls_max_version := ''TLSv1.3'',
     cfg_tls_sni_hosts := ''b.org'', cfg_tls_sni_certificates := sni_text sample_specs\<rparr>"

lemma sample_specs_plain: "list_all plain_spec sample_specs"
  by (simp add: sample_specs_def plain_spec_def isspace_def)

lemma sample_tls_alpn: "split_csv (cfg_tls_alpn_protocols sample_tls_config) = [''h2'', ''http/1.1'']"
  by (simp add: sample_tls_config_def) code_simp

lemma sample_tls_context: "\<exists>tls. new_tls_context sample_openssl sample_tls_config = Inr tls"
proof -
  have "\<exists>wire. build_alpn_wire_list sample_tls_config = Inr wire"
    unfolding build_alpn_wire_list_def sample_tls_alpn by (simp add: sample_tls_config_def wire_protocol_def)
  moreover have "parse_sni_certificate_specs (cfg_tls_sni_certificates sample_tls_config) = Inr sample_specs"
    by (simp add: sample_tls_config_def parse_sni_text sample_specs_plain)
  moreover have "tls_version_number (cfg_tls_min_version sample_tls_config) = Inr TLS1_2_VERSION"
      "tls_version_number (cfg_tls_max_version sample_tls_config) = Inr TLS1_3_VERSION"
    by (simp_all add: sample_tls_config_def tls_version_number_def)
  ultimately show ?thesis
    by (auto simp: new_tls_context_def Let_def make_ssl_context_def sample_openssl_def require_ok_def sample_specs_def)
qed

definition sample_select :: "string \<Rightarrow> string \<Rightarrow> string option" where
  "sample_select server client = find (\<lambda>p. p \<in> set (wire_names client)) (wire_names server)"

theorem alpn_negotiates_enabled_witness:
  "\<exists>tls. new_tls_context sample_openssl sample_tls_config = Inr tls \<and>
     wire_names (tc_alpn_protocols tls) = [''h2'', ''http/1.1''] \<and> select_alpn sample_select tls (wire_protocol ''h2'') = Some ''h2''"
proof -
  obtain tls where tls: "new_tls_context sample_openssl sample_tls_config = Inr tls" using sample_tls_context by blast
  have "select_next_ok sample_select" by (auto simp: select_next_ok_def sample_select_def find_Some_iff)
  from alpn_negotiates_enabled [OF tls this, unfolded sample_tls_alpn]
  have names: "wire_names (tc_alpn_protocols tls) = [''h2'', ''http/1.1'']"
    by (simp add: protocol_enabled_def) (simp add: sample_tls_config_def)
  have client: "wire_names (wire_protocol ''h2'') = [''h2'']" using wire_names_protocol [of "''h2''" "[]"] by simp
  have "tc_alpn_protocols tls \<noteq> []" using names by auto
  then have "select_alpn sample_select tls (wire_protocol ''h2'') = Some ''h2''"
    by (simp add: select_alpn_def sample_select_def names client)
  with tls names show ?thesis by blast
qed

theorem sni_certificate_chosen_witness:
  "\<exists>tls ctx. new_tls_context sample_openssl sample_tls_config = Inr tls \<and>
     servername_callback tls (Some ''WWW.a.org'') = (SNI_OK, Some ctx) \<and> sx_certificate ctx = ''a.pem''"
proof -
  obtain tls where tls: "new_tls_context sample_openssl sample_tls_config = Inr tls" using sample_tls_context by blast
  have "cfg_tls_sni_certificates sample_tls_config = sni_text sample_specs" by (simp add: sample_tls_config_def)
  moreover have "sni_hostname_matches ''WWW.a.org'' ''*.a.org''" by code_simp
  ultimately show ?thesis
    using sni_certificate_chosen [OF _ sample_specs_plain tls, of "''WWW.a.org''"] tls
    by (auto simp: sample_specs_def loaded_from_def sample_openssl_def)
qed

definition sample_secure_config :: server_config where
  "sample_secure_config = default_server_config\<lparr>cfg_tls_enabled := True\<rparr>"

lemma sample_secure_builds: "build_config inet (\<lambda>_. Inr True) [(''tls_enabled'', ''true'')] = Inr sample_secure_config"
proof -
  let ?c = "default_server_config\<lparr>cfg_tls_enabled := True\<rparr>"
  have own: "value_or_default [(''tls_enabled'', ''true'')] ''tls_enabled'' = Inr ''true''" "parse_bool ''true'' k = Inr True" for k
    by (simp add: value_or_default_def) code_simp
  have read: "read_fields config_fields [(''tls_enabled'', ''true'')] default_server_config = Inr ?c"
    using default_lookup
    unfolding supported_config_keys_def config_defaults_def config_fields_def list.map fst_conv snd_conv list.inject
    by (simp add: config_field_def as_text_def as_port_def default_parsed own value_or_default_other)
      (simp add: default_server_config_def)
  have "split_delimited ''http/1.1'' (CHR '','') = [''http/1.1'']" by code_simp
  then have "validate_alpn_protocols ?c = Inr ()"
    by (simp add: validate_alpn_protocols_def default_server_config_def in_order_def check_alpn_protocol_def throw_if_def)
  moreover have "guarded_texts ?c = guarded_texts default_server_config" by (simp add: guarded_texts_def)
  ultimately have "in_order (config_checks inet ?c) = Inr ()"
    using default_checks [of inet] unfolding config_checks_iff by simp
  moreover have "in_order (tls_file_checks (\<lambda>_. Inr True) ?c) = Inr ()"
    by (simp add: tls_file_checks_def default_server_config_def in_order_def require_file_def split_delimited_def throw_if_def)
  ultimately have "in_order (config_checks inet ?c @ tls_file_checks (\<lambda>_. Inr True) ?c) = Inr ()" by (simp only: in_order_append)
  then show ?thesis by (simp add: build_config_def read sample_secure_config_def)
qed

theorem tls_context_fails_in_openssl_witness:
  "\<exists>m. new_tls_context (sample_openssl\<lparr>os_ctx_new := False\<rparr>) sample_secure_config = Inl m \<and>
     openssl_failed (sample_openssl\<lparr>os_ctx_new := False\<rparr>) m"
proof -
  let ?os = "sample_openssl\<lparr>os_ctx_new := False\<rparr>"
  have "make_ssl_context ?os mi ma cl cs cert key label = Inl (ssl_error ?os ''SSL_CTX_new failed for '' label)" for mi ma cl cs cert key label
    by (simp add: make_ssl_context_def require_ok_def)
  then obtain m where m: "new_tls_context ?os sample_secure_config = Inl m"
    by (cases "new_tls_context ?os sample_secure_config") (auto simp: new_tls_context_def r_bind_Inr_iff Let_def)
  have "cfg_tls_enabled sample_secure_config" by (simp add: sample_secure_config_def)
  from tls_context_fails_in_openssl [OF sample_secure_builds this m] m show ?thesis by blast
qed

end
