(* ===== verification/Server_Worker.thy ===== *)
theory Server_Worker
  imports Connection_Frame Tls_Context "HOL-Library.AList"
begin

text \<open>
  A worker thread and what it shares with the others (\<open>ConnectionPool\<close>, \<open>RuntimeControl\<close> and \<open>Worker\<close> in
  \<open>src/src/core/server.cpp\<close>): accepting connections under the limits, handing the events of \<open>epoll\<close> to the connections, time-outs,
  taking over a reloaded configuration, draining and shutdown. What the kernel answers is given per round of the loop; between two
  rounds other threads may change what is shared. The generation counter of the configuration, 64 bits wide, is a natural number.
\<close>

section \<open>The pool\<close>

record connection_pool =
  cp_max_idle :: nat
  cp_idle :: "client_conn list"

definition acquire :: "connection_pool \<Rightarrow> client_conn \<times> connection_pool" where
  "acquire pool =
     (if cp_idle pool = [] then (new_client, pool) else (last (cp_idle pool), pool\<lparr>cp_idle := butlast (cp_idle pool)\<rparr>))"

definition release :: "client_conn \<Rightarrow> connection_pool \<Rightarrow> connection_pool" where
  "release c pool =
     (if length (cp_idle pool) < cp_max_idle pool then pool\<lparr>cp_idle := cp_idle pool @ [prepare_for_pool c]\<rparr> else pool)"

section \<open>Shared control\<close>

record runtime_control =
  rc_shutdown_requested :: bool
  rc_worker_failed :: bool
  rc_live_config :: "server_config option"
  rc_live_tls_context :: "tls_context option"
  rc_config_generation :: nat

definition publish_config :: "server_config \<Rightarrow> runtime_control \<Rightarrow> runtime_control" where
  "publish_config config rc = rc\<lparr>rc_live_config := Some config, rc_config_generation := rc_config_generation rc + 1\<rparr>"

definition publish_tls_context :: "tls_context option \<Rightarrow> runtime_control \<Rightarrow> runtime_control" where
  "publish_tls_context tls rc = rc\<lparr>rc_live_tls_context := tls\<rparr>"

section \<open>The worker\<close>

text \<open>A client is known by its descriptor; the descriptors of \<open>clients_\<close> are distinct.\<close>

record worker =
  wk_listener_config :: server_config
  wk_config_generation :: nat
  wk_listening :: bool
  wk_pool :: connection_pool
  wk_clients :: "(int \<times> client_conn) list"

type_synonym worker_state = "worker \<times> server_globals"
type_synonym 'a worker_run = "((string \<times> worker_state) + 'a) option"

definition new_worker :: "server_config \<Rightarrow> worker" where
  "new_worker config = \<lparr>wk_listener_config = config, wk_config_generation = 0, wk_listening = True,
     wk_pool = \<lparr>cp_max_idle = cfg_connection_pool_size config, cp_idle = []\<rparr>, wk_clients = []\<rparr>"

text \<open>The address functions of the C library and the descriptor \<open>accept4\<close> gives to a connection while others are open.\<close>

record server_os =
  so_pton :: inet_pton
  so_ntop :: "ip_family \<Rightarrow> bytes \<Rightarrow> string option"
  so_new_fd :: "int list \<Rightarrow> int"

text \<open>One call of \<open>accept4\<close>; for a connection its address, the time, and whether \<open>SSL_new\<close> and \<open>epoll_ctl\<close> succeed.\<close>

datatype accept_io = accept_blocked | accept_interrupted | accept_failed | accepted socket_address int bool bool

datatype event_token = listener_token | client_token int | upstream_token int

record epoll_report =
  er_token :: event_token
  er_events :: u32
  er_accepts :: "accept_io list"
  er_env :: client_env
  er_mod_ok :: bool

definition stop_accepting :: "worker \<Rightarrow> worker" where
  "stop_accepting w = w\<lparr>wk_listening := False\<rparr>"

definition emplace_client :: "int \<Rightarrow> client_conn \<Rightarrow> worker \<Rightarrow> worker" where
  "emplace_client fd c w = (if fd \<in> fst ` set (wk_clients w) then w else w\<lparr>wk_clients := wk_clients w @ [(fd, c)]\<rparr>)"

fun accept_ready_clients :: "server_os \<Rightarrow> runtime_control \<Rightarrow> accept_io list \<Rightarrow> worker_state \<Rightarrow> worker_state" where
  "accept_ready_clients os rc [] s = s"
| "accept_ready_clients os rc (accept_blocked # ios) s = s"
| "accept_ready_clients os rc (accept_interrupted # ios) s = accept_ready_clients os rc ios s"
| "accept_ready_clients os rc (accept_failed # ios) s = s"
| "accept_ready_clients os rc (accepted address now ssl_ok add_ok # ios) (w, g) =
     (case rc_live_config rc of
        None \<Rightarrow> (w, g)
      | Some config \<Rightarrow>
          let client_fd = so_new_fd os (map fst (wk_clients w));
              client_ip = render_client_ip (so_ntop os) address
          in case try_open_connection (so_pton os) client_ip config (g_security g) of
               (decision, sec) \<Rightarrow>
                 if decision \<noteq> allowed then accept_ready_clients os rc ios (w, g\<lparr>g_security := sec\<rparr>)
                 else
                   case acquire (wk_pool w) of
                     (c, pool) \<Rightarrow>
                       let w = w\<lparr>wk_pool := pool\<rparr>;
                           tls = (rc_live_tls_context rc \<noteq> None);
                           c = client_reset config client_ip tls now c
                       in if tls \<and> \<not> ssl_ok \<or> \<not> add_ok then
                            accept_ready_clients os rc ios
                              (w\<lparr>wk_pool := release c pool\<rparr>, g\<lparr>g_security := close_connection client_ip sec\<rparr>)
                          else accept_ready_clients os rc ios (emplace_client client_fd c w, g\<lparr>g_security := sec\<rparr>))"

text \<open>When \<open>epoll_ctl\<close> cannot change the events of a descriptor the connection is told of an error.\<close>

definition modify_client_events :: "bool \<Rightarrow> client_env \<Rightarrow> conn_state \<Rightarrow> conn_state run" where
  "modify_client_events ok e s = (if ok then run_return s else handle_event e EPOLLERR s)"

definition release_client :: "int \<Rightarrow> worker_state \<Rightarrow> worker_state" where
  "release_client fd s =
     (case s of (w, g) \<Rightarrow>
        case map_of (wk_clients w) fd of
          None \<Rightarrow> s
        | Some c \<Rightarrow> (w\<lparr>wk_clients := AList.delete fd (wk_clients w), wk_pool := release c (wk_pool w)\<rparr>,
                    g\<lparr>g_security := close_connection (cc_client_ip c) (g_security g)\<rparr>))"

text \<open>The loops over clients: each turn works on one of them, and those that end closed are collected when the turn says so.\<close>

fun visit_clients :: "(int \<times> (conn_state \<Rightarrow> (bool \<times> conn_state) run)) list \<Rightarrow> int list \<Rightarrow> worker_state \<Rightarrow> (int list \<times> worker_state) worker_run" where
  "visit_clients [] closed_clients s = Some (Inr (closed_clients, s))"
| "visit_clients ((fd, turn) # turns) closed_clients (w, g) =
     (case map_of (wk_clients w) fd of
        None \<Rightarrow> visit_clients turns closed_clients (w, g)
      | Some c \<Rightarrow>
          (case turn (c, g) of
             None \<Rightarrow> None
           | Some (Inl (m, c, g)) \<Rightarrow> Some (Inl (m, w\<lparr>wk_clients := AList.update fd c (wk_clients w)\<rparr>, g))
           | Some (Inr (collect, c, g)) \<Rightarrow>
               visit_clients turns (if collect \<and> closed c then closed_clients @ [fd] else closed_clients)
                 (w\<lparr>wk_clients := AList.update fd c (wk_clients w)\<rparr>, g)))"

fun token_fd :: "event_token \<Rightarrow> int option" where
  "token_fd listener_token = None"
| "token_fd (client_token fd) = Some fd"
| "token_fd (upstream_token fd) = Some fd"

definition report_turn :: "epoll_report \<Rightarrow> conn_state \<Rightarrow> (bool \<times> conn_state) run" where
  "report_turn rep s =
     run_bind (case er_token rep of
         upstream_token fd \<Rightarrow> handle_upstream (er_env rep) (er_events rep) s
       | _ \<Rightarrow> run_bind (handle_event (er_env rep) (er_events rep) s) (\<lambda>s.
                if closed (fst s) then run_return s else modify_client_events (er_mod_ok rep) (er_env rep) s))
       (\<lambda>s. run_return (True, s))"

definition timeout_turn :: "client_env \<Rightarrow> bool \<Rightarrow> conn_state \<Rightarrow> (bool \<times> conn_state) run" where
  "timeout_turn e mod_ok s =
     run_bind (expire_if_timed_out e s) (\<lambda>(expired, s).
       if expired \<and> \<not> closed (fst s) then run_bind (modify_client_events mod_ok e s) (\<lambda>s. run_return (True, s))
       else run_return (expired, s))"

definition refresh_client_configs_if_needed :: "runtime_control \<Rightarrow> worker \<Rightarrow> worker" where
  "refresh_client_configs_if_needed rc w =
     (if rc_config_generation rc = wk_config_generation w then w
      else case rc_live_config rc of
             None \<Rightarrow> w
           | Some config \<Rightarrow> w\<lparr>wk_clients := map (\<lambda>(fd, c). (fd, c\<lparr>cc_config := config\<rparr>)) (wk_clients w),
                              wk_config_generation := rc_config_generation rc\<rparr>)"

text \<open>A round of the loop: the shared control it reads, the time, what \<open>epoll_wait\<close> reports, the answers the time-outs get, the iteration
  order of the hash table of clients, and what other threads did to the shared state since the last round.\<close>

datatype wait_result = wait_interrupted | wait_failed | wait_ready "epoll_report list"

record poll_round =
  rd_meanwhile :: "server_globals \<Rightarrow> server_globals"
  rd_control :: runtime_control
  rd_stop_requested :: bool
  rd_now :: int
  rd_wait :: wait_result
  rd_timeouts :: "int \<Rightarrow> client_env \<times> bool"
  rd_order :: "int list \<Rightarrow> int list"

record loop_state =
  ls_draining :: bool
  ls_deadline :: "int option"
  ls_worker :: worker
  ls_globals :: server_globals

datatype round_end = round_again loop_state | round_exit worker_state

definition close_all_clients :: "(int list \<Rightarrow> int list) \<Rightarrow> worker_state \<Rightarrow> worker_state" where
  "close_all_clients order s = fold release_client (order (map fst (wk_clients (fst s)))) s"

definition accept_reports :: "server_os \<Rightarrow> runtime_control \<Rightarrow> bool \<Rightarrow> epoll_report list \<Rightarrow> worker_state \<Rightarrow> worker_state" where
  "accept_reports os rc draining reports =
     fold (\<lambda>rep s. if er_token rep = listener_token \<and> \<not> draining then accept_ready_clients os rc (er_accepts rep) s else s) reports"

definition worker_bind :: "'a worker_run \<Rightarrow> ('a \<Rightarrow> 'b worker_run) \<Rightarrow> 'b worker_run" where
  "worker_bind m k = (case m of None \<Rightarrow> None | Some (Inl e) \<Rightarrow> Some (Inl e) | Some (Inr x) \<Rightarrow> k x)"

definition client_reports :: "epoll_report list \<Rightarrow> (int \<times> (conn_state \<Rightarrow> (bool \<times> conn_state) run)) list" where
  "client_reports reports =
     map (\<lambda>rep. (the (token_fd (er_token rep)), report_turn rep)) (filter (\<lambda>rep. token_fd (er_token rep) \<noteq> None) reports)"

definition enforce_client_timeouts :: "poll_round \<Rightarrow> worker_state \<Rightarrow> worker_state worker_run" where
  "enforce_client_timeouts rd s =
     worker_bind (visit_clients (map (\<lambda>fd. (fd, case rd_timeouts rd fd of (e, mod_ok) \<Rightarrow> timeout_turn e mod_ok))
         (rd_order rd (map fst (wk_clients (fst s))))) [] s)
       (\<lambda>(closed_clients, s). Some (Inr (fold release_client closed_clients s)))"

definition serve_reports :: "server_os \<Rightarrow> poll_round \<Rightarrow> bool \<Rightarrow> epoll_report list \<Rightarrow> worker_state \<Rightarrow> worker_state worker_run" where
  "serve_reports os rd draining reports s =
     worker_bind (visit_clients (client_reports reports) []
         (accept_reports os (rd_control rd) draining reports (refresh_client_configs_if_needed (rd_control rd) (fst s), snd s)))
       (\<lambda>(closed_clients, s). enforce_client_timeouts rd (fold release_client closed_clients s))"

definition begin_round :: "poll_round \<Rightarrow> loop_state \<Rightarrow> loop_state" where
  "begin_round rd l =
     (let l = l\<lparr>ls_globals := rd_meanwhile rd (ls_globals l)\<rparr> in
      if (rc_shutdown_requested (rd_control rd) \<or> rd_stop_requested rd) \<and> \<not> ls_draining l then
        let timeout_seconds = cfg_graceful_shutdown_timeout_seconds
              (case rc_live_config (rd_control rd) of None \<Rightarrow> wk_listener_config (ls_worker l) | Some config \<Rightarrow> config)
        in l\<lparr>ls_draining := True, ls_deadline := Some (rd_now rd + seconds timeout_seconds),
             ls_worker := stop_accepting (ls_worker l)\<rparr>
      else l)"

definition worker_exit :: "poll_round \<Rightarrow> worker_state \<Rightarrow> worker_state" where
  "worker_exit rd s = (case close_all_clients (rd_order rd) s of (w, g) \<Rightarrow> (stop_accepting w, g))"

definition worker_round :: "server_os \<Rightarrow> poll_round \<Rightarrow> loop_state \<Rightarrow> round_end worker_run" where
  "worker_round os rd l =
     (let l = begin_round rd l; s = (ls_worker l, ls_globals l) in
      if ls_draining l \<and> wk_clients (ls_worker l) = [] then Some (Inr (round_exit (worker_exit rd s)))
      else if ls_draining l \<and> (case ls_deadline l of None \<Rightarrow> False | Some deadline \<Rightarrow> rd_now rd \<ge> deadline) then
        Some (Inr (round_exit (worker_exit rd (close_all_clients (rd_order rd) s))))
      else
        case rd_wait rd of
          wait_interrupted \<Rightarrow> Some (Inr (round_again l))
        | wait_failed \<Rightarrow> Some (Inl (''epoll_wait failed'', s))
        | wait_ready reports \<Rightarrow>
            worker_bind (serve_reports os rd (ls_draining l) reports s) (\<lambda>(w, g).
              Some (Inr (round_again (l\<lparr>ls_worker := w, ls_globals := g\<rparr>)))))"

definition new_loop :: "server_config \<Rightarrow> server_globals \<Rightarrow> loop_state" where
  "new_loop config g = \<lparr>ls_draining = False, ls_deadline = None, ls_worker = new_worker config, ls_globals = g\<rparr>"

datatype worker_outcome = worker_running loop_state | worker_stopped worker_state | worker_threw string worker_state | worker_hangs

fun worker_rounds :: "server_os \<Rightarrow> poll_round list \<Rightarrow> loop_state \<Rightarrow> worker_outcome" where
  "worker_rounds os [] l = worker_running l"
| "worker_rounds os (rd # rds) l =
     (case worker_round os rd l of
        None \<Rightarrow> worker_hangs
      | Some (Inl (m, s)) \<Rightarrow> worker_threw m s
      | Some (Inr (round_exit s)) \<Rightarrow> worker_stopped s
      | Some (Inr (round_again l)) \<Rightarrow> worker_rounds os rds l)"


section \<open>Turns keep what belongs to the event loop\<close>

lemma modify_events_framed: "framed s (modify_client_events ok e s)"
  by (simp add: modify_client_events_def handle_event_framed)

lemma flag_framed: "framed s r \<Longrightarrow> framed_flag s (run_bind r (\<lambda>s. run_return (b, s)))"
  by (erule run_all_bind) auto

lemma report_turn_framed: "framed_flag s (report_turn rep s)"
proof -
  have "framed s (run_bind (handle_event (er_env rep) (er_events rep) s) (\<lambda>s.
      if closed (fst s) then run_return s else modify_client_events (er_mod_ok rep) (er_env rep) s))"
    by (rule run_all_bind [OF handle_event_framed]) (auto intro: framed_from [OF _ modify_events_framed])
  then show ?thesis
    unfolding report_turn_def by (intro flag_framed) (auto simp: handle_upstream_framed split: event_token.split)
qed

lemma timeout_turn_framed: "framed_flag s (timeout_turn e ok s)"
  unfolding timeout_turn_def
  by (rule run_all_bind [OF expire_framed]) (auto intro: framed_from [OF _ flag_framed [OF modify_events_framed]])

definition owners :: "worker \<Rightarrow> (int \<times> string \<times> server_config) list" where
  "owners w = map (\<lambda>(fd, c). (fd, conn_owner c)) (wk_clients w)"

definition same_counts :: "server_globals \<Rightarrow> server_globals \<Rightarrow> bool" where
  "same_counts g g' \<longleftrightarrow> sec_active_connections_by_ip (g_security g') = sec_active_connections_by_ip (g_security g) \<and>
     sec_total_connections (g_security g') = sec_total_connections (g_security g)"

lemma update_same:
  "map_of xs fd = Some c \<Longrightarrow> f c' = f c \<Longrightarrow> map (\<lambda>(k, v). (k, f v)) (AList.update fd c' xs) = map (\<lambda>(k, v). (k, f v)) xs"
  by (induction xs) (auto split: if_splits)

lemma owners_update:
  "map_of (wk_clients w) fd = Some c \<Longrightarrow> conn_owner c' = conn_owner c \<Longrightarrow> owners (w\<lparr>wk_clients := AList.update fd c' (wk_clients w)\<rparr>) = owners w"
  by (simp add: owners_def update_same)

definition framed_turns :: "(int \<times> (conn_state \<Rightarrow> (bool \<times> conn_state) run)) list \<Rightarrow> bool" where
  "framed_turns turns \<longleftrightarrow> list_all (\<lambda>(fd, turn). \<forall>s. framed_flag s (turn s)) turns"

lemma visit_clients_keep:
  assumes "framed_turns turns"
    and "visit_clients turns cl (w, g) = Some (Inr (cl', w', g'))"
  shows "owners w' = owners w \<and> same_counts g g' \<and> wk_config_generation w' = wk_config_generation w"
  using assms
proof (induction turns cl "(w, g)" arbitrary: w g rule: visit_clients.induct)
  case (2 fd turn turns cl w g)
  show ?case
  proof (cases "map_of (wk_clients w) fd")
    case None
    with 2 show ?thesis by (auto simp: framed_turns_def)
  next
    case (Some c)
    then obtain b c1 g1 where t: "turn (c, g) = run_return (b, c1, g1)"
      using 2(4) by (auto split: option.splits sum.splits)
    have "framed_flag (c, g) (turn (c, g))" using 2(3) by (simp add: framed_turns_def)
    then have frame: "conn_owner c1 = conn_owner c" "same_counts g g1" using t by (simp_all add: conn_frame_def same_counts_def)
    let ?w = "w\<lparr>wk_clients := AList.update fd c1 (wk_clients w)\<rparr>"
    have "owners w' = owners ?w \<and> same_counts g1 g' \<and> wk_config_generation w' = wk_config_generation ?w"
      by (rule 2(2) [OF Some t refl refl refl]) (use 2(3, 4) Some t in \<open>auto simp: framed_turns_def\<close>)
    with owners_update [OF Some frame(1)] frame(2) show ?thesis by (simp add: same_counts_def)
  qed
qed (simp add: same_counts_def)

section \<open>Accounting\<close>

definition client_ips :: "worker \<Rightarrow> string multiset" where
  "client_ips w = mset (map (\<lambda>(fd, c). cc_client_ip c) (wk_clients w))"

lemma client_ips_owners: "client_ips w = image_mset (fst \<circ> snd) (mset (owners w))"
  by (auto simp: client_ips_def owners_def conn_owner_def image_mset.compositionality comp_def split_def)

lemma fds_owners: "map fst (wk_clients w) = map fst (owners w)"
  by (simp add: owners_def split_def)

text \<open>The counters hold the connections of this worker and those of the others.\<close>

definition worker_ok :: "string multiset \<Rightarrow> worker_state \<Rightarrow> bool" where
  "worker_ok others s \<longleftrightarrow> distinct (map fst (wk_clients (fst s))) \<and>
     security_counts (g_security (snd s)) (client_ips (fst s) + others)"

lemma visit_clients_ok:
  assumes "framed_turns turns"
    and "visit_clients turns cl s = Some (Inr (cl', s'))" "worker_ok M s"
  shows "worker_ok M s'"
proof -
  obtain w g w' g' where s: "s = (w, g)" "s' = (w', g')" by fastforce
  have "owners w' = owners w" "same_counts g g'" using visit_clients_keep [OF assms(1), of cl w g cl' w' g'] assms(2) s by auto
  with assms(3) show ?thesis by (simp add: s worker_ok_def client_ips_owners fds_owners security_counts_def same_counts_def)
qed

lemma delete_mset:
  "distinct (map fst xs) \<Longrightarrow> map_of xs k = Some v \<Longrightarrow> mset (map f xs) = add_mset (f (k, v)) (mset (map f (AList.delete k xs)))"
proof (induction xs)
  case (Cons x xs)
  then show ?case
    by (cases x) (auto split: if_splits)
qed simp

lemma release_ok: "worker_ok M s \<Longrightarrow> worker_ok M (release_client fd s)"
proof (cases "map_of (wk_clients (fst s)) fd")
  case (Some c)
  assume ok: "worker_ok M s"
  obtain w g where s: "s = (w, g)" by fastforce
  let ?w = "w\<lparr>wk_clients := AList.delete fd (wk_clients w), wk_pool := release c (wk_pool w)\<rparr>"
  have ips: "client_ips w = add_mset (cc_client_ip c) (client_ips ?w)"
    using delete_mset [of "wk_clients w" fd c "\<lambda>(fd, c). cc_client_ip c"] ok Some by (simp add: s worker_ok_def client_ips_def)
  have "security_counts (close_connection (cc_client_ip c) (g_security g)) (client_ips ?w + M)"
    using close_counts [of "g_security g" "client_ips w + M" "cc_client_ip c"] ok ips by (simp add: s worker_ok_def)
  with ok Some show ?thesis by (simp add: s worker_ok_def release_client_def distinct_delete)
qed (auto simp: release_client_def split: prod.split)

lemma release_all_ok: "worker_ok M s \<Longrightarrow> worker_ok M (fold release_client fds s)"
  by (induction fds arbitrary: s) (simp_all add: release_ok)

text \<open>What is relied on of the C library and the kernel: an address is not printed as the empty text, and a new descriptor is none of
  those that are open.\<close>

definition server_os_ok :: "server_os \<Rightarrow> bool" where
  "server_os_ok os \<longleftrightarrow> (\<forall>f b. so_ntop os f b \<noteq> Some []) \<and> (\<forall>fds. so_new_fd os fds \<notin> set fds)"

lemma try_open_counts:
  "security_counts sec M \<Longrightarrow> ip \<noteq> [] \<Longrightarrow> try_open_connection pton ip config sec = (d, sec') \<Longrightarrow>
   security_counts sec' (if d = allowed then add_mset ip M else M)"
  by (auto simp: try_open_cases security_counts_def Let_def split: if_splits)

lemma accept_one_ok:
  assumes "worker_ok M (w, g)" "server_os_ok os" and rest: "\<And>s. worker_ok M s \<Longrightarrow> worker_ok M (accept_ready_clients os rc ios s)"
  shows "worker_ok M (accept_ready_clients os rc (accepted address now ssl_ok add_ok # ios) (w, g))"
proof (cases "rc_live_config rc")
  case (Some config)
  define ip where "ip = render_client_ip (so_ntop os) address"
  obtain d sec where d: "try_open_connection (so_pton os) ip config (g_security g) = (d, sec)" by fastforce
  obtain c pool where c: "acquire (wk_pool w) = (c, pool)" by fastforce
  define fd where "fd = so_new_fd os (map fst (wk_clients w))"
  have ip: "ip \<noteq> []" unfolding ip_def by (rule render_client_ip_nonempty) (use assms(2) in \<open>simp add: server_os_ok_def\<close>)
  have counts: "security_counts sec (if d = allowed then add_mset ip (client_ips w + M) else client_ips w + M)"
    using assms(1) try_open_counts [OF _ ip d] by (simp add: worker_ok_def)
  have ips: "client_ips (w\<lparr>wk_pool := p\<rparr>) = client_ips w" for p by (simp add: client_ips_def)
  have dist: "distinct (map fst (wk_clients w))" using assms(1) by (simp add: worker_ok_def)
  have fresh: "fd \<notin> fst ` set (wk_clients w)" using assms(2) unfolding fd_def server_os_ok_def by (metis set_map)
  have refused: "worker_ok M (w, g\<lparr>g_security := sec\<rparr>)" if "d \<noteq> allowed" using counts that dist by (simp add: worker_ok_def)
  have failed: "worker_ok M (w\<lparr>wk_pool := p\<rparr>, g\<lparr>g_security := close_connection ip sec\<rparr>)" if "d = allowed" for p
    using close_counts [of sec "add_mset ip (client_ips w + M)" ip] counts that dist by (simp add: worker_ok_def ips)
  have "client_ips (emplace_client fd (client_reset config ip b now c) (w\<lparr>wk_pool := pool\<rparr>)) = add_mset ip (client_ips w)" for b
    using fresh by (simp add: emplace_client_def client_ips_def client_reset_def)
  then have served: "worker_ok M (emplace_client fd (client_reset config ip b now c) (w\<lparr>wk_pool := pool\<rparr>), g\<lparr>g_security := sec\<rparr>)" if "d = allowed" for b
    using counts that dist fresh by (simp add: worker_ok_def) (simp add: emplace_client_def)
  show ?thesis
    using refused failed served rest d c Some by (simp add: Let_def ip_def [symmetric] fd_def [symmetric])
qed (use assms(1) in simp)

lemma accept_ok:
  assumes "server_os_ok os"
  shows "worker_ok M s \<Longrightarrow> worker_ok M (accept_ready_clients os rc ios s)"
proof (induction ios arbitrary: s)
  case (Cons io ios)
  then show ?case by (cases io; cases s) (simp_all add: accept_one_ok [OF _ assms] del: accept_ready_clients.simps(5))
qed simp

lemma accept_reports_ok:
  "server_os_ok os \<Longrightarrow> worker_ok M s \<Longrightarrow> worker_ok M (accept_reports os rc draining reports s)"
  unfolding accept_reports_def by (induction reports arbitrary: s) (simp_all add: accept_ok)

lemma refresh_ok: "worker_ok M (w, g) \<Longrightarrow> worker_ok M (refresh_client_configs_if_needed rc w, g)"
  by (auto simp: worker_ok_def refresh_client_configs_if_needed_def client_ips_def multiset.map_comp comp_def split_def split: option.split)

lemma framed_reports: "framed_turns (client_reports reports)"
  by (auto simp: framed_turns_def client_reports_def list_all_iff report_turn_framed)

lemma framed_timeouts: "framed_turns (map (\<lambda>fd. (fd, case f fd of (e, ok) \<Rightarrow> timeout_turn e ok)) fds)"
  by (auto simp: framed_turns_def list_all_iff timeout_turn_framed split: prod.split)

lemma worker_bind_Inr: "worker_bind m k = Some (Inr y) \<longleftrightarrow> (\<exists>x. m = Some (Inr x) \<and> k x = Some (Inr y))"
  by (auto simp: worker_bind_def split: option.split sum.split)

lemma worker_bind_pair: "worker_bind m (\<lambda>(w, g). Some (Inr (f w g))) = Some (Inr y) \<longleftrightarrow> (\<exists>w g. m = Some (Inr (w, g)) \<and> y = f w g)"
  by (auto simp: worker_bind_def split: option.split sum.split prod.split)

lemma timeouts_ok:
  "enforce_client_timeouts rd s = Some (Inr s') \<Longrightarrow> worker_ok M s \<Longrightarrow> worker_ok M s'"
  by (auto simp: enforce_client_timeouts_def worker_bind_Inr intro!: release_all_ok intro: visit_clients_ok [OF framed_timeouts])

lemma serve_reports_ok:
  assumes "serve_reports os rd draining reports s = Some (Inr s')" "worker_ok M s" "server_os_ok os"
  shows "worker_ok M s'"
proof -
  let ?s = "accept_reports os (rd_control rd) draining reports (refresh_client_configs_if_needed (rd_control rd) (fst s), snd s)"
  obtain cl s1 where v: "visit_clients (client_reports reports) [] ?s = Some (Inr (cl, s1))"
      "enforce_client_timeouts rd (fold release_client cl s1) = Some (Inr s')"
    using assms(1) by (auto simp: serve_reports_def worker_bind_Inr)
  have "worker_ok M ?s" by (rule accept_reports_ok [OF assms(3) refresh_ok]) (use assms(2) in simp)
  from timeouts_ok [OF v(2) release_all_ok [OF visit_clients_ok [OF framed_reports v(1) this]]] show ?thesis .
qed

section \<open>Closing everything\<close>

lemma release_clients: "wk_clients (fst (release_client fd s)) = AList.delete fd (wk_clients (fst s))"
  by (cases s) (auto simp: release_client_def map_of_eq_None_iff split: option.split)

lemma release_all_clients: "wk_clients (fst (fold release_client fds s)) = filter (\<lambda>(fd, c). fd \<notin> set fds) (wk_clients (fst s))"
  by (induction fds arbitrary: s) (auto simp: release_clients AList.delete_eq split_def intro!: filter_cong)

lemma close_all_empty: "(\<And>xs. set (order xs) = set xs) \<Longrightarrow> wk_clients (fst (close_all_clients order s)) = []"
  by (force simp: close_all_clients_def release_all_clients filter_empty_conv)

lemma close_all_ok: "worker_ok M s \<Longrightarrow> worker_ok M (close_all_clients order s)"
  by (simp add: close_all_clients_def release_all_ok)

lemma worker_exit_done:
  assumes "worker_ok M s" "\<And>xs. set (rd_order rd xs) = set xs" "worker_exit rd s = (w, g)"
  shows "wk_clients w = [] \<and> \<not> wk_listening w \<and> security_counts (g_security g) M"
proof -
  obtain w1 g1 where c: "close_all_clients (rd_order rd) s = (w1, g1)" by fastforce
  have "wk_clients w1 = []" "worker_ok M (w1, g1)" using close_all_empty [of "rd_order rd" s] close_all_ok [OF assms(1), of "rd_order rd"] assms(2) c by auto
  with assms(3) c show ?thesis by (auto simp: worker_exit_def stop_accepting_def worker_ok_def client_ips_def)
qed

section \<open>The configuration of the clients\<close>

definition configured :: "server_config \<Rightarrow> worker \<Rightarrow> bool" where
  "configured config w \<longleftrightarrow> list_all (\<lambda>(fd, c). cc_config c = config) (wk_clients w)"

lemma configured_owners: "configured config w \<longleftrightarrow> list_all (\<lambda>(fd, ip, config'). config' = config) (owners w)"
  by (auto simp: configured_def owners_def conn_owner_def list_all_iff)

lemma release_configured:
  "configured config (fst s) \<Longrightarrow> configured config (fst (release_client fd s))"
  "wk_config_generation (fst (release_client fd s)) = wk_config_generation (fst s)"
  using release_clients [of fd s]
  by (auto simp: configured_def list_all_iff AList.delete_eq) (auto simp: release_client_def split: prod.split option.split)

lemma release_all_configured:
  "configured config (fst s) \<Longrightarrow> configured config (fst (fold release_client fds s))"
  "wk_config_generation (fst (fold release_client fds s)) = wk_config_generation (fst s)"
  by (induction fds arbitrary: s) (simp_all add: release_configured)

lemma accept_configured:
  assumes "rc_live_config rc = Some config"
  shows "configured config (fst s) \<Longrightarrow> configured config (fst (accept_ready_clients os rc ios s)) \<and>
    wk_config_generation (fst (accept_ready_clients os rc ios s)) = wk_config_generation (fst s)"
proof (induction ios arbitrary: s)
  case (Cons io ios)
  obtain w g where s: "s = (w, g)" by fastforce
  have "configured config (w\<lparr>wk_pool := p\<rparr>)" "configured config (emplace_client fd (client_reset config ip b now c) (w\<lparr>wk_pool := p\<rparr>))"
      "wk_config_generation (emplace_client fd c' (w\<lparr>wk_pool := p\<rparr>)) = wk_config_generation w" for p fd ip b now c c'
    using Cons.prems by (auto simp: s configured_def emplace_client_def client_reset_def)
  with Cons assms show ?case by (cases io) (auto simp: s Let_def split: prod.split)
qed simp

lemma accept_reports_configured:
  assumes "rc_live_config rc = Some config" "configured config (fst s)"
  shows "configured config (fst (accept_reports os rc draining reports s)) \<and>
    wk_config_generation (fst (accept_reports os rc draining reports s)) = wk_config_generation (fst s)"
  using assms(2) accept_configured [OF assms(1)] unfolding accept_reports_def by (induction reports arbitrary: s) auto

lemma visit_configured:
  assumes "framed_turns turns" "visit_clients turns cl s = Some (Inr (cl', s'))"
  shows "configured config (fst s') = configured config (fst s)" "wk_config_generation (fst s') = wk_config_generation (fst s)"
  using visit_clients_keep [OF assms(1), of cl "fst s" "snd s" cl' "fst s'" "snd s'"] assms(2) by (simp_all add: configured_owners)

lemma serve_reports_configured:
  assumes "serve_reports os rd draining reports s = Some (Inr s')" "rc_live_config (rd_control rd) = Some config"
    and "wk_config_generation (fst s) = rc_config_generation (rd_control rd) \<longrightarrow> configured config (fst s)"
  shows "configured config (fst s') \<and> wk_config_generation (fst s') = rc_config_generation (rd_control rd)"
proof -
  let ?w = "refresh_client_configs_if_needed (rd_control rd) (fst s)"
  let ?s = "accept_reports os (rd_control rd) draining reports (?w, snd s)"
  have "configured config ?w" "wk_config_generation ?w = rc_config_generation (rd_control rd)"
    using assms(2, 3) by (auto simp: refresh_client_configs_if_needed_def configured_def list_all_iff)
  then have s: "configured config (fst ?s)" "wk_config_generation (fst ?s) = rc_config_generation (rd_control rd)"
    using accept_reports_configured [OF assms(2), of "(?w, snd s)"] by auto
  obtain cl s1 where v: "visit_clients (client_reports reports) [] ?s = Some (Inr (cl, s1))"
      "enforce_client_timeouts rd (fold release_client cl s1) = Some (Inr s')"
    using assms(1) by (auto simp: serve_reports_def worker_bind_Inr)
  from v(2) obtain cl2 s2 where "visit_clients (map (\<lambda>fd. (fd, case rd_timeouts rd fd of (e, ok) \<Rightarrow> timeout_turn e ok))
      (rd_order rd (map fst (wk_clients (fst (fold release_client cl s1)))))) [] (fold release_client cl s1) = Some (Inr (cl2, s2))"
      "s' = fold release_client cl2 s2"
    by (auto simp: enforce_client_timeouts_def worker_bind_Inr)
  then have s2: "configured config (fst s2) = configured config (fst (fold release_client cl s1))"
      "wk_config_generation (fst s2) = wk_config_generation (fst (fold release_client cl s1))" "s' = fold release_client cl2 s2"
    using visit_configured [OF framed_timeouts] by blast+
  have "configured config (fst (fold release_client cl s1))" "wk_config_generation (fst (fold release_client cl s1)) = rc_config_generation (rd_control rd)"
    using s visit_configured [OF framed_reports v(1)] release_all_configured by auto
  with s2 show ?thesis using release_all_configured by auto
qed

section \<open>Every run of a worker\<close>

text \<open>A round is fair when the hash table is iterated completely and the other threads leave the counters in agreement with their
  open connections and those of this worker.\<close>

definition fair_round :: "poll_round \<Rightarrow> string multiset \<Rightarrow> loop_state \<Rightarrow> bool" where
  "fair_round rd others l \<longleftrightarrow> (\<forall>xs. set (rd_order rd xs) = set xs) \<and>
     security_counts (g_security (rd_meanwhile rd (ls_globals l))) (client_ips (ls_worker l) + others)"

text \<open>The states a worker reaches while the configuration is reloaded at any time.\<close>

inductive worker_reach :: "server_os \<Rightarrow> runtime_control \<Rightarrow> string multiset \<Rightarrow> loop_state \<Rightarrow> bool" for os where
  start: "worker_reach os rc others (new_loop config g)"
    if "security_counts (g_security g) others" "rc_live_config rc \<noteq> None"
| round: "worker_reach os rc others' l'"
    if "worker_reach os rc others l" "rd_control rd = rc\<lparr>rc_shutdown_requested := b\<rparr>" "fair_round rd others' l"
      "worker_round os rd l = Some (Inr (round_again l'))"
| reload: "worker_reach os (publish_config config rc) others l" if "worker_reach os rc others l"

definition loop_ok :: "runtime_control \<Rightarrow> string multiset \<Rightarrow> loop_state \<Rightarrow> bool" where
  "loop_ok rc others l \<longleftrightarrow> worker_ok others (ls_worker l, ls_globals l) \<and>
     (\<exists>config. rc_live_config rc = Some config \<and> (wk_config_generation (ls_worker l) = rc_config_generation rc \<longrightarrow> configured config (ls_worker l))) \<and>
     wk_config_generation (ls_worker l) \<le> rc_config_generation rc"

lemma begin_round_keeps:
  "wk_clients (ls_worker (begin_round rd l)) = wk_clients (ls_worker l)" "ls_globals (begin_round rd l) = rd_meanwhile rd (ls_globals l)"
  "wk_config_generation (ls_worker (begin_round rd l)) = wk_config_generation (ls_worker l)"
  by (simp_all add: begin_round_def Let_def stop_accepting_def)

lemma begin_round_ok:
  assumes "loop_ok rc others l" "fair_round rd others' l"
  shows "loop_ok rc others' (begin_round rd l)"
  using assms by (auto simp: loop_ok_def worker_ok_def fair_round_def begin_round_keeps client_ips_def configured_def)

lemma worker_round_again:
  assumes "worker_round os rd l = Some (Inr (round_again l'))"
  obtains "l' = begin_round rd l" | w g reps where
    "serve_reports os rd (ls_draining (begin_round rd l)) reps (ls_worker (begin_round rd l), ls_globals (begin_round rd l)) = Some (Inr (w, g))"
    "l' = (begin_round rd l)\<lparr>ls_worker := w, ls_globals := g\<rparr>"
proof -
  define l1 where "l1 = begin_round rd l"
  let ?exit = "ls_draining l1 \<and> wk_clients (ls_worker l1) = []"
  let ?late = "ls_draining l1 \<and> (case ls_deadline l1 of None \<Rightarrow> False | Some deadline \<Rightarrow> rd_now rd \<ge> deadline)"
  have r: "worker_round os rd l = (if ?exit then Some (Inr (round_exit (worker_exit rd (ls_worker l1, ls_globals l1))))
      else if ?late then Some (Inr (round_exit (worker_exit rd (close_all_clients (rd_order rd) (ls_worker l1, ls_globals l1)))))
      else case rd_wait rd of
          wait_interrupted \<Rightarrow> Some (Inr (round_again l1))
        | wait_failed \<Rightarrow> Some (Inl (''epoll_wait failed'', (ls_worker l1, ls_globals l1)))
        | wait_ready reports \<Rightarrow>
            worker_bind (serve_reports os rd (ls_draining l1) reports (ls_worker l1, ls_globals l1)) (\<lambda>(w, g).
              Some (Inr (round_again (l1\<lparr>ls_worker := w, ls_globals := g\<rparr>)))))"
    by (simp only: worker_round_def Let_def l1_def)
  have exit: "\<not> ?exit"
  proof
    assume ?exit
    from r [unfolded if_P [OF this]] assms show False by simp
  qed
  have late: "\<not> ?late"
  proof
    assume ?late
    from r [unfolded if_not_P [OF exit] if_P [OF this]] assms show False by simp
  qed
  note go = exit late
  show thesis
  proof (cases "rd_wait rd")
    case (wait_ready reps)
    have "worker_bind (serve_reports os rd (ls_draining l1) reps (ls_worker l1, ls_globals l1)) (\<lambda>(w, g).
        Some (Inr (round_again (l1\<lparr>ls_worker := w, ls_globals := g\<rparr>)))) = Some (Inr (round_again l'))"
      using assms r by (simp only: if_not_P [OF go(1)] if_not_P [OF go(2)] wait_ready wait_result.case)
    then show thesis using that(2) unfolding l1_def [symmetric] worker_bind_pair by auto
  qed (use assms that(1) in \<open>unfold r if_not_P [OF go(1)] if_not_P [OF go(2)] l1_def [symmetric], simp_all\<close>)
qed

lemma worker_reach_ok:
  assumes "worker_reach os rc others l" "server_os_ok os"
  shows "loop_ok rc others l"
  using assms(1)
proof induction
  case (start g others rc config)
  then show ?case by (auto simp: loop_ok_def worker_ok_def new_loop_def new_worker_def client_ips_def configured_def)
next
  case (round rc others l rd b others' l')
  let ?l = "begin_round rd l"
  have ok: "loop_ok rc others' ?l" by (rule begin_round_ok [OF round.IH round.hyps(3)])
  consider "l' = ?l" | w g reps where "serve_reports os rd (ls_draining ?l) reps (ls_worker ?l, ls_globals ?l) = Some (Inr (w, g))"
      "l' = ?l\<lparr>ls_worker := w, ls_globals := g\<rparr>"
    by (rule worker_round_again [OF round.hyps(4)])
  then show ?case
  proof cases
    case 1
    with ok show ?thesis by simp
  next
    case (2 w g reps)
    obtain config where config: "rc_live_config rc = Some config"
        "wk_config_generation (ls_worker ?l) = rc_config_generation rc \<longrightarrow> configured config (ls_worker ?l)"
      using ok by (auto simp: loop_ok_def)
    have "worker_ok others' (w, g)" using serve_reports_ok [OF 2(1) _ assms(2)] ok by (simp add: loop_ok_def)
    moreover have "configured config w \<and> wk_config_generation w = rc_config_generation rc"
      using serve_reports_configured [OF 2(1)] config round.hyps(2) by simp
    ultimately show ?thesis using config(1) 2(2) by (simp add: loop_ok_def)
  qed
next
  case (reload rc others l config)
  then show ?case by (auto simp: loop_ok_def publish_config_def)
qed

text \<open>C15: Connections are accounted for: in every state a worker reaches, whatever its connections do and whatever other threads open and
  close, the counters of \<open>SecurityState\<close> are exactly the connections of this worker and of the others, and no descriptor is used
  twice. When the loop ends, every connection of the worker has been given back and the listener is closed.\<close>

theorem worker_accounts:
  assumes "worker_reach os rc others l" "server_os_ok os"
  shows "security_counts (g_security (ls_globals l)) (client_ips (ls_worker l) + others) \<and> distinct (map fst (wk_clients (ls_worker l))) \<and>
    (fair_round rd others' l \<and> worker_round os rd l = Some (Inr (round_exit (w, g))) \<longrightarrow>
       wk_clients w = [] \<and> \<not> wk_listening w \<and> security_counts (g_security g) others')"
proof (intro conjI impI)
  have ok: "loop_ok rc others l" by (rule worker_reach_ok [OF assms])
  then show "security_counts (g_security (ls_globals l)) (client_ips (ls_worker l) + others)" "distinct (map fst (wk_clients (ls_worker l)))"
    by (simp_all add: loop_ok_def worker_ok_def)
  assume r: "fair_round rd others' l \<and> worker_round os rd l = Some (Inr (round_exit (w, g)))"
  define l1 where "l1 = begin_round rd l"
  have l1: "worker_ok others' (ls_worker l1, ls_globals l1)" using begin_round_ok [OF ok] r by (simp add: loop_ok_def l1_def)
  have "worker_exit rd (ls_worker l1, ls_globals l1) = (w, g) \<or>
      worker_exit rd (close_all_clients (rd_order rd) (ls_worker l1, ls_globals l1)) = (w, g)"
    using r unfolding worker_round_def l1_def [symmetric] Let_def
    by (auto simp: worker_bind_def split: if_splits wait_result.splits option.splits sum.splits)
  with l1 close_all_ok [OF l1, of "rd_order rd"] have "\<exists>s. worker_ok others' s \<and> worker_exit rd s = (w, g)" by blast
  then show "wk_clients w = []" "\<not> wk_listening w" "security_counts (g_security g) others'"
    using worker_exit_done [where rd = rd and w = w and g = g] r by (auto simp: fair_round_def)
qed

text \<open>C18: A reloaded configuration reaches every connection: after the next round in which \<open>epoll_wait\<close> returns, each connection of the worker, those
  accepted before the reload and those accepted in this round, has the live configuration, however often and whenever
  the configuration was published.\<close>

theorem reload_reaches_clients:
  assumes "worker_reach os rc others l" "server_os_ok os" "rd_control rd = rc" "fair_round rd others' l"
    and "rd_wait rd = wait_ready reports" "worker_round os rd l = Some (Inr (round_again l'))"
  shows "\<exists>config. rc_live_config rc = Some config \<and> (\<forall>(fd, c) \<in> set (wk_clients (ls_worker l')). cc_config c = config)"
proof -
  define l1 where "l1 = begin_round rd l"
  have "loop_ok rc others' l1" unfolding l1_def by (rule begin_round_ok [OF worker_reach_ok [OF assms(1, 2)] assms(4)])
  then obtain config where config: "rc_live_config rc = Some config"
      "wk_config_generation (ls_worker l1) = rc_config_generation rc \<longrightarrow> configured config (ls_worker l1)" by (auto simp: loop_ok_def)
  obtain w g where "serve_reports os rd (ls_draining l1) reports (ls_worker l1, ls_globals l1) = Some (Inr (w, g))" "ls_worker l' = w"
    using assms(6) unfolding worker_round_def l1_def [symmetric] Let_def assms(5)
    by (auto simp: worker_bind_pair split: if_splits)
  from serve_reports_configured [OF this(1)] this(2) config assms(3) show ?thesis
    by (auto simp: configured_def list_all_iff)
qed

section \<open>Shutdown\<close>

lemma begin_round_draining: "ls_draining l \<Longrightarrow> ls_draining (begin_round rd l) \<and> ls_deadline (begin_round rd l) = ls_deadline l"
  by (simp add: begin_round_def Let_def)

lemma round_again_drain:
  assumes "worker_round os rd l = Some (Inr (round_again l'))"
  shows "ls_draining l' = ls_draining (begin_round rd l) \<and> ls_deadline l' = ls_deadline (begin_round rd l)"
  using assms by (rule worker_round_again) auto

lemma late_round_exits:
  assumes "ls_draining l" "ls_deadline l = Some d" "d \<le> rd_now rd" "\<And>xs. set (rd_order rd xs) = set xs"
  shows "\<exists>w g. worker_round os rd l = Some (Inr (round_exit (w, g))) \<and> wk_clients w = [] \<and> \<not> wk_listening w"
proof -
  have "\<exists>s. worker_round os rd l = Some (Inr (round_exit (worker_exit rd s)))"
    using assms(1-3) begin_round_draining [OF assms(1), of rd] unfolding worker_round_def Let_def by (simp del: split_paired_Ex split: if_split) blast
  then obtain s where s: "worker_round os rd l = Some (Inr (round_exit (worker_exit rd s)))" by blast
  obtain w g where exit: "worker_exit rd s = (w, g)" by fastforce
  have "wk_clients w = [] \<and> \<not> wk_listening w"
    using exit close_all_empty [of "rd_order rd" s] assms(4)
    by (cases "close_all_clients (rd_order rd) s") (auto simp: worker_exit_def stop_accepting_def)
  with s exit show ?thesis by simp
qed

lemma worker_rounds_append:
  "worker_rounds os (rds @ rds') l =
     (case worker_rounds os rds l of worker_running l' \<Rightarrow> worker_rounds os rds' l' | ended \<Rightarrow> ended)"
  by (induction rds arbitrary: l) (auto split: option.split sum.split round_end.split)

lemma running_rounds:
  "worker_rounds os (rd # rds) l = worker_running l' \<Longrightarrow>
   \<exists>l2. worker_round os rd l = Some (Inr (round_again l2)) \<and> worker_rounds os rds l2 = worker_running l'"
  by (cases "worker_round os rd l") (auto split: sum.splits round_end.splits prod.splits)

lemma running_drain:
  assumes "worker_rounds os rds l = worker_running l'" "ls_draining l" "ls_deadline l = Some d"
  shows "ls_draining l' \<and> ls_deadline l' = Some d"
  using assms
proof (induction rds arbitrary: l)
  case (Cons rd rds)
  obtain l2 where l2: "worker_round os rd l = Some (Inr (round_again l2))" "worker_rounds os rds l2 = worker_running l'"
    using running_rounds [OF Cons.prems(1)] by (elim exE conjE) (rule that)
  show ?case using Cons.IH [OF l2(2)] round_again_drain [OF l2(1)] begin_round_draining [OF Cons.prems(2), of rd] Cons.prems by simp
qed simp

definition fds :: "worker_state \<Rightarrow> int set" where
  "fds s = fst ` set (wk_clients (fst s))"

lemma fds_release: "fds (fold release_client closed_clients s) \<subseteq> fds s"
  by (auto simp: fds_def release_all_clients)

lemma fds_visit: "framed_turns turns \<Longrightarrow> visit_clients turns cl s = Some (Inr (cl', s')) \<Longrightarrow> fds s' = fds s"
  using visit_clients_keep [of turns cl "fst s" "snd s" cl' "fst s'" "snd s'"] by (simp add: fds_def flip: set_map) (metis fds_owners)

lemma serve_draining:
  assumes "serve_reports os rd True reports s = Some (Inr s')"
  shows "fds s' \<subseteq> fds s"
proof -
  let ?s = "(refresh_client_configs_if_needed (rd_control rd) (fst s), snd s)"
  have "accept_reports os (rd_control rd) True reports t = t" for t
    unfolding accept_reports_def by (induction reports) auto
  then obtain cl s1 where v: "visit_clients (client_reports reports) [] ?s = Some (Inr (cl, s1))"
      "enforce_client_timeouts rd (fold release_client cl s1) = Some (Inr s')"
    using assms by (auto simp: serve_reports_def worker_bind_Inr)
  from v(2) obtain cl2 s2 where "visit_clients (map (\<lambda>fd. (fd, case rd_timeouts rd fd of (e, ok) \<Rightarrow> timeout_turn e ok))
      (rd_order rd (map fst (wk_clients (fst (fold release_client cl s1)))))) [] (fold release_client cl s1) = Some (Inr (cl2, s2))"
      "s' = fold release_client cl2 s2"
    by (auto simp: enforce_client_timeouts_def worker_bind_Inr)
  then have "fds s' \<subseteq> fds (fold release_client cl s1)" using fds_visit [OF framed_timeouts] fds_release by blast
  also have "\<dots> \<subseteq> fds s1" by (rule fds_release)
  also have "\<dots> = fds ?s" by (rule fds_visit [OF framed_reports v(1)])
  also have "\<dots> = fds s" by (force simp: fds_def refresh_client_configs_if_needed_def image_iff split: option.split)
  finally show ?thesis .
qed


section \<open>Concrete instances\<close>

definition sample_os :: server_os where
  "sample_os = \<lparr>so_pton = sample_pton, so_ntop = (\<lambda>f b. Some ''10.0.0.1''), so_new_fd = (\<lambda>fds. Max (set (0 # fds)) + 1)\<rparr>"

lemma sample_os_ok: "server_os_ok sample_os"
proof -
  have "Max (set (0 # fds)) + 1 \<notin> set fds" for fds :: "int list"
  proof
    assume "Max (set (0 # fds)) + 1 \<in> set fds"
    then have "Max (set (0 # fds)) + 1 \<le> Max (set (0 # fds))" by (intro Max_ge) auto
    then show False by simp
  qed
  then show ?thesis by (simp add: server_os_ok_def sample_os_def)
qed

definition sample_control :: runtime_control where
  "sample_control = \<lparr>rc_shutdown_requested = False, rc_worker_failed = False, rc_live_config = Some sample_config,
     rc_live_tls_context = None, rc_config_generation = 1\<rparr>"

definition sample_round :: "wait_result \<Rightarrow> bool \<Rightarrow> int \<Rightarrow> poll_round" where
  "sample_round wait stop now = \<lparr>rd_meanwhile = (\<lambda>g. g), rd_control = sample_control, rd_stop_requested = stop, rd_now = now,
     rd_wait = wait, rd_timeouts = (\<lambda>fd. (sample_env now [], True)), rd_order = (\<lambda>fds. fds)\<rparr>"

definition sample_accept_round :: poll_round where
  "sample_accept_round = sample_round (wait_ready [\<lparr>er_token = listener_token, er_events = EPOLLIN,
     er_accepts = [accepted (sockaddr_in []) 5 True True], er_env = sample_env 5 [], er_mod_ok = True\<rparr>]) False 5"

definition sample_client :: client_conn where
  "sample_client = client_reset sample_config ''10.0.0.1'' False 5 new_client"

lemma sample_accept:
  "\<exists>w g. accept_ready_clients sample_os sample_control [accepted (sockaddr_in []) 5 True True]
     (refresh_client_configs_if_needed sample_control (new_worker sample_config), sample_globals) = (w, g) \<and> wk_clients w = [(1, sample_client)]"
proof -
  have limits: "cfg_ip_blocklist sample_config = []" "cfg_ip_allowlist sample_config = []" "0 < cfg_global_connection_limit sample_config"
      "0 < cfg_per_ip_connection_limit sample_config"
    by (simp_all add: sample_config_def default_server_config_def)
  have "ip_matches_list pton ip [] = False" for pton ip by (simp add: ip_matches_list_def split_csv_def split_delimited_def)
  with limits show ?thesis
    by (simp add: sample_control_def sample_os_def try_open_connection_def sample_globals_def new_security_state_def Let_def
      new_worker_def acquire_def emplace_client_def refresh_client_configs_if_needed_def sample_client_def)
qed

lemma sample_round_accepts:
  "\<exists>l. worker_round sample_os sample_accept_round (new_loop sample_config sample_globals) = Some (Inr (round_again l)) \<and>
     map fst (wk_clients (ls_worker l)) = [1]"
proof -
  obtain w g where a: "accept_ready_clients sample_os sample_control [accepted (sockaddr_in []) 5 True True]
      (refresh_client_configs_if_needed sample_control (new_worker sample_config), sample_globals) = (w, g)" "wk_clients w = [(1, sample_client)]"
    using sample_accept by blast
  have idle: "timeout_turn (sample_env 5 []) True (sample_client, g) = run_return (False, sample_client, g)"
    by (simp add: timeout_turn_def expire_if_timed_out_def expire_reading_def sample_client_def client_reset_def prepare_for_pool_def closed_def Let_def)
  have "begin_round sample_accept_round (new_loop sample_config sample_globals) = new_loop sample_config sample_globals"
    by (simp add: begin_round_def sample_accept_round_def sample_round_def sample_control_def new_loop_def)
  then show ?thesis using a(2) idle
    by (simp add: worker_round_def Let_def sample_accept_round_def sample_round_def new_loop_def serve_reports_def accept_reports_def a(1)
      client_reports_def worker_bind_def enforce_client_timeouts_def del: accept_ready_clients.simps)
qed

lemma sample_start: "worker_reach sample_os sample_control {#} (new_loop sample_config sample_globals)"
  by (rule worker_reach.start)
    (simp_all add: security_counts_def sample_globals_def new_security_state_def count_of_def sample_control_def)

lemma sample_fair: "fair_round sample_accept_round {#} (new_loop sample_config sample_globals)"
  by (simp add: fair_round_def sample_accept_round_def sample_round_def new_loop_def new_worker_def client_ips_def
    security_counts_def sample_globals_def new_security_state_def count_of_def)

lemma sample_round_control: "rd_control sample_accept_round = sample_control"
  by (simp add: sample_accept_round_def sample_round_def)

theorem worker_accounts_witness:
  "\<exists>l. worker_reach sample_os sample_control {#} l \<and> map fst (wk_clients (ls_worker l)) = [1] \<and>
     security_counts (g_security (ls_globals l)) (client_ips (ls_worker l) + {#})"
proof -
  obtain l where l: "worker_round sample_os sample_accept_round (new_loop sample_config sample_globals) = Some (Inr (round_again l))"
      "map fst (wk_clients (ls_worker l)) = [1]" using sample_round_accepts by (elim exE conjE) (rule that)
  have "rd_control sample_accept_round = sample_control\<lparr>rc_shutdown_requested := False\<rparr>"
    by (simp add: sample_round_control) (simp add: sample_control_def)
  from worker_reach.round [OF sample_start this sample_fair l(1)]
  have "worker_reach sample_os sample_control {#} l" .
  with worker_accounts [OF this sample_os_ok] l(2) show ?thesis by (intro exI [of _ l] conjI) simp_all
qed

theorem reload_reaches_clients_witness:
  "\<exists>l config. worker_round sample_os sample_accept_round (new_loop sample_config sample_globals) = Some (Inr (round_again l)) \<and>
     map fst (wk_clients (ls_worker l)) = [1] \<and> (\<forall>(fd, c) \<in> set (wk_clients (ls_worker l)). cc_config c = config)"
proof -
  obtain l where l: "worker_round sample_os sample_accept_round (new_loop sample_config sample_globals) = Some (Inr (round_again l))"
      "map fst (wk_clients (ls_worker l)) = [1]" using sample_round_accepts by (elim exE conjE) (rule that)
  obtain reports where "rd_wait sample_accept_round = wait_ready reports" by (simp add: sample_accept_round_def sample_round_def)
  from reload_reaches_clients [OF sample_start sample_os_ok sample_round_control sample_fair this l(1)]
  obtain config where "\<forall>(fd, c) \<in> set (wk_clients (ls_worker l)). cc_config c = config" by (elim exE conjE) (rule that)
  with l show ?thesis by (intro exI [of _ l] exI [of _ config] conjI)
qed

definition sample_busy_loop :: loop_state where
  "sample_busy_loop = (new_loop sample_config sample_globals)\<lparr>ls_worker := (new_worker sample_config)\<lparr>wk_clients := [(1, sample_client)]\<rparr>\<rparr>"


end
