(* ===== verification/Server_Run.thy ===== *)
theory Server_Run
  imports Server_Worker
begin

text \<open>
  The life of the server process: \<open>Server::run\<close> of \<open>src/src/core/server.cpp\<close> with its start-up checks, signals and configuration reload,
  and the command line of \<open>src/src/main.cpp\<close>. The worker threads are those of the theory \<open>Server_Worker\<close>; here only their number
  and the control they read matter.
\<close>

section \<open>Signals\<close>

record signal_flags =
  sf_shutdown :: bool
  sf_reload :: bool
  sf_last_signal :: int

definition SIGHUP :: int where "SIGHUP = 1"
definition SIGINT :: int where "SIGINT = 2"
definition SIGTERM :: int where "SIGTERM = 15"

definition handle_runtime_signal :: "int \<Rightarrow> signal_flags \<Rightarrow> signal_flags" where
  "handle_runtime_signal signal_number f =
     (let f = f\<lparr>sf_last_signal := signal_number\<rparr> in
      if signal_number = SIGTERM \<or> signal_number = SIGINT then f\<lparr>sf_shutdown := True\<rparr>
      else if signal_number = SIGHUP then f\<lparr>sf_reload := True\<rparr> else f)"

section \<open>What a reload may change\<close>

definition resolve_worker_count :: "nat \<Rightarrow> server_config \<Rightarrow> nat" where
  "resolve_worker_count hardware_threads config =
     (if cfg_worker_threads config > 0 then cfg_worker_threads config else if hardware_threads = 0 then 1 else hardware_threads)"

definition add_changed_key :: "string \<Rightarrow> 'v \<Rightarrow> 'v \<Rightarrow> string list \<Rightarrow> string list" where
  "add_changed_key key current nxt keys = (if current \<noteq> nxt then keys @ [key] else keys)"

fun join_keys :: "string list \<Rightarrow> string" where
  "join_keys [] = []"
| "join_keys [key] = key"
| "join_keys (key # keys) = key @ '', '' @ join_keys keys"

definition live_reload_blockers :: "server_config \<Rightarrow> server_config \<Rightarrow> string list" where
  "live_reload_blockers current nxt =
     (add_changed_key ''tls_enabled'' (cfg_tls_enabled current) (cfg_tls_enabled nxt)
     (add_changed_key ''http1_enabled'' (cfg_http1_enabled current) (cfg_http1_enabled nxt)
     (add_changed_key ''connection_pool_size'' (cfg_connection_pool_size current) (cfg_connection_pool_size nxt)
     (add_changed_key ''reuse_port_enabled'' (cfg_reuse_port_enabled current) (cfg_reuse_port_enabled nxt)
     (add_changed_key ''epoll_max_events'' (cfg_epoll_max_events current) (cfg_epoll_max_events nxt)
     (add_changed_key ''worker_threads'' (cfg_worker_threads current) (cfg_worker_threads nxt)
     (add_changed_key ''listen_backlog'' (cfg_listen_backlog current) (cfg_listen_backlog nxt)
     (add_changed_key ''port'' (cfg_port current) (cfg_port nxt)
     (add_changed_key ''host'' (cfg_host current) (cfg_host nxt) [])))))))))"

definition tls_runtime_settings_changed :: "server_config \<Rightarrow> server_config \<Rightarrow> bool" where
  "tls_runtime_settings_changed current nxt \<longleftrightarrow>
     cfg_tls_certificate_file current \<noteq> cfg_tls_certificate_file nxt \<or> cfg_tls_private_key_file current \<noteq> cfg_tls_private_key_file nxt \<or>
     cfg_tls_min_version current \<noteq> cfg_tls_min_version nxt \<or> cfg_tls_max_version current \<noteq> cfg_tls_max_version nxt \<or>
     cfg_tls_cipher_list current \<noteq> cfg_tls_cipher_list nxt \<or> cfg_tls_ciphersuites current \<noteq> cfg_tls_ciphersuites nxt \<or>
     cfg_tls_alpn_protocols current \<noteq> cfg_tls_alpn_protocols nxt \<or> cfg_tls_sni_hosts current \<noteq> cfg_tls_sni_hosts nxt \<or>
     cfg_tls_sni_certificates current \<noteq> cfg_tls_sni_certificates nxt \<or> cfg_tls_sni_required current \<noteq> cfg_tls_sni_required nxt"

section \<open>The main loop\<close>

record server_state =
  ss_config :: server_config
  ss_control :: runtime_control

definition new_control :: runtime_control where
  "new_control = \<lparr>rc_shutdown_requested = False, rc_worker_failed = False, rc_live_config = None, rc_live_tls_context = None,
     rc_config_generation = 0\<rparr>"

text \<open>Everything before the loop: the number of workers to start and the state, or the exception.\<close>

definition start_server :: "openssl \<Rightarrow> nat \<Rightarrow> server_config \<Rightarrow> (nat \<times> server_state) result" where
  "start_server os hardware_threads config =
     (let http2_transport_enabled = (cfg_http2_enabled config \<and>
            (\<not> cfg_tls_enabled config \<or> alpn_protocol_configured (cfg_tls_alpn_protocols config) ''h2''));
          worker_count = resolve_worker_count hardware_threads config
      in if \<not> cfg_http1_enabled config \<and> \<not> http2_transport_enabled then
           Inl (''no client-served protocol is enabled: HTTP/1.1 is disabled, HTTP/2 is not available for the configured transport, '' @
                ''and HTTP/3 is not implemented yet'')
         else if worker_count > 1 \<and> \<not> cfg_reuse_port_enabled config then
           Inl (''reuse_port_enabled=false cannot run multiple per-worker listeners; set worker_threads=1 or enable SO_REUSEPORT'')
         else
           r_bind (if cfg_tls_enabled config then r_bind (new_tls_context os config) (\<lambda>tls. Inr (Some tls)) else Inr None) (\<lambda>tls_context.
             Inr (worker_count, \<lparr>ss_config = config, ss_control = publish_tls_context tls_context (publish_config config new_control)\<rparr>)))"

text \<open>A reload: \<open>loaded\<close> is the result of \<open>load_config_from_database\<close>. Exceptions are caught and logged.\<close>

definition reload_server :: "openssl \<Rightarrow> server_config result \<Rightarrow> server_state \<Rightarrow> server_state" where
  "reload_server os loaded s =
     (case loaded of
        Inl _ \<Rightarrow> s
      | Inr next_config \<Rightarrow>
          if live_reload_blockers (ss_config s) next_config \<noteq> [] then s
          else
            case (if cfg_tls_enabled (ss_config s) \<and> tls_runtime_settings_changed (ss_config s) next_config
                  then r_bind (new_tls_context os next_config) (\<lambda>tls. Inr (publish_tls_context (Some tls) (ss_control s)))
                  else Inr (ss_control s)) of
              Inl _ \<Rightarrow> s
            | Inr control \<Rightarrow> \<lparr>ss_config = next_config, ss_control = publish_config next_config control\<rparr>)"

text \<open>A turn of the loop, with what OpenSSL and the database give at this time; the flag says whether the loop goes on.\<close>

definition server_turn :: "openssl \<Rightarrow> server_config result \<Rightarrow> signal_flags \<Rightarrow> server_state \<Rightarrow> bool \<times> signal_flags \<times> server_state" where
  "server_turn os loaded f s =
     (if rc_shutdown_requested (ss_control s) then (False, f, s)
      else
        let (f, s) = (if sf_reload f then (f\<lparr>sf_reload := False\<rparr>, reload_server os loaded s) else (f, s)) in
        if sf_shutdown f then (False, f, s\<lparr>ss_control := (ss_control s)\<lparr>rc_shutdown_requested := True\<rparr>\<rparr>)
        else (True, f, s))"

text \<open>A worker that fails asks all others to stop.\<close>

definition worker_failure :: "server_state \<Rightarrow> server_state" where
  "worker_failure s = s\<lparr>ss_control := (ss_control s)\<lparr>rc_worker_failed := True, rc_shutdown_requested := True\<rparr>\<rparr>"

definition exit_status :: "server_state \<Rightarrow> int" where
  "exit_status s = (if rc_worker_failed (ss_control s) then 1 else 0)"

section \<open>The command line\<close>

record command_line =
  cl_database_path :: string
  cl_check_config :: bool
  cl_show_protocols :: bool
  cl_config_updates :: "(string \<times> string) list"

datatype command = run_command command_line | show_help | show_version | usage_error string bool

definition new_command_line :: command_line where
  "new_command_line = \<lparr>cl_database_path = ''data/rimau.sqlite3'', cl_check_config = False, cl_show_protocols = False, cl_config_updates = []\<rparr>"

text \<open>A usage error prints its message to the error stream and exits with status 2, some of them after the help.\<close>

fun parse_arguments :: "string list \<Rightarrow> command_line \<Rightarrow> command" where
  "parse_arguments [] cl = run_command cl"
| "parse_arguments (argument # arguments) cl =
     (if argument = ''--help'' then show_help
      else if argument = ''--version'' then show_version
      else if argument = ''--protocols'' then parse_arguments arguments (cl\<lparr>cl_show_protocols := True\<rparr>)
      else if argument = ''--check-config'' then parse_arguments arguments (cl\<lparr>cl_check_config := True\<rparr>)
      else if argument = ''--database'' then
        (case arguments of
           [] \<Rightarrow> usage_error ''--database requires a path'' False
         | path # arguments \<Rightarrow> parse_arguments arguments (cl\<lparr>cl_database_path := path\<rparr>))
      else if argument = ''--config'' then usage_error ''--config has been removed. Use --database with a SQLite database.'' False
      else if argument = ''--set'' then
        (case arguments of
           [] \<Rightarrow> usage_error ''--set requires key=value'' False
         | update # arguments \<Rightarrow>
             (case find_char (CHR ''='') update of
                None \<Rightarrow> usage_error ''--set requires key=value'' False
              | Some e \<Rightarrow>
                  if e = 0 then usage_error ''--set requires key=value'' False
                  else parse_arguments arguments
                         (cl\<lparr>cl_config_updates := cl_config_updates cl @ [(take e update, drop (e + 1) update)]\<rparr>)))
      else usage_error (''unknown argument: '' @ argument) True)"

datatype main_action = print_protocols server_config | print_config string | serve server_config

fun apply_updates :: "inet \<Rightarrow> 'db sqlite \<Rightarrow> string \<Rightarrow> (string \<times> string) list \<Rightarrow> 'db \<Rightarrow> 'db result" where
  "apply_updates inet sq path [] db = Inr db"
| "apply_updates inet sq path ((key, value) # updates) db =
     r_bind (set_config_value inet sq path key value db) (apply_updates inet sq path updates)"

definition run_command_line :: "inet \<Rightarrow> (string \<Rightarrow> bool result) \<Rightarrow> 'db sqlite \<Rightarrow> command_line \<Rightarrow> 'db \<Rightarrow> (main_action \<times> 'db) result" where
  "run_command_line inet is_regular_file sq cl db =
     r_bind (apply_updates inet sq (cl_database_path cl) (cl_config_updates cl) db) (\<lambda>db.
     r_bind (load_config_from_database inet is_regular_file sq (cl_database_path cl) db) (\<lambda>(config, db).
     Inr (if cl_show_protocols cl then print_protocols config
          else if cl_config_updates cl \<noteq> [] \<or> cl_check_config cl then print_config (describe_config config)
          else serve config, db)))"


section \<open>Signals reach the workers\<close>

lemma signals_keep_shutdown: "sf_shutdown f \<Longrightarrow> sf_shutdown (fold handle_runtime_signal signals f)"
  by (induction signals arbitrary: f) (auto simp: handle_runtime_signal_def Let_def)

lemma signals_shutdown:
  "SIGTERM \<in> set signals \<or> SIGINT \<in> set signals \<Longrightarrow> sf_shutdown (fold handle_runtime_signal signals f)"
proof (induction signals arbitrary: f)
  case (Cons n signals)
  show ?case
  proof (cases "n = SIGTERM \<or> n = SIGINT")
    case True
    then have "sf_shutdown (handle_runtime_signal n f)" by (simp add: handle_runtime_signal_def Let_def)
    then show ?thesis by (simp add: signals_keep_shutdown)
  qed (use Cons in auto)
qed simp

section \<open>What a reload keeps\<close>

lemma add_changed_key_Nil: "add_changed_key k a b keys = [] \<longleftrightarrow> a = b \<and> keys = []"
  by (simp add: add_changed_key_def)

lemma live_reload_blockers_Nil:
  "live_reload_blockers c d = [] \<longleftrightarrow>
     cfg_host c = cfg_host d \<and> cfg_port c = cfg_port d \<and> cfg_listen_backlog c = cfg_listen_backlog d \<and>
     cfg_worker_threads c = cfg_worker_threads d \<and> cfg_epoll_max_events c = cfg_epoll_max_events d \<and>
     cfg_reuse_port_enabled c = cfg_reuse_port_enabled d \<and> cfg_connection_pool_size c = cfg_connection_pool_size d \<and>
     cfg_http1_enabled c = cfg_http1_enabled d \<and> cfg_tls_enabled c = cfg_tls_enabled d"
  unfolding live_reload_blockers_def add_changed_key_Nil by (simp only: conj_ac simp_thms)

text \<open>The configurations that \<open>load_config_from_database\<close> returns.\<close>

definition loadable :: "server_config \<Rightarrow> bool" where
  "loadable config \<longleftrightarrow> (\<exists>inet is_regular_file values c path.
     build_config inet is_regular_file values = Inr c \<and> config = c\<lparr>cfg_database_path := path\<rparr>)"

lemma load_config_loadable: "load_config_from_database inet is_regular_file sq path db = Inr (config, db') \<Longrightarrow> loadable config"
  unfolding load_config_from_database_def loadable_def r_bind_Inr_iff by (simp only: sum.inject prod.inject split_beta fst_conv) metis

lemma validated_wire_text:
  assumes "\<And>p. p \<in> set ps \<Longrightarrow> check_alpn_protocol config p = Inr ()" "cfg_tls_enabled config" "[] \<notin> set ps"
  shows "alpn_wire config ps = Inr (concat (map wire_protocol ps))"
  using assms
proof (induction ps)
  case (Cons p ps)
  then have "alpn_wire config ps = Inr (concat (map wire_protocol ps))" by auto
  moreover have "p = ''http/1.1'' \<and> cfg_http1_enabled config \<or> p = ''h2'' \<and> cfg_http2_enabled config"
    using Cons.prems(1) [of p] Cons.prems(2) by (auto simp: check_alpn_protocol_def throw_if_def split: if_splits)
  ultimately show ?case by auto
qed simp

lemma loadable_wire:
  assumes "loadable config" "cfg_tls_enabled config"
  shows "build_alpn_wire_list config =
    (let wire = concat (map wire_protocol (split_csv (cfg_tls_alpn_protocols config))) in
     if wire = [] then Inl ''tls_alpn_protocols does not contain a protocol enabled by Rimau SQLite config'' else Inr wire)"
proof -
  obtain inet isf vs c path where c: "build_config inet isf vs = Inr c" and config: "config = c\<lparr>cfg_database_path := path\<rparr>"
    using assms(1) unfolding loadable_def by (elim exE conjE)
  have "in_order (config_checks inet c) = Inr ()" using c by (auto simp: build_config_def r_bind_Inr_iff in_order_append)
  note ok = this [unfolded config_checks_iff]
  have "validate_alpn_protocols c = Inr ()" using ok by blast
  then have "\<And>p. p \<in> set (split_csv (cfg_tls_alpn_protocols c)) \<Longrightarrow> check_alpn_protocol c p = Inr ()"
    by (auto simp: validate_alpn_protocols_def Let_def in_order_Inr list_all_iff split_csv_def throw_if_Inr)
  moreover have "check_alpn_protocol config p = check_alpn_protocol c p" for p by (simp add: config check_alpn_protocol_def)
  ultimately have "\<And>p. p \<in> set (split_csv (cfg_tls_alpn_protocols config)) \<Longrightarrow> check_alpn_protocol config p = Inr ()"
    by (simp add: config)
  then have "alpn_wire config (split_csv (cfg_tls_alpn_protocols config)) = Inr (concat (map wire_protocol (split_csv (cfg_tls_alpn_protocols config))))"
    by (rule validated_wire_text [OF _ assms(2)]) (auto simp: split_csv_def split_delimited_def)
  then show ?thesis by (simp add: build_alpn_wire_list_def)
qed

text \<open>The ten settings that \<open>tls_runtime_settings_changed\<close> compares are all that the TLS context of a loaded configuration depends on.\<close>

lemma tls_settings_determine_context:
  assumes "loadable c" "loadable d" "cfg_tls_enabled c" "cfg_tls_enabled d" "\<not> tls_runtime_settings_changed c d"
  shows "new_tls_context os c = new_tls_context os d"
proof -
  have "build_alpn_wire_list c = build_alpn_wire_list d"
    using loadable_wire [OF assms(1,3)] loadable_wire [OF assms(2,4)] assms(5) by (simp add: tls_runtime_settings_changed_def)
  with assms(5) show ?thesis by (simp add: tls_runtime_settings_changed_def new_tls_context_def)
qed

section \<open>The life of the process\<close>

text \<open>Any sequence of turns of the main loop, each with what OpenSSL and the database give at its time and with the signals that came in
  between, and failures of workers.\<close>

inductive server_life :: "server_config \<Rightarrow> server_state \<Rightarrow> bool" for config where
  start: "server_life config s" if "start_server os hardware_threads config = Inr (n, s)" "loadable config"
| turn: "server_life config s'"
    if "server_life config s" "\<And>c. loaded = Inr c \<Longrightarrow> loadable c" "server_turn os loaded f s = (go, f', s')"
| worker_fails: "server_life config (worker_failure s)" if "server_life config s"

definition tls_published :: "server_config \<Rightarrow> tls_context option \<Rightarrow> bool" where
  "tls_published config tls \<longleftrightarrow>
     (if cfg_tls_enabled config then \<exists>os ctx. tls = Some ctx \<and> new_tls_context os config = Inr ctx else tls = None)"

definition life_ok :: "server_config \<Rightarrow> server_state \<Rightarrow> bool" where
  "life_ok config s \<longleftrightarrow> loadable (ss_config s) \<and> rc_live_config (ss_control s) = Some (ss_config s) \<and>
     live_reload_blockers config (ss_config s) = [] \<and> tls_published (ss_config s) (rc_live_tls_context (ss_control s))"

lemma life_ok_control:
  assumes "life_ok config s" "rc_live_config control = rc_live_config (ss_control s)" "rc_live_tls_context control = rc_live_tls_context (ss_control s)"
  shows "life_ok config (s\<lparr>ss_control := control\<rparr>)"
  using assms by (simp add: life_ok_def)

lemma start_ok:
  assumes "start_server os hardware_threads config = Inr (n, s)" "loadable config"
  shows "life_ok config s"
  using assms
  by (auto simp: start_server_def Let_def r_bind_Inr_iff life_ok_def publish_config_def publish_tls_context_def live_reload_blockers_Nil
    tls_published_def split: if_splits)

lemma reload_ok:
  assumes "life_ok config s" "\<And>c. loaded = Inr c \<Longrightarrow> loadable c"
  shows "life_ok config (reload_server os loaded s)"
proof (cases loaded)
  case (Inr c)
  have c: "loadable c" using assms(2) Inr .
  show ?thesis
  proof (cases "live_reload_blockers (ss_config s) c = []")
    case False
    with assms(1) Inr show ?thesis by (simp add: reload_server_def)
  next
    case True
    have same: "live_reload_blockers config c = []" "cfg_tls_enabled c = cfg_tls_enabled (ss_config s)"
      using True assms(1) by (auto simp: life_ok_def live_reload_blockers_Nil)
    show ?thesis
    proof (cases "cfg_tls_enabled (ss_config s) \<and> tls_runtime_settings_changed (ss_config s) c")
      case changed: True
      then show ?thesis using assms(1) c same
        by (cases "new_tls_context os c")
          (auto simp: reload_server_def Inr True life_ok_def publish_config_def publish_tls_context_def tls_published_def)
    next
      case False
      have "tls_published c (rc_live_tls_context (ss_control s))"
        using assms(1) c same(2) False tls_settings_determine_context [of "ss_config s" c] by (auto simp: life_ok_def tls_published_def)
      then show ?thesis using c same(1) by (simp add: reload_server_def Inr True if_not_P [OF False] life_ok_def publish_config_def)
    qed
  qed
qed (use assms(1) in \<open>simp add: reload_server_def\<close>)

lemma turn_ok:
  assumes "life_ok config s" "\<And>c. loaded = Inr c \<Longrightarrow> loadable c" "server_turn os loaded f s = (go, f', s')"
  shows "life_ok config s'"
proof -
  have "life_ok config (reload_server os loaded s)" using reload_ok assms(1,2) .
  with assms(1,3) show ?thesis
    by (auto simp: server_turn_def Let_def split: if_splits intro!: life_ok_control)
qed

lemma server_life_ok: "server_life config s \<Longrightarrow> life_ok config s"
proof (induction rule: server_life.induct)
  case (start os hardware_threads n s)
  then show ?case by (rule start_ok)
next
  case (turn s loaded os f go f' s')
  then show ?case using turn_ok by blast
next
  case (worker_fails s)
  show ?case unfolding worker_failure_def by (rule life_ok_control [OF worker_fails.IH]) simp_all
qed


text \<open>A reload that does not change one of these settings serves on with the certificates read before, whatever the files hold now.\<close>

lemma reload_keeps_certificates:
  assumes "live_reload_blockers (ss_config s) c = []" "\<not> tls_runtime_settings_changed (ss_config s) c"
  shows "ss_config (reload_server os (Inr c) s) = c"
    "rc_live_tls_context (ss_control (reload_server os (Inr c) s)) = rc_live_tls_context (ss_control s)"
  using assms by (simp_all add: reload_server_def publish_config_def)

text \<open>A signal to terminate ends the main loop at its next turn, even among other signals and while a reload is pending, and asks the
  workers to stop; the process then reports success unless a worker has failed.\<close>

lemma termination_signal_stops:
  assumes "SIGTERM \<in> set signals \<or> SIGINT \<in> set signals"
  shows "\<exists>f' s'. server_turn os loaded (fold handle_runtime_signal signals f) s = (False, f', s') \<and>
    rc_shutdown_requested (ss_control s') \<and> (exit_status s' = 0 \<longleftrightarrow> \<not> rc_worker_failed (ss_control s))"
proof -
  have "rc_worker_failed (ss_control (reload_server os loaded s)) = rc_worker_failed (ss_control s)"
    by (auto simp: reload_server_def publish_config_def publish_tls_context_def r_bind_Inr_iff split: sum.splits if_splits)
  then show ?thesis using signals_shutdown [OF assms, of f] by (auto simp: server_turn_def exit_status_def Let_def)
qed

section \<open>Arguments\<close>

definition set_arguments :: "(string \<times> string) list \<Rightarrow> string list" where
  "set_arguments updates = concat (map (\<lambda>(key, value). [''--set'', key @ CHR ''='' # value]) updates)"

lemma parse_set_arguments:
  "list_all (\<lambda>(key, value). key \<noteq> [] \<and> CHR ''='' \<notin> set key) updates \<Longrightarrow>
   parse_arguments (set_arguments updates @ arguments) cl =
     parse_arguments arguments (cl\<lparr>cl_config_updates := cl_config_updates cl @ updates\<rparr>)"
  by (induction updates arbitrary: cl) (auto simp: set_arguments_def find_char_append)

text \<open>Only a command line without \<open>--set\<close>, \<open>--check-config\<close> and \<open>--protocols\<close> starts the server, and it does so with the stored configuration.\<close>

lemma serve_iff:
  assumes "run_command_line inet is_regular_file sq cl db = Inr (serve config, db')"
  shows "cl_config_updates cl = [] \<and> \<not> cl_check_config cl \<and> \<not> cl_show_protocols cl \<and>
    load_config_from_database inet is_regular_file sq (cl_database_path cl) db = Inr (config, db')"
  using assms by (auto simp: run_command_line_def r_bind_Inr_iff split: if_splits)

section \<open>Concrete instances\<close>

definition renewed_openssl :: openssl where
  "renewed_openssl = sample_openssl\<lparr>os_certificate := (\<lambda>f. Some (''renewed '' @ f))\<rparr>"

lemma secure_loadable: "loadable sample_secure_config"
  unfolding loadable_def
  by (intro exI conjI, rule sample_secure_builds [of "\<lambda>f t. False"]) (simp add: sample_secure_config_def default_server_config_def)

lemma secure_starts:
  "\<exists>tls. new_tls_context sample_openssl sample_secure_config = Inr tls \<and>
     start_server sample_openssl 1 sample_secure_config = Inr (1, \<lparr>ss_config = sample_secure_config,
       ss_control = publish_tls_context (Some tls) (publish_config sample_secure_config new_control)\<rparr>)"
proof -
  have protocols: "split_csv (cfg_tls_alpn_protocols sample_secure_config) = [''http/1.1'']"
    by (simp add: sample_secure_config_def default_server_config_def) code_simp
  have "\<exists>wire. build_alpn_wire_list sample_secure_config = Inr wire"
    unfolding build_alpn_wire_list_def protocols by (simp add: sample_secure_config_def default_server_config_def wire_protocol_def)
  moreover have "parse_sni_certificate_specs (cfg_tls_sni_certificates sample_secure_config) = Inr []"
    by (simp add: sample_secure_config_def default_server_config_def parse_sni_certificate_specs_def split_delimited_def)
  moreover have "tls_version_number (cfg_tls_min_version sample_secure_config) = Inr TLS1_2_VERSION"
      "tls_version_number (cfg_tls_max_version sample_secure_config) = Inr TLS1_3_VERSION"
    by (simp_all add: sample_secure_config_def default_server_config_def tls_version_number_def)
  ultimately obtain tls where tls: "new_tls_context sample_openssl sample_secure_config = Inr tls"
    by (auto simp: new_tls_context_def Let_def make_ssl_context_def sample_openssl_def require_ok_def)
  then have "start_server sample_openssl 1 sample_secure_config = Inr (1, \<lparr>ss_config = sample_secure_config,
      ss_control = publish_tls_context (Some tls) (publish_config sample_secure_config new_control)\<rparr>)"
    by (simp add: start_server_def Let_def)
      (simp add: sample_secure_config_def default_server_config_def resolve_worker_count_def)
  with tls show ?thesis by blast
qed


end
