(* ===== verification/Spec2Isabelle.thy ===== *)
theory Spec2Isabelle
  imports Http2_Frame Http3_Frame Http2_Hpack Http1_Session Http2_Messages Http_Transaction Access_Control Body_Stream Websocket Server_Run
begin

text \<open>
  Verification of the Rimau web server, a C++ program under \<open>src/\<close>: an HTTP/1.1 and HTTP/2 server with static files, virtual hosts,
  a reverse proxy, WebSocket, TLS, a request firewall and a configuration kept in SQLite.

  \<^bold>\<open>The program and its parts.\<close> \<open>main.cpp\<close> reads the arguments, loads the configuration (\<open>core/config.cpp\<close>) and runs the server
  (\<open>core/server.cpp\<close>). The server starts worker threads; each worker has a listening socket, an epoll loop and the client connections
  it accepted, and shares with the others the published configuration and TLS context and the counters of \<open>SecurityState\<close>.
  A client connection is a state machine driven by events and time-outs: TLS handshake, reading, recognising the protocol,
  framing (\<open>http/http1_session.cpp\<close>, \<open>protocol/http2_session.cpp\<close> over \<open>http2_frame.cpp\<close> and \<open>http2_hpack.cpp\<close>),
  inspection (\<open>http/waf.cpp\<close>), dispatch (\<open>http/transaction.cpp\<close>) to a handler chosen by the virtual host rules
  (\<open>http/virtual_host.cpp\<close>): static files (\<open>http/response.cpp\<close>), a reverse proxy, a WebSocket echo or tunnel.

  \<^bold>\<open>How the model is made.\<close> Every definition translates a function, a handler or a structure of the source and keeps its name
  where HOL allows it. Structures are records, enumerations are datatypes, strings are lists of characters; integers keep their
  width as words where the code lets them wrap (frame fields, windows, chunk sizes, hash and counter arithmetic) and are
  numbers where the code bounds them first. Exceptions are the left part of a sum with their message, together with the state they leave
  behind where the code has changed it. A loop that need not end is a partial function with the value \<open>None\<close> for not returning;
  all other recursions are total, most of them on the list of answers the operating system gives, so that no fuel is needed. The
  exception is the Huffman and HPACK decoders and the frame loops, whose recursion consumes input and has a measure.
  Operations of a connection return the connection and the state all connections share (\<open>run\<close> of \<open>Client_Connection\<close>).

  \<^bold>\<open>The theories.\<close>
  \<^item> \<open>Rimau_Prelude\<close>: types and results, C character classes, \<open>std::string\<close>, streams and maps, with the lemmas all components share;
    \<open>Rimau_Numbers\<close>: \<open>std::stoi\<close> and its relatives; \<open>Rimau_Path\<close>: \<open>std::filesystem::path\<close>.
  \<^item> \<open>Rimau_Codec\<close>: the locale \<open>frame_codec\<close>, the contract between a frame serialiser, its parser and the loop that reads frames:
    sequences are read back, however the network cuts them. It is interpreted by the HTTP/2 frames (\<open>Http2_Frame\<close>), the
    HTTP/3 frames (\<open>Http3_Frame\<close>) and the frames of the WebSocket server (\<open>Websocket\<close>).
  \<^item> \<open>Hpack_Huffman\<close>, \<open>Http2_Hpack\<close>: the Huffman tree and decoder, shown to accept exactly the canonical encodings; integers,
    strings, the dynamic table as a bounded queue, the block decoder and encoder.
  \<^item> \<open>Http2_Session\<close>: every handler of \<open>ServerSession\<close>. \<open>Http2_Invariant\<close>: an invariant of all reachable sessions, that no input makes
    a handler throw or loop, that a stream is answered once. \<open>Http2_Messages\<close>: requests built from streams, responses written as frames.
  \<^item> \<open>Http_Request\<close>, \<open>Http_Response\<close>: the HTTP/1 parser, responses, static files and ranges: heads that cannot be split, files that
    stay below the document root. \<open>Http1_Session\<close>: request framing and the chunked coding, against a reference decoder in
    unbounded arithmetic; the wrap-around of the 64-bit cursor and the loop it causes.
  \<^item> \<open>Waf\<close>: normalisation, rules, scores and verdict. \<open>Virtual_Host\<close>: rules, overrides, host matching and selection.
    \<open>Reverse_Proxy\<close>, \<open>Proxy_Resilience\<close>: requests to and responses from upstreams, balancing, attempts, and circuit breakers, which
    refine one automaton per upstream.
  \<^item> \<open>Rimau_Config\<close>, \<open>Config_Valid\<close>: reading, checking, building and storing the configuration; every built configuration is valid, the
    database operations implement a key-value store.
  \<^item> \<open>Http_Transaction\<close>: handlers, transactions and sinks. The locale \<open>response_sink\<close> is the contract of the abstract class, its interpretation
    the buffering sink of the server: a request is answered once, whatever the handler does.
  \<^item> \<open>Access_Control\<close>: address lists, connection limits and rate limits; the locale \<open>admission\<close> is the contract of a counter of open
    connections, interpreted by \<open>SecurityState\<close>. \<open>Body_Stream\<close>: bodies that arrive in pieces, in memory or in a spool file,
    against an automaton that reads one character at a time. \<open>Websocket\<close>: handshake, frames and the echo loop.
  \<^item> \<open>Client_State\<close>, \<open>Client_Proxy\<close>, \<open>Ws_Tunnel\<close>, \<open>Client_Connection\<close>: the members of a connection, the asynchronous proxy, the WebSocket tunnel
    and every event handler and time-out. The two directions of the tunnel are interpretations of the locale \<open>tunnel_direction\<close>: bytes are
    handed on unchanged and in order. \<open>Connection_Service\<close>: a request that arrives in any pieces is dispatched once and answered
    with what its handler says; which connections never time out. \<open>Connection_Frame\<close>: what no handler changes, stated with a
    predicate on all outcomes of a call that composes along its steps.
  \<^item> \<open>Tls_Context\<close>: ALPN list, SNI map, contexts and handshake callbacks: only enabled protocols are negotiated, the server name decides the
    certificate, a checked configuration fails only inside OpenSSL.
  \<^item> \<open>Server_Worker\<close>: pool, accept loop, event dispatch, time-outs, reload and shutdown of a worker, with what other threads do between its rounds:
    the shared counters are exactly the open connections, a reload reaches every connection, a shutdown ends the loop in time.
  \<^item> \<open>Server_Run\<close>: signals, start-up checks, the main loop with its reload, the command line: over any sequence of reloads the published
    configuration and TLS context belong together and restart-only settings do not change.

  \<^bold>\<open>Parameters.\<close> What the sources call and do not contain is an argument: OpenSSL (contexts, handshake and record results, SHA-1), SQLite
  (one function per statement), the file system, zlib, \<open>inet_pton\<close> and \<open>inet_ntop\<close>, sockets, \<open>mkstemp\<close>, \<open>write\<close>, the
  clocks and the iteration order of hash tables. Hypotheses on them state documented behaviour only, such as what SQLite returns
  after an update or what \<open>SSL_select_next_proto\<close> selects, and each has a concrete instance. A handler or a round of the loop gets the
  answers of the calls it will make as lists; the theorems hold for all such lists.

  \<^bold>\<open>Not modelled.\<close> Opening and configuring the listening socket, registration of descriptors with epoll except where its failure changes a
  connection, and the start and join of threads: calls of the system without a decision of the program. The text of log lines
  and \<open>core/logger.cpp\<close>, the help text and the capability texts of \<open>protocol/protocol.cpp\<close> and the two gateways. Lines 1384 to 1619 and 3113 to
  3426 of \<open>core/server.cpp\<close>, an earlier HTTP/2 session that nothing calls. Threads are interleaved at the rounds of a worker and at the
  operations of \<open>SecurityState\<close>, which run under its mutex; the weak memory order of the atomics is not part of the model.
\<close>

end
